(* ===== verification/Tfs_Prelude.thy ===== *)
theory Tfs_Prelude imports Main "HOL-Library.Word" begin

text \<open>
  Prelude of the development: the widths of the C++ integer types, the generic notions that the
  components share (reachable states of a step relation, invariants, little-endian byte images of
  machine words) and the lemmas about lists and words the component theories rest on.
\<close>

unbundle bit_operations_syntax

section \<open>Machine integers\<close>

type_synonym u8 = "8 word"
type_synonym u16 = "16 word"
type_synonym u32 = "32 word"
type_synonym u64 = "64 word"
type_synonym byte = "8 word"

named_theorems wrap_simps \<open>reading wrapped machine arithmetic as integers\<close>

definition in_i32 :: "int \<Rightarrow> bool" where
  "in_i32 n \<longleftrightarrow> - (2 ^ 31) \<le> n \<and> n < 2 ^ 31"

text \<open>A signed C++ value is carried by the word of its width and read with \<^const>\<open>sint\<close>.\<close>

lemma sint_of_int_i32 [wrap_simps]: "in_i32 n \<Longrightarrow> sint (word_of_int n :: u32) = n"
  by (simp add: in_i32_def signed_of_int signed_take_bit_int_eq_self)

lemma unat_less_u32 [simp]: "unat (w :: u32) < 4294967296"
  using unsigned_less [where ?'a=nat and w=w] by simp

lemma unat_less_u16 [simp]: "unat (w :: u16) < 65536"
  using unsigned_less [where ?'a=nat and w=w] by simp

lemma uint_less_u16 [simp]: "uint (w :: u16) < 65536"
  using uint_lt2p [of w] by simp

lemma unat_less_u8 [simp]: "unat (w :: u8) < 256"
  using unsigned_less [where ?'a=nat and w=w] by simp

lemma uint_less_u8 [simp]: "uint (w :: u8) < 256"
  using uint_lt2p [of w] by simp

lemma unat_plus_nowrap:
  "unat (a :: 'a::len word) + unat b < 2 ^ LENGTH('a) \<Longrightarrow> unat (a + b) = unat a + unat b"
  by (simp add: unat_word_ariths)

lemma sint_small: "uint (w :: 'a::len word) < 2 ^ (LENGTH('a) - 1) \<Longrightarrow> sint w = uint w"
  by (cases "LENGTH('a)")
    (auto simp: sint_uint signed_take_bit_int_eq_self_iff intro!: signed_take_bit_int_eq_self order_trans [OF _ uint_ge_0])

section \<open>Reachable states and invariants\<close>

inductive reach :: "('s \<Rightarrow> bool) \<Rightarrow> ('s \<Rightarrow> 's \<Rightarrow> bool) \<Rightarrow> 's \<Rightarrow> bool"
  for init :: "'s \<Rightarrow> bool" and step :: "'s \<Rightarrow> 's \<Rightarrow> bool" where
  reach_init: "init s \<Longrightarrow> reach init step s"
| reach_step: "reach init step s \<Longrightarrow> step s t \<Longrightarrow> reach init step t"

text \<open>
  The contract of a component that keeps an invariant: it holds initially and each step keeps it.
  Every state machine of the development interprets it on its own step relation.
\<close>

locale invariant_system =
  fixes init :: "'s \<Rightarrow> bool"
    and step :: "'s \<Rightarrow> 's \<Rightarrow> bool"
    and inv :: "'s \<Rightarrow> bool"
  assumes inv_init: "init s \<Longrightarrow> inv s"
    and inv_step: "inv s \<Longrightarrow> step s t \<Longrightarrow> inv t"
begin

lemma reach_inv: "reach init step s \<Longrightarrow> inv s"
  by (induction rule: reach.induct) (auto intro: inv_init inv_step)

lemma steps_inv: "step\<^sup>*\<^sup>* s t \<Longrightarrow> inv s \<Longrightarrow> inv t"
  by (induction rule: rtranclp_induct) (auto intro: inv_step)

end

section \<open>Little-endian byte images\<close>

text \<open>
  \<open>memcpy\<close> of an integer to or from a byte buffer on the little-endian hosts the server runs on.
  The number of bytes is \<open>sizeof(T)\<close>.
\<close>

definition le_enc :: "nat \<Rightarrow> 'a::len word \<Rightarrow> byte list" where
  "le_enc n w = map (\<lambda>i. ucast (drop_bit (8 * i) w)) [0..<n]"

fun le_dec :: "byte list \<Rightarrow> 'a::len word" where
  "le_dec [] = 0"
| "le_dec (b # bs) = ucast b OR push_bit 8 (le_dec bs)"

lemma length_le_enc [simp]: "length (le_enc n w) = n"
  by (simp add: le_enc_def)

lemma bit_le_dec:
  "bit (le_dec bs :: 'a::len word) i \<longleftrightarrow>
     i < LENGTH('a) \<and> i div 8 < length bs \<and> bit (bs ! (i div 8)) (i mod 8)"
proof (induction bs arbitrary: i)
  case Nil
  then show ?case by simp
next
  case (Cons b bs)
  show ?case
  proof (cases "i < 8")
    case True
    then show ?thesis by (auto simp: bit_simps)
  next
    case False
    then obtain j where i: "i = j + 8" by (metis add.commute le_Suc_ex not_less)
    have "\<not> bit b (j + 8)" using bit_imp_le_length [of b "j + 8"] by auto
    moreover have "(j + 8) div 8 = Suc (j div 8)" by simp
    ultimately show ?thesis using Cons.IH [of j]
      by (auto simp: i bit_simps)
  qed
qed

lemma le_dec_enc [simp]: "LENGTH('a) = 8 * n \<Longrightarrow> le_dec (le_enc n w) = (w :: 'a::len word)"
  by (rule bit_word_eqI) (auto simp: bit_le_dec le_enc_def bit_simps)

lemma le_enc_dec:
  assumes "LENGTH('a) = 8 * length bs"
  shows "le_enc (length bs) (le_dec bs :: 'a::len word) = bs"
proof (rule nth_equalityI)
  fix i assume "i < length (le_enc (length bs) (le_dec bs :: 'a word))"
  then have i: "i < length bs" by simp
  show "le_enc (length bs) (le_dec bs :: 'a word) ! i = bs ! i"
  proof (rule bit_word_eqI)
    fix k assume "k < LENGTH(8)"
    then have k: "k < 8" by simp
    with i assms have b: "8 * i + k < LENGTH('a)" by linarith
    have d: "(8 * i + k) div 8 = i" "(8 * i + k) mod 8 = k" using k by auto
    show "bit (le_enc (length bs) (le_dec bs :: 'a word) ! i) k = bit (bs ! i) k"
      using i k b d by (simp add: le_enc_def bit_simps bit_le_dec ac_simps)
  qed
qed simp

section \<open>Lists and chunks\<close>

text \<open>Cutting a buffer into blocks of \<open>n\<close> bytes; the last one may be shorter.\<close>

function chunks :: "nat \<Rightarrow> 'a list \<Rightarrow> 'a list list" where
  "chunks n xs = (if n = 0 \<or> xs = [] then [] else take n xs # chunks n (drop n xs))"
  by pat_completeness auto
termination by (relation "measure (\<lambda>(n, xs). length xs)") auto

declare chunks.simps [simp del]

lemma chunks_Nil [simp]: "chunks n [] = []"
  by (simp add: chunks.simps)

lemma chunks_append:
  "length xs = n \<Longrightarrow> 0 < n \<Longrightarrow> chunks n (xs @ ys) = xs # chunks n ys"
  by (subst chunks.simps) auto

lemma concat_chunks: "0 < n \<Longrightarrow> concat (chunks n xs) = xs"
proof (induction n xs rule: chunks.induct)
  case (1 n xs)
  then show ?case by (subst chunks.simps) auto
qed

lemma chunks_append_multiple:
  "0 < n \<Longrightarrow> length xs mod n = 0 \<Longrightarrow> chunks n (xs @ ys) = chunks n xs @ chunks n ys"
proof (induction n xs rule: chunks.induct)
  case (1 n xs)
  show ?case
  proof (cases "xs = []")
    case True
    then show ?thesis by simp
  next
    case False
    with "1.prems" have le: "n \<le> length xs"
      by (metis length_0_conv mod_less not_less)
    have "length (drop n xs) mod n = 0"
      using "1.prems" le by (simp add: le_mod_geq)
    then have "chunks n (drop n xs @ ys) = chunks n (drop n xs) @ chunks n ys"
      using "1.IH" "1.prems" False by simp
    then show ?thesis using False "1.prems" le
      by (simp add: chunks.simps [of n xs] chunks.simps [of n "xs @ ys"])
  qed
qed

text \<open>
  \<open>std::find\<close> followed by \<open>erase(it)\<close> on a vector: the first occurrence goes, the order of the
  rest stays. This is \<^const>\<open>remove1\<close>.
\<close>

lemma in_set_remove1D [dest]: "x \<in> set (remove1 y xs) \<Longrightarrow> x \<in> set xs"
  using set_remove1_subset by (rule subsetD)

lemma distinct_remove1_notin [simp]: "distinct xs \<Longrightarrow> x \<notin> set (remove1 x xs)"
  by simp

end
