(* ===== verification/Text_Tools.thy ===== *)
theory Text_Tools imports Tfs_Prelude begin

text \<open>
  The string helpers of \<open>src/src/tools.cpp\<close>. A \<open>std::string\<close> is a list of characters (bytes);
  \<open>std::string::find\<close> returns \<open>npos\<close> where the model returns \<^const>\<open>None\<close>. The case conversions
  are those of the \<open>C\<close> locale.
\<close>

section \<open>Case conversion\<close>

definition tolower :: "char \<Rightarrow> char" where
  "tolower c = (let n = of_char c :: nat in if 65 \<le> n \<and> n \<le> 90 then char_of (n + 32) else c)"

definition toupper :: "char \<Rightarrow> char" where
  "toupper c = (let n = of_char c :: nat in if 97 \<le> n \<and> n \<le> 122 then char_of (n - 32) else c)"

definition asLowerCaseString :: "string \<Rightarrow> string" where
  "asLowerCaseString source = map tolower source"

definition asUpperCaseString :: "string \<Rightarrow> string" where
  "asUpperCaseString source = map toupper source"

text \<open>\<open>capitalizeWords\<close> counts its index and the length in a \<open>uint8_t\<close>.\<close>

definition capitalizeWords :: "string \<Rightarrow> string" where
  "capitalizeWords source0 =
     (let source = asLowerCaseString source0;
          size = length source mod 256
      in map (\<lambda>i. if i < size \<and> (i = 0 \<or> source ! (i - 1) = CHR '' '' \<or> source ! (i - 1) = CHR 0x27)
                  then toupper (source ! i) else source ! i) [0..<length source])"

lemma tolower_idem [simp]: "tolower (tolower c) = tolower c"
  by (auto simp: tolower_def Let_def)

lemma tolower_not_upper: "\<not> (65 \<le> (of_char (tolower c) :: nat) \<and> (of_char (tolower c) :: nat) \<le> 90)"
  by (auto simp: tolower_def Let_def)

lemma asLowerCaseString_idem [simp]: "asLowerCaseString (asLowerCaseString s) = asLowerCaseString s"
  by (simp add: asLowerCaseString_def)

lemma length_asLowerCaseString [simp]: "length (asLowerCaseString s) = length s"
  by (simp add: asLowerCaseString_def)

section \<open>Searching and replacing\<close>

text \<open>\<open>str.find(sought, start)\<close>: the first position from \<open>start\<close> on at which \<open>sought\<close> occurs.\<close>

definition occurs_at :: "string \<Rightarrow> string \<Rightarrow> nat \<Rightarrow> bool" where
  "occurs_at sought str i \<longleftrightarrow> take (length sought) (drop i str) = sought"

fun find_from :: "string \<Rightarrow> string \<Rightarrow> nat option" where
  "find_from sought [] = (if sought = [] then Some 0 else None)"
| "find_from sought (c # cs) =
     (if take (length sought) (c # cs) = sought then Some 0
      else map_option Suc (find_from sought cs))"

definition string_find :: "string \<Rightarrow> string \<Rightarrow> nat \<Rightarrow> nat option" where
  "string_find str sought start =
     (if length str < start then None
      else map_option (\<lambda>i. i + start) (find_from sought (drop start str)))"

lemma find_from_Some: "find_from sought s = Some i \<Longrightarrow>
  occurs_at sought s i \<and> (\<forall>j<i. \<not> occurs_at sought s j)"
proof (induction s arbitrary: i)
  case Nil
  then show ?case by (auto simp: occurs_at_def split: if_splits)
next
  case (Cons c s)
  show ?case
  proof (cases "take (length sought) (c # s) = sought")
    case True
    with Cons.prems show ?thesis by (simp add: occurs_at_def)
  next
    case False
    with Cons.prems obtain k where k: "find_from sought s = Some k" "i = Suc k" by auto
    have "\<not> occurs_at sought (c # s) j" if "j < i" for j
      using that False Cons.IH [OF k(1)] k(2) by (cases j) (auto simp: occurs_at_def)
    with k Cons.IH [OF k(1)] show ?thesis by (auto simp: occurs_at_def)
  qed
qed

lemma find_from_None: "find_from sought s = None \<Longrightarrow> i \<le> length s \<Longrightarrow> \<not> occurs_at sought s i"
proof (induction s arbitrary: i)
  case Nil
  then show ?case by (auto simp: occurs_at_def split: if_splits)
next
  case (Cons c s)
  then show ?case by (cases i) (auto simp: occurs_at_def split: if_splits)
qed

lemma find_from_bound: "find_from sought s = Some i \<Longrightarrow> i + length sought \<le> length s"
proof (induction s arbitrary: i)
  case Nil
  then show ?case by (auto split: if_splits)
next
  case (Cons c s)
  then show ?case
    by (auto split: if_splits) (metis length_Cons length_take min.cobounded1)
qed

text \<open>
  \<open>replaceString\<close>. The loop restarts the search behind the inserted text, so what is left of the
  string shrinks by at least the sought text; with an empty \<open>sought\<close> the C++ loop does not end and
  the model leaves the function undefined (\<^const>\<open>None\<close>).
\<close>

function replaceString_loop :: "string \<Rightarrow> string \<Rightarrow> string \<Rightarrow> string" where
  "replaceString_loop sought replacement rest =
     (if sought = [] then rest
      else case find_from sought rest of
             None \<Rightarrow> rest
           | Some pos \<Rightarrow> take pos rest @ replacement @
               replaceString_loop sought replacement (drop (pos + length sought) rest))"
  by pat_completeness auto
termination
proof (relation "measure (\<lambda>(s, r, rest). length rest)", goal_cases)
  case (2 sought replacement rest pos)
  then have "pos + length sought \<le> length rest" by (intro find_from_bound) simp
  with 2 show ?case by (cases sought) auto
qed simp

declare replaceString_loop.simps [simp del]

definition replaceString :: "string \<Rightarrow> string \<Rightarrow> string \<Rightarrow> string option" where
  "replaceString str sought replacement =
     (if sought = [] then None else Some (replaceString_loop sought replacement str))"

text \<open>Replacing a single character is a substitution at each position.\<close>

lemma find_from_char: "find_from [c] s =
  (if c \<in> set s then Some (length (takeWhile (\<lambda>x. x \<noteq> c) s)) else None)"
  by (induction s) (auto simp: Suc_leI)

lemma takeWhile_decomp:
  assumes "c \<in> set s"
  shows "s = takeWhile (\<lambda>x. x \<noteq> c) s @ c # drop (Suc (length (takeWhile (\<lambda>x. x \<noteq> c) s))) s"
  using assms by (induction s) auto

lemma replaceString_char:
  "replaceString s [c] r = Some (concat (map (\<lambda>x. if x = c then r else [x]) s))"
proof -
  have "replaceString_loop [c] r s = concat (map (\<lambda>x. if x = c then r else [x]) s)"
  proof (induction s rule: length_induct)
    case (1 s)
    show ?case
    proof (cases "c \<in> set s")
      case False
      then have "concat (map (\<lambda>x. if x = c then r else [x]) s) = s" by (induction s) auto
      with False show ?thesis
        by (subst replaceString_loop.simps) (simp add: find_from_char)
    next
      case True
      define p where "p = takeWhile (\<lambda>x. x \<noteq> c) s"
      define t where "t = drop (Suc (length p)) s"
      have s: "s = p @ c # t" using takeWhile_decomp [OF True] by (simp add: p_def t_def)
      have len: "length t < length s" by (simp add: s)
      have np: "concat (map (\<lambda>x. if x = c then r else [x]) p) = p"
      proof -
        have "c \<notin> set p" by (auto simp: p_def dest: set_takeWhileD)
        then show ?thesis by (induction p) auto
      qed
      have f: "find_from [c] s = Some (length p)" using True by (simp add: find_from_char p_def)
      have "replaceString_loop [c] r s =
          take (length p) s @ r @ replaceString_loop [c] r (drop (length p + 1) s)"
        by (subst replaceString_loop.simps) (simp add: f)
      also have "\<dots> = p @ r @ replaceString_loop [c] r t" by (simp add: s)
      also have "\<dots> = concat (map (\<lambda>x. if x = c then r else [x]) s)"
        using 1 len np by (simp add: s)
      finally show ?thesis .
    qed
  qed
  then show ?thesis by (simp add: replaceString_def)
qed

section \<open>Trimming\<close>

text \<open>
  \<open>source.erase(source.find_last_not_of(t) + 1)\<close>: with \<open>npos + 1 = 0\<close> a string of \<open>t\<close>s only is
  emptied. \<open>source.erase(0, source.find_first_not_of(t))\<close>: with the count \<open>npos\<close> everything goes.
\<close>

definition trim_right :: "char \<Rightarrow> string \<Rightarrow> string" where
  "trim_right t source = rev (dropWhile (\<lambda>c. c = t) (rev source))"

definition trim_left :: "char \<Rightarrow> string \<Rightarrow> string" where
  "trim_left t source = dropWhile (\<lambda>c. c = t) source"

definition trimString :: "string \<Rightarrow> string" where
  "trimString str = trim_left (CHR '' '') (trim_right (CHR '' '') str)"

lemma hd_dropWhile_neq: "dropWhile P xs \<noteq> [] \<Longrightarrow> \<not> P (hd (dropWhile P xs))"
  by (induction xs) auto

lemma trim_right_last: "trim_right t s \<noteq> [] \<Longrightarrow> last (trim_right t s) \<noteq> t"
  using hd_dropWhile_neq [of "\<lambda>c. c = t" "rev s"]
  by (simp add: trim_right_def last_rev)

lemma trim_left_hd: "trim_left t s \<noteq> [] \<Longrightarrow> hd (trim_left t s) \<noteq> t"
  using hd_dropWhile_neq [of "\<lambda>c. c = t" s]
  by (simp add: trim_left_def)

lemma trimString_infix: "\<exists>p q. s = p @ trimString s @ q"
proof -
  obtain q where q: "s = trim_right (CHR '' '') s @ q"
    by (metis append_eq_conv_conj rev_append rev_rev_ident takeWhile_dropWhile_id trim_right_def)
  obtain p where "trim_right (CHR '' '') s = p @ trimString s"
    by (metis takeWhile_dropWhile_id trimString_def trim_left_def)
  with q show ?thesis by (metis append_assoc)
qed

section \<open>Splitting\<close>

text \<open>
  \<open>explodeString(inString, separator, limit)\<close>. The loop test \<open>--limit != -1\<close> with the default
  \<open>limit = -1\<close> is passed at every round in which the counter has not come back to \<open>-1\<close>; a
  non-negative limit bounds the number of cuts. The model takes \<^const>\<open>None\<close> for the unlimited call.
  With an empty separator the unlimited C++ loop does not end.
\<close>

function explodeString_loop :: "string \<Rightarrow> nat option \<Rightarrow> string \<Rightarrow> string list" where
  "explodeString_loop separator limit rest =
     (if separator = [] \<or> limit = Some 0 then [rest]
      else case find_from separator rest of
             None \<Rightarrow> [rest]
           | Some e \<Rightarrow> take e rest #
               explodeString_loop separator (map_option (\<lambda>n. n - 1) limit)
                 (drop (e + length separator) rest))"
  by pat_completeness auto
termination
proof (relation "measure (\<lambda>(s, l, rest). length rest)", goal_cases)
  case (2 separator limit rest e)
  then have "e + length separator \<le> length rest" by (intro find_from_bound) simp
  with 2 show ?case by (cases separator) auto
qed simp

declare explodeString_loop.simps [simp del]

definition explodeString :: "string \<Rightarrow> string \<Rightarrow> nat option \<Rightarrow> string list option" where
  "explodeString inString separator limit =
     (if separator = [] then None else Some (explodeString_loop separator limit inString))"

fun joined :: "string \<Rightarrow> string list \<Rightarrow> string" where
  "joined sep [] = []"
| "joined sep [x] = x"
| "joined sep (x # xs) = x @ sep @ joined sep xs"

lemma explodeString_loop_nonempty: "explodeString_loop sep l s \<noteq> []"
  by (subst explodeString_loop.simps) (auto split: option.splits)

lemma joined_Cons: "xs \<noteq> [] \<Longrightarrow> joined sep (x # xs) = x @ sep @ joined sep xs"
  by (cases xs) auto

lemma joined_explode: "joined sep (explodeString_loop sep limit s) = s"
proof (induction sep limit s rule: explodeString_loop.induct)
  case (1 sep limit s)
  show ?case
  proof (cases "sep = [] \<or> limit = Some 0")
    case True
    then show ?thesis by (subst explodeString_loop.simps) auto
  next
    case False
    show ?thesis
    proof (cases "find_from sep s")
      case None
      with False show ?thesis by (subst explodeString_loop.simps) auto
    next
      case (Some e)
      have occ: "take (length sep) (drop e s) = sep"
        using find_from_Some [OF Some] by (simp add: occurs_at_def)
      have "take e s @ sep @ drop (e + length sep) s = s"
        by (metis occ add.commute append_take_drop_id drop_drop)
      with False Some "1.IH" explodeString_loop_nonempty show ?thesis
        by (subst explodeString_loop.simps) (simp add: joined_Cons)
    qed
  qed
qed

lemma length_explode_limit: "length (explodeString_loop sep (Some n) s) \<le> Suc n"
proof (induction n arbitrary: s)
  case 0
  then show ?case by (subst explodeString_loop.simps) simp
next
  case (Suc n)
  then show ?case by (subst explodeString_loop.simps) (simp split: option.splits)
qed

text \<open>
  Splitting loses nothing: for every non-empty separator and every limit the parts, joined with the
  separator, are the string again, and a limit of \<open>n\<close> gives at most \<open>n + 1\<close> parts.
\<close>

theorem joined_explode_limit:
  "explodeString s (c # sep) limit = Some ps \<longrightarrow>
     joined (c # sep) ps = s \<and> (case limit of None \<Rightarrow> True | Some n \<Rightarrow> length ps \<le> Suc n)"
  using joined_explode [of "c # sep" limit s] length_explode_limit [of "c # sep" _ s]
  by (auto simp: explodeString_def split: option.splits)

theorem joined_explode_limit_witness:
  "joined '';'' [''a'', ''b;c''] = ''a;b;c'' \<and> length [''a'', ''b;c''] \<le> 2"
proof -
  have "explodeString ''a;b;c'' '';'' (Some 1) = Some [''a'', ''b;c'']"
    by (simp add: explodeString_def explodeString_loop.simps)
  with joined_explode_limit [of "''a;b;c''" "CHR '';''" "[]" "Some 1" "[''a'', ''b;c'']"]
  show ?thesis by simp
qed

end
