(* ===== verification/Wildcard_Tree.thy ===== *)
theory Wildcard_Tree imports Text_Tools "HOL-Library.AList" "HOL-Library.Sublist" begin

text \<open>
  The prefix tree of \<open>src/src/wildcardtree.cpp\<close>, with which the server completes a player name from
  its beginning, and its client in \<open>src/src/game.cpp\<close>: the registry of the players online.
  A node's \<open>std::map\<close> of children is an association list with distinct keys (\<open>wf_node\<close>); the code
  never depends on the order of the keys.
\<close>

section \<open>The tree\<close>

datatype wildcard_node = WNode (breakpoint: bool) (children: "(char \<times> wildcard_node) list")

datatype return_value =
    RETURNVALUE_NOERROR
  | RETURNVALUE_PLAYERWITHTHISNAMEISNOTONLINE
  | RETURNVALUE_NAMEISTOOAMBIGUOUS

definition getChild :: "char \<Rightarrow> wildcard_node \<Rightarrow> wildcard_node option" where
  "getChild ch n = map_of (children n) ch"

definition setChild :: "char \<Rightarrow> wildcard_node \<Rightarrow> wildcard_node \<Rightarrow> wildcard_node" where
  "setChild ch k n = WNode (breakpoint n) (AList.update ch k (children n))"

definition eraseChild :: "char \<Rightarrow> wildcard_node \<Rightarrow> wildcard_node" where
  "eraseChild ch n = WNode (breakpoint n) (AList.delete ch (children n))"

definition setBreakpoint :: "bool \<Rightarrow> wildcard_node \<Rightarrow> wildcard_node" where
  "setBreakpoint b n = WNode b (children n)"

text \<open>\<open>addChild\<close> returns the child; the model returns the child and the node that holds it.\<close>

definition addChild :: "char \<Rightarrow> bool \<Rightarrow> wildcard_node \<Rightarrow> wildcard_node \<times> wildcard_node" where
  "addChild ch b n =
     (case getChild ch n of
        Some child \<Rightarrow>
          let child' = (if b \<and> \<not> breakpoint child then setBreakpoint True child else child)
          in (child', setChild ch child' n)
      | None \<Rightarrow> let child = WNode b [] in (child, setChild ch child n))"

text \<open>
  \<open>insert\<close>: all characters but the last are added without a breakpoint, the last with one. For the
  empty string the code computes \<open>length() - 1\<close> on an unsigned value and runs out of the string;
  there the model gives \<^const>\<open>None\<close>.
\<close>

fun insert_path :: "string \<Rightarrow> wildcard_node \<Rightarrow> wildcard_node" where
  "insert_path [] cur = cur"
| "insert_path [c] cur = snd (addChild c True cur)"
| "insert_path (c # d # cs) cur =
     (let (child, cur') = addChild c False cur in setChild c (insert_path (d # cs) child) cur')"

definition wildcard_insert :: "string \<Rightarrow> wildcard_node \<Rightarrow> wildcard_node option" where
  "wildcard_insert str n = (if str = [] then None else Some (insert_path str n))"

text \<open>
  \<open>remove\<close> walks down and stacks the nodes it passes, each with the character taken from it; then
  it pops the stack and cuts off leaves that end no name. \<open>plug\<close> rebuilds the tree above the node at
  which the code leaves the loop: there the C++ nodes were changed in place.
\<close>

fun walk_down :: "string \<Rightarrow> wildcard_node \<Rightarrow> (wildcard_node \<times> char) list \<Rightarrow>
    (wildcard_node \<times> (wildcard_node \<times> char) list) option" where
  "walk_down [] cur path = Some (cur, path)"
| "walk_down (c # cs) cur path =
     (case getChild c cur of None \<Rightarrow> None | Some k \<Rightarrow> walk_down cs k ((cur, c) # path))"

fun plug :: "wildcard_node \<Rightarrow> (wildcard_node \<times> char) list \<Rightarrow> wildcard_node" where
  "plug cur [] = cur"
| "plug cur ((parent, c) # path) = plug (setChild c cur parent) path"

fun unwind :: "wildcard_node \<Rightarrow> (wildcard_node \<times> char) list \<Rightarrow> wildcard_node" where
  "unwind cur [] = cur"
| "unwind cur ((parent, c) # path) =
     (if children cur \<noteq> [] \<or> breakpoint cur then plug cur ((parent, c) # path)
      else unwind (eraseChild c parent) path)"

definition wildcard_remove :: "string \<Rightarrow> wildcard_node \<Rightarrow> wildcard_node" where
  "wildcard_remove str n =
     (case walk_down str n [] of
        None \<Rightarrow> n
      | Some (cur, path) \<Rightarrow> unwind (setBreakpoint False cur) path)"

function complete :: "wildcard_node \<Rightarrow> string \<Rightarrow> return_value \<times> string" where
  "complete (WNode b []) result = (RETURNVALUE_NOERROR, result)"
| "complete (WNode b [(c, k)]) result =
     (if b then (RETURNVALUE_NAMEISTOOAMBIGUOUS, result) else complete k (result @ [c]))"
| "complete (WNode b (x # y # zs)) result = (RETURNVALUE_NAMEISTOOAMBIGUOUS, result)"
  by pat_completeness auto
termination by (relation "measure (\<lambda>(n, r). size n)") auto

fun descend :: "string \<Rightarrow> wildcard_node \<Rightarrow> wildcard_node option" where
  "descend [] cur = Some cur"
| "descend (c # cs) cur = (case getChild c cur of None \<Rightarrow> None | Some k \<Rightarrow> descend cs k)"

definition findOne :: "string \<Rightarrow> wildcard_node \<Rightarrow> return_value \<times> string" where
  "findOne query n =
     (case descend query n of
        None \<Rightarrow> (RETURNVALUE_PLAYERWITHTHISNAMEISNOTONLINE, [])
      | Some cur \<Rightarrow> complete cur query)"

section \<open>What the tree stands for\<close>

definition holds :: "wildcard_node \<Rightarrow> string \<Rightarrow> bool" where
  "holds n s \<longleftrightarrow> (\<exists>k. descend s n = Some k \<and> breakpoint k)"

definition names :: "wildcard_node \<Rightarrow> string set" where
  "names n = {s. holds n s}"

text \<open>Distinct keys, and no dead branches: a child has children of its own or ends a name.\<close>

fun wf_node :: "wildcard_node \<Rightarrow> bool" where
  "wf_node (WNode b cs) \<longleftrightarrow> distinct (map fst cs) \<and>
     (\<forall>(c, k) \<in> set cs. wf_node k \<and> (children k \<noteq> [] \<or> breakpoint k))"

abbreviation alive :: "wildcard_node \<Rightarrow> bool" where
  "alive k \<equiv> children k \<noteq> [] \<or> breakpoint k"

lemma holds_Nil [simp]: "holds n [] = breakpoint n"
  by (simp add: holds_def)

lemma holds_Cons [simp]: "holds n (c # s) = (case getChild c n of None \<Rightarrow> False | Some k \<Rightarrow> holds k s)"
  by (simp add: holds_def split: option.splits)

lemma getChild_setChild [simp]: "getChild c (setChild d k n) = (if c = d then Some k else getChild c n)"
  by (simp add: getChild_def setChild_def update_conv)

lemma getChild_eraseChild [simp]: "getChild c (eraseChild d n) = (if c = d then None else getChild c n)"
  by (simp add: getChild_def eraseChild_def delete_conv)

lemma getChild_setBreakpoint [simp]: "getChild c (setBreakpoint b n) = getChild c n"
  by (simp add: getChild_def setBreakpoint_def)

lemma breakpoint_simps [simp]:
  "breakpoint (setChild c k n) = breakpoint n" "breakpoint (eraseChild c n) = breakpoint n"
  "breakpoint (setBreakpoint b n) = b" "children (setBreakpoint b n) = children n"
  by (simp_all add: setChild_def eraseChild_def setBreakpoint_def)

lemma children_setChild_nonempty [simp]: "children (setChild c k n) \<noteq> []"
  by (cases "children n") (auto simp: setChild_def)

lemma getChild_leaf [simp]: "getChild c (WNode b []) = None"
  by (simp add: getChild_def)

lemma wf_leaf [simp]: "wf_node (WNode b [])"
  by simp

lemma wf_node_iff: "wf_node n \<longleftrightarrow> distinct (map fst (children n)) \<and>
    (\<forall>c k. getChild c n = Some k \<longrightarrow> wf_node k \<and> alive k)"
  by (cases n) (auto simp: getChild_def dest: map_of_SomeD)

lemma wf_child: "wf_node n \<Longrightarrow> getChild c n = Some k \<Longrightarrow> wf_node k \<and> alive k"
  by (simp add: wf_node_iff [of n])

lemma wf_setChild [intro]: "wf_node n \<Longrightarrow> wf_node k \<Longrightarrow> alive k \<Longrightarrow> wf_node (setChild c k n)"
  by (subst wf_node_iff) (auto simp: wf_node_iff [of n] setChild_def [of c k n] distinct_update
      update_conv getChild_def split: if_splits)

lemma wf_eraseChild [intro]: "wf_node n \<Longrightarrow> wf_node (eraseChild c n)"
  by (subst wf_node_iff) (auto simp: wf_node_iff [of n] eraseChild_def [of c n] distinct_delete
      delete_conv getChild_def split: if_splits)

lemma wf_setBreakpoint [simp]: "wf_node (setBreakpoint b n) = wf_node n"
  by (simp add: wf_node_iff [of n] wf_node_iff [of "setBreakpoint b n"])

lemma dead_holds_nothing: "\<not> alive k \<Longrightarrow> \<not> holds k s"
  by (cases s; cases k) auto

lemma alive_holds: "wf_node n \<Longrightarrow> alive n \<Longrightarrow> \<exists>s. holds n s"
proof (induction n)
  case (WNode b cs)
  show ?case
  proof (cases cs)
    case Nil
    with WNode.prems have "holds (WNode b cs) []" by simp
    then show ?thesis ..
  next
    case (Cons p ps)
    obtain c k where p: "p = (c, k)" by (cases p)
    with Cons WNode.prems have "wf_node k" "alive k" by auto
    then obtain s where "holds k s"
      using WNode.IH [of p k] Cons p by auto
    moreover have "getChild c (WNode b cs) = Some k" by (simp add: getChild_def Cons p)
    ultimately have "holds (WNode b cs) (c # s)" by simp
    then show ?thesis ..
  qed
qed

section \<open>Insertion\<close>

lemma addChild_snd: "snd (addChild c b n) = setChild c (fst (addChild c b n)) n"
  by (simp add: addChild_def Let_def split: option.splits)

lemma addChild_fst: "fst (addChild c b n) =
    (case getChild c n of Some k \<Rightarrow> setBreakpoint (breakpoint k \<or> b) k | None \<Rightarrow> WNode b [])"
  by (auto simp: addChild_def Let_def setBreakpoint_def wildcard_node.expand split: option.splits)

lemma insert_path_alive: "s \<noteq> [] \<Longrightarrow> alive (insert_path s n)"
  by (cases "(s, n)" rule: insert_path.cases) (auto simp: addChild_snd split: prod.splits)

lemma wf_insert_path: "wf_node n \<Longrightarrow> wf_node (insert_path s n)"
proof (induction s n rule: insert_path.induct)
  case (2 c cur)
  have "wf_node (fst (addChild c True cur))" "breakpoint (fst (addChild c True cur))"
    using 2 wf_child [of cur c] by (auto simp: addChild_fst simp del: wf_node.simps split: option.splits)
  with 2 show ?case by (simp add: addChild_snd wf_setChild)
next
  case (3 c d cs cur)
  obtain k n' where a: "addChild c False cur = (k, n')" by (cases "addChild c False cur")
  have k: "k = fst (addChild c False cur)" "n' = setChild c k cur"
    using a addChild_snd [of c False cur] by auto
  have "wf_node k" using 3 k by (auto simp: addChild_fst dest: wf_child split: option.splits)
  then have w: "wf_node (insert_path (d # cs) k)" using "3.IH" a by simp
  have "setChild c (insert_path (d # cs) k) n' = setChild c (insert_path (d # cs) k) cur"
    by (simp add: k(2) setChild_def)
  moreover have "wf_node (setChild c (insert_path (d # cs) k) cur)"
    using 3 w insert_path_alive [of "d # cs" k] by blast
  ultimately show ?case by (simp add: a)
qed simp

lemma holds_setBreakpoint: "holds (setBreakpoint b n) s = (if s = [] then b else holds n s)"
  by (cases s) auto

lemma holds_leaf: "holds (WNode b []) s = (b \<and> s = [])"
  by (cases s) auto

lemma holds_insert_path: "s \<noteq> [] \<Longrightarrow> holds (insert_path s n) t = (t = s \<or> holds n t)"
proof (induction s n arbitrary: t rule: insert_path.induct)
  case (2 c cur)
  then show ?case
    by (cases t) (auto simp: addChild_snd addChild_fst holds_setBreakpoint holds_leaf split: option.splits)
next
  case (3 c d cs cur)
  obtain k n' where a: "addChild c False cur = (k, n')" by (cases "addChild c False cur")
  have k: "k = fst (addChild c False cur)" "n' = setChild c k cur"
    using a addChild_snd [of c False cur] by auto
  have h: "holds k u = (case getChild c cur of None \<Rightarrow> False | Some k0 \<Rightarrow> holds k0 u)" for u
    by (auto simp: k(1) addChild_fst holds_setBreakpoint holds_leaf split: option.splits)
  show ?case
  proof (cases t)
    case (Cons e es)
    then show ?thesis using "3.IH" [of "(k, n')" k n' es] a h [of es] by (auto simp: k(2))
  qed (simp add: a k(2))
qed simp

lemma names_insert_path: "s \<noteq> [] \<Longrightarrow> names (insert_path s n) = insert s (names n)"
  by (auto simp: names_def holds_insert_path)

section \<open>Removal\<close>

text \<open>The recursive reading of the walk down and the unwinding.\<close>

fun remove_rec :: "string \<Rightarrow> wildcard_node \<Rightarrow> wildcard_node option" where
  "remove_rec [] n = Some (setBreakpoint False n)"
| "remove_rec (c # cs) n =
     (case getChild c n of
        None \<Rightarrow> None
      | Some k \<Rightarrow> map_option (\<lambda>k'. if alive k' then setChild c k' n else eraseChild c n)
                    (remove_rec cs k))"

lemma unwind_alive: "alive n \<Longrightarrow> unwind n path = plug n path"
  by (cases path) auto

lemma walk_unwind:
  "(case walk_down s n path of None \<Rightarrow> None
    | Some (cur, path') \<Rightarrow> Some (unwind (setBreakpoint False cur) path')) =
   map_option (\<lambda>r. unwind r path) (remove_rec s n)"
proof (induction s n path rule: walk_down.induct)
  case (2 c cs cur path)
  show ?case
  proof (cases "getChild c cur")
    case (Some k)
    have "unwind r ((cur, c) # path) =
        unwind (if alive r then setChild c r cur else eraseChild c cur) path" for r
      using unwind_alive [of "setChild c r cur" path] by auto
    with 2 [OF Some] Some show ?thesis
      by (auto simp: option.map_comp comp_def intro: option.map_cong)
  qed simp
qed simp

lemma wildcard_remove_rec: "wildcard_remove s n = (case remove_rec s n of None \<Rightarrow> n | Some r \<Rightarrow> r)"
  using walk_unwind [of s n "[]"]
  by (auto simp: wildcard_remove_def split: option.splits)

lemma remove_rec_ConsE:
  assumes "remove_rec (c # cs) n = Some r"
  obtains k k' where "getChild c n = Some k" "remove_rec cs k = Some k'"
    "r = (if alive k' then setChild c k' n else eraseChild c n)"
proof (cases "getChild c n")
  case (Some k)
  with assms that show ?thesis by (cases "remove_rec cs k") simp_all
qed (use assms in simp)

lemma wf_remove_rec: "wf_node n \<Longrightarrow> remove_rec s n = Some r \<Longrightarrow> wf_node r"
proof (induction s n arbitrary: r rule: remove_rec.induct)
  case (2 c cs n)
  from "2.prems"(2) obtain k k' where k: "getChild c n = Some k" "remove_rec cs k = Some k'"
    "r = (if alive k' then setChild c k' n else eraseChild c n)"
    by (rule remove_rec_ConsE)
  then have "wf_node k'" using 2 wf_child [of n c k] by blast
  with k "2.prems" show ?case by (simp add: wf_setChild wf_eraseChild)
qed auto

lemma holds_remove_rec: "remove_rec s n = Some r \<Longrightarrow> holds r t = (t \<noteq> s \<and> holds n t)"
proof (induction s n arbitrary: r t rule: remove_rec.induct)
  case (1 n)
  then show ?case by (simp add: holds_setBreakpoint) (metis holds_setBreakpoint)
next
  case (2 c cs n)
  from "2.prems" obtain k k' where k: "getChild c n = Some k" "remove_rec cs k = Some k'"
    "r = (if alive k' then setChild c k' n else eraseChild c n)"
    by (rule remove_rec_ConsE)
  show ?case
  proof (cases t)
    case (Cons e es)
    have "holds k' es = (es \<noteq> cs \<and> holds k es)" using "2.IH" k by simp
    with k Cons dead_holds_nothing [of k' es] show ?thesis by (auto split: option.splits)
  qed (use k in auto)
qed

lemma remove_rec_None: "remove_rec s n = None \<Longrightarrow> \<not> holds n s"
  by (induction s n rule: remove_rec.induct) (auto split: option.splits)

lemma wf_wildcard_remove: "wf_node n \<Longrightarrow> wf_node (wildcard_remove s n)"
  by (auto simp: wildcard_remove_rec wf_remove_rec split: option.splits)

lemma names_wildcard_remove: "names (wildcard_remove s n) = names n - {s}"
  by (auto simp: wildcard_remove_rec names_def holds_remove_rec dest: remove_rec_None split: option.splits)

section \<open>Completion\<close>

lemma descend_holds: "descend q n = Some k \<Longrightarrow> holds n (q @ s) = holds k s"
  by (induction q n rule: descend.induct) (auto split: option.splits)

lemma descend_wf: "descend q n = Some k \<Longrightarrow> wf_node n \<Longrightarrow> wf_node k \<and> (q \<noteq> [] \<longrightarrow> alive k)"
proof (induction q n rule: descend.induct)
  case (2 c cs cur)
  then obtain k' where k': "getChild c cur = Some k'" "descend cs k' = Some k"
    by (auto split: option.splits)
  with 2 wf_child [of cur c k'] show ?case by (cases cs) auto
qed auto

lemma descend_None: "descend q n = None \<Longrightarrow> \<not> holds n (q @ s)"
  by (induction q n rule: descend.induct) (auto split: option.splits)

text \<open>From a node of a well-formed tree the completion finds the only name, or sees two.\<close>

definition completion_ok :: "wildcard_node \<Rightarrow> string \<Rightarrow> return_value \<times> string \<Rightarrow> bool" where
  "completion_ok n result res \<longleftrightarrow>
     (case res of
        (RETURNVALUE_NOERROR, r) \<Rightarrow>
          (\<exists>s. r = result @ s \<and> {t. holds n t} = (if alive n then {s} else {}) \<and> (alive n \<or> s = []))
      | (RETURNVALUE_NAMEISTOOAMBIGUOUS, r) \<Rightarrow> \<exists>s t. s \<noteq> t \<and> holds n s \<and> holds n t
      | _ \<Rightarrow> False)"

lemma complete_ok: "wf_node n \<Longrightarrow> completion_ok n result (complete n result)"
proof (induction n result rule: complete.induct)
  case (1 b result)
  then show ?case by (auto simp: completion_ok_def holds_leaf)
next
  case (2 b c k result)
  have k: "wf_node k" "alive k" using "2.prems" by auto
  have h: "holds (WNode b [(c, k)]) t = (if t = [] then b else hd t = c \<and> holds k (tl t))" for t
    by (cases t) (auto simp: getChild_def)
  show ?case
  proof (cases b)
    case True
    obtain s where "holds k s" using alive_holds [OF k] ..
    then have "holds (WNode b [(c, k)]) (c # s)" by (subst h) simp
    moreover have "holds (WNode b [(c, k)]) []" using True by simp
    ultimately have "\<exists>s t. s \<noteq> t \<and> holds (WNode b [(c, k)]) s \<and> holds (WNode b [(c, k)]) t"
      by (intro exI [of _ "[]"] exI [of _ "c # s"] conjI list.distinct(1))
    with True show ?thesis
      by (simp only: complete.simps completion_ok_def if_True prod.case return_value.case)
  next
    case False
    have lift: "{t. holds (WNode b [(c, k)]) t} = (\<lambda>t. c # t) ` {t. holds k t}"
    proof (rule set_eqI)
      show "t \<in> {t. holds (WNode b [(c, k)]) t} \<longleftrightarrow> t \<in> (\<lambda>t. c # t) ` {t. holds k t}" for t
        using False by (cases t) (auto simp: getChild_def)
    qed
    have hc: "holds (WNode b [(c, k)]) (c # s) = holds k s" for s by (simp add: getChild_def)
    have two: "s \<noteq> t \<Longrightarrow> holds k s \<Longrightarrow> holds k t \<Longrightarrow>
        \<exists>u v. u \<noteq> v \<and> holds (WNode b [(c, k)]) u \<and> holds (WNode b [(c, k)]) v" for s t
      by (rule exI [of _ "c # s"], rule exI [of _ "c # t"]) (simp only: hc list.inject simp_thms)
    from 2 k False have "completion_ok k (result @ [c]) (complete k (result @ [c]))" by simp
    then show ?thesis using False k(2) lift two
      by (auto simp: completion_ok_def split: prod.splits return_value.splits)
  qed
next
  case (3 b x y zs result)
  obtain c k d l where xy: "x = (c, k)" "y = (d, l)" by (cases x; cases y)
  with "3.prems" have "wf_node k" "alive k" "wf_node l" "alive l" "c \<noteq> d" by auto
  moreover from this obtain s t where "holds k s" "holds l t" using alive_holds by metis
  ultimately have "holds (WNode b (x # y # zs)) (c # s)" "holds (WNode b (x # y # zs)) (d # t)"
    "c # s \<noteq> d # t"
    by (auto simp: xy getChild_def)
  then have "\<exists>s t. s \<noteq> t \<and> holds (WNode b (x # y # zs)) s \<and> holds (WNode b (x # y # zs)) t"
    by blast
  then show ?case by (simp only: complete.simps completion_ok_def prod.case return_value.case)
qed

text \<open>The names of the tree that a query can stand for.\<close>

definition matches :: "string \<Rightarrow> string set \<Rightarrow> string set" where
  "matches q S = {s \<in> S. prefix q s}"

definition query_result :: "string \<Rightarrow> string set \<Rightarrow> return_value \<times> string \<Rightarrow> bool" where
  "query_result q S res \<longleftrightarrow>
     (case res of
        (RETURNVALUE_NOERROR, r) \<Rightarrow> matches q S = {r} \<or> (matches q S = {} \<and> q = [] \<and> r = [])
      | (RETURNVALUE_PLAYERWITHTHISNAMEISNOTONLINE, r) \<Rightarrow> matches q S = {}
      | (RETURNVALUE_NAMEISTOOAMBIGUOUS, r) \<Rightarrow> \<exists>s t. s \<noteq> t \<and> {s, t} \<subseteq> matches q S)"

lemma findOne_query_result:
  assumes "wf_node n"
  shows "query_result q (names n) (findOne q n)"
proof (cases "descend q n")
  case None
  then show ?thesis using descend_None [OF None]
    by (auto simp: query_result_def findOne_def matches_def names_def prefix_def)
next
  case (Some k)
  have m: "matches q (names n) = (\<lambda>s. q @ s) ` {s. holds k s}"
    using descend_holds [OF Some] by (auto simp: matches_def names_def prefix_def)
  have k: "wf_node k" "q \<noteq> [] \<Longrightarrow> alive k" using descend_wf [OF Some assms] by auto
  have two: "s \<noteq> t \<Longrightarrow> holds k s \<Longrightarrow> holds k t \<Longrightarrow> \<exists>u v. u \<noteq> v \<and> {u, v} \<subseteq> matches q (names n)" for s t
    by (rule exI [of _ "q @ s"], rule exI [of _ "q @ t"]) (auto simp: m)
  have "completion_ok k q (complete k q)" by (rule complete_ok [OF k(1)])
  then show ?thesis using Some k(2) two
    by (auto simp: query_result_def m completion_ok_def findOne_def
        split: prod.splits return_value.splits if_splits)
qed

section \<open>The interface of a name index\<close>

text \<open>
  What the registry of the game needs of the tree: an index of names that takes names in, gives them
  up and completes a query. \<open>in_step\<close> ties the index to a map keyed by the same names.
\<close>

locale name_index =
  fixes ins :: "string \<Rightarrow> 't \<Rightarrow> 't"
    and del :: "string \<Rightarrow> 't \<Rightarrow> 't"
    and query :: "string \<Rightarrow> 't \<Rightarrow> return_value \<times> string"
    and elems :: "'t \<Rightarrow> string set"
    and wf :: "'t \<Rightarrow> bool"
  assumes wf_ins: "wf t \<Longrightarrow> wf (ins s t)"
    and wf_del: "wf t \<Longrightarrow> wf (del s t)"
    and elems_ins: "s \<noteq> [] \<Longrightarrow> elems (ins s t) = insert s (elems t)"
    and elems_del: "elems (del s t) = elems t - {s}"
    and query_ok: "wf t \<Longrightarrow> query_result q (elems t) (query q t)"
begin

definition in_step :: "'t \<Rightarrow> (string \<rightharpoonup> 'v) \<Rightarrow> bool" where
  "in_step t m \<longleftrightarrow> wf t \<and> elems t = dom m"

lemma in_step_ins: "in_step t m \<Longrightarrow> s \<noteq> [] \<Longrightarrow> in_step (ins s t) (m(s \<mapsto> v))"
  by (simp add: in_step_def wf_ins elems_ins)

lemma in_step_del: "in_step t m \<Longrightarrow> in_step (del s t) (m(s := None))"
  by (auto simp: in_step_def wf_del elems_del)

lemma in_step_query: "in_step t m \<Longrightarrow> query_result q (dom m) (query q t)"
  using query_ok [of t q] by (simp add: in_step_def)

end

interpretation wt: name_index insert_path wildcard_remove findOne names wf_node
  by unfold_locales
    (simp_all add: wf_insert_path wf_wildcard_remove names_insert_path names_wildcard_remove
      findOne_query_result)

section \<open>The registry of the players online\<close>

record player_ref =
  pl_id :: u32
  pl_guid :: u32
  pl_name :: string

record registry =
  mappedPlayerNames :: "string \<rightharpoonup> player_ref"
  wildcardTree :: wildcard_node
  players :: "(u32 \<times> player_ref) list"

definition empty_registry :: registry where
  "empty_registry = \<lparr>mappedPlayerNames = Map.empty, wildcardTree = WNode False [], players = []\<rparr>"

definition addPlayer :: "player_ref \<Rightarrow> registry \<Rightarrow> registry option" where
  "addPlayer player g =
     (let lowercase_name = asLowerCaseString (pl_name player) in
      case wildcard_insert lowercase_name (wildcardTree g) of
        None \<Rightarrow> None
      | Some t \<Rightarrow> Some (g\<lparr>mappedPlayerNames := (mappedPlayerNames g)(lowercase_name \<mapsto> player),
                         wildcardTree := t,
                         players := AList.update (pl_id player) player (players g)\<rparr>))"

definition removePlayer :: "player_ref \<Rightarrow> registry \<Rightarrow> registry" where
  "removePlayer player g =
     (let lowercase_name = asLowerCaseString (pl_name player) in
      g\<lparr>mappedPlayerNames := (mappedPlayerNames g)(lowercase_name := None),
        wildcardTree := wildcard_remove lowercase_name (wildcardTree g),
        players := AList.delete (pl_id player) (players g)\<rparr>)"

definition getPlayerByName :: "string \<Rightarrow> registry \<Rightarrow> player_ref option" where
  "getPlayerByName s g = (if s = [] then None else mappedPlayerNames g (asLowerCaseString s))"

definition getPlayerByID :: "u32 \<Rightarrow> registry \<Rightarrow> player_ref option" where
  "getPlayerByID i g = (if i = 0 then None else map_of (players g) i)"

definition getPlayerByGUID :: "u32 \<Rightarrow> registry \<Rightarrow> player_ref option" where
  "getPlayerByGUID guid g =
     (if guid = 0 then None else map_option snd (find (\<lambda>it. guid = pl_guid (snd it)) (players g)))"

text \<open>\<open>player\<close> is null when the function is called.\<close>

definition getPlayerByNameWildcard :: "string \<Rightarrow> registry \<Rightarrow> return_value \<times> player_ref option" where
  "getPlayerByNameWildcard s g =
     (let strlen = length s;
          found = (\<lambda>player. case player of
                     None \<Rightarrow> (RETURNVALUE_PLAYERWITHTHISNAMEISNOTONLINE, None)
                   | Some p \<Rightarrow> (RETURNVALUE_NOERROR, Some p))
      in if strlen = 0 \<or> strlen > 20 then (RETURNVALUE_PLAYERWITHTHISNAMEISNOTONLINE, None)
         else if last s = CHR ''~'' then
           (case findOne (asLowerCaseString (take (strlen - 1) s)) (wildcardTree g) of
              (ret, result) \<Rightarrow>
                if ret \<noteq> RETURNVALUE_NOERROR then (ret, None) else found (getPlayerByName result g))
         else found (getPlayerByName s g))"

inductive registry_step :: "registry \<Rightarrow> registry \<Rightarrow> bool" where
  step_login: "addPlayer p g = Some g' \<Longrightarrow> registry_step g g'"
| step_logout: "registry_step g (removePlayer p g)"

inductive_cases registry_stepE: "registry_step g g'"

definition registry_inv :: "registry \<Rightarrow> bool" where
  "registry_inv g \<longleftrightarrow> wt.in_step (wildcardTree g) (mappedPlayerNames g) \<and>
     (\<forall>n p. mappedPlayerNames g n = Some p \<longrightarrow> n = asLowerCaseString (pl_name p)) \<and>
     mappedPlayerNames g [] = None \<and>
     distinct (map fst (players g)) \<and> (\<forall>(i, p) \<in> set (players g). i = pl_id p)"

lemma alist_update_subset: "set (AList.update k v al) \<subseteq> insert (k, v) (set al)"
  by (induction al) auto

lemma alist_delete_subset: "set (AList.delete k al) \<subseteq> set al"
  by (auto simp: AList.delete_eq)

lemma registry_inv_add: "registry_inv g \<Longrightarrow> addPlayer p g = Some g' \<Longrightarrow> registry_inv g'"
  by (auto simp: registry_inv_def addPlayer_def wildcard_insert_def Let_def wt.in_step_ins distinct_update
      split: if_splits dest!: subsetD [OF alist_update_subset])

lemma registry_inv_remove: "registry_inv g \<Longrightarrow> registry_inv (removePlayer p g)"
  by (auto simp: registry_inv_def removePlayer_def Let_def wt.in_step_del distinct_delete
      dest: subsetD [OF alist_delete_subset])

lemma registry_inv_lower: "registry_inv g \<Longrightarrow> mappedPlayerNames g n = Some p \<Longrightarrow>
    asLowerCaseString n = n \<and> n \<noteq> []"
  by (metis asLowerCaseString_idem option.distinct(1) registry_inv_def)

interpretation reg: invariant_system "\<lambda>g. g = empty_registry" registry_step registry_inv
proof unfold_locales
  show "registry_inv g" if "g = empty_registry" for g
    using that by (auto simp: registry_inv_def empty_registry_def wt.in_step_def names_def holds_leaf)
  show "registry_inv g'" if "registry_inv g" "registry_step g g'" for g g'
    using that by (auto elim: registry_stepE intro: registry_inv_add registry_inv_remove)
qed

text \<open>
C1.
  Completing a name: in every registry that logins and logouts can produce, the query \<open>q~\<close> gives the
  only player online whose name begins with \<open>q\<close> (in lower case), reports an ambiguity when several
  do, and reports that nobody is online when none does.
\<close>

theorem getPlayerByNameWildcard_spec:
  assumes "reach (\<lambda>g. g = empty_registry) registry_step g" and "length q < 20"
  shows "getPlayerByNameWildcard (q @ ''~'') g =
    (let S = {n \<in> dom (mappedPlayerNames g). prefix (asLowerCaseString q) n}
     in if S = {} then (RETURNVALUE_PLAYERWITHTHISNAMEISNOTONLINE, None)
        else if \<exists>n. S = {n} then (RETURNVALUE_NOERROR, mappedPlayerNames g (the_elem S))
        else (RETURNVALUE_NAMEISTOOAMBIGUOUS, None))"
proof -
  define S where "S = {n \<in> dom (mappedPlayerNames g). prefix (asLowerCaseString q) n}"
  define r where "r = findOne (asLowerCaseString q) (wildcardTree g)"
  have inv: "registry_inv g" by (rule reg.reach_inv [OF assms(1)])
  then have "query_result (asLowerCaseString q) (dom (mappedPlayerNames g)) r"
    unfolding r_def by (intro wt.in_step_query) (simp add: registry_inv_def)
  then have qr: "query_result (asLowerCaseString q) (dom (mappedPlayerNames g)) (fst r, snd r)"
    by simp
  have low: "asLowerCaseString n = n" "n \<noteq> []" "mappedPlayerNames g n \<noteq> None" if "n \<in> S" for n
    using that registry_inv_lower [OF inv] by (auto simp: S_def)
  have none: "getPlayerByName [] g = None" by (simp add: getPlayerByName_def)
  have get: "getPlayerByName n g = mappedPlayerNames g n" if "n \<in> S" for n
    using low [OF that] by (simp add: getPlayerByName_def)
  have m: "matches (asLowerCaseString q) (dom (mappedPlayerNames g)) = S"
    by (simp add: S_def matches_def)
  have "getPlayerByNameWildcard (q @ ''~'') g =
      (if fst r \<noteq> RETURNVALUE_NOERROR then (fst r, None)
       else case getPlayerByName (snd r) g of
          None \<Rightarrow> (RETURNVALUE_PLAYERWITHTHISNAMEISNOTONLINE, None)
        | Some p \<Rightarrow> (RETURNVALUE_NOERROR, Some p))"
    using assms(2) by (simp add: getPlayerByNameWildcard_def r_def split_beta)
  also have "\<dots> = (if S = {} then (RETURNVALUE_PLAYERWITHTHISNAMEISNOTONLINE, None)
        else if \<exists>n. S = {n} then (RETURNVALUE_NOERROR, mappedPlayerNames g (the_elem S))
        else (RETURNVALUE_NAMEISTOOAMBIGUOUS, None))"
    using qr get low none unfolding query_result_def m
    by (cases "fst r") (auto split: option.splits)
  finally show ?thesis by (simp add: S_def Let_def)
qed

theorem getPlayerByNameWildcard_spec_witness:
  "\<exists>g p. getPlayerByNameWildcard ''BO~'' g = (RETURNVALUE_NOERROR, Some p) \<and> pl_name p = ''Bob''"
proof -
  define a where "a = \<lparr>pl_id = 1, pl_guid = 7, pl_name = ''Bob''\<rparr>"
  define g where "g = the (addPlayer a empty_registry)"
  have low: "asLowerCaseString ''Bob'' = ''bob''" "asLowerCaseString ''BO'' = ''bo''" by code_simp+
  have names_g: "mappedPlayerNames g = [''bob'' \<mapsto> a]" and "addPlayer a empty_registry = Some g"
    by (simp_all add: g_def a_def addPlayer_def Let_def low wildcard_insert_def empty_registry_def)
  then have "registry_step empty_registry g" by (blast intro: step_login)
  then have "reach (\<lambda>g. g = empty_registry) registry_step g"
    by (blast intro: reach_init reach_step)
  from getPlayerByNameWildcard_spec [OF this, of "''BO''"]
  have "getPlayerByNameWildcard ''BO~'' g = (RETURNVALUE_NOERROR, Some a)"
    by (simp add: names_g low Let_def conj_commute cong: conj_cong)
  then show ?thesis by (intro exI [of _ g] exI [of _ a]) (simp add: a_def)
qed

end
