(* ===== verification/Connection_Ban.thy ===== *)
theory Connection_Ban imports Tfs_Prelude begin

text \<open>
  \<open>src/src/ban.cpp\<close>: the connection limiter \<open>Ban::acceptConnection\<close>, one block per address, and the
  ban lookups of \<open>IOBan\<close>. Times are the unsigned milliseconds of \<open>OTSYS_TIME()\<close>; the database is a
  parameter, given by the row its query returns.
\<close>

section \<open>The connection limiter\<close>

record connect_block =
  lastAttempt :: u64
  blockTime :: u64
  cb_count :: u32

type_synonym ip_connect_map = "u32 \<rightharpoonup> connect_block"

definition attempt_block :: "u64 \<Rightarrow> connect_block \<Rightarrow> bool \<times> connect_block" where
  "attempt_block currentTime cb =
     (if blockTime cb > currentTime then (False, cb\<lparr>blockTime := blockTime cb + 250\<rparr>)
      else
        let timeDiff = sint (currentTime - lastAttempt cb);
            cb1 = cb\<lparr>lastAttempt := currentTime\<rparr>
        in if timeDiff \<le> 5000 then
             let cb2 = cb1\<lparr>cb_count := cb_count cb1 + 1\<rparr> in
             if cb_count cb2 > 5 then
               let cb3 = cb2\<lparr>cb_count := 0\<rparr> in
               if timeDiff \<le> 500 then (False, cb3\<lparr>blockTime := currentTime + 3000\<rparr>)
               else (True, cb3)
             else (True, cb2)
           else (True, cb1\<lparr>cb_count := 1\<rparr>))"

definition acceptConnection :: "u32 \<Rightarrow> u64 \<Rightarrow> ip_connect_map \<Rightarrow> bool \<times> ip_connect_map" where
  "acceptConnection clientip currentTime m =
     (case m clientip of
        None \<Rightarrow> (True, m(clientip \<mapsto> \<lparr>lastAttempt = currentTime, blockTime = 0, cb_count = 1\<rparr>))
      | Some cb \<Rightarrow> (case attempt_block currentTime cb of (ok, cb') \<Rightarrow> (ok, m(clientip \<mapsto> cb'))))"

text \<open>A history of attempts \<open>(address, time)\<close>, with the answer given to each.\<close>

fun attempts :: "(u32 \<times> u64) list \<Rightarrow> ip_connect_map \<Rightarrow> (u32 \<times> bool) list \<times> ip_connect_map" where
  "attempts [] m = ([], m)"
| "attempts ((ip, t) # tr) m =
     (case acceptConnection ip t m of (ok, m') \<Rightarrow>
      case attempts tr m' of (oks, m'') \<Rightarrow> ((ip, ok) # oks, m''))"

text \<open>What one address sees of the history: its own attempts on its own block.\<close>

definition attempt_opt :: "u64 \<Rightarrow> connect_block option \<Rightarrow> bool \<times> connect_block" where
  "attempt_opt t cb = (case cb of
     None \<Rightarrow> (True, \<lparr>lastAttempt = t, blockTime = 0, cb_count = 1\<rparr>)
   | Some b \<Rightarrow> attempt_block t b)"

fun solo :: "u64 list \<Rightarrow> connect_block option \<Rightarrow> bool list \<times> connect_block option" where
  "solo [] cb = ([], cb)"
| "solo (t # ts) cb = (case attempt_opt t cb of (ok, b) \<Rightarrow>
     case solo ts (Some b) of (oks, cb') \<Rightarrow> (ok # oks, cb'))"

definition of_ip :: "u32 \<Rightarrow> (u32 \<times> 'a) list \<Rightarrow> 'a list" where
  "of_ip ip xs = map snd (filter (\<lambda>x. fst x = ip) xs)"

lemma acceptConnection_opt: "acceptConnection ip t m =
    (fst (attempt_opt t (m ip)), m(ip \<mapsto> snd (attempt_opt t (m ip))))"
  by (simp add: acceptConnection_def attempt_opt_def split: option.splits prod.splits)

lemma attempts_solo:
  "solo (of_ip ip tr) (m ip) = (of_ip ip (fst (attempts tr m)), snd (attempts tr m) ip)"
proof (induction tr m rule: attempts.induct)
  case (2 jp t tr m)
  define m' where "m' = m(jp \<mapsto> snd (attempt_opt t (m jp)))"
  have acc: "acceptConnection jp t m = (fst (attempt_opt t (m jp)), m')"
    by (simp add: acceptConnection_opt m'_def)
  have "m' ip = (if jp = ip then Some (snd (attempt_opt t (m ip))) else m ip)" by (simp add: m'_def)
  with "2.IH" [OF acc [symmetric]] show ?case
    by (cases "attempts tr m'") (auto simp: of_ip_def acc split_beta)
qed (simp add: of_ip_def)

lemma solo_append: "solo (xs @ ys) cb =
    (fst (solo xs cb) @ fst (solo ys (snd (solo xs cb))), snd (solo ys (snd (solo xs cb))))"
  by (induction xs arbitrary: cb) (simp_all add: split_beta)

section \<open>The counter and the burst bound\<close>

definition count_ok :: "connect_block option \<Rightarrow> bool" where
  "count_ok cb \<longleftrightarrow> (case cb of None \<Rightarrow> True | Some b \<Rightarrow> unat (cb_count b) \<le> 5)"

lemma word_Suc_small: "unat (w :: u32) \<le> 5 \<Longrightarrow> unat (w + 1) = Suc (unat w)"
  by (simp add: unat_plus_nowrap)

lemma count_ok_attempt: "count_ok cb \<Longrightarrow> unat (cb_count (snd (attempt_opt t cb))) \<le> 5"
  by (auto simp: attempt_opt_def attempt_block_def count_ok_def Let_def word_Suc_small word_less_nat_alt
      split: option.splits)

lemma count_ok_solo: "count_ok cb \<Longrightarrow> count_ok (snd (solo ts cb))"
proof (induction ts arbitrary: cb)
  case (Cons t ts)
  have "count_ok (Some (snd (attempt_opt t cb)))"
    using count_ok_attempt [OF Cons.prems] by (simp add: count_ok_def)
  with Cons.IH show ?case by (simp add: split_beta)
qed simp

text \<open>Successive attempts at most half a second apart.\<close>

fun burst :: "u64 \<Rightarrow> u64 list \<Rightarrow> bool" where
  "burst t [] \<longleftrightarrow> True"
| "burst t (t' # ts) \<longleftrightarrow> uint (t' - t) \<le> 500 \<and> burst t' ts"

lemma accepted_burst:
  "unat (cb_count b) \<le> 5 \<Longrightarrow> lastAttempt b = t \<Longrightarrow> burst t ts \<Longrightarrow> False \<notin> set (fst (solo ts (Some b)))
   \<Longrightarrow> unat (cb_count b) + length ts \<le> 5"
proof (induction ts arbitrary: b t)
  case (Cons t' ts)
  define b' where "b' = snd (attempt_block t' b)"
  have gap: "uint (t' - lastAttempt b) \<le> 500" using Cons.prems by simp
  then have sg: "sint (t' - lastAttempt b) = uint (t' - lastAttempt b)" by (intro sint_small) simp
  have acc: "fst (attempt_block t' b)" and rest: "False \<notin> set (fst (solo ts (Some b')))"
    using Cons.prems(4) by (auto simp: attempt_opt_def b'_def split_beta)
  from acc gap have le: "unat (cb_count b + 1) \<le> 5" and b': "cb_count b' = cb_count b + 1" "lastAttempt b' = t'"
    by (auto simp: attempt_block_def b'_def Let_def sg word_less_nat_alt split: if_splits)
  have "unat (cb_count b + 1) + length ts \<le> 5"
    using Cons.IH [of b' t'] b' le rest Cons.prems(3) by simp
  then show ?case using word_Suc_small [OF Cons.prems(1)] by simp
qed simp

lemma attempt_last: "fst (attempt_opt t cb) \<Longrightarrow> lastAttempt (snd (attempt_opt t cb)) = t"
  by (auto simp: attempt_opt_def attempt_block_def Let_def split: option.splits if_splits)

lemma solo_burst_refused:
  assumes "count_ok cb" "burst t ts" "6 \<le> length ts"
  shows "False \<in> set (fst (solo (t # ts) cb))"
proof (rule ccontr)
  assume "\<not> ?thesis"
  then have acc: "fst (attempt_opt t cb)"
    and rest: "False \<notin> set (fst (solo ts (Some (snd (attempt_opt t cb)))))"
    by (auto simp: split_beta)
  have "unat (cb_count (snd (attempt_opt t cb))) + length ts \<le> 5"
    by (rule accepted_burst [OF count_ok_attempt [OF assms(1)] attempt_last [OF acc] assms(2) rest])
  with assms(3) show False by simp
qed

text \<open>
C26.
  The limiter bites: whatever happened before and whatever other addresses do in between, an address
  that makes seven attempts, each at most 500 ms after the one before, is refused at least once.
\<close>

theorem acceptConnection_burst_refused:
  assumes "of_ip ip tr = t # ts" "burst t ts" "6 \<le> length ts"
  shows "(ip, False) \<in> set (fst (attempts tr (snd (attempts pre Map.empty))))"
proof -
  let ?m = "snd (attempts pre Map.empty)"
  have "?m ip = snd (solo (of_ip ip pre) None)"
    using attempts_solo [of ip pre Map.empty] by simp
  then have "count_ok (?m ip)" by (simp add: count_ok_solo count_ok_def [of None])
  then have "False \<in> set (fst (solo (of_ip ip tr) (?m ip)))"
    unfolding assms(1) by (rule solo_burst_refused [OF _ assms(2,3)])
  then have "False \<in> set (of_ip ip (fst (attempts tr ?m)))" by (simp only: attempts_solo fst_conv)
  then show ?thesis by (auto simp: of_ip_def)
qed

theorem acceptConnection_burst_refused_witness:
  "(1, False) \<in> set (fst (attempts [(1, 10), (2, 10), (1, 20), (1, 30), (1, 40), (1, 50), (1, 60), (1, 70)]
     (snd (attempts [(2, 5)] Map.empty))))"
  by (rule acceptConnection_burst_refused [where t = 10 and ts = "[20, 30, 40, 50, 60, 70]"])
    (simp_all add: of_ip_def)

text \<open>
  A refused burst blocks for three seconds; a blocked address that keeps trying stays blocked, each
  attempt moving the end of the block 250 ms further.
\<close>

lemma blocked_solo:
  "\<forall>t \<in> set ts. t < blockTime b \<Longrightarrow> unat (blockTime b) + 250 * length ts < 2 ^ 64 \<Longrightarrow>
   solo ts (Some b) =
     (replicate (length ts) False, Some (b\<lparr>blockTime := blockTime b + of_nat (250 * length ts)\<rparr>))"
proof (induction ts arbitrary: b)
  case (Cons t ts)
  have step: "attempt_opt t (Some b) = (False, b\<lparr>blockTime := blockTime b + 250\<rparr>)"
    using Cons.prems by (simp add: attempt_opt_def attempt_block_def)
  have u: "unat (blockTime b + 250) = unat (blockTime b) + 250"
    using Cons.prems(2) by (intro trans [OF unat_plus_nowrap]) simp_all
  then have "blockTime b < blockTime b + 250" by (simp add: word_less_nat_alt)
  then have "\<forall>t' \<in> set ts. t' < blockTime b + 250" using Cons.prems(1) by (auto intro: less_trans)
  with Cons.IH [of "b\<lparr>blockTime := blockTime b + 250\<rparr>"] Cons.prems(2) u step
  show ?case by (simp add: algebra_simps)
qed simp

text \<open>
  A block lasts: when an address that was not blocked is refused at time \<open>t\<close>, then all its attempts
  \<open>ts\<close> in the next three seconds are refused too, whatever the other addresses do, and the block then
  ends \<open>3000 + 250 * length ts\<close> milliseconds after \<open>t\<close>.
\<close>

theorem acceptConnection_block_lasts:
  assumes "m ip = Some cb" "blockTime cb \<le> t" "of_ip ip tr = t # ts"
    and "fst (acceptConnection ip t m) = False"
    and "\<forall>t' \<in> set ts. t' < t + 3000" "unat t + 3000 + 250 * length ts < 2 ^ 64"
  shows "of_ip ip (fst (attempts tr m)) = replicate (Suc (length ts)) False \<and>
    map_option blockTime (snd (attempts tr m) ip) = Some (t + of_nat (3000 + 250 * length ts))"
proof -
  obtain b' where b': "attempt_opt t (Some cb) = (False, b')"
    using assms(1,4) by (cases "attempt_opt t (Some cb)") (auto simp: acceptConnection_opt)
  then have bt: "blockTime b' = t + 3000"
    using assms(2) by (auto simp: attempt_opt_def attempt_block_def Let_def split: if_splits)
  have "unat (t + 3000) = unat t + 3000"
    using assms(6) by (intro trans [OF unat_plus_nowrap]) simp_all
  with blocked_solo [of ts b'] assms(5,6) bt
  have "solo (t # ts) (Some cb) =
      (False # replicate (length ts) False, Some (b'\<lparr>blockTime := t + 3000 + of_nat (250 * length ts)\<rparr>))"
    by (simp add: b')
  with attempts_solo [of ip tr m] assms(1,3) show ?thesis by (simp add: algebra_simps)
qed

theorem acceptConnection_block_lasts_witness:
  "of_ip 1 (fst (attempts [(1, 60), (1, 70)]
     [1 \<mapsto> \<lparr>lastAttempt = 50, blockTime = 0, cb_count = 5\<rparr>])) = [False, False]"
  using acceptConnection_block_lasts [where ip = 1 and t = 60 and ts = "[70]" and tr = "[(1, 60), (1, 70)]"
      and m = "[1 \<mapsto> \<lparr>lastAttempt = 50, blockTime = 0, cb_count = 5\<rparr>]"
      and cb = "\<lparr>lastAttempt = 50, blockTime = 0, cb_count = 5\<rparr>"]
  by (simp add: of_ip_def acceptConnection_def attempt_block_def Let_def)

section \<open>Bans\<close>

record ban_info =
  bi_bannedBy :: string
  bi_reason :: string
  bi_expiresAt :: int

record ban_row =
  row_reason :: string
  row_expires_at :: int
  row_banned_at :: int
  row_banned_by :: u32
  row_name :: string

text \<open>The statements handed to the database thread.\<close>

datatype ban_task =
    InsertBanHistory u32 string int int u32
  | DeleteAccountBan u32
  | DeleteIpBan u32

text \<open>The result, the banned information if it is set, and the tasks queued, in order.\<close>

definition isAccountBanned :: "(u32 \<Rightarrow> ban_row option) \<Rightarrow> int \<Rightarrow> u32 \<Rightarrow> bool \<times> ban_info option \<times> ban_task list" where
  "isAccountBanned storeQuery now accountId =
     (case storeQuery accountId of
        None \<Rightarrow> (False, None, [])
      | Some result \<Rightarrow>
          let expiresAt = row_expires_at result in
          if expiresAt \<noteq> 0 \<and> now > expiresAt then
            (False, None, [InsertBanHistory accountId (row_reason result) (row_banned_at result)
                             expiresAt (row_banned_by result), DeleteAccountBan accountId])
          else (True, Some \<lparr>bi_bannedBy = row_name result, bi_reason = row_reason result,
                            bi_expiresAt = expiresAt\<rparr>, []))"

definition isIpBanned :: "(u32 \<Rightarrow> ban_row option) \<Rightarrow> int \<Rightarrow> u32 \<Rightarrow> bool \<times> ban_info option \<times> ban_task list" where
  "isIpBanned storeQuery now clientip =
     (if clientip = 0 then (False, None, [])
      else case storeQuery clientip of
        None \<Rightarrow> (False, None, [])
      | Some result \<Rightarrow>
          let expiresAt = row_expires_at result in
          if expiresAt \<noteq> 0 \<and> now > expiresAt then (False, None, [DeleteIpBan clientip])
          else (True, Some \<lparr>bi_bannedBy = row_name result, bi_reason = row_reason result,
                            bi_expiresAt = expiresAt\<rparr>, []))"

text \<open>A ban in force has not run out, and a lookup that queues work lifts the ban.\<close>

lemma isAccountBanned_in_force: "isAccountBanned q now i = (True, Some b, tasks) \<Longrightarrow>
    (bi_expiresAt b = 0 \<or> now \<le> bi_expiresAt b) \<and> tasks = []"
  by (auto simp: isAccountBanned_def Let_def split: option.splits if_splits)

lemma isAccountBanned_tasks: "isAccountBanned q now i = (r, b, tasks) \<Longrightarrow> tasks \<noteq> [] \<Longrightarrow>
    \<not> r \<and> last tasks = DeleteAccountBan i"
  by (auto simp: isAccountBanned_def Let_def split: option.splits if_splits)

end
