(* ===== verification/Wait_List.thy ===== *)
theory Wait_List imports Tfs_Prelude begin

text \<open>
  \<open>src/src/waitlist.cpp\<close>: the queue in front of a full server. A premium client waits in
  \<open>priorityWaitList\<close>, the others in \<open>waitList\<close>; \<open>std::size_t\<close> and the clock have 64 bits.
\<close>

section \<open>The state and its operations\<close>

record wait =
  timeout :: u64
  playerGUID :: u32

record wait_list_info =
  priorityWaitList :: "wait list"
  waitList :: "wait list"

text \<open>What the queue reads of a player and of the rest of the server.\<close>

record wait_client =
  wc_guid :: u32
  wc_canAlwaysLogin :: bool
  wc_accountType :: nat
  wc_premium :: bool

record server_load =
  OTSYS_TIME :: u64
  maxPlayers :: u32
  playersOnline :: u64

abbreviation "ACCOUNT_TYPE_GAMEMASTER \<equiv> (5 :: nat)"

text \<open>\<open>timeout - time\<close> is an unsigned difference, so that \<open><= 0\<close> says that it is zero.\<close>

fun cleanupList :: "u64 \<Rightarrow> wait list \<Rightarrow> wait list" where
  "cleanupList time [] = []"
| "cleanupList time (w # ws) =
     (if timeout w - time \<le> 0 then cleanupList time ws else w # cleanupList time ws)"

definition getTime :: "u64 \<Rightarrow> u64" where
  "getTime slot =
     (if slot < 5 then 5 else if slot < 10 then 10 else if slot < 20 then 20
      else if slot < 50 then 60 else 120)"

definition getTimeout :: "u64 \<Rightarrow> u64" where
  "getTimeout slot = getTime slot + 15"

text \<open>An iterator is the list it points into and an index; \<open>WaitEnd\<close> is \<open>waitList.end()\<close>.\<close>

datatype wait_iter = InPriority nat | InWait nat | WaitEnd

fun index_of_guid :: "u32 \<Rightarrow> wait list \<Rightarrow> nat option" where
  "index_of_guid guid [] = None"
| "index_of_guid guid (w # ws) =
     (if playerGUID w = guid then Some 0 else map_option Suc (index_of_guid guid ws))"

definition findClient :: "u32 \<Rightarrow> wait_list_info \<Rightarrow> wait_iter \<times> nat" where
  "findClient guid info =
     (case index_of_guid guid (priorityWaitList info) of
        Some i \<Rightarrow> (InPriority i, Suc i)
      | None \<Rightarrow>
          (let slot = Suc (length (priorityWaitList info)) in
           case index_of_guid guid (waitList info) of
             Some i \<Rightarrow> (InWait i, slot + i)
           | None \<Rightarrow> (WaitEnd, slot + length (waitList info))))"

definition set_timeout :: "nat \<Rightarrow> u64 \<Rightarrow> wait list \<Rightarrow> wait list" where
  "set_timeout i t ws = ws[i := (ws ! i)\<lparr>timeout := t\<rparr>]"

text \<open>
  \<open>clientLogin\<close>. A client in the priority list that may log in is erased through \<open>waitList.erase\<close>
  with an iterator of the other list, which is undefined behaviour of \<open>std::list\<close>: the model gives
  \<^const>\<open>None\<close> there.
\<close>

definition clientLogin :: "server_load \<Rightarrow> wait_client \<Rightarrow> wait_list_info \<Rightarrow> (bool \<times> wait_list_info) option" where
  "clientLogin srv player info =
     (if wc_canAlwaysLogin player \<or> wc_accountType player \<ge> ACCOUNT_TYPE_GAMEMASTER then Some (True, info)
      else if maxPlayers srv = 0 \<or>
              (priorityWaitList info = [] \<and> waitList info = [] \<and> playersOnline srv < ucast (maxPlayers srv))
      then Some (True, info)
      else
        let info1 = info\<lparr>priorityWaitList := cleanupList (OTSYS_TIME srv) (priorityWaitList info),
                         waitList := cleanupList (OTSYS_TIME srv) (waitList info)\<rparr>
        in case findClient (wc_guid player) info1 of
             (it, slot) \<Rightarrow>
               if it \<noteq> WaitEnd then
                 if playersOnline srv + of_nat slot \<le> ucast (maxPlayers srv) then
                   (case it of
                      InWait i \<Rightarrow>
                        Some (True, info1\<lparr>waitList := take i (waitList info1) @ drop (Suc i) (waitList info1)\<rparr>)
                    | _ \<Rightarrow> None)
                 else
                   let t = OTSYS_TIME srv + getTimeout (of_nat slot) * 1000 in
                   (case it of
                      InPriority i \<Rightarrow>
                        Some (False, info1\<lparr>priorityWaitList := set_timeout i t (priorityWaitList info1)\<rparr>)
                    | InWait i \<Rightarrow> Some (False, info1\<lparr>waitList := set_timeout i t (waitList info1)\<rparr>)
                    | WaitEnd \<Rightarrow> None)
               else
                 let slot0 = length (priorityWaitList info1) in
                 if wc_premium player then
                   Some (False, info1\<lparr>priorityWaitList := priorityWaitList info1 @
                     [\<lparr>timeout = OTSYS_TIME srv + getTimeout (of_nat (slot0 + 1)) * 1000,
                       playerGUID = wc_guid player\<rparr>]\<rparr>)
                 else
                   let slot1 = slot0 + length (waitList info1) in
                   Some (False, info1\<lparr>waitList := waitList info1 @
                     [\<lparr>timeout = OTSYS_TIME srv + getTimeout (of_nat (slot1 + 1)) * 1000,
                       playerGUID = wc_guid player\<rparr>]\<rparr>))"

definition getClientSlot :: "u32 \<Rightarrow> wait_list_info \<Rightarrow> nat" where
  "getClientSlot guid info = (case findClient guid info of (it, slot) \<Rightarrow> if it = WaitEnd then 0 else slot)"

section \<open>Expiry\<close>

text \<open>
C28.
  The expiry of waiting clients compares unsigned: an entry goes exactly when its timeout equals the
  current millisecond, and one that is overdue stays.
\<close>

theorem cleanupList_exact: "cleanupList time ws = filter (\<lambda>w. timeout w \<noteq> time) ws"
  by (induction ws) (auto simp: word_le_0_iff)

lemma cleanupList_filter: "cleanupList time ws = filter (\<lambda>w. timeout w \<noteq> time) ws"
  by (induction ws) (auto simp: word_le_0_iff)

section \<open>The queue\<close>

abbreviation queue :: "wait_list_info \<Rightarrow> u32 list" where
  "queue info \<equiv> map playerGUID (priorityWaitList info) @ map playerGUID (waitList info)"

lemma index_of_guid_Some: "index_of_guid g ws = Some i \<Longrightarrow> i < length ws \<and> playerGUID (ws ! i) = g \<and>
    g \<notin> playerGUID ` set (take i ws)"
  by (induction ws arbitrary: i) (auto split: if_splits)

lemma index_of_guid_None: "index_of_guid g ws = None \<longleftrightarrow> g \<notin> playerGUID ` set ws"
  by (induction ws) auto

lemma map_set_timeout [simp]: "map playerGUID (set_timeout i t ws) = map playerGUID ws"
proof (cases "i < length ws")
  case True
  then have "map playerGUID ws ! i = playerGUID (ws ! i)" by simp
  then show ?thesis by (simp add: set_timeout_def map_update) (metis list_update_id)
qed (simp add: set_timeout_def list_update_beyond)

text \<open>The abstract queue: where a client stands, counted from one, zero if it does not wait.\<close>

fun position_in :: "'a \<Rightarrow> 'a list \<Rightarrow> nat" where
  "position_in x [] = 0"
| "position_in x (y # ys) = (if x = y then 1 else
     (let k = position_in x ys in if k = 0 then 0 else Suc k))"

lemma position_in_0: "position_in x ys = 0 \<longleftrightarrow> x \<notin> set ys"
  by (induction ys) (auto simp: Let_def)

lemma position_in_append: "position_in x (ys @ zs) =
    (if x \<in> set ys then position_in x ys
     else if position_in x zs = 0 then 0 else length ys + position_in x zs)"
  by (induction ys) (auto simp: Let_def position_in_0)

lemma position_in_index: "position_in g (map playerGUID ws) =
    (case index_of_guid g ws of None \<Rightarrow> 0 | Some i \<Rightarrow> Suc i)"
  by (induction ws) (auto simp: Let_def split: option.splits)

lemma getClientSlot_position: "getClientSlot g info = position_in g (queue info)"
  using index_of_guid_None [of g "priorityWaitList info"]
  by (auto simp: getClientSlot_def findClient_def Let_def position_in_append position_in_index
      image_iff split: option.splits)

definition cleaned :: "u64 \<Rightarrow> wait_list_info \<Rightarrow> wait_list_info" where
  "cleaned t info = info\<lparr>priorityWaitList := cleanupList t (priorityWaitList info),
                        waitList := cleanupList t (waitList info)\<rparr>"

text \<open>The part of a login attempt that the queue decides: neither privilege nor room lets the client pass.\<close>

definition must_queue :: "server_load \<Rightarrow> wait_client \<Rightarrow> wait_list_info \<Rightarrow> bool" where
  "must_queue srv p info \<longleftrightarrow>
     \<not> (wc_canAlwaysLogin p \<or> wc_accountType p \<ge> ACCOUNT_TYPE_GAMEMASTER) \<and>
     \<not> (maxPlayers srv = 0 \<or> (queue info = [] \<and> playersOnline srv < ucast (maxPlayers srv)))"

definition has_room :: "server_load \<Rightarrow> nat \<Rightarrow> bool" where
  "has_room srv slot \<longleftrightarrow> playersOnline srv + of_nat slot \<le> ucast (maxPlayers srv)"

lemma clientLogin_pass: "\<not> must_queue srv p info \<Longrightarrow> clientLogin srv p info = Some (True, info)"
  by (auto simp: must_queue_def clientLogin_def)

lemma clientLogin_queue:
  "must_queue srv p info \<Longrightarrow> clientLogin srv p info =
     (let c = cleaned (OTSYS_TIME srv) info; r = clientLogin srv p info in
      case findClient (wc_guid p) c of
        (InPriority i, slot) \<Rightarrow> if has_room srv slot then None else
          Some (False, c\<lparr>priorityWaitList := set_timeout i (OTSYS_TIME srv + getTimeout (of_nat slot) * 1000)
                          (priorityWaitList c)\<rparr>)
      | (InWait i, slot) \<Rightarrow> if has_room srv slot
          then Some (True, c\<lparr>waitList := take i (waitList c) @ drop (Suc i) (waitList c)\<rparr>)
          else Some (False, c\<lparr>waitList := set_timeout i (OTSYS_TIME srv + getTimeout (of_nat slot) * 1000)
                          (waitList c)\<rparr>)
      | (WaitEnd, slot) \<Rightarrow> r)"
  by (auto simp: must_queue_def clientLogin_def Let_def cleaned_def has_room_def
      split: prod.splits wait_iter.splits)

lemma clientLogin_absent:
  "must_queue srv p info \<Longrightarrow> fst (findClient (wc_guid p) (cleaned (OTSYS_TIME srv) info)) = WaitEnd \<Longrightarrow>
   \<exists>t. clientLogin srv p info = (let c = cleaned (OTSYS_TIME srv) info; w = \<lparr>timeout = t, playerGUID = wc_guid p\<rparr> in
     Some (False, if wc_premium p then c\<lparr>priorityWaitList := priorityWaitList c @ [w]\<rparr>
                  else c\<lparr>waitList := waitList c @ [w]\<rparr>))"
  by (cases "wc_premium p") (auto simp: must_queue_def clientLogin_def Let_def cleaned_def split: prod.splits)

lemma findClient_End: "fst (findClient g info) = WaitEnd \<longleftrightarrow> g \<notin> set (queue info)"
  using index_of_guid_None [of g "priorityWaitList info"] index_of_guid_None [of g "waitList info"]
  by (auto simp: findClient_def Let_def split: option.splits)

lemma findClient_slot: "findClient g info = (it, slot) \<Longrightarrow> it \<noteq> WaitEnd \<Longrightarrow> slot = position_in g (queue info)"
  using getClientSlot_position [of g info] by (simp add: getClientSlot_def)

text \<open>
  The contract of the queue: a client that waits is let in exactly if there is room for everyone
  up to its place, and then leaves; otherwise the queue stays. A client that does not wait joins,
  a premium client behind the premium ones and another at the end.
\<close>

definition queue_login :: "bool \<Rightarrow> bool \<Rightarrow> u32 \<Rightarrow> u32 list \<Rightarrow> u32 list \<Rightarrow> (bool \<times> u32 list) option" where
  "queue_login premium room g us vs =
     (if g \<in> set us then (if room then None else Some (False, us @ vs))
      else if g \<in> set vs then (if room then Some (True, us @ remove1 g vs) else Some (False, us @ vs))
      else Some (False, if premium then us @ g # vs else us @ vs @ [g]))"

lemma remove1_index: "index_of_guid g ws = Some i \<Longrightarrow>
    map playerGUID (take i ws @ drop (Suc i) ws) = remove1 g (map playerGUID ws)"
  by (induction ws arbitrary: i) (auto split: if_splits)

lemma clientLogin_abstract:
  assumes "must_queue srv p info"
  shows "map_option (map_prod id queue) (clientLogin srv p info) =
    (let c = cleaned (OTSYS_TIME srv) info; g = wc_guid p in
     queue_login (wc_premium p) (has_room srv (getClientSlot g c)) g
       (map playerGUID (priorityWaitList c)) (map playerGUID (waitList c)))"
proof -
  define c where "c = cleaned (OTSYS_TIME srv) info"
  define g where "g = wc_guid p"
  obtain it slot where f: "findClient g c = (it, slot)" by (cases "findClient g c")
  have gs: "it \<noteq> WaitEnd \<Longrightarrow> getClientSlot g c = slot" by (simp add: getClientSlot_def f)
  consider (pri) i where "it = InPriority i" | (ord) i where "it = InWait i" | (none) "it = WaitEnd"
    by (cases it)
  then show ?thesis
  proof cases
    case (pri i)
    with f have "g \<in> playerGUID ` set (priorityWaitList c)"
      using index_of_guid_None [of g "priorityWaitList c"]
      by (auto simp: findClient_def Let_def split: option.splits)
    with pri gs f clientLogin_queue [OF assms] show ?thesis
      by (simp add: Let_def queue_login_def flip: c_def g_def)
  next
    case (ord i)
    with f have "index_of_guid g (waitList c) = Some i" "g \<notin> playerGUID ` set (priorityWaitList c)"
      using index_of_guid_None [of g "priorityWaitList c"]
      by (auto simp: findClient_def Let_def split: option.splits)
    moreover from this have "g \<in> playerGUID ` set (waitList c)"
      using index_of_guid_None [of g "waitList c"] by auto
    ultimately show ?thesis using ord gs f clientLogin_queue [OF assms] remove1_index [of g "waitList c" i]
      by (simp add: Let_def queue_login_def flip: c_def g_def)
  next
    case none
    then have "g \<notin> set (queue c)" using findClient_End [of g c] f by simp
    moreover obtain t where "clientLogin srv p info = (let w = \<lparr>timeout = t, playerGUID = g\<rparr> in
       Some (False, if wc_premium p then c\<lparr>priorityWaitList := priorityWaitList c @ [w]\<rparr>
                  else c\<lparr>waitList := waitList c @ [w]\<rparr>))"
      using clientLogin_absent [OF assms] none f unfolding c_def [symmetric] g_def [symmetric]
      by (auto simp: Let_def)
    ultimately show ?thesis by (simp add: Let_def queue_login_def flip: c_def g_def)
  qed
qed

text \<open>
C27.
  The waiting queue as an abstract queue of client ids: an attempt that has to queue acts on the
  expired-cleaned queue exactly as \<open>queue_login\<close> says, with the client's place for its slot; in
  particular the call is undefined exactly when a waiting premium client is to be let in.
\<close>

theorem clientLogin_refines_queue_login:
  assumes "must_queue srv p info"
  shows "map_option (map_prod id queue) (clientLogin srv p info) =
    (let c = cleaned (OTSYS_TIME srv) info; g = wc_guid p in
     queue_login (wc_premium p) (has_room srv (position_in g (queue c))) g
       (map playerGUID (priorityWaitList c)) (map playerGUID (waitList c)))"
  using clientLogin_abstract [OF assms] by (simp add: getClientSlot_position)

theorem clientLogin_refines_queue_login_witness:
  "map_option (map_prod id queue) (clientLogin
      \<lparr>OTSYS_TIME = 9, maxPlayers = 2, playersOnline = 1\<rparr>
      \<lparr>wc_guid = 7, wc_canAlwaysLogin = False, wc_accountType = 1, wc_premium = True\<rparr>
      \<lparr>priorityWaitList = [\<lparr>timeout = 5, playerGUID = 7\<rparr>], waitList = []\<rparr>) = None"
  using clientLogin_refines_queue_login [of "\<lparr>OTSYS_TIME = 9, maxPlayers = 2, playersOnline = 1\<rparr>"
      "\<lparr>wc_guid = 7, wc_canAlwaysLogin = False, wc_accountType = 1, wc_premium = True\<rparr>"
      "\<lparr>priorityWaitList = [\<lparr>timeout = 5, playerGUID = 7\<rparr>], waitList = []\<rparr>"]
  by (simp add: must_queue_def Let_def cleaned_def queue_login_def has_room_def)

section \<open>No client waits twice\<close>

inductive wait_step :: "wait_list_info \<Rightarrow> wait_list_info \<Rightarrow> bool" where
  "clientLogin srv p info = Some (ok, info') \<Longrightarrow> wait_step info info'"

lemma distinct_map_filter_append:
  "distinct (map f xs @ map g ys) \<Longrightarrow> distinct (map f (filter P xs) @ map g (filter Q ys))"
  by (auto simp: distinct_map_filter)

lemma distinct_cleaned: "distinct (queue info) \<Longrightarrow> distinct (queue (cleaned t info))"
  using distinct_map_filter_append [of playerGUID "priorityWaitList info" playerGUID "waitList info"]
  by (simp add: cleaned_def cleanupList_filter del: distinct_append)

lemma distinct_queue_login: "distinct (us @ vs) \<Longrightarrow> queue_login premium room g us vs = Some (ok, q) \<Longrightarrow>
    distinct q"
  using set_remove1_subset [of g vs]
  by (auto simp: queue_login_def distinct_remove1 split: if_splits)

interpretation waiting: invariant_system "\<lambda>info. queue info = []" wait_step "\<lambda>info. distinct (queue info)"
proof unfold_locales
  fix s t assume inv: "distinct (queue s)" and "wait_step s t"
  then obtain srv p ok where l: "clientLogin srv p s = Some (ok, t)" by (auto elim: wait_step.cases)
  show "distinct (queue t)"
  proof (cases "must_queue srv p s")
    case True
    have "distinct (queue (cleaned (OTSYS_TIME srv) s))" by (rule distinct_cleaned [OF inv])
    moreover have "queue_login (wc_premium p) (has_room srv (getClientSlot (wc_guid p) (cleaned (OTSYS_TIME srv) s)))
       (wc_guid p) (map playerGUID (priorityWaitList (cleaned (OTSYS_TIME srv) s)))
       (map playerGUID (waitList (cleaned (OTSYS_TIME srv) s))) = Some (ok, queue t)"
      using clientLogin_abstract [OF True] l by (simp add: Let_def)
    ultimately show ?thesis by (rule distinct_queue_login)
  next
    case False
    with clientLogin_pass l inv show ?thesis by simp
  qed
qed simp

end
