(* ===== verification/Task_Dispatch.thy ===== *)
theory Task_Dispatch imports Tfs_Prelude begin

text \<open>
  \<open>src/src/tasks.cpp\<close> and \<open>src/src/scheduler.cpp\<close>: the dispatcher thread's task list and the
  scheduler thread's queue of timed events. Time is in milliseconds since the epoch; a task's function
  is an opaque value of type \<open>'f\<close>, except for the task that shuts the dispatcher down.
  Each operation holds the lock of its thread, so that the threads interleave whole operations.
\<close>

section \<open>Tasks and the dispatcher\<close>

datatype thread_state = THREAD_STATE_RUNNING | THREAD_STATE_CLOSING | THREAD_STATE_TERMINATED

datatype 'f task_func = Run 'f | SetTerminated

text \<open>\<open>expiration = 0\<close> is \<open>SYSTEM_TIME_ZERO\<close>.\<close>

record 'f task =
  expiration :: int
  func :: "'f task_func"

definition createTask :: "'f \<Rightarrow> 'f task" where
  "createTask f = \<lparr>expiration = 0, func = Run f\<rparr>"

definition createExpiringTask :: "int \<Rightarrow> u32 \<Rightarrow> 'f \<Rightarrow> 'f task" where
  "createExpiringTask now ms f = \<lparr>expiration = now + uint ms, func = Run f\<rparr>"

definition setDontExpire :: "'f task \<Rightarrow> 'f task" where
  "setDontExpire t = t\<lparr>expiration := 0\<rparr>"

definition hasExpired :: "int \<Rightarrow> 'f task \<Rightarrow> bool" where
  "hasExpired now t = (if expiration t = 0 then False else expiration t < now)"

record 'f dispatcher =
  d_state :: thread_state
  taskList :: "'f task list"
  dispatcherCycle :: u64

definition d_addTask :: "'f task \<Rightarrow> bool \<Rightarrow> 'f dispatcher \<Rightarrow> 'f dispatcher" where
  "d_addTask t push_front d =
     (if d_state d = THREAD_STATE_RUNNING then
        if push_front then d\<lparr>taskList := t # taskList d\<rparr> else d\<lparr>taskList := taskList d @ [t]\<rparr>
      else d)"

definition d_shutdown :: "'f dispatcher \<Rightarrow> 'f dispatcher" where
  "d_shutdown d = d\<lparr>taskList := taskList d @ [\<lparr>expiration = 0, func = SetTerminated\<rparr>]\<rparr>"

text \<open>
  One round of \<open>threadMain\<close> with a non-empty list: the function it runs, if any, and the new state.
  The caller lets the function run on the result (a task may add tasks of its own).
\<close>

definition d_round :: "int \<Rightarrow> 'f dispatcher \<Rightarrow> 'f option \<times> 'f dispatcher" where
  "d_round now d =
     (if d_state d = THREAD_STATE_TERMINATED then (None, d)
      else case taskList d of
        [] \<Rightarrow> (None, d)
      | t # ts \<Rightarrow>
          let d1 = d\<lparr>taskList := ts\<rparr> in
          if hasExpired now t then (None, d1)
          else let d2 = d1\<lparr>dispatcherCycle := dispatcherCycle d1 + 1\<rparr> in
            (case func t of
               Run f \<Rightarrow> (Some f, d2)
             | SetTerminated \<Rightarrow> (None, d2\<lparr>d_state := THREAD_STATE_TERMINATED\<rparr>)))"

text \<open>The rounds at the given times, with the functions run, when no task adds another.\<close>

fun d_rounds :: "int list \<Rightarrow> 'f dispatcher \<Rightarrow> 'f list \<times> 'f dispatcher" where
  "d_rounds [] d = ([], d)"
| "d_rounds (now # nows) d =
     (case d_round now d of (r, d1) \<Rightarrow>
      case d_rounds nows d1 of (fs, d2) \<Rightarrow> (case r of None \<Rightarrow> fs | Some f \<Rightarrow> f # fs, d2))"

fun live_prefix :: "int list \<Rightarrow> 'f task list \<Rightarrow> 'f list" where
  "live_prefix (now # nows) (t # ts) =
     (if hasExpired now t then live_prefix nows ts
      else case func t of Run f \<Rightarrow> f # live_prefix nows ts | SetTerminated \<Rightarrow> [])"
| "live_prefix _ _ = []"

lemma d_rounds_terminated: "d_state d = THREAD_STATE_TERMINATED \<Longrightarrow> d_rounds nows d = ([], d)"
  by (induction nows) (simp_all add: d_round_def)

lemma d_rounds_live: "d_state d \<noteq> THREAD_STATE_TERMINATED \<Longrightarrow>
    fst (d_rounds nows d) = live_prefix nows (taskList d)"
proof (induction nows arbitrary: d)
  case Nil
  then show ?case by (cases "taskList d") simp_all
next
  case (Cons now nows)
  show ?case
  proof (cases "taskList d")
    case Nil
    have "d_round now d = (None, d)" using Nil Cons.prems by (simp add: d_round_def)
    moreover have "live_prefix nows [] = []" by (cases nows) simp_all
    ultimately show ?thesis using Cons Nil by (simp add: split_beta)
  next
    case (Cons t ts)
    with Cons.IH Cons.prems show ?thesis
      by (cases "hasExpired now t"; cases "func t")
        (simp_all add: d_round_def Let_def split_beta d_rounds_terminated)
  qed
qed


section \<open>The scheduler\<close>

record 'f scheduler_task =
  cycle :: int
  eventId :: u32
  ev_func :: 'f

record 'f scheduler =
  s_state :: thread_state
  lastEventId :: u32
  eventList :: "'f scheduler_task list"
  eventIds :: "u32 set"

definition createSchedulerTask :: "int \<Rightarrow> u32 \<Rightarrow> 'f \<Rightarrow> 'f scheduler_task" where
  "createSchedulerTask now delay f = \<lparr>cycle = now + uint delay, eventId = 0, ev_func = f\<rparr>"

definition nextEventId :: "u32 \<Rightarrow> u32" where
  "nextEventId l = (if l + 1 = 0 then 1 else l + 1)"

definition addEvent :: "'f scheduler_task \<Rightarrow> 'f scheduler \<Rightarrow> u32 \<times> 'f scheduler" where
  "addEvent t s =
     (if s_state s = THREAD_STATE_RUNNING then
        let (l, t1) = (if eventId t = 0
                       then (nextEventId (lastEventId s), t\<lparr>eventId := nextEventId (lastEventId s)\<rparr>)
                       else (lastEventId s, t))
        in (eventId t1, s\<lparr>lastEventId := l, eventIds := insert (eventId t1) (eventIds s),
                          eventList := t1 # eventList s\<rparr>)
      else (0, s))"

definition stopEvent :: "u32 \<Rightarrow> 'f scheduler \<Rightarrow> bool \<times> 'f scheduler" where
  "stopEvent eventid s =
     (if eventid = 0 then (False, s)
      else if eventid \<notin> eventIds s then (False, s)
      else (True, s\<lparr>eventIds := eventIds s - {eventid}\<rparr>))"

definition s_shutdown :: "'f scheduler \<Rightarrow> 'f scheduler" where
  "s_shutdown s = s\<lparr>s_state := THREAD_STATE_TERMINATED, eventList := [], eventIds := {}\<rparr>"

text \<open>
  The event list is a heap: its top has the least due time, and which of several is not specified.
  A timeout of the wait takes the top; the result says whether it goes to the dispatcher.
\<close>

definition is_top :: "'f scheduler_task \<Rightarrow> 'f scheduler \<Rightarrow> bool" where
  "is_top t s \<longleftrightarrow> t \<in> set (eventList s) \<and> (\<forall>u \<in> set (eventList s). cycle t \<le> cycle u)"

definition s_timeout :: "'f scheduler_task \<Rightarrow> 'f scheduler \<Rightarrow> 'f task option \<times> 'f scheduler" where
  "s_timeout t s =
     (let s1 = s\<lparr>eventList := remove1 t (eventList s)\<rparr> in
      if eventId t \<notin> eventIds s1 then (None, s1)
      else (Some (setDontExpire \<lparr>expiration = cycle t, func = Run (ev_func t)\<rparr>),
            s1\<lparr>eventIds := eventIds s1 - {eventId t}\<rparr>))"

datatype 'f sched_event =
    Added u32 int 'f
  | Stopped u32 bool
  | Delivered u32 int 'f
  | Dropped u32
  | ShutDown

inductive sched_step :: "'f scheduler \<Rightarrow> 'f sched_event \<Rightarrow> 'f scheduler \<Rightarrow> bool" where
  st_add: "addEvent (createSchedulerTask now delay f) s = (i, s') \<Longrightarrow>
           s_state s = THREAD_STATE_RUNNING \<Longrightarrow> sched_step s (Added i (now + uint delay) f) s'"
| st_stop: "stopEvent i s = (b, s') \<Longrightarrow> sched_step s (Stopped i b) s'"
| st_deliver: "s_state s \<noteq> THREAD_STATE_TERMINATED \<Longrightarrow> is_top t s \<Longrightarrow> cycle t \<le> now \<Longrightarrow>
           s_timeout t s = (Some out, s') \<Longrightarrow> sched_step s (Delivered (eventId t) now (ev_func t)) s'"
| st_drop: "s_state s \<noteq> THREAD_STATE_TERMINATED \<Longrightarrow> is_top t s \<Longrightarrow> cycle t \<le> now \<Longrightarrow>
           s_timeout t s = (None, s') \<Longrightarrow> sched_step s (Dropped (eventId t)) s'"
| st_shutdown: "sched_step s ShutDown (s_shutdown s)"

inductive_cases sched_stepE: "sched_step s e s'"

inductive sched_run :: "'f scheduler \<Rightarrow> 'f sched_event list \<Rightarrow> 'f scheduler \<Rightarrow> bool" where
  run_nil: "sched_run s [] s"
| run_cons: "sched_step s e s' \<Longrightarrow> sched_run s' es s'' \<Longrightarrow> sched_run s (e # es) s''"

inductive_cases sched_run_NilE [elim!]: "sched_run s [] s'"
inductive_cases sched_run_ConsE: "sched_run s (e # es) s'"

definition fresh_scheduler :: "'f scheduler" where
  "fresh_scheduler = \<lparr>s_state = THREAD_STATE_RUNNING, lastEventId = 0, eventList = [], eventIds = {}\<rparr>"

definition is_add :: "'f sched_event \<Rightarrow> bool" where
  "is_add e = (case e of Added _ _ _ \<Rightarrow> True | _ \<Rightarrow> False)"

definition adds :: "'f sched_event list \<Rightarrow> nat" where
  "adds es = length (filter is_add es)"

text \<open>Ids given out count the additions, as long as the counter has not gone round.\<close>

definition sched_inv :: "nat \<Rightarrow> 'f scheduler \<Rightarrow> bool" where
  "sched_inv n s \<longleftrightarrow> unat (lastEventId s) = n \<and> distinct (map eventId (eventList s)) \<and>
     (\<forall>t \<in> set (eventList s). 0 < unat (eventId t) \<and> unat (eventId t) \<le> n) \<and>
     eventIds s \<subseteq> eventId ` set (eventList s)"

lemma nextEventId_count: "unat l < 2 ^ 32 - 1 \<Longrightarrow> unat (nextEventId l) = Suc (unat l)"
proof -
  assume "unat l < 2 ^ 32 - 1"
  then have "unat (l + 1) = Suc (unat l)" by (simp add: unat_plus_nowrap)
  moreover from this have "l + 1 \<noteq> 0" by (metis nat.distinct(1) unat_0)
  ultimately show ?thesis by (simp add: nextEventId_def)
qed

lemma sched_inv_pop:
  assumes "sched_inv n s" "t \<in> set (eventList s)"
  shows "sched_inv n (s\<lparr>eventList := remove1 t (eventList s), eventIds := eventIds s - {eventId t}\<rparr>)"
proof -
  have "eventIds s - {eventId t} \<subseteq> eventId ` set (remove1 t (eventList s))"
  proof
    fix i assume "i \<in> eventIds s - {eventId t}"
    then obtain u where "u \<in> set (eventList s)" "i = eventId u" "u \<noteq> t"
      using assms(1) by (auto simp: sched_inv_def)
    then show "i \<in> eventId ` set (remove1 t (eventList s))" by (simp add: image_eqI)
  qed
  moreover have "distinct (map eventId (remove1 t (eventList s)))"
    using assms(1) by (auto simp: sched_inv_def distinct_map distinct_remove1 inj_on_def
        dest: subsetD [OF set_remove1_subset])
  ultimately show ?thesis using assms(1)
    by (auto simp: sched_inv_def dest: subsetD [OF set_remove1_subset])
qed

lemma sched_inv_step:
  assumes "sched_step s e s'" "sched_inv n s" "n + (if is_add e then 1 else 0) < 2 ^ 32"
  shows "sched_inv (n + (if is_add e then 1 else 0)) s'"
  using assms
proof (cases rule: sched_step.cases)
  case (st_add now delay f i)
  have "unat (nextEventId (lastEventId s)) = Suc n"
    using assms st_add by (subst nextEventId_count) (simp_all add: sched_inv_def is_add_def)
  moreover from this have "nextEventId (lastEventId s) \<notin> eventId ` set (eventList s)"
    using assms(2) by (auto simp: sched_inv_def)
  ultimately show ?thesis using assms st_add
    by (auto simp: sched_inv_def addEvent_def createSchedulerTask_def is_add_def dest: le_SucI)
next
  case (st_stop i b)
  with assms show ?thesis by (auto simp: sched_inv_def stopEvent_def is_add_def split: if_splits)
next
  case (st_deliver t now out)
  then have "s' = s\<lparr>eventList := remove1 t (eventList s), eventIds := eventIds s - {eventId t}\<rparr>"
    "t \<in> set (eventList s)"
    by (auto simp: s_timeout_def is_top_def Let_def split: if_splits)
  with sched_inv_pop [OF assms(2)] st_deliver show ?thesis by (simp add: is_add_def)
next
  case (st_drop t now)
  then have "s' = s\<lparr>eventList := remove1 t (eventList s), eventIds := eventIds s - {eventId t}\<rparr>"
    "t \<in> set (eventList s)"
    by (auto simp: s_timeout_def is_top_def Let_def split: if_splits)
  with sched_inv_pop [OF assms(2)] st_drop show ?thesis by (simp add: is_add_def)
next
  case st_shutdown
  with assms show ?thesis by (auto simp: sched_inv_def s_shutdown_def is_add_def)
qed

lemma dead_id_step:
  assumes "sched_step s e s'" "sched_inv n s" "n + (if is_add e then 1 else 0) < 2 ^ 32"
    and "unat i \<le> n" "i \<notin> eventIds s"
  shows "i \<notin> eventIds s'" "e \<noteq> Delivered i now f"
proof -
  have "nextEventId (lastEventId s) \<noteq> i" if "is_add e"
    using assms that nextEventId_count [of "lastEventId s"] by (auto simp: sched_inv_def)
  then show "i \<notin> eventIds s'" using assms(1,5)
    by (auto elim!: sched_stepE simp: addEvent_def createSchedulerTask_def stopEvent_def s_timeout_def
        s_shutdown_def is_add_def Let_def split: if_splits)
  show "e \<noteq> Delivered i now f" using assms(1,5)
    by (auto elim!: sched_stepE simp: s_timeout_def Let_def split: if_splits)
qed

lemma adds_Cons: "adds (e # es) = (if is_add e then 1 else 0) + adds es"
  by (simp add: adds_def)

lemma dead_id_run:
  "sched_run s es s' \<Longrightarrow> sched_inv n s \<Longrightarrow> n + adds es < 2 ^ 32 \<Longrightarrow> unat i \<le> n \<Longrightarrow> i \<notin> eventIds s
   \<Longrightarrow> Delivered i now f \<notin> set es"
proof (induction arbitrary: n rule: sched_run.induct)
  case (run_cons s e s' es s'')
  define k where "k = (if is_add e then 1 else 0 :: nat)"
  have lt: "n + k < 2 ^ 32" using run_cons.prems(2) by (simp add: adds_Cons k_def)
  have "sched_inv (n + k) s'"
    unfolding k_def by (rule sched_inv_step [OF run_cons.hyps(1) run_cons.prems(1) lt [unfolded k_def]])
  moreover have "i \<notin> eventIds s'" "e \<noteq> Delivered i now f"
    using dead_id_step [OF run_cons.hyps(1) run_cons.prems(1) lt [unfolded k_def] run_cons.prems(3,4)] by blast+
  ultimately show ?case
    using run_cons.IH [of "n + k"] run_cons.prems(2,3) by (simp add: adds_Cons k_def)
qed simp

lemma sched_run_append: "sched_run s (es @ fs) s'' \<longleftrightarrow> (\<exists>s'. sched_run s es s' \<and> sched_run s' fs s'')"
proof (induction es arbitrary: s)
  case Nil
  show ?case by (auto intro: run_nil)
next
  case (Cons e es)
  then show ?case by (fastforce elim: sched_run_ConsE intro: run_cons)
qed

lemma sched_inv_run:
  "sched_run s es s' \<Longrightarrow> sched_inv n s \<Longrightarrow> n + adds es < 2 ^ 32 \<Longrightarrow> sched_inv (n + adds es) s'"
proof (induction arbitrary: n rule: sched_run.induct)
  case (run_nil s)
  then show ?case by (simp add: adds_def)
next
  case (run_cons s e s' es s'')
  have "sched_inv (n + (if is_add e then 1 else 0)) s'"
    using run_cons.prems by (intro sched_inv_step [OF run_cons.hyps(1)]) (simp_all add: adds_Cons)
  with run_cons.IH run_cons.prems(2) show ?case by (fastforce simp: adds_Cons add.assoc)
qed

lemma sched_inv_fresh: "sched_inv 0 fresh_scheduler"
  by (simp add: sched_inv_def fresh_scheduler_def)

lemma queued_was_added:
  "sched_run s es s' \<Longrightarrow> t \<in> set (eventList s') \<Longrightarrow>
   t \<in> set (eventList s) \<or> Added (eventId t) (cycle t) (ev_func t) \<in> set es"
proof (induction rule: sched_run.induct)
  case (run_cons s e s' es s'')
  have "u \<in> set (eventList s) \<or> e = Added (eventId u) (cycle u) (ev_func u)"
    if "u \<in> set (eventList s')" for u
    using run_cons.hyps(1) that
    by (auto elim!: sched_stepE simp: addEvent_def createSchedulerTask_def stopEvent_def s_timeout_def
        s_shutdown_def Let_def split: if_splits) (erule in_set_remove1D)+
  with run_cons show ?case by auto
qed simp

lemma adds_append [simp]: "adds (es @ fs) = adds es + adds fs"
  by (simp add: adds_def)

text \<open>
C24.
  A stopped event stays stopped: once \<open>stopEvent\<close> has answered true for an id, no later timeout
  hands an event with this id to the dispatcher, for the first \<open>2 ^ 32 - 1\<close> events of the server.
\<close>

theorem stopEvent_prevents_delivery:
  assumes "sched_run fresh_scheduler (es @ Stopped i True # fs) s"
    and "adds (es @ fs) < 2 ^ 32"
  shows "Delivered i now f \<notin> set fs"
proof -
  obtain s1 s2 where s1: "sched_run fresh_scheduler es s1" and st: "sched_step s1 (Stopped i True) s2"
    and s2: "sched_run s2 fs s"
    using assms(1) by (auto simp: sched_run_append elim: sched_run_ConsE)
  have inv1: "sched_inv (adds es) s1"
    using sched_inv_run [OF s1 sched_inv_fresh] assms(2) by simp
  with st have "i \<in> eventIds s1" "i \<notin> eventIds s2"
    by (auto elim!: sched_stepE simp: stopEvent_def split: if_splits)
  moreover from this inv1 have "unat i \<le> adds es" by (auto simp: sched_inv_def)
  moreover have "sched_inv (adds es) s2"
    using sched_inv_step [OF st inv1] assms(2) by (simp add: is_add_def)
  ultimately show ?thesis using dead_id_run [OF s2] assms(2) by simp
qed

text \<open>
C25.
  Every event the scheduler hands over was added before with the same function, is due, and is
  handed over only once.
\<close>

theorem delivered_once_when_due:
  assumes "sched_run fresh_scheduler (es @ Delivered i now f # fs) s"
    and "adds (es @ fs) < 2 ^ 32"
  shows "(\<exists>due \<le> now. Added i due f \<in> set es) \<and> (\<forall>t g. Delivered i t g \<notin> set fs)"
proof -
  obtain s1 s2 where s1: "sched_run fresh_scheduler es s1" and st: "sched_step s1 (Delivered i now f) s2"
    and s2: "sched_run s2 fs s"
    using assms(1) by (auto simp: sched_run_append elim: sched_run_ConsE)
  have inv1: "sched_inv (adds es) s1"
    using sched_inv_run [OF s1 sched_inv_fresh] assms(2) by simp
  obtain t out where t: "is_top t s1" "cycle t \<le> now" "s_timeout t s1 = (Some out, s2)"
    "i = eventId t" "f = ev_func t"
    using st by (auto elim: sched_stepE)
  then have "Added i (cycle t) f \<in> set es"
    using queued_was_added [OF s1, of t] by (simp add: is_top_def fresh_scheduler_def)
  moreover have "i \<in> eventIds s1" "i \<notin> eventIds s2"
    using t by (auto simp: s_timeout_def Let_def split: if_splits)
  moreover from this inv1 have "unat i \<le> adds es" by (auto simp: sched_inv_def)
  moreover have "sched_inv (adds es) s2"
    using sched_inv_step [OF st inv1] assms(2) by (simp add: is_add_def)
  ultimately show ?thesis using dead_id_run [OF s2] assms(2) t(2) by auto
qed

text \<open>A run with two events, the second of which is stopped.\<close>

definition ex_task :: "u32 \<Rightarrow> nat scheduler_task" where
  "ex_task i = \<lparr>cycle = 100, eventId = i, ev_func = 0\<rparr>"

lemma example_run:
  "sched_run fresh_scheduler [Added 1 100 (0 :: nat), Added 2 100 0, Stopped 2 True, Delivered 1 100 0]
     \<lparr>s_state = THREAD_STATE_RUNNING, lastEventId = 2, eventList = [ex_task 2], eventIds = {}\<rparr>"
proof -
  let ?s = "\<lambda>l es ids. \<lparr>s_state = THREAD_STATE_RUNNING, lastEventId = l, eventList = es, eventIds = ids\<rparr>"
  have "sched_step fresh_scheduler (Added 1 100 0) (?s 1 [ex_task 1] {1})"
    using st_add [of 50 50 0 fresh_scheduler]
    by (simp add: addEvent_def createSchedulerTask_def nextEventId_def fresh_scheduler_def ex_task_def)
  moreover have "sched_step (?s 1 [ex_task 1] {1}) (Added 2 100 0) (?s 2 [ex_task 2, ex_task 1] {1, 2})"
    using st_add [of 50 50 0 "?s 1 [ex_task 1] {1}"]
    by (simp add: addEvent_def createSchedulerTask_def nextEventId_def ex_task_def insert_commute)
  moreover have "sched_step (?s 2 [ex_task 2, ex_task 1] {1, 2}) (Stopped 2 True) (?s 2 [ex_task 2, ex_task 1] {1})"
    by (rule st_stop) (simp add: stopEvent_def insert_Diff_if)
  moreover have "sched_step (?s 2 [ex_task 2, ex_task 1] {1}) (Delivered 1 100 0) (?s 2 [ex_task 2] {})"
    using st_deliver [of "?s 2 [ex_task 2, ex_task 1] {1}" "ex_task 1" 100]
    by (simp add: is_top_def s_timeout_def ex_task_def)
  ultimately show ?thesis by (blast intro: sched_run.intros)
qed

theorem stopEvent_prevents_delivery_witness: "Delivered 2 100 (0 :: nat) \<notin> set [Delivered 1 100 0]"
proof -
  have "sched_run fresh_scheduler ([Added 1 100 (0 :: nat), Added 2 100 0] @ Stopped 2 True # [Delivered 1 100 0])
     \<lparr>s_state = THREAD_STATE_RUNNING, lastEventId = 2, eventList = [ex_task 2], eventIds = {}\<rparr>"
    using example_run by simp
  then show ?thesis by (rule stopEvent_prevents_delivery) (simp add: adds_def is_add_def)
qed

theorem delivered_once_when_due_witness:
  "\<exists>due \<le> 100. Added 1 due (0 :: nat) \<in> set [Added 1 100 0, Added 2 100 0, Stopped 2 True]"
proof -
  have "sched_run fresh_scheduler ([Added 1 100 (0 :: nat), Added 2 100 0, Stopped 2 True] @ Delivered 1 100 0 # [])
     \<lparr>s_state = THREAD_STATE_RUNNING, lastEventId = 2, eventList = [ex_task 2], eventIds = {}\<rparr>"
    using example_run by simp
  from delivered_once_when_due [OF this] show ?thesis by (simp add: adds_def is_add_def)
qed


end
