(* ===== verification/Prop_Stream.thy ===== *)
theory Prop_Stream imports Tfs_Prelude begin

text \<open>
  \<open>PropStream\<close> and \<open>PropWriteStream\<close> of \<open>src/src/fileloader.h\<close>: reading and writing integers and
  strings in the byte buffers in which items, conditions and the map are stored. A reader is the list
  of bytes between its two pointers; a read gives the value, if there is one, and the new stream.
\<close>

section \<open>Reading and writing\<close>

definition bytes_of :: "string \<Rightarrow> byte list" where
  "bytes_of s = map of_char s"

definition string_of :: "byte list \<Rightarrow> string" where
  "string_of bs = map (\<lambda>b. char_of (unat b)) bs"

definition prop_init :: "byte list \<Rightarrow> nat \<Rightarrow> byte list" where
  "prop_init a sz = take sz a"

definition prop_size :: "byte list \<Rightarrow> nat" where
  "prop_size p = length p"

definition sizeof :: "'a::len itself \<Rightarrow> nat" where
  "sizeof (_ :: 'a itself) = LENGTH('a) div 8"

definition prop_read :: "byte list \<Rightarrow> 'a::len word option \<times> byte list" where
  "prop_read p =
     (if prop_size p < sizeof TYPE('a) then (None, p)
      else (Some (le_dec (take (sizeof TYPE('a)) p)), drop (sizeof TYPE('a)) p))"

definition readString :: "byte list \<Rightarrow> string option \<times> byte list" where
  "readString p =
     (case prop_read p of
        (None, p1) \<Rightarrow> (None, p1)
      | (Some (strLen :: u16), p1) \<Rightarrow>
          if prop_size p1 < unat strLen then (None, p1)
          else (Some (string_of (take (unat strLen) p1)), drop (unat strLen) p1))"

definition prop_skip :: "nat \<Rightarrow> byte list \<Rightarrow> bool \<times> byte list" where
  "prop_skip n p = (if prop_size p < n then (False, p) else (True, drop n p))"

text \<open>\<open>write(add)\<close> and \<open>writeString\<close> append these bytes to the buffer.\<close>

definition prop_write :: "'a::len word \<Rightarrow> byte list" where
  "prop_write add = le_enc (sizeof TYPE('a)) add"

definition writeString :: "string \<Rightarrow> byte list" where
  "writeString str =
     (if length str > 65535 then prop_write (0 :: u16)
      else prop_write (of_nat (length str) :: u16) @ bytes_of str)"

lemma sizeof_simps [simp]:
  "sizeof TYPE(8) = 1" "sizeof TYPE(16) = 2" "sizeof TYPE(32) = 4" "sizeof TYPE(64) = 8"
  by (simp_all add: sizeof_def)

lemma char_of_unat_of_char [simp]: "char_of (unat (of_char c :: byte)) = c"
proof -
  have "(of_char c :: byte) = of_nat (of_char c)" by (simp only: of_nat_of_char)
  then have "unat (of_char c :: byte) = of_char c mod 256"
    by (simp only: unsigned_of_nat) (simp add: take_bit_eq_mod)
  then show ?thesis by simp
qed

lemma of_char_char_of_unat [simp]: "of_char (char_of (unat b)) = (b :: byte)"
proof -
  have "(of_char (char_of (unat b)) :: byte) = of_nat (of_char (char_of (unat b)))"
    by (simp only: of_nat_of_char)
  also have "\<dots> = of_nat (unat b mod 256)" by (simp only: of_char_of)
  finally show ?thesis by simp
qed

lemma string_of_bytes_of [simp]: "string_of (bytes_of s) = s"
  by (simp add: string_of_def bytes_of_def comp_def)

lemma bytes_of_string_of [simp]: "bytes_of (string_of bs) = bs"
  by (simp add: string_of_def bytes_of_def comp_def)

lemma length_bytes_of [simp]: "length (bytes_of s) = length s"
  by (simp add: bytes_of_def)

lemma length_prop_write [simp]: "length (prop_write (w :: 'a::len word)) = sizeof TYPE('a)"
  by (simp add: prop_write_def)

lemma prop_read_write:
  "LENGTH('a) = 8 * sizeof TYPE('a) \<Longrightarrow> prop_read (prop_write w @ rest) = (Some (w :: 'a::len word), rest)"
  by (simp add: prop_read_def prop_write_def prop_size_def)

lemma readString_writeString:
  "length s \<le> 65535 \<Longrightarrow> readString (writeString s @ rest) = (Some s, rest)"
  by (simp add: readString_def writeString_def prop_read_write prop_size_def unat_of_nat
      take_bit_nat_eq_self_iff unsigned_of_nat take_bit_nat_eq_self)

section \<open>The contract of a field codec\<close>

text \<open>
  What the serialised records of the server rely on: reading back what was written gives the value
  and leaves exactly the bytes behind it.
\<close>

locale field_codec =
  fixes enc :: "'v \<Rightarrow> byte list"
    and dec :: "byte list \<Rightarrow> 'v option \<times> byte list"
    and fits :: "'v \<Rightarrow> bool"
  assumes dec_enc: "fits v \<Longrightarrow> dec (enc v @ rest) = (Some v, rest)"
begin

lemma dec_enc_end: "fits v \<Longrightarrow> dec (enc v) = (Some v, [])"
  using dec_enc [of v "[]"] by simp

lemma enc_inject: "fits v \<Longrightarrow> fits w \<Longrightarrow> enc v @ xs = enc w @ ys \<longleftrightarrow> v = w \<and> xs = ys"
  by (metis dec_enc option.inject prod.inject)

lemma enc_prefix_free: "fits v \<Longrightarrow> fits w \<Longrightarrow> enc v = enc w @ ys \<Longrightarrow> v = w \<and> ys = []"
  using enc_inject [of v w "[]" ys] by simp

end

interpretation u8f: field_codec "prop_write :: u8 \<Rightarrow> _" prop_read "\<lambda>_. True"
  by unfold_locales (simp add: prop_read_write)

interpretation u16f: field_codec "prop_write :: u16 \<Rightarrow> _" prop_read "\<lambda>_. True"
  by unfold_locales (simp add: prop_read_write)

interpretation u32f: field_codec "prop_write :: u32 \<Rightarrow> _" prop_read "\<lambda>_. True"
  by unfold_locales (simp add: prop_read_write)

interpretation u64f: field_codec "prop_write :: u64 \<Rightarrow> _" prop_read "\<lambda>_. True"
  by unfold_locales (simp add: prop_read_write)

interpretation strf: field_codec writeString readString "\<lambda>s. length s \<le> 65535"
  by unfold_locales (rule readString_writeString)

lemmas field_reads [simp] = u8f.dec_enc u16f.dec_enc u32f.dec_enc u64f.dec_enc strf.dec_enc
  u8f.dec_enc_end u16f.dec_enc_end u32f.dec_enc_end u64f.dec_enc_end strf.dec_enc_end

section \<open>Sequences of fields\<close>

datatype prop_field = F8 u8 | F16 u16 | F32 u32 | F64 u64 | FStr string

datatype field_kind = K8 | K16 | K32 | K64 | KStr

fun kind_of :: "prop_field \<Rightarrow> field_kind" where
  "kind_of (F8 _) = K8" | "kind_of (F16 _) = K16" | "kind_of (F32 _) = K32"
| "kind_of (F64 _) = K64" | "kind_of (FStr _) = KStr"

fun write_field :: "prop_field \<Rightarrow> byte list" where
  "write_field (F8 w) = prop_write w"
| "write_field (F16 w) = prop_write w"
| "write_field (F32 w) = prop_write w"
| "write_field (F64 w) = prop_write w"
| "write_field (FStr s) = writeString s"

fun read_field :: "field_kind \<Rightarrow> byte list \<Rightarrow> prop_field option \<times> byte list" where
  "read_field K8 p = map_prod (map_option F8) id (prop_read p)"
| "read_field K16 p = map_prod (map_option F16) id (prop_read p)"
| "read_field K32 p = map_prod (map_option F32) id (prop_read p)"
| "read_field K64 p = map_prod (map_option F64) id (prop_read p)"
| "read_field KStr p = map_prod (map_option FStr) id (readString p)"

fun read_fields :: "field_kind list \<Rightarrow> byte list \<Rightarrow> prop_field list option \<times> byte list" where
  "read_fields [] p = (Some [], p)"
| "read_fields (k # ks) p =
     (case read_field k p of
        (None, p1) \<Rightarrow> (None, p1)
      | (Some v, p1) \<Rightarrow> (case read_fields ks p1 of (r, p2) \<Rightarrow> (map_option ((#) v) r, p2)))"

definition field_fits :: "prop_field \<Rightarrow> bool" where
  "field_fits v \<longleftrightarrow> (case v of FStr s \<Rightarrow> length s \<le> 65535 | _ \<Rightarrow> True)"

lemma read_write_field: "field_fits v \<Longrightarrow> read_field (kind_of v) (write_field v @ rest) = (Some v, rest)"
  by (cases v) (simp_all add: field_fits_def)

text \<open>
  What \<open>PropWriteStream\<close> writes, \<open>PropStream\<close> reads: a sequence of integers and strings (of at most
  65535 characters) comes back, field by field, and the bytes that follow stay in the stream.
\<close>

theorem read_fields_write:
  assumes "list_all field_fits vs"
  shows "read_fields (map kind_of vs) (concat (map write_field vs) @ rest) = (Some vs, rest)"
  using assms by (induction vs) (simp_all add: read_write_field)

theorem read_fields_write_witness:
  "read_fields [K16, KStr] (concat (map write_field [F16 7, FStr ''ab'']) @ [9]) =
     (Some [F16 7, FStr ''ab''], [9])"
  using read_fields_write [of "[F16 7, FStr ''ab'']" "[9]"] by (simp add: field_fits_def)

text \<open>A string of more than 65535 characters is written as the empty one.\<close>

lemma writeString_too_long: "65535 < length s \<Longrightarrow> readString (writeString s @ rest) = (Some [], rest)"
  by (simp add: readString_def writeString_def prop_read_write prop_size_def string_of_def)

text \<open>Reads never run past the end: the stream that is left is a part of the stream read.\<close>

lemma prop_read_suffix: "prop_read p = (r, p') \<Longrightarrow> length p' \<le> length p"
  by (auto simp: prop_read_def split: if_splits)

lemma readString_suffix: "readString p = (r, p') \<Longrightarrow> length p' \<le> length p"
  by (auto simp: readString_def prop_read_def split: prod.splits option.splits if_splits)

end
