(* ===== verification/Otb_Loader.thy ===== *)
theory Otb_Loader imports Prop_Stream begin

text \<open>
  \<open>OTB::Loader\<close> of \<open>src/src/fileloader.cpp\<close>: the reader of the node trees in which the item table
  and the map are stored. Iterators into the file are byte offsets. The stack of node pointers is a
  list of the nodes still open, the innermost first; a node joins its parent's children when it is
  closed, which is when the code stops touching it through the stack.
\<close>

section \<open>The parser\<close>

datatype otb_node = OtbNode (otb_type: byte) (propsBegin: nat) (propsEnd: nat) (otb_children: "otb_node list")

datatype otb_error = InvalidOTBFormat

abbreviation "ESCAPE \<equiv> (0xFD :: byte)"
abbreviation "START \<equiv> (0xFE :: byte)"
abbreviation "END_NODE \<equiv> (0xFF :: byte)"

definition wildcard_id :: "byte list" where
  "wildcard_id = [0, 0, 0, 0]"

definition load_file :: "byte list \<Rightarrow> byte list \<Rightarrow> otb_error + byte list" where
  "load_file fileContents acceptedIdentifier =
     (let minimalSize = 4 + 1 + 1 + 1 in
      if length fileContents \<le> minimalSize then Inl InvalidOTBFormat
      else let fileIdentifier = take 4 fileContents in
        if fileIdentifier \<noteq> acceptedIdentifier \<and> fileIdentifier \<noteq> wildcard_id then Inl InvalidOTBFormat
        else Inr fileContents)"

definition end_props :: "nat \<Rightarrow> otb_node \<Rightarrow> otb_node" where
  "end_props it n = (if otb_children n = [] then OtbNode (otb_type n) (propsBegin n) it [] else n)"

definition add_child :: "otb_node \<Rightarrow> otb_node \<Rightarrow> otb_node" where
  "add_child c n = OtbNode (otb_type n) (propsBegin n) (propsEnd n) (otb_children n @ [c])"

text \<open>
  \<open>pop\<close> leaves the closed node in its parent's vector; the outermost one is \<open>root\<close>. The new node's
  \<open>propsEnd\<close> is not set yet; zero stands for it.
\<close>

definition pop_node :: "otb_node \<Rightarrow> otb_node list \<Rightarrow> otb_node option \<Rightarrow> otb_node list \<times> otb_node option" where
  "pop_node n st root = (case st of [] \<Rightarrow> ([], Some n) | p # ps \<Rightarrow> (add_child n p # ps, root))"

fun parse_loop :: "nat \<Rightarrow> byte list \<Rightarrow> otb_node list \<Rightarrow> otb_node option \<Rightarrow> otb_error + otb_node" where
  "parse_loop it [] stack root =
     (case (stack, root) of ([], Some r) \<Rightarrow> Inr r | _ \<Rightarrow> Inl InvalidOTBFormat)"
| "parse_loop it (b # bs) stack root =
     (if b = START then
        (case stack of
           [] \<Rightarrow> Inl InvalidOTBFormat
         | n # st \<Rightarrow>
             (case bs of
                [] \<Rightarrow> Inl InvalidOTBFormat
              | t # bs' \<Rightarrow> parse_loop (it + 2) bs' (OtbNode t (it + 2) 0 [] # end_props it n # st) root))
      else if b = END_NODE then
        (case stack of
           [] \<Rightarrow> Inl InvalidOTBFormat
         | n # st \<Rightarrow> (case pop_node (end_props it n) st root of
             (stack', root') \<Rightarrow> parse_loop (it + 1) bs stack' root'))
      else if b = ESCAPE then
        (case bs of
           [] \<Rightarrow> Inl InvalidOTBFormat
         | _ # bs' \<Rightarrow> parse_loop (it + 2) bs' stack root)
      else parse_loop (it + 1) bs stack root)"

definition parseTree :: "byte list \<Rightarrow> otb_error + otb_node" where
  "parseTree fileContents =
     (if fileContents ! 4 \<noteq> START then Inl InvalidOTBFormat
      else parse_loop 6 (drop 6 fileContents) [OtbNode (fileContents ! 5) 6 0 []] None)"

text \<open>\<open>copy_if\<close> with the flag \<open>lastEscaped\<close>.\<close>

fun unescape :: "bool \<Rightarrow> byte list \<Rightarrow> byte list" where
  "unescape lastEscaped [] = []"
| "unescape lastEscaped (b # bs) =
     (let lastEscaped' = (b = ESCAPE \<and> \<not> lastEscaped) in
      if \<not> lastEscaped' then b # unescape lastEscaped' bs else unescape lastEscaped' bs)"

definition getProps :: "byte list \<Rightarrow> otb_node \<Rightarrow> byte list option" where
  "getProps fileContents node =
     (let size = propsEnd node - propsBegin node in
      if size = 0 then None
      else Some (unescape False (take size (drop (propsBegin node) fileContents))))"

section \<open>The file format\<close>

text \<open>A tree as the format means it, and its image in a file.\<close>

datatype otb_tree = OtbTree byte "byte list" "otb_tree list"

fun escape :: "byte list \<Rightarrow> byte list" where
  "escape [] = []"
| "escape (b # bs) = (if b = ESCAPE \<or> b = START \<or> b = END_NODE then [ESCAPE, b] else [b]) @ escape bs"

fun otb_image :: "otb_tree \<Rightarrow> byte list" where
  "otb_image (OtbTree t ps cs) = [START, t] @ escape ps @ concat (map otb_image cs) @ [END_NODE]"

text \<open>The tree that a parsed node stands for.\<close>

fun tree_of :: "byte list \<Rightarrow> otb_node \<Rightarrow> otb_tree" where
  "tree_of f (OtbNode t b e cs) =
     OtbTree t (case getProps f (OtbNode t b e cs) of None \<Rightarrow> [] | Some ps \<Rightarrow> ps) (map (tree_of f) cs)"

lemma unescape_escape: "unescape False (escape ps) = ps"
  by (induction ps) auto

text \<open>Where the parser puts the nodes of a tree whose image begins at offset \<open>i\<close>.\<close>

fun nodes_at :: "nat \<Rightarrow> otb_tree list \<Rightarrow> otb_node list"
  and node_at :: "nat \<Rightarrow> otb_tree \<Rightarrow> otb_node" where
  "nodes_at i [] = []"
| "nodes_at i (c # cs) = node_at i c # nodes_at (i + length (otb_image c)) cs"
| "node_at i (OtbTree t ps cs) =
     OtbNode t (i + 2) (i + 2 + length (escape ps)) (nodes_at (i + 2 + length (escape ps)) cs)"

lemma parse_escaped:
  "parse_loop it (escape ps @ bs) stack root = parse_loop (it + length (escape ps)) bs stack root"
  by (induction ps arbitrary: it) auto

lemma end_props_idem: "otb_children n \<noteq> [] \<Longrightarrow> end_props i n = n"
  by (simp add: end_props_def)

lemma otb_children_add [simp]: "otb_children (add_child c n) = otb_children n @ [c]"
  by (simp add: add_child_def)

text \<open>An open node after its properties: the children parsed so far were appended to it.\<close>

definition with_children :: "otb_node \<Rightarrow> nat \<Rightarrow> otb_node list \<Rightarrow> otb_node" where
  "with_children n it cs = (if cs = [] then n
     else OtbNode (otb_type n) (propsBegin n) (if otb_children n = [] then it else propsEnd n)
       (otb_children n @ cs))"

lemma with_children_Cons:
  "with_children (add_child c (end_props it n)) j cs = with_children n it (c # cs)"
  by (cases cs) (auto simp: with_children_def end_props_def add_child_def)

lemma end_with_children:
  "end_props it (with_children (OtbNode t b 0 []) it0 cs) =
     OtbNode t b (if cs = [] then it else it0) cs"
  by (auto simp: end_props_def with_children_def)

lemma nodes_at_node_at_induct [case_names Nil Cons Tree]:
  fixes cs :: "otb_tree list" and c :: otb_tree
  assumes "P []" "\<And>c cs. Q c \<Longrightarrow> P cs \<Longrightarrow> P (c # cs)" "\<And>t ps cs. P cs \<Longrightarrow> Q (OtbTree t ps cs)"
  shows "P cs" and "Q c"
proof -
  have q: "Q c" for c
  proof (induction c)
    case (OtbTree t ps cs)
    then have "P cs" by (induction cs) (auto intro: assms(1,2))
    then show ?case by (rule assms(3))
  qed
  then show "Q c" .
  show "P cs" by (induction cs) (auto intro: assms(1,2) q)
qed

lemma parse_image:
  fixes cs :: "otb_tree list" and c :: otb_tree
  shows "\<And>it bs n st root. parse_loop it (concat (map otb_image cs) @ bs) (n # st) root =
      parse_loop (it + length (concat (map otb_image cs))) bs (with_children n it (nodes_at it cs) # st) root"
    and "\<And>it bs n st root. parse_loop it (otb_image c @ bs) (n # st) root =
      parse_loop (it + length (otb_image c)) bs (add_child (node_at it c) (end_props it n) # st) root"

proof (induction cs and c rule: nodes_at_node_at_induct)
  case Nil
  then show ?case by (simp add: with_children_def)
next
  case (Cons c cs)
  then show ?case by (simp add: with_children_Cons add.assoc)
next
  case (Tree t ps cs)
  have "parse_loop it (otb_image (OtbTree t ps cs) @ bs) (n # st) root =
    parse_loop (it + 2 + length (escape ps)) (concat (map otb_image cs) @ END_NODE # bs)
      (OtbNode t (it + 2) 0 [] # end_props it n # st) root" for it bs n st root
    by (simp add: parse_escaped)
  moreover have "nodes_at j cs = [] \<longleftrightarrow> cs = []" for j by (cases cs) simp_all
  ultimately show ?case by (simp add: Tree end_with_children pop_node_def ac_simps)
qed

lemma tree_of_node_at:
  fixes cs :: "otb_tree list" and c :: otb_tree
  shows "\<And>pre post. map (tree_of (pre @ concat (map otb_image cs) @ post)) (nodes_at (length pre) cs) = cs"
    and "\<And>pre post. tree_of (pre @ otb_image c @ post) (node_at (length pre) c) = c"
proof (induction cs and c rule: nodes_at_node_at_induct)
  case (Cons c cs)
  have "tree_of (pre @ concat (map otb_image (c # cs)) @ post) (node_at (length pre) c) = c"
    using Cons(1) [of pre "concat (map otb_image cs) @ post"] by simp
  moreover have "map (tree_of (pre @ concat (map otb_image (c # cs)) @ post))
      (nodes_at (length pre + length (otb_image c)) cs) = cs"
    using Cons(2) [of "pre @ otb_image c" post] by simp
  ultimately show ?case by simp
next
  case (Tree t ps cs)
  have cs: "map (tree_of (pre @ otb_image (OtbTree t ps cs) @ post))
      (nodes_at (length pre + 2 + length (escape ps)) cs) = cs"
    using Tree [of "pre @ [START, t] @ escape ps" "END_NODE # post"] by (simp add: ac_simps)
  have "take (length (escape ps)) (drop (length pre + 2) (pre @ otb_image (OtbTree t ps cs) @ post)) = escape ps"
    by simp
  moreover have "escape ps = [] \<longleftrightarrow> ps = []" by (cases ps) auto
  ultimately have "(case getProps (pre @ otb_image (OtbTree t ps cs) @ post)
        (node_at (length pre) (OtbTree t ps cs)) of None \<Rightarrow> [] | Some q \<Rightarrow> q) = ps"
    by (simp add: getProps_def Let_def unescape_escape del: otb_image.simps)
  with cs show ?case by simp
qed simp

lemma parseTree_image:
  assumes "length ident = 4"
  shows "parseTree (ident @ otb_image root) = Inr (node_at 4 root)"
proof -
  obtain t ps cs where root: "root = OtbTree t ps cs" by (cases root)
  have nth: "(ident @ otb_image root) ! 4 = START" "(ident @ otb_image root) ! 5 = t"
    using assms by (simp_all add: root nth_append)
  have dr: "drop 6 (ident @ otb_image root) = escape ps @ concat (map otb_image cs) @ [END_NODE]"
    using assms by (simp add: root)
  have "nodes_at j cs = [] \<longleftrightarrow> cs = []" for j by (cases cs) simp_all
  then have "parse_loop 6 (escape ps @ concat (map otb_image cs) @ [END_NODE]) [OtbNode t 6 0 []] None =
      Inr (node_at 4 root)"
    by (simp add: parse_escaped parse_image end_with_children pop_node_def root ac_simps)
  then show ?thesis by (simp only: parseTree_def nth dr) simp
qed

text \<open>
C34.
  Loading undoes writing: a file made of an accepted identifier and the image of a node tree, special
  bytes escaped, loads without error into a tree with the same types, properties and children.
\<close>

theorem otb_roundtrip:
  assumes "length ident = 4" "ident = accepted \<or> ident = wildcard_id" "3 < length (otb_image root)"
  shows "\<exists>n. load_file (ident @ otb_image root) accepted = Inr (ident @ otb_image root) \<and>
    parseTree (ident @ otb_image root) = Inr n \<and> tree_of (ident @ otb_image root) n = root"
  using assms parseTree_image [OF assms(1), of root] tree_of_node_at(2) [of ident root "[]"]
  by (simp add: load_file_def Let_def)

theorem otb_roundtrip_witness:
  "\<exists>n. parseTree ([0, 0, 0, 0] @ otb_image (OtbTree 1 [0xFF, 3] [OtbTree 2 [] []])) = Inr n \<and>
    tree_of ([0, 0, 0, 0] @ otb_image (OtbTree 1 [0xFF, 3] [OtbTree 2 [] []])) n = OtbTree 1 [0xFF, 3] [OtbTree 2 [] []]"
  using otb_roundtrip [of "[0, 0, 0, 0]" "[1, 2, 3, 4]" "OtbTree 1 [0xFF, 3] [OtbTree 2 [] []]"]
  by (auto simp: wildcard_id_def)

text \<open>
  Malformed files are refused: brackets that do not match, and a file that ends inside an escape or
  before a node's type. A parse that succeeds has closed every node it opened.
\<close>

fun depth_after :: "byte list \<Rightarrow> nat \<Rightarrow> nat option" where
  "depth_after [] d = Some d"
| "depth_after (b # bs) d =
     (if b = START then (if d = 0 then None else case bs of [] \<Rightarrow> None | _ # bs' \<Rightarrow> depth_after bs' (Suc d))
      else if b = END_NODE then (if d = 0 then None else depth_after bs (d - 1))
      else if b = ESCAPE then (case bs of [] \<Rightarrow> None | _ # bs' \<Rightarrow> depth_after bs' d)
      else depth_after bs d)"

lemma parse_loop_balanced:
  "(stack = [] \<longleftrightarrow> root \<noteq> None) \<Longrightarrow>
   (\<exists>r. parse_loop it bs stack root = Inr r) \<longleftrightarrow> depth_after bs (length stack) = Some 0"
proof (induction it bs stack root rule: parse_loop.induct)
  case (1 it stack root)
  then show ?case by (cases stack) (auto split: option.splits)
next
  case (2 it b bs stack root)
  show ?case
  proof (cases stack)
    case Nil
    with 2 show ?thesis by (auto split: list.splits)
  next
    case (Cons n st)
    with 2 show ?thesis
      by (cases st) (auto simp: pop_node_def split: list.splits)
  qed
qed

end
