(* ===== verification/Positions.thy ===== *)
theory Positions imports Text_Tools begin

text \<open>
  \<open>src/src/position.h\<close>, \<open>src/src/position.cpp\<close> and the direction helpers of \<open>src/src/tools.cpp\<close>.
  \<open>Position\<close> is a datatype with named fields, so that the order of \<open>operator<\<close> can be made the
  order of the type; its coordinates are machine words and wrap as they do in the code.
\<close>

section \<open>Data\<close>

datatype direction =
    DIRECTION_NORTH | DIRECTION_EAST | DIRECTION_SOUTH | DIRECTION_WEST
  | DIRECTION_SOUTHWEST | DIRECTION_SOUTHEAST | DIRECTION_NORTHWEST | DIRECTION_NORTHEAST
  | DIRECTION_NONE

datatype position = Position (pos_x: u16) (pos_y: u16) (pos_z: u8)

definition getOffsetX :: "position \<Rightarrow> position \<Rightarrow> int" where
  "getOffsetX p1 p2 = uint (pos_x p1) - uint (pos_x p2)"

definition getOffsetY :: "position \<Rightarrow> position \<Rightarrow> int" where
  "getOffsetY p1 p2 = uint (pos_y p1) - uint (pos_y p2)"

definition getOffsetZ :: "position \<Rightarrow> position \<Rightarrow> int" where
  "getOffsetZ p1 p2 = uint (pos_z p1) - uint (pos_z p2)"

definition getDistanceX :: "position \<Rightarrow> position \<Rightarrow> int" where
  "getDistanceX p1 p2 = \<bar>getOffsetX p1 p2\<bar>"

definition getDistanceY :: "position \<Rightarrow> position \<Rightarrow> int" where
  "getDistanceY p1 p2 = \<bar>getOffsetY p1 p2\<bar>"

definition getDistanceZ :: "position \<Rightarrow> position \<Rightarrow> int" where
  "getDistanceZ p1 p2 = \<bar>getOffsetZ p1 p2\<bar>"

definition areInRange2 :: "int \<Rightarrow> int \<Rightarrow> position \<Rightarrow> position \<Rightarrow> bool" where
  "areInRange2 deltax deltay p1 p2 \<longleftrightarrow> getDistanceX p1 p2 \<le> deltax \<and> getDistanceY p1 p2 \<le> deltay"

definition areInRange3 :: "int \<Rightarrow> int \<Rightarrow> int \<Rightarrow> position \<Rightarrow> position \<Rightarrow> bool" where
  "areInRange3 deltax deltay deltaz p1 p2 \<longleftrightarrow>
     getDistanceX p1 p2 \<le> deltax \<and> getDistanceY p1 p2 \<le> deltay \<and> getDistanceZ p1 p2 \<le> deltaz"

section \<open>Comparison\<close>

definition position_less :: "position \<Rightarrow> position \<Rightarrow> bool" where
  "position_less a p =
     (if pos_z a < pos_z p then True
      else if pos_z a > pos_z p then False
      else if pos_y a < pos_y p then True
      else if pos_y a > pos_y p then False
      else if pos_x a < pos_x p then True
      else if pos_x a > pos_x p then False
      else False)"

definition position_greater :: "position \<Rightarrow> position \<Rightarrow> bool" where
  "position_greater a p \<longleftrightarrow> \<not> position_less a p"

text \<open>\<open>operator<\<close> is a strict total order, so positions can key the ordered maps of the server.\<close>

instantiation position :: linorder
begin

definition less_position :: "position \<Rightarrow> position \<Rightarrow> bool" where
  "less_position a b = position_less a b"

definition less_eq_position :: "position \<Rightarrow> position \<Rightarrow> bool" where
  "less_eq_position a b \<longleftrightarrow> position_less a b \<or> a = b"

instance
proof
  fix a b c :: position
  show "(a < b) = (a \<le> b \<and> \<not> b \<le> a)"
    by (auto simp: less_position_def less_eq_position_def position_less_def split: if_splits)
  show "a \<le> a" by (simp add: less_eq_position_def)
  show "a \<le> b \<Longrightarrow> b \<le> c \<Longrightarrow> a \<le> c"
    unfolding less_eq_position_def position_less_def
    by (cases a; cases b; cases c) (auto split: if_splits)
  show "a \<le> b \<Longrightarrow> b \<le> a \<Longrightarrow> a = b"
    by (auto simp: less_eq_position_def position_less_def split: if_splits)
  show "a \<le> b \<or> b \<le> a"
    unfolding less_eq_position_def position_less_def
    by (cases a; cases b) auto
qed

end

lemma position_greater_iff: "position_greater a b \<longleftrightarrow> b \<le> a"
  by (metis less_position_def not_less position_greater_def)

section \<open>Directions\<close>

fun getNextPosition :: "direction \<Rightarrow> position \<Rightarrow> position" where
  "getNextPosition DIRECTION_NORTH (Position x y z) = Position x (y - 1) z"
| "getNextPosition DIRECTION_SOUTH (Position x y z) = Position x (y + 1) z"
| "getNextPosition DIRECTION_WEST (Position x y z) = Position (x - 1) y z"
| "getNextPosition DIRECTION_EAST (Position x y z) = Position (x + 1) y z"
| "getNextPosition DIRECTION_SOUTHWEST (Position x y z) = Position (x - 1) (y + 1) z"
| "getNextPosition DIRECTION_NORTHWEST (Position x y z) = Position (x - 1) (y - 1) z"
| "getNextPosition DIRECTION_NORTHEAST (Position x y z) = Position (x + 1) (y - 1) z"
| "getNextPosition DIRECTION_SOUTHEAST (Position x y z) = Position (x + 1) (y + 1) z"
| "getNextPosition DIRECTION_NONE p = p"

definition getDirectionTo :: "position \<Rightarrow> position \<Rightarrow> direction" where
  "getDirectionTo fromp to =
     (let x_offset0 = getOffsetX fromp to;
          dir = (if x_offset0 < 0 then DIRECTION_EAST else DIRECTION_WEST);
          x_offset = (if x_offset0 < 0 then \<bar>x_offset0\<bar> else x_offset0);
          y_offset0 = getOffsetY fromp to
      in if y_offset0 \<ge> 0 then
           if y_offset0 > x_offset then DIRECTION_NORTH
           else if y_offset0 = x_offset then
             if dir = DIRECTION_EAST then DIRECTION_NORTHEAST else DIRECTION_NORTHWEST
           else dir
         else
           let y_offset = \<bar>y_offset0\<bar>
           in if y_offset > x_offset then DIRECTION_SOUTH
              else if y_offset = x_offset then
                if dir = DIRECTION_EAST then DIRECTION_SOUTHEAST else DIRECTION_SOUTHWEST
              else dir)"

definition getDirection :: "string \<Rightarrow> direction" where
  "getDirection s =
     (if s = ''north'' \<or> s = ''n'' \<or> s = ''0'' then DIRECTION_NORTH
      else if s = ''east'' \<or> s = ''e'' \<or> s = ''1'' then DIRECTION_EAST
      else if s = ''south'' \<or> s = ''s'' \<or> s = ''2'' then DIRECTION_SOUTH
      else if s = ''west'' \<or> s = ''w'' \<or> s = ''3'' then DIRECTION_WEST
      else if s = ''southwest'' \<or> s = ''south west'' \<or> s = ''south-west'' \<or> s = ''sw'' \<or> s = ''4''
        then DIRECTION_SOUTHWEST
      else if s = ''southeast'' \<or> s = ''south east'' \<or> s = ''south-east'' \<or> s = ''se'' \<or> s = ''5''
        then DIRECTION_SOUTHEAST
      else if s = ''northwest'' \<or> s = ''north west'' \<or> s = ''north-west'' \<or> s = ''nw'' \<or> s = ''6''
        then DIRECTION_NORTHWEST
      else if s = ''northeast'' \<or> s = ''north east'' \<or> s = ''north-east'' \<or> s = ''ne'' \<or> s = ''7''
        then DIRECTION_NORTHEAST
      else DIRECTION_NORTH)"

fun print_direction :: "direction \<Rightarrow> string" where
  "print_direction DIRECTION_NORTH = ''North''"
| "print_direction DIRECTION_EAST = ''East''"
| "print_direction DIRECTION_WEST = ''West''"
| "print_direction DIRECTION_SOUTH = ''South''"
| "print_direction DIRECTION_SOUTHWEST = ''South-West''"
| "print_direction DIRECTION_SOUTHEAST = ''South-East''"
| "print_direction DIRECTION_NORTHWEST = ''North-West''"
| "print_direction DIRECTION_NORTHEAST = ''North-East''"
| "print_direction DIRECTION_NONE = []"

section \<open>Correctness\<close>

lemmas offset_defs = getOffsetX_def getOffsetY_def getOffsetZ_def
  getDistanceX_def getDistanceY_def getDistanceZ_def

text \<open>One step on a coordinate changes the integer it stands for by one, unless it wraps.\<close>

lemma uint_word_plus_1 [wrap_simps]:
  "uint (w :: 'a::len word) < uint (v :: 'a word) \<Longrightarrow> uint (w + 1) = uint w + 1"
proof -
  assume "uint w < uint v"
  then have "uint w + 1 < 2 ^ LENGTH('a)" using uint_lt2p [of v] by linarith
  then show ?thesis by (simp add: uint_word_ariths)
qed

lemma uint_word_minus_1 [wrap_simps]:
  "uint (v :: 'a::len word) < uint (w :: 'a word) \<Longrightarrow> uint (w - 1) = uint w - 1"
proof -
  assume "uint v < uint w"
  then have "0 \<le> uint w - 1" "uint w - 1 < 2 ^ LENGTH('a)"
    using uint_lt2p [of w] uint_ge_0 [of v] by linarith+
  then show ?thesis by (simp add: uint_word_ariths)
qed

lemma uint_inject_u16: "uint (a :: u16) = uint b \<longleftrightarrow> a = b"
  by (metis word_of_int_uint)

definition chebyshev :: "position \<Rightarrow> position \<Rightarrow> int" where
  "chebyshev p q = max (getDistanceX p q) (getDistanceY p q)"

lemma chebyshev_ge_0 [simp]: "0 \<le> chebyshev p q"
  by (simp add: chebyshev_def offset_defs)

lemma chebyshev_eq_0: "chebyshev p q = 0 \<longleftrightarrow> pos_x p = pos_x q \<and> pos_y p = pos_y q"
  by (auto simp: chebyshev_def offset_defs max_def uint_inject_u16 split: if_splits)

text \<open>The direction as a function of the two coordinate differences, and the step it stands for.\<close>

definition dir_of :: "int \<Rightarrow> int \<Rightarrow> direction" where
  "dir_of dx dy =
     (if \<bar>dx\<bar> < \<bar>dy\<bar> then if dy < 0 then DIRECTION_NORTH else DIRECTION_SOUTH
      else if \<bar>dx\<bar> = \<bar>dy\<bar> then
        if 0 < dx then if 0 < dy then DIRECTION_SOUTHEAST else DIRECTION_NORTHEAST
        else if 0 < dy then DIRECTION_SOUTHWEST else DIRECTION_NORTHWEST
      else if 0 < dx then DIRECTION_EAST else DIRECTION_WEST)"

lemma getDirectionTo_eq:
  "getDirectionTo p q = dir_of (uint (pos_x q) - uint (pos_x p)) (uint (pos_y q) - uint (pos_y p))"
proof -
  have gen: "(let x0 = a - b; dir = (if x0 < 0 then DIRECTION_EAST else DIRECTION_WEST);
                x = (if x0 < 0 then \<bar>x0\<bar> else x0); y0 = c - d
            in if y0 \<ge> 0 then
                 if y0 > x then DIRECTION_NORTH
                 else if y0 = x then
                   if dir = DIRECTION_EAST then DIRECTION_NORTHEAST else DIRECTION_NORTHWEST
                 else dir
               else let y = \<bar>y0\<bar>
                    in if y > x then DIRECTION_SOUTH
                       else if y = x then
                         if dir = DIRECTION_EAST then DIRECTION_SOUTHEAST else DIRECTION_SOUTHWEST
                       else dir) = dir_of (b - a) (d - c)" for a b c d :: int
    unfolding dir_of_def Let_def by (auto split: if_splits)
  show ?thesis
    unfolding getDirectionTo_def getOffsetX_def getOffsetY_def by (rule gen)
qed

lemma chebyshev_Position:
  "chebyshev (Position x y z) (Position x' y' z') = max \<bar>uint x' - uint x\<bar> \<bar>uint y' - uint y\<bar>"
  by (simp add: chebyshev_def offset_defs abs_minus_commute)

lemma dir_of_step:
  assumes "max \<bar>dx\<bar> \<bar>dy\<bar> \<noteq> 0"
    and "0 < dx \<Longrightarrow> uint (x + 1) = uint x + 1" "dx < 0 \<Longrightarrow> uint (x - 1) = uint x - 1"
    and "0 < dy \<Longrightarrow> uint (y + 1) = uint y + 1" "dy < 0 \<Longrightarrow> uint (y - 1) = uint y - 1"
  shows "\<exists>x1 y1. getNextPosition (dir_of dx dy) (Position x y z) = Position x1 y1 z
    \<and> max \<bar>uint x + dx - uint x1\<bar> \<bar>uint y + dy - uint y1\<bar> = max \<bar>dx\<bar> \<bar>dy\<bar> - 1"
proof -
  consider "\<bar>dx\<bar> < \<bar>dy\<bar>" "dy < 0" | "\<bar>dx\<bar> < \<bar>dy\<bar>" "0 < dy"
    | "\<bar>dx\<bar> = \<bar>dy\<bar>" "0 < dx" "0 < dy" | "\<bar>dx\<bar> = \<bar>dy\<bar>" "0 < dx" "dy < 0"
    | "\<bar>dx\<bar> = \<bar>dy\<bar>" "dx < 0" "0 < dy" | "\<bar>dx\<bar> = \<bar>dy\<bar>" "dx < 0" "dy < 0"
    | "\<bar>dy\<bar> < \<bar>dx\<bar>" "0 < dx" | "\<bar>dy\<bar> < \<bar>dx\<bar>" "dx < 0"
  proof -
    have nz: "dx \<noteq> 0 \<or> dy \<noteq> 0" using assms(1) by auto
    consider "\<bar>dx\<bar> < \<bar>dy\<bar>" | "\<bar>dx\<bar> = \<bar>dy\<bar>" | "\<bar>dy\<bar> < \<bar>dx\<bar>" by linarith
    then show ?thesis
      using that nz by cases (cases "dx < 0"; cases "dy < 0"; force)+
  qed
  then show ?thesis
  proof cases
    case 1
    then have "dir_of dx dy = DIRECTION_NORTH" unfolding dir_of_def by simp
    then show ?thesis using 1 assms(5) by (intro exI [of _ x] exI [of _ "y - 1"]) simp
  next
    case 2
    then have "dir_of dx dy = DIRECTION_SOUTH" unfolding dir_of_def by simp
    then show ?thesis using 2 assms(4) by (intro exI [of _ x] exI [of _ "y + 1"]) simp
  next
    case 3
    then have "dir_of dx dy = DIRECTION_SOUTHEAST" unfolding dir_of_def by simp
    then show ?thesis using 3 assms(2,4) by (intro exI [of _ "x + 1"] exI [of _ "y + 1"]) simp
  next
    case 4
    then have "dir_of dx dy = DIRECTION_NORTHEAST" unfolding dir_of_def by simp
    then show ?thesis using 4 assms(2,5) by (intro exI [of _ "x + 1"] exI [of _ "y - 1"]) simp
  next
    case 5
    then have "dir_of dx dy = DIRECTION_SOUTHWEST" unfolding dir_of_def by simp
    then show ?thesis using 5 assms(3,4) by (intro exI [of _ "x - 1"] exI [of _ "y + 1"]) simp
  next
    case 6
    then have "dir_of dx dy = DIRECTION_NORTHWEST" unfolding dir_of_def by simp
    then show ?thesis using 6 assms(3,5) by (intro exI [of _ "x - 1"] exI [of _ "y - 1"]) simp
  next
    case 7
    then have "dir_of dx dy = DIRECTION_EAST" unfolding dir_of_def by simp
    then show ?thesis using 7 assms(2) by (intro exI [of _ "x + 1"] exI [of _ y]) simp
  next
    case 8
    then have "dir_of dx dy = DIRECTION_WEST" unfolding dir_of_def by simp
    then show ?thesis using 8 assms(3) by (intro exI [of _ "x - 1"] exI [of _ y]) simp
  qed
qed

lemma getDirectionTo_step:
  assumes "chebyshev p q \<noteq> 0"
  shows "chebyshev (getNextPosition (getDirectionTo p q) p) q = chebyshev p q - 1
       \<and> pos_z (getNextPosition (getDirectionTo p q) p) = pos_z p"
proof -
  obtain x y z x' y' z' where pq: "p = Position x y z" "q = Position x' y' z'"
    by (meson position.exhaust)
  let ?dx = "uint x' - uint x" and ?dy = "uint y' - uint y"
  have "\<exists>x1 y1. getNextPosition (dir_of ?dx ?dy) (Position x y z) = Position x1 y1 z
    \<and> max \<bar>uint x + ?dx - uint x1\<bar> \<bar>uint y + ?dy - uint y1\<bar> = max \<bar>?dx\<bar> \<bar>?dy\<bar> - 1"
  proof (rule dir_of_step)
    show "max \<bar>?dx\<bar> \<bar>?dy\<bar> \<noteq> 0" using assms by (simp only: pq chebyshev_Position not_False_eq_True)
    show "0 < ?dx \<Longrightarrow> uint (x + 1) = uint x + 1" by (rule uint_word_plus_1 [of x x']) simp
    show "?dx < 0 \<Longrightarrow> uint (x - 1) = uint x - 1" by (rule uint_word_minus_1 [of x' x]) simp
    show "0 < ?dy \<Longrightarrow> uint (y + 1) = uint y + 1" by (rule uint_word_plus_1 [of y y']) simp
    show "?dy < 0 \<Longrightarrow> uint (y - 1) = uint y - 1" by (rule uint_word_minus_1 [of y' y]) simp
  qed
  then show ?thesis
    by (auto simp: pq getDirectionTo_eq chebyshev_Position)
qed

text \<open>
  Walking in the directions that \<open>getDirectionTo\<close> gives, recomputed after every step, reaches
  the target field after exactly as many steps as its distance (in king's moves), and never leaves
  the floor it started on.
\<close>

theorem getDirectionTo_walk_reaches:
  "pos_x (((\<lambda>p. getNextPosition (getDirectionTo p q) p) ^^ nat (chebyshev p q)) p) = pos_x q
 \<and> pos_y (((\<lambda>p. getNextPosition (getDirectionTo p q) p) ^^ nat (chebyshev p q)) p) = pos_y q
 \<and> pos_z (((\<lambda>p. getNextPosition (getDirectionTo p q) p) ^^ nat (chebyshev p q)) p) = pos_z p"
proof (induction "nat (chebyshev p q)" arbitrary: p)
  case 0
  then have "chebyshev p q = 0" using chebyshev_ge_0 [of p q] by linarith
  then show ?case using chebyshev_eq_0 [of p q] by simp
next
  case (Suc n)
  let ?p = "getNextPosition (getDirectionTo p q) p"
  have nz: "chebyshev p q \<noteq> 0" using Suc.hyps(2) by linarith
  have "n = nat (chebyshev ?p q)" using getDirectionTo_step [OF nz] Suc.hyps(2) by linarith
  from Suc.hyps(1) [OF this] show ?case
    using getDirectionTo_step [OF nz] \<open>n = nat (chebyshev ?p q)\<close> Suc.hyps(2)
    by (simp flip: Suc.hyps(2) funpow.simps add: funpow_Suc_right del: funpow.simps)
qed

lemma getDirectionTo_adjacent:
  assumes "chebyshev p q = 1" and "pos_z p = pos_z q"
  shows "getNextPosition (getDirectionTo p q) p = q"
proof -
  have *: "chebyshev p q \<noteq> 0" using assms by simp
  have "chebyshev (getNextPosition (getDirectionTo p q) p) q = 0"
    "pos_z (getNextPosition (getDirectionTo p q) p) = pos_z q"
    using getDirectionTo_step [OF *] assms by simp_all
  then show ?thesis by (simp add: chebyshev_eq_0 position.expand)
qed

text \<open>The names that \<open>operator<<\<close> prints are read back by \<open>getDirection\<close> once in lower case.\<close>

lemma getDirection_print: "d \<noteq> DIRECTION_NONE \<Longrightarrow> getDirection (asLowerCaseString (print_direction d)) = d"
  by (cases d) (simp_all add: asLowerCaseString_def tolower_def getDirection_def char_of_def
    bit_simps)

end
