(* ===== verification/Network_Message.thy ===== *)
theory Network_Message imports Prop_Stream Positions "HOL-Library.Multiset" begin

text \<open>
  \<open>src/src/networkmessage.h\<close>, \<open>networkmessage.cpp\<close>, \<open>outputmessage.h\<close> and \<open>outputmessage.cpp\<close>: the message
  buffer with its write and read position, the headers put in front of an outgoing message and the pool
  of protocols with buffered output. The fixed array is a byte list; all indices the operations
  use lie in it when the guards of the code hold. \<open>addDouble\<close> (floating point) is not modelled.
\<close>

section \<open>The buffer\<close>

abbreviation "NETWORKMESSAGE_MAXSIZE \<equiv> (24590 :: nat)"
abbreviation "MAX_BODY_LENGTH \<equiv> (24576 :: nat)"
abbreviation "MAX_PROTOCOL_BODY_LENGTH \<equiv> (24566 :: nat)"

record net_message =
  nm_length :: u16
  nm_position :: u16
  nm_overrun :: bool
  nm_buffer :: "byte list"

definition write_at :: "nat \<Rightarrow> byte list \<Rightarrow> byte list \<Rightarrow> byte list" where
  "write_at i bs buf = take i buf @ bs @ drop (i + length bs) buf"

definition read_at :: "nat \<Rightarrow> nat \<Rightarrow> byte list \<Rightarrow> byte list" where
  "read_at i n buf = take n (drop i buf)"

definition new_message :: "byte list \<Rightarrow> net_message" where
  "new_message buf = \<lparr>nm_length = 0, nm_position = 8, nm_overrun = False, nm_buffer = buf\<rparr>"

definition nm_reset :: "'z net_message_scheme \<Rightarrow> 'z net_message_scheme" where
  "nm_reset m = m\<lparr>nm_length := 0, nm_position := 8, nm_overrun := False\<rparr>"

definition canAdd :: "'z net_message_scheme \<Rightarrow> nat \<Rightarrow> bool" where
  "canAdd m n = (n + unat (nm_position m) < MAX_BODY_LENGTH)"

definition canRead :: "int \<Rightarrow> 'z net_message_scheme \<Rightarrow> bool \<times> 'z net_message_scheme" where
  "canRead n m =
     (if uint (nm_position m) + n > uint (nm_length m) + 8 \<or>
         n \<ge> int NETWORKMESSAGE_MAXSIZE - uint (nm_position m)
      then (False, m\<lparr>nm_overrun := True\<rparr>) else (True, m))"

definition getByte :: "'z net_message_scheme \<Rightarrow> u8 \<times> 'z net_message_scheme" where
  "getByte m = (case canRead 1 m of
     (False, m') \<Rightarrow> (0, m')
   | (True, m') \<Rightarrow> (nm_buffer m' ! unat (nm_position m'), m'\<lparr>nm_position := nm_position m' + 1\<rparr>))"

definition getPreviousByte :: "'z net_message_scheme \<Rightarrow> u8 \<times> 'z net_message_scheme" where
  "getPreviousByte m = (let p = nm_position m - 1 in (nm_buffer m ! unat p, m\<lparr>nm_position := p\<rparr>))"

definition nm_get :: "'z net_message_scheme \<Rightarrow> 'a::len word \<times> 'z net_message_scheme" where
  "nm_get m = (let n = sizeof TYPE('a) in
     case canRead (int n) m of
       (False, m') \<Rightarrow> (0, m')
     | (True, m') \<Rightarrow> (le_dec (read_at (unat (nm_position m')) n (nm_buffer m')),
                      m'\<lparr>nm_position := nm_position m' + of_nat n\<rparr>))"

definition nm_getString :: "u16 \<Rightarrow> 'z net_message_scheme \<Rightarrow> string \<times> 'z net_message_scheme" where
  "nm_getString stringLen0 m0 =
     (let (stringLen, m) = (if stringLen0 = 0 then nm_get m0 else (stringLen0, m0)) in
      case canRead (uint stringLen) m of
        (False, m') \<Rightarrow> ([], m')
      | (True, m') \<Rightarrow> (string_of (read_at (unat (nm_position m')) (unat stringLen) (nm_buffer m')),
                       m'\<lparr>nm_position := nm_position m' + stringLen\<rparr>))"

definition nm_getPosition :: "'z net_message_scheme \<Rightarrow> position \<times> 'z net_message_scheme" where
  "nm_getPosition m = (let (x, m1) = nm_get m; (y, m2) = nm_get m1; (z, m3) = getByte m2
                       in (Position x y z, m3))"

text \<open>\<open>int16_t\<close> count: added modulo \<open>2 ^ 16\<close>.\<close>

definition skipBytes :: "u16 \<Rightarrow> 'z net_message_scheme \<Rightarrow> 'z net_message_scheme" where
  "skipBytes n m = m\<lparr>nm_position := nm_position m + n\<rparr>"

definition put_bytes :: "byte list \<Rightarrow> 'z net_message_scheme \<Rightarrow> 'z net_message_scheme" where
  "put_bytes bs m = m\<lparr>nm_buffer := write_at (unat (nm_position m)) bs (nm_buffer m),
                     nm_position := nm_position m + of_nat (length bs),
                     nm_length := nm_length m + of_nat (length bs)\<rparr>"

definition addByte :: "u8 \<Rightarrow> 'z net_message_scheme \<Rightarrow> 'z net_message_scheme" where
  "addByte v m = (if \<not> canAdd m 1 then m else put_bytes [v] m)"

definition nm_add :: "'a::len word \<Rightarrow> 'z net_message_scheme \<Rightarrow> 'z net_message_scheme" where
  "nm_add v m = (if \<not> canAdd m (sizeof TYPE('a)) then m else put_bytes (le_enc (sizeof TYPE('a)) v) m)"

definition nm_addString :: "string \<Rightarrow> 'z net_message_scheme \<Rightarrow> 'z net_message_scheme" where
  "nm_addString v m =
     (let stringLen = length v in
      if \<not> canAdd m (stringLen + 2) \<or> stringLen > 8192 then m
      else put_bytes (bytes_of v) (nm_add (of_nat stringLen :: u16) m))"

definition addBytes :: "byte list \<Rightarrow> 'z net_message_scheme \<Rightarrow> 'z net_message_scheme" where
  "addBytes bytes m =
     (if \<not> canAdd m (length bytes) \<or> length bytes > 8192 then m else put_bytes bytes m)"

definition addPaddingBytes :: "nat \<Rightarrow> 'z net_message_scheme \<Rightarrow> 'z net_message_scheme" where
  "addPaddingBytes n m =
     (if \<not> canAdd m n then m
      else m\<lparr>nm_buffer := write_at (unat (nm_position m)) (replicate n 0x33) (nm_buffer m),
             nm_length := nm_length m + of_nat n\<rparr>)"

definition nm_addPosition :: "position \<Rightarrow> 'z net_message_scheme \<Rightarrow> 'z net_message_scheme" where
  "nm_addPosition pos m = addByte (pos_z pos) (nm_add (pos_y pos) (nm_add (pos_x pos) m))"

text \<open>What the message layer reads of an item type.\<close>

record wire_item_type =
  it_clientId :: u16
  it_stackable :: bool
  it_fluid :: bool
  it_isAnimation :: bool

definition fluidMap :: "u8 list" where
  "fluidMap = [0, 1, 5, 3, 6, 8, 9, 2]"

definition nm_addItem :: "wire_item_type \<Rightarrow> u8 \<Rightarrow> 'z net_message_scheme \<Rightarrow> 'z net_message_scheme" where
  "nm_addItem it cnt m =
     (let m1 = addByte 0xFF (nm_add (it_clientId it) m);
          m2 = (if it_stackable it then addByte cnt m1
                else if it_fluid it then addByte (fluidMap ! unat (cnt AND 7)) m1 else m1)
      in if it_isAnimation it then addByte 0xFE m2 else m2)"

definition decodeHeader :: "'z net_message_scheme \<Rightarrow> int \<times> 'z net_message_scheme" where
  "decodeHeader m = (let newSize = le_dec (read_at 0 2 (nm_buffer m)) :: u16
                     in (uint newSize, m\<lparr>nm_length := newSize\<rparr>))"

definition getBodyBuffer :: "'z net_message_scheme \<Rightarrow> 'z net_message_scheme" where
  "getBodyBuffer m = m\<lparr>nm_position := 2\<rparr>"

section \<open>Reading back what was added\<close>

lemma write_at_append: "length p = i \<Longrightarrow> write_at i bs (p @ old) = p @ bs @ drop (length bs) old"
  by (simp add: write_at_def)

text \<open>A message as bytes written: the body is what stands from offset 8 on.\<close>

definition body_is :: "byte list \<Rightarrow> 'z net_message_scheme \<Rightarrow> bool" where
  "body_is bs m \<longleftrightarrow> (\<exists>hd rest. nm_buffer m = hd @ bs @ rest \<and> length hd = 8 \<and>
     length (nm_buffer m) = NETWORKMESSAGE_MAXSIZE) \<and>
     nm_length m = of_nat (length bs) \<and> nm_position m = of_nat (8 + length bs) \<and>
     8 + length bs < MAX_BODY_LENGTH"

lemma unat_of_nat_u16: "n < 65536 \<Longrightarrow> unat (of_nat n :: u16) = n"
  by (simp add: unsigned_of_nat take_bit_nat_eq_self)

lemma body_is_position: "body_is bs m \<Longrightarrow> unat (nm_position m) = 8 + length bs"
proof -
  assume "body_is bs m"
  then have "nm_position m = of_nat (8 + length bs)" "8 + length bs < 65536"
    unfolding body_is_def by simp_all
  then show ?thesis by (simp only: unat_of_nat_u16)
qed

lemma body_is_put:
  assumes "body_is bs m" "8 + length bs + length new < MAX_BODY_LENGTH"
  shows "body_is (bs @ new) (put_bytes new m)"
proof -
  obtain h rest where b: "nm_buffer m = h @ bs @ rest" "length h = 8"
    "length (nm_buffer m) = NETWORKMESSAGE_MAXSIZE"
    using assms(1) by (auto simp: body_is_def)
  have "write_at (8 + length bs) new (nm_buffer m) = h @ (bs @ new) @ drop (length new) rest"
    using write_at_append [of "h @ bs" "8 + length bs" new rest] b by simp
  moreover have "length new \<le> length rest" using b assms(2) by simp
  ultimately show ?thesis using b assms body_is_position [OF assms(1)]
    by (auto simp: body_is_def put_bytes_def)
qed

lemma prop_write_u8 [simp]: "prop_write (w :: u8) = [w]"
  by (simp add: prop_write_def le_enc_def)

lemma canAdd_body: "body_is bs m \<Longrightarrow> canAdd m n \<longleftrightarrow> n + 8 + length bs < MAX_BODY_LENGTH"
  by (auto simp: canAdd_def body_is_position)

lemma body_is_addByte: "body_is bs m \<Longrightarrow> 9 + length bs < MAX_BODY_LENGTH \<Longrightarrow> body_is (bs @ [v]) (addByte v m)"
  by (auto simp: addByte_def canAdd_body intro: body_is_put)

lemma body_is_add: "body_is bs m \<Longrightarrow> sizeof TYPE('a) + 8 + length bs < MAX_BODY_LENGTH \<Longrightarrow>
    body_is (bs @ prop_write (v :: 'a::len word)) (nm_add v m)"
  by (auto simp: nm_add_def canAdd_body prop_write_def intro!: body_is_put)

lemma body_is_addString: "body_is bs m \<Longrightarrow> length v \<le> 8192 \<Longrightarrow> length v + 10 + length bs < MAX_BODY_LENGTH \<Longrightarrow>
    body_is (bs @ writeString v) (nm_addString v m)"
proof -
  assume *: "body_is bs m" "length v \<le> 8192" "length v + 10 + length bs < MAX_BODY_LENGTH"
  have "body_is (bs @ prop_write (of_nat (length v) :: u16)) (nm_add (of_nat (length v) :: u16) m)"
    using * by (intro body_is_add) auto
  then have "body_is ((bs @ prop_write (of_nat (length v) :: u16)) @ bytes_of v)
      (put_bytes (bytes_of v) (nm_add (of_nat (length v) :: u16) m))"
    using * by (intro body_is_put) auto
  with * show ?thesis by (simp add: nm_addString_def writeString_def canAdd_body Let_def)
qed

text \<open>The fields of a packet, as \<open>add\<close> and \<open>addString\<close> put them and \<open>get\<close> and \<open>getString\<close> take them.\<close>

definition put_field :: "prop_field \<Rightarrow> 'z net_message_scheme \<Rightarrow> 'z net_message_scheme" where
  "put_field f m = (case f of F8 w \<Rightarrow> addByte w m | F16 w \<Rightarrow> nm_add w m | F32 w \<Rightarrow> nm_add w m
     | F64 w \<Rightarrow> nm_add w m | FStr s \<Rightarrow> nm_addString s m)"

definition get_field :: "field_kind \<Rightarrow> 'z net_message_scheme \<Rightarrow> prop_field \<times> 'z net_message_scheme" where
  "get_field k m = (case k of K8 \<Rightarrow> map_prod F8 id (getByte m) | K16 \<Rightarrow> map_prod F16 id (nm_get m)
     | K32 \<Rightarrow> map_prod F32 id (nm_get m) | K64 \<Rightarrow> map_prod F64 id (nm_get m)
     | KStr \<Rightarrow> map_prod FStr id (nm_getString 0 m))"

fun put_fields :: "prop_field list \<Rightarrow> 'z net_message_scheme \<Rightarrow> 'z net_message_scheme" where
  "put_fields [] m = m"
| "put_fields (f # fs) m = put_fields fs (put_field f m)"

fun get_fields :: "field_kind list \<Rightarrow> 'z net_message_scheme \<Rightarrow> prop_field list \<times> 'z net_message_scheme" where
  "get_fields [] m = ([], m)"
| "get_fields (k # ks) m = (let (v, m1) = get_field k m; (vs, m2) = get_fields ks m1 in (v # vs, m2))"

definition msg_fits :: "prop_field \<Rightarrow> bool" where
  "msg_fits f \<longleftrightarrow> (case f of FStr s \<Rightarrow> length s \<le> 8192 | _ \<Rightarrow> True)"

lemma body_is_put_field: "body_is bs m \<Longrightarrow> msg_fits f \<Longrightarrow> 8 + length bs + length (write_field f) < MAX_BODY_LENGTH \<Longrightarrow>
    body_is (bs @ write_field f) (put_field f m)"
proof (cases f)
  case (FStr x)
  assume *: "body_is bs m" "msg_fits f" "8 + length bs + length (write_field f) < MAX_BODY_LENGTH"
  with FStr have "length x \<le> 8192" "length x + 10 + length bs < MAX_BODY_LENGTH"
    by (simp_all add: msg_fits_def writeString_def)
  with * FStr body_is_addString [of bs m x] show ?thesis by (simp add: put_field_def)
qed (auto simp: put_field_def intro!: body_is_addByte body_is_add)

lemma body_is_put_fields: "body_is bs m \<Longrightarrow> list_all msg_fits fs \<Longrightarrow>
    8 + length bs + length (concat (map write_field fs)) < MAX_BODY_LENGTH \<Longrightarrow>
    body_is (bs @ concat (map write_field fs)) (put_fields fs m)"
proof (induction fs arbitrary: bs m)
  case (Cons f fs)
  then show ?case using Cons.IH [OF body_is_put_field [of bs m f]] by simp
qed simp

text \<open>The receiving side: a message of which the bytes \<open>done\<close> were read and \<open>todo\<close> were not.\<close>

definition reading :: "byte list \<Rightarrow> byte list \<Rightarrow> 'z net_message_scheme \<Rightarrow> bool" where
  "reading done todo m \<longleftrightarrow> (\<exists>hd rest. nm_buffer m = hd @ done @ todo @ rest \<and> length hd = 8) \<and>
     uint (nm_length m) = int (length done + length todo) \<and>
     nm_position m = of_nat (8 + length done) \<and> \<not> nm_overrun m \<and>
     8 + length done + length todo < MAX_BODY_LENGTH"

lemma reading_position: "reading done todo m \<Longrightarrow> uint (nm_position m) = int (8 + length done)"
proof -
  assume "reading done todo m"
  then have p: "nm_position m = of_nat (8 + length done)" and "8 + length done < 65536"
    unfolding reading_def by simp_all
  then have "unat (nm_position m) = 8 + length done" by (simp only: unat_of_nat_u16)
  then show ?thesis by (simp only: uint_nat)
qed

lemma canRead_reading: "reading done (xs @ todo) m \<Longrightarrow> canRead (int (length xs)) m = (True, m)"
  using reading_position [of "done" "xs @ todo" m] by (auto simp: canRead_def reading_def)

lemma read_at_reading: "reading done (xs @ todo) m \<Longrightarrow>
    read_at (unat (nm_position m)) (length xs) (nm_buffer m) = xs"
  using reading_position [of "done" "xs @ todo" m]
  by (auto simp: reading_def read_at_def unat_eq_nat_uint)

lemma reading_advance: "reading done (xs @ todo) m \<Longrightarrow>
    reading (done @ xs) todo (m\<lparr>nm_position := nm_position m + of_nat (length xs)\<rparr>)"
  by (auto simp: reading_def algebra_simps)

lemma nm_get_reading:
  assumes "reading done (prop_write (w :: 'a::len word) @ todo) m" "LENGTH('a) = 8 * sizeof TYPE('a)"
  shows "\<exists>m'. nm_get m = (w, m') \<and> reading (done @ prop_write w) todo m'"
proof -
  have len: "length (prop_write w) = sizeof TYPE('a)" by simp
  have "le_dec (prop_write w) = w" using assms(2) by (simp add: prop_write_def)
  then show ?thesis
    using canRead_reading [OF assms(1)] read_at_reading [OF assms(1)] reading_advance [OF assms(1)]
    by (simp add: nm_get_def Let_def len)
qed

lemma getByte_reading:
  assumes "reading done (b # todo) m"
  shows "\<exists>m'. getByte m = (b, m') \<and> reading (done @ [b]) todo m'"
proof -
  have r: "reading done ([b] @ todo) m" using assms by simp
  have "nm_buffer m ! unat (nm_position m) = b"
    using r reading_position [OF r] by (auto simp: reading_def nth_append unat_eq_nat_uint)
  then show ?thesis using canRead_reading [OF r] reading_advance [OF r] by (simp add: getByte_def)
qed

lemma nm_getString_reading:
  assumes "reading done (writeString s @ todo) m" "length s \<le> 8192"
  shows "\<exists>m'. nm_getString 0 m = (s, m') \<and> reading (done @ writeString s) todo m'"
proof -
  have r: "reading done (prop_write (of_nat (length s) :: u16) @ bytes_of s @ todo) m"
    using assms by (simp add: writeString_def)
  then obtain m1 where m1: "nm_get m = (of_nat (length s) :: u16, m1)"
    "reading (done @ prop_write (of_nat (length s) :: u16)) (bytes_of s @ todo) m1"
    using nm_get_reading [OF r] by auto
  have n: "unat (of_nat (length s) :: u16) = length (bytes_of s)"
    "uint (of_nat (length s) :: u16) = int (length (bytes_of s))"
    using assms(2) unat_of_nat_u16 [of "length s"] by (simp_all add: uint_nat)
  show ?thesis
    using canRead_reading [OF m1(2)] read_at_reading [OF m1(2)] reading_advance [OF m1(2)] assms(2)
    by (simp add: nm_getString_def m1 n writeString_def Let_def del: length_bytes_of) (simp add: n)
qed

lemma get_field_reading:
  assumes "reading done (write_field f @ todo) m" "msg_fits f"
  shows "\<exists>m'. get_field (kind_of f) m = (f, m') \<and> reading (done @ write_field f) todo m'"
proof (cases f)
  case (F8 w)
  with assms getByte_reading [of "done" w todo m] show ?thesis by (auto simp: get_field_def)
next
  case (F16 w)
  with assms nm_get_reading [of "done" w todo m] show ?thesis by (auto simp: get_field_def)
next
  case (F32 w)
  with assms nm_get_reading [of "done" w todo m] show ?thesis by (auto simp: get_field_def)
next
  case (F64 w)
  with assms nm_get_reading [of "done" w todo m] show ?thesis by (auto simp: get_field_def)
next
  case (FStr s)
  with assms nm_getString_reading [of "done" s todo m] show ?thesis
    by (auto simp: get_field_def msg_fits_def)
qed

lemma get_fields_reading:
  "reading done (concat (map write_field fs) @ todo) m \<Longrightarrow> list_all msg_fits fs \<Longrightarrow>
   \<exists>m'. get_fields (map kind_of fs) m = (fs, m') \<and> reading (done @ concat (map write_field fs)) todo m'"
proof (induction fs arbitrary: "done" m)
  case (Cons f fs)
  then obtain m1 where m1: "get_field (kind_of f) m = (f, m1)"
    "reading (done @ write_field f) (concat (map write_field fs) @ todo) m1"
    using get_field_reading [of "done" f "concat (map write_field fs) @ todo" m] by auto
  from Cons.IH [OF m1(2)] Cons.prems(2) obtain m2 where
    "get_fields (map kind_of fs) m1 = (fs, m2)"
    "reading ((done @ write_field f) @ concat (map write_field fs)) todo m2" by auto
  with m1 show ?case by simp
qed simp

lemma nm_overrun_put_field [simp]: "nm_overrun (put_field f m) = nm_overrun m"
  by (simp add: put_field_def addByte_def nm_add_def nm_addString_def put_bytes_def Let_def
      split: prop_field.split)

lemma nm_overrun_put_fields [simp]: "nm_overrun (put_fields fs m) = nm_overrun m"
  by (induction fs arbitrary: m) simp_all

lemma body_is_empty: "length buf = NETWORKMESSAGE_MAXSIZE \<Longrightarrow> body_is [] (new_message buf)"
proof -
  assume "length buf = NETWORKMESSAGE_MAXSIZE"
  then have "\<exists>hd rest. buf = hd @ rest \<and> length hd = 8"
    by (intro exI [of _ "take 8 buf"] exI [of _ "drop 8 buf"]) simp
  with \<open>length buf = NETWORKMESSAGE_MAXSIZE\<close> show ?thesis by (simp add: body_is_def new_message_def)
qed

lemma body_is_reading: "body_is bs m \<Longrightarrow> \<not> nm_overrun m \<Longrightarrow> reading [] bs (m\<lparr>nm_position := 8\<rparr>)"
  using unat_of_nat_u16 [of "length bs"] by (auto simp: body_is_def reading_def uint_nat)

text \<open>
C33.
  A packet says what was put into it: when the fields added to an empty message fit (strings of at
  most 8192 characters, body below the limit), the same sequence of reads from the start of the body
  gives the same values and no overrun is reported.
\<close>

theorem packet_roundtrip:
  assumes "length buf = NETWORKMESSAGE_MAXSIZE" "list_all msg_fits fs"
    and "8 + length (concat (map write_field fs)) < MAX_BODY_LENGTH"
  shows "\<exists>m'. get_fields (map kind_of fs) ((put_fields fs (new_message buf))\<lparr>nm_position := 8\<rparr>) = (fs, m') \<and>
    \<not> nm_overrun m'"
proof -
  let ?bs = "concat (map write_field fs)"
  have "body_is ?bs (put_fields fs (new_message buf))"
    using body_is_put_fields [OF body_is_empty [OF assms(1)] assms(2)] assms(3) by simp
  then have "reading [] (?bs @ []) ((put_fields fs (new_message buf))\<lparr>nm_position := 8\<rparr>)"
    by (simp add: body_is_reading new_message_def)
  from get_fields_reading [OF this assms(2)] show ?thesis by (auto simp: reading_def)
qed

theorem packet_roundtrip_witness:
  "\<exists>m'. get_fields [K16, KStr] ((put_fields [F16 7, FStr ''ab'']
      (new_message (replicate NETWORKMESSAGE_MAXSIZE 0)))\<lparr>nm_position := 8\<rparr>) = ([F16 7, FStr ''ab''], m')"
  using packet_roundtrip [of "replicate NETWORKMESSAGE_MAXSIZE 0" "[F16 7, FStr ''ab'']"]
  by (auto simp: msg_fits_def writeString_def)

section \<open>The checksum\<close>

text \<open>\<open>adlerChecksum\<close> reduces its two sums once per run of at most 5552 bytes.\<close>

fun adler_run :: "u32 \<Rightarrow> u32 \<Rightarrow> byte list \<Rightarrow> u32 \<times> u32" where
  "adler_run a b [] = (a, b)"
| "adler_run a b (d # ds) = (let a' = a + ucast d in adler_run a' (b + a') ds)"

function adler_loop :: "u32 \<Rightarrow> u32 \<Rightarrow> byte list \<Rightarrow> u32 \<times> u32" where
  "adler_loop a b ds =
     (if ds = [] then (a, b)
      else let tmp = min 5552 (length ds); (a', b') = adler_run a b (take tmp ds)
           in adler_loop (a' mod 65521) (b' mod 65521) (drop tmp ds))"
  by pat_completeness auto
termination by (relation "measure (\<lambda>(a, b, ds). length ds)") auto

declare adler_loop.simps [simp del]

definition adlerChecksum :: "byte list \<Rightarrow> u32" where
  "adlerChecksum ds =
     (if length ds > NETWORKMESSAGE_MAXSIZE then 0
      else case adler_loop 1 0 ds of (a, b) \<Rightarrow> push_bit 16 b OR a)"

text \<open>The checksum as its definition has it: both sums modulo 65521, without machine words.\<close>

fun adler_sums :: "nat \<Rightarrow> nat \<Rightarrow> byte list \<Rightarrow> nat \<times> nat" where
  "adler_sums a b [] = (a, b)"
| "adler_sums a b (d # ds) = adler_sums (a + unat d) (b + (a + unat d)) ds"

definition adler_spec :: "byte list \<Rightarrow> nat \<times> nat" where
  "adler_spec ds = map_prod (\<lambda>a. a mod 65521) (\<lambda>b. b mod 65521) (adler_sums 1 0 ds)"

lemma adler_sums_append: "adler_sums a b (xs @ ys) = (case adler_sums a b xs of (a', b') \<Rightarrow> adler_sums a' b' ys)"
  by (induction xs arbitrary: a b) auto

lemma adler_sums_mod: "fst (adler_sums (a mod m) (b mod m) ds) mod m = fst (adler_sums a b ds) mod m \<and>
    snd (adler_sums (a mod m) (b mod m) ds) mod m = snd (adler_sums a b ds) mod m"
proof (induction ds arbitrary: a b)
  case (Cons d ds)
  have *: "(a mod m + unat d) mod m = (a + unat d) mod m"
    "(b mod m + (a mod m + unat d)) mod m = (b + (a + unat d)) mod m"
    by (simp_all add: mod_add_left_eq) (metis add.commute add.left_commute mod_add_right_eq)
  show ?case
    using Cons.IH [of "a + unat d" "b + (a + unat d)"] Cons.IH [of "a mod m + unat d" "b mod m + (a mod m + unat d)"]
    by (simp add: *)
qed simp

lemma adler_bound_step:
  fixes n d a b s :: nat
  assumes "d \<le> 255" "s \<le> 2 * (b + (a + d)) + 2 * n * (a + d) + 255 * n * (n + 1)"
  shows "s \<le> 2 * b + 2 * Suc n * a + 255 * Suc n * (Suc n + 1)"
proof -
  have nd: "n * d \<le> n * 255" using assms(1) by (rule mult_le_mono2)
  have "s \<le> 2 * b + 2 * a + 2 * d + 2 * (n * a) + 2 * (n * d) + 255 * (n * n) + 255 * n"
    using assms(2) by (simp add: algebra_simps)
  also have "\<dots> \<le> 2 * b + 2 * a + 2 * (n * a) + 255 * (n * n) + 765 * n + 510"
    using nd assms(1) by linarith
  finally show ?thesis by (simp add: algebra_simps)
qed

lemma adler_sums_bound: "fst (adler_sums a b ds) \<le> a + 255 * length ds \<and>
    2 * snd (adler_sums a b ds) \<le> 2 * b + 2 * length ds * a + 255 * length ds * (length ds + 1)"
proof (induction ds arbitrary: a b)
  case (Cons d ds)
  have d: "unat d \<le> 255" using unat_less_u8 [of d] by linarith
  have "fst (adler_sums a b (d # ds)) \<le> a + 255 * length (d # ds)"
    using Cons.IH [of "a + unat d" "b + (a + unat d)"] d by simp
  moreover have "2 * snd (adler_sums a b (d # ds)) \<le>
      2 * b + 2 * Suc (length ds) * a + 255 * Suc (length ds) * (Suc (length ds) + 1)"
    using Cons.IH [of "a + unat d" "b + (a + unat d)"] by (intro adler_bound_step [OF d]) simp
  ultimately show ?case by simp
qed simp

text \<open>No sum of a run of 5552 bytes wraps: its end bounds all that come before.\<close>

lemma adler_run_sums:
  "fst (adler_sums (unat a) (unat b) ds) < 2 ^ 32 \<Longrightarrow> snd (adler_sums (unat a) (unat b) ds) < 2 ^ 32 \<Longrightarrow>
   map_prod unat unat (adler_run a b ds) = adler_sums (unat a) (unat b) ds"
proof (induction ds arbitrary: a b)
  case (Cons d ds)
  have mono: "a \<le> fst (adler_sums a b xs) \<and> b \<le> snd (adler_sums a b xs)" for a b xs
  proof (induction xs arbitrary: a b)
    case (Cons x xs)
    from Cons.IH [of "a + unat x" "b + (a + unat x)"] show ?case by auto
  qed simp
  have ud: "unat (ucast d :: u32) = unat d"
    by (simp add: unsigned_ucast_eq take_bit_nat_eq_self_iff less_trans [OF unat_less_u8])
  note m = mono [of "unat a + unat d" "unat b + (unat a + unat d)" ds]
  have a': "unat (a + ucast d) = unat a + unat d"
    using Cons.prems(1) m by (intro trans [OF unat_plus_nowrap]) (auto simp: ud)
  have b': "unat (b + (a + ucast d)) = unat b + (unat a + unat d)"
    using Cons.prems(2) m by (intro trans [OF unat_plus_nowrap]) (auto simp: a')
  show ?case
    using Cons.IH [of "a + ucast d" "b + (a + ucast d)"] Cons.prems
    by (simp add: a' b' Let_def)
qed simp

lemma adler_loop_sums:
  "unat a < 65521 \<Longrightarrow> unat b < 65521 \<Longrightarrow>
   map_prod unat unat (adler_loop a b ds) =
     map_prod (\<lambda>a. a mod 65521) (\<lambda>b. b mod 65521) (adler_sums (unat a) (unat b) ds)"
proof (induction a b ds rule: adler_loop.induct)
  case (1 a b ds)
  show ?case
  proof (cases "ds = []")
    case True
    with "1.prems" show ?thesis by (subst adler_loop.simps) simp
  next
    case False
    define n where "n = min 5552 (length ds)"
    obtain a' b' where ab: "adler_run a b (take n ds) = (a', b')" by (cases "adler_run a b (take n ds)")
    have n: "length (take n ds) = n" "n \<le> 5552" by (auto simp: n_def)
    have "n * (n + 1) \<le> 5552 * 5553" using n(2) by (intro mult_le_mono) auto
    moreover have "n * unat a \<le> 5552 * 65520" using n(2) "1.prems"(1) by (intro mult_le_mono) auto
    moreover have "2 * snd (adler_sums (unat a) (unat b) (take n ds)) \<le>
        2 * unat b + 2 * (n * unat a) + 255 * (n * (n + 1))"
      "fst (adler_sums (unat a) (unat b) (take n ds)) \<le> unat a + 255 * n"
      using adler_sums_bound [of "unat a" "unat b" "take n ds"] n by (simp_all add: mult.assoc)
    ultimately have "fst (adler_sums (unat a) (unat b) (take n ds)) < 4294967296"
      "snd (adler_sums (unat a) (unat b) (take n ds)) < 4294967296"
      using n(2) "1.prems" by linarith+
    then have "map_prod unat unat (adler_run a b (take n ds)) = adler_sums (unat a) (unat b) (take n ds)"
      by (intro adler_run_sums) simp_all
    then have s: "adler_sums (unat a) (unat b) (take n ds) = (unat a', unat b')" by (simp add: ab)
    have m: "unat (a' mod 65521) = unat a' mod 65521" "unat (b' mod 65521) = unat b' mod 65521"
      by (simp_all add: unat_mod)
    have "adler_sums (unat a) (unat b) ds = adler_sums (unat a') (unat b') (drop n ds)"
      using adler_sums_append [of "unat a" "unat b" "take n ds" "drop n ds"] s by simp
    moreover have "map_prod unat unat (adler_loop (a' mod 65521) (b' mod 65521) (drop n ds)) =
       map_prod (\<lambda>a. a mod 65521) (\<lambda>b. b mod 65521) (adler_sums (unat a' mod 65521) (unat b' mod 65521) (drop n ds))"
      using "1.IH" [OF False n_def refl, of a' b'] ab
      by (simp add: m n_def)
    ultimately show ?thesis
      using False ab adler_sums_mod [of "unat a'" 65521 "unat b'" "drop n ds"]
      by (subst adler_loop.simps) (simp add: Let_def map_prod_def split_beta flip: n_def)
  qed
qed

text \<open>
  The checksum is Adler-32: with its sums reduced only once per run of 5552 bytes, no 32-bit sum ever
  wraps, and the two halves of the result are the two sums of the definition modulo 65521.
\<close>

theorem adlerChecksum_spec:
  assumes "length ds \<le> NETWORKMESSAGE_MAXSIZE"
  shows "adlerChecksum ds = push_bit 16 (of_nat (snd (adler_spec ds))) OR of_nat (fst (adler_spec ds))"
proof -
  obtain a b where ab: "adler_loop 1 0 ds = (a, b)" by (cases "adler_loop 1 0 ds")
  have "map_prod unat unat (adler_loop 1 0 ds) = adler_spec ds"
    unfolding adler_spec_def by (subst adler_loop_sums) simp_all
  then have "adler_spec ds = (unat a, unat b)" by (simp add: ab)
  with assms show ?thesis by (simp add: adlerChecksum_def ab)
qed

theorem adlerChecksum_spec_witness: "adlerChecksum [97] = push_bit 16 98 OR 98"
  using adlerChecksum_spec [of "[97]"] by (simp add: adler_spec_def)

section \<open>Outgoing messages\<close>

record out_message = net_message +
  om_sequence :: u32
  isBroadcastMesssage :: bool
  outputBufferStart :: u16

definition new_output_message :: "byte list \<Rightarrow> out_message" where
  "new_output_message buf = \<lparr>nm_length = 0, nm_position = 8, nm_overrun = False, nm_buffer = buf,
     om_sequence = 0, isBroadcastMesssage = False, outputBufferStart = 8\<rparr>"

definition getOutputBuffer :: "out_message \<Rightarrow> byte list" where
  "getOutputBuffer m = drop (unat (outputBufferStart m)) (nm_buffer m)"

definition add_header :: "'a::len word \<Rightarrow> out_message \<Rightarrow> out_message" where
  "add_header v m =
     (let start = outputBufferStart m - of_nat (sizeof TYPE('a)) in
      m\<lparr>outputBufferStart := start,
        nm_buffer := write_at (unat start) (le_enc (sizeof TYPE('a)) v) (nm_buffer m),
        nm_length := nm_length m + of_nat (sizeof TYPE('a))\<rparr>)"

definition writeMessageLength :: "out_message \<Rightarrow> out_message" where
  "writeMessageLength m = add_header (nm_length m) m"

definition addCryptoHeader :: "u8 \<Rightarrow> out_message \<Rightarrow> out_message" where
  "addCryptoHeader addChecksum m =
     writeMessageLength
       (if addChecksum = 1 then
          add_header (adlerChecksum (take (unat (nm_length m)) (getOutputBuffer m))) m
        else if addChecksum = 2 then add_header (om_sequence m) (m\<lparr>om_sequence := om_sequence m + 1\<rparr>)
        else m)"

definition om_append :: "'z net_message_scheme \<Rightarrow> out_message \<Rightarrow> out_message" where
  "om_append msg m =
     (let msgLen = nm_length msg in
      m\<lparr>nm_buffer := write_at (unat (nm_position m)) (read_at 8 (unat msgLen) (nm_buffer msg)) (nm_buffer m),
        nm_length := nm_length m + msgLen, nm_position := nm_position m + msgLen\<rparr>)"

text \<open>Appending a message appends its body.\<close>

lemma body_is_append:
  assumes "body_is bs m" "body_is new msg" "8 + length bs + length new < MAX_BODY_LENGTH"
  shows "body_is (bs @ new) (om_append msg m)"
proof -
  have n: "nm_length msg = of_nat (length new)" "unat (nm_length msg) = length new"
    using assms(2) unat_of_nat_u16 [of "length new"] by (auto simp: body_is_def)
  have "read_at 8 (length new) (nm_buffer msg) = new"
    using assms(2) by (auto simp: body_is_def read_at_def)
  then have "om_append msg m = put_bytes new m"
    unfolding om_append_def put_bytes_def Let_def n(2) unfolding n(1) by simp
  then show ?thesis using body_is_put [OF assms(1,3)] by simp
qed

section \<open>The pool of buffered protocols\<close>

text \<open>
  \<open>OutputMessagePool\<close>: the protocols whose output is sent by a timer; a protocol is known by a number.
  \<open>pending\<close> says which of them have a current buffer; a call gives the protocols sent and whether the
  next round is scheduled.
\<close>

record output_pool =
  bufferedProtocols :: "nat list"
  pending :: "nat set"

fun send_each :: "nat list \<Rightarrow> nat set \<Rightarrow> nat list \<times> nat set" where
  "send_each [] msgs = ([], msgs)"
| "send_each (p # ps) msgs =
     (if p \<in> msgs then map_prod ((#) p) id (send_each ps (msgs - {p})) else send_each ps msgs)"

definition sendAll :: "output_pool \<Rightarrow> (nat list \<times> bool) \<times> output_pool" where
  "sendAll pool =
     (case send_each (bufferedProtocols pool) (pending pool) of
        (sent, msgs) \<Rightarrow> ((sent, bufferedProtocols pool \<noteq> []), pool\<lparr>pending := msgs\<rparr>))"

definition addProtocolToAutosend :: "nat \<Rightarrow> output_pool \<Rightarrow> bool \<times> output_pool" where
  "addProtocolToAutosend p pool =
     (bufferedProtocols pool = [], pool\<lparr>bufferedProtocols := bufferedProtocols pool @ [p]\<rparr>)"

text \<open>\<open>std::swap(*it, back())\<close> and \<open>pop_back\<close>.\<close>

fun swap_pop :: "nat \<Rightarrow> nat list \<Rightarrow> nat list" where
  "swap_pop p [] = []"
| "swap_pop p (q # qs) =
     (if p = q then (if qs = [] then [] else last qs # butlast qs) else q # swap_pop p qs)"

definition removeProtocolFromAutosend :: "nat \<Rightarrow> output_pool \<Rightarrow> output_pool" where
  "removeProtocolFromAutosend p pool = pool\<lparr>bufferedProtocols := swap_pop p (bufferedProtocols pool)\<rparr>"

lemma mset_swap_pop: "mset (swap_pop p ps) = mset ps - {#p#}"
proof (induction ps)
  case (Cons q qs)
  have "qs \<noteq> [] \<Longrightarrow> mset (last qs # butlast qs) = mset qs"
    by (metis append_butlast_last_id mset.simps(2) mset_append add_mset_add_single mset_single_iff)
  with Cons show ?case by auto
qed simp

lemma send_each_spec: "distinct ps \<Longrightarrow> send_each ps msgs = (filter (\<lambda>p. p \<in> msgs) ps, msgs - set ps)"
proof (induction ps arbitrary: msgs)
  case (Cons p ps)
  then have "filter (\<lambda>q. q \<in> msgs - {p}) ps = filter (\<lambda>q. q \<in> msgs) ps" by (auto intro: filter_cong)
  with Cons show ?case by auto
qed simp

end
