(* ===== verification/Xtea_Protocol.thy ===== *)
theory Xtea_Protocol imports Network_Message begin

text \<open>
  \<open>src/src/protocol.cpp\<close>: the encryption of messages and the layers a message passes on its way out
  (\<open>onSendMessage\<close>) and in (\<open>onRecvMessage\<close> behind the header reader of \<open>connection.cpp\<close>). The RSA
  decryption of the first message is a parameter.
\<close>

section \<open>The block cipher\<close>

abbreviation "delta \<equiv> (0x61C88647 :: u32)"

definition mix :: "u32 \<Rightarrow> u32" where
  "mix v = (push_bit 4 v XOR drop_bit 5 v) + v"

text \<open>The four words of the key, indexed as the array \<open>k\<close>.\<close>

definition enc_round :: "u32 list \<Rightarrow> u32 \<times> u32 \<times> u32 \<Rightarrow> u32 \<times> u32 \<times> u32" where
  "enc_round k = (\<lambda>(v0, v1, sum).
     let v0' = v0 + (mix v1 XOR (sum + k ! unat (sum AND 3)));
         sum' = sum - delta;
         v1' = v1 + (mix v0' XOR (sum' + k ! unat (drop_bit 11 sum' AND 3)))
     in (v0', v1', sum'))"

definition dec_round :: "u32 list \<Rightarrow> u32 \<times> u32 \<times> u32 \<Rightarrow> u32 \<times> u32 \<times> u32" where
  "dec_round k = (\<lambda>(v0, v1, sum).
     let v1' = v1 - (mix v0 XOR (sum + k ! unat (drop_bit 11 sum AND 3)));
         sum' = sum + delta;
         v0' = v0 - (mix v1' XOR (sum' + k ! unat (sum' AND 3)))
     in (v0', v1', sum'))"

definition encrypt_words :: "u32 list \<Rightarrow> u32 \<times> u32 \<Rightarrow> u32 \<times> u32" where
  "encrypt_words k = (\<lambda>(v0, v1). case (enc_round k ^^ 32) (v0, v1, 0) of (w0, w1, _) \<Rightarrow> (w0, w1))"

definition decrypt_words :: "u32 list \<Rightarrow> u32 \<times> u32 \<Rightarrow> u32 \<times> u32" where
  "decrypt_words k = (\<lambda>(v0, v1). case (dec_round k ^^ 32) (v0, v1, 0xC6EF3720) of (w0, w1, _) \<Rightarrow> (w0, w1))"

lemma dec_enc_round: "dec_round k (enc_round k s) = s"
  by (cases s) (simp add: enc_round_def dec_round_def Let_def)

lemma enc_dec_round: "enc_round k (dec_round k s) = s"
  by (cases s) (simp add: enc_round_def dec_round_def Let_def)

lemma funpow_inverse: "(\<And>x :: 'a. g (f x :: 'a) = x) \<Longrightarrow> (g ^^ n) ((f ^^ n) x) = x"
proof (induction n arbitrary: x)
  case (Suc n)
  have "(g ^^ Suc n) ((f ^^ Suc n) x) = (g ^^ n) (g (f ((f ^^ n) x)))"
    by (simp add: funpow_swap1)
  with Suc show ?case by simp
qed simp

lemma enc_rounds_sum: "snd (snd ((enc_round k ^^ n) (v0, v1, s))) = s - of_nat n * delta"
proof (induction n)
  case (Suc n)
  then show ?case
    by (cases "(enc_round k ^^ n) (v0, v1, s)") (simp add: enc_round_def Let_def algebra_simps)
qed simp

lemma dec_rounds_sum: "snd (snd ((dec_round k ^^ n) (v0, v1, s))) = s + of_nat n * delta"
proof (induction n)
  case (Suc n)
  then show ?case
    by (cases "(dec_round k ^^ n) (v0, v1, s)") (simp add: dec_round_def Let_def algebra_simps)
qed simp

lemma decrypt_encrypt_words: "decrypt_words k (encrypt_words k v) = v"
proof (cases v)
  case (Pair v0 v1)
  obtain w0 w1 s where w: "(enc_round k ^^ 32) (v0, v1, 0) = (w0, w1, s)"
    by (cases "(enc_round k ^^ 32) (v0, v1, 0)")
  then have "s = 0xC6EF3720" using enc_rounds_sum [of 32 k v0 v1 0] by simp
  moreover have "(dec_round k ^^ 32) ((enc_round k ^^ 32) (v0, v1, 0)) = (v0, v1, 0)"
    by (rule funpow_inverse) (rule dec_enc_round)
  ultimately show ?thesis by (simp add: Pair encrypt_words_def decrypt_words_def w)
qed

lemma encrypt_decrypt_words: "encrypt_words k (decrypt_words k v) = v"
proof (cases v)
  case (Pair v0 v1)
  obtain w0 w1 s where w: "(dec_round k ^^ 32) (v0, v1, 0xC6EF3720) = (w0, w1, s)"
    by (cases "(dec_round k ^^ 32) (v0, v1, 0xC6EF3720)")
  then have "s = 0" using dec_rounds_sum [of 32 k v0 v1 "0xC6EF3720"] by simp
  moreover have "(enc_round k ^^ 32) ((dec_round k ^^ 32) (v0, v1, 0xC6EF3720)) = (v0, v1, 0xC6EF3720)"
    by (rule funpow_inverse) (rule enc_dec_round)
  ultimately show ?thesis by (simp add: Pair encrypt_words_def decrypt_words_def w)
qed

section \<open>Encrypting a buffer\<close>

definition on_block :: "(u32 \<times> u32 \<Rightarrow> u32 \<times> u32) \<Rightarrow> byte list \<Rightarrow> byte list" where
  "on_block f b = (case f (le_dec (take 4 b), le_dec (take 4 (drop 4 b))) of
     (w0, w1) \<Rightarrow> le_enc 4 w0 @ le_enc 4 w1)"

text \<open>The loop \<open>while (readPos < messageLength)\<close> over a buffer that begins at offset \<open>start\<close>.\<close>

function block_loop :: "(byte list \<Rightarrow> byte list) \<Rightarrow> nat \<Rightarrow> nat \<Rightarrow> nat \<Rightarrow> byte list \<Rightarrow> byte list" where
  "block_loop f start messageLength readPos buf =
     (if readPos < messageLength
      then block_loop f start messageLength (readPos + 8)
             (write_at (start + readPos) (f (read_at (start + readPos) 8 buf)) buf)
      else buf)"
  by pat_completeness auto
termination by (relation "measure (\<lambda>(f, s, n, i, b). n - i)") auto

declare block_loop.simps [simp del]

text \<open>
  What the message layer needs of a block cipher: on blocks of eight bytes the two directions are
  inverse. A buffer then comes back block by block.
\<close>

locale block_cipher =
  fixes E :: "byte list \<Rightarrow> byte list" and D :: "byte list \<Rightarrow> byte list"
  assumes length_E: "length b = 8 \<Longrightarrow> length (E b) = 8"
    and D_E: "length b = 8 \<Longrightarrow> D (E b) = b"
begin

definition enc_all :: "byte list \<Rightarrow> byte list" where
  "enc_all bs = concat (map E (chunks 8 bs))"

definition dec_all :: "byte list \<Rightarrow> byte list" where
  "dec_all bs = concat (map D (chunks 8 bs))"

lemma enc_all_Cons: "length b = 8 \<Longrightarrow> enc_all (b @ bs) = E b @ enc_all bs"
  by (simp add: enc_all_def chunks_append)

lemma dec_all_Cons: "length b = 8 \<Longrightarrow> dec_all (b @ bs) = D b @ dec_all bs"
  by (simp add: dec_all_def chunks_append)

lemma enc_all_Nil [simp]: "enc_all [] = []" "dec_all [] = []"
  by (simp_all add: enc_all_def dec_all_def)

lemma blocks_induct [consumes 1, case_names Nil Block]:
  assumes "length bs mod 8 = 0" "P []"
    and "\<And>b bs. length b = 8 \<Longrightarrow> length bs mod 8 = 0 \<Longrightarrow> P bs \<Longrightarrow> P (b @ bs)"
  shows "P bs"
  using assms(1)
proof (induction "length bs" arbitrary: bs rule: less_induct)
  case less
  show ?case
  proof (cases "bs = []")
    case False
    with less.prems have "8 \<le> length bs" by (cases "length bs < 8") auto
    moreover from this have "P (drop 8 bs)"
      using less by (intro less.hyps) (auto simp: le_mod_geq)
    ultimately have "P (take 8 bs @ drop 8 bs)"
      using less.prems by (intro assms(3)) (auto simp: le_mod_geq)
    then show ?thesis by simp
  qed (simp add: assms(2))
qed

lemma length_enc_all: "length bs mod 8 = 0 \<Longrightarrow> length (enc_all bs) = length bs"
  by (induction bs rule: blocks_induct) (auto simp: enc_all_Cons length_E)

lemma dec_enc_all: "length bs mod 8 = 0 \<Longrightarrow> dec_all (enc_all bs) = bs"
  by (induction bs rule: blocks_induct) (auto simp: enc_all_Cons dec_all_Cons length_E D_E)

lemma block_loop_map:
  assumes g: "\<And>b. length b = 8 \<Longrightarrow> length (g b) = 8"
    and len: "length mid mod 8 = 0"
  shows "length pre = start + i \<Longrightarrow> n = i + length mid \<Longrightarrow>
    block_loop g start n i (pre @ mid @ post) = pre @ concat (map g (chunks 8 mid)) @ post"
  using len
proof (induction mid arbitrary: i pre rule: blocks_induct)
  case Nil
  then show ?case by (subst block_loop.simps) simp
next
  case (Block b bs)
  have "block_loop g start n i (pre @ (b @ bs) @ post) =
      block_loop g start n (i + 8) ((pre @ g b) @ bs @ post)"
    using Block.prems Block.hyps g by (subst block_loop.simps) (simp add: read_at_def write_at_def)
  also have "\<dots> = (pre @ g b) @ concat (map g (chunks 8 bs)) @ post"
    using Block g by (intro Block.IH) auto
  finally show ?case using Block.hyps by (simp add: chunks_append)
qed

lemma block_loop_enc: "length mid mod 8 = 0 \<Longrightarrow> length pre = start \<Longrightarrow>
    block_loop E start (length mid) 0 (pre @ mid @ post) = pre @ enc_all mid @ post"
  unfolding enc_all_def by (rule block_loop_map) (auto simp: length_E)

end

definition xtea_encrypt_block :: "u32 list \<Rightarrow> byte list \<Rightarrow> byte list" where
  "xtea_encrypt_block k = on_block (encrypt_words k)"

definition xtea_decrypt_block :: "u32 list \<Rightarrow> byte list \<Rightarrow> byte list" where
  "xtea_decrypt_block k = on_block (decrypt_words k)"

lemma le_dec_append_enc: "le_dec (take 4 (le_enc 4 (v :: u32) @ xs)) = v"
  by simp

lemma on_block_inverse:
  assumes "\<And>v. g (f v) = v" "length b = 8"
  shows "on_block g (on_block f b) = b"
proof -
  obtain w0 w1 where w: "f (le_dec (take 4 b), le_dec (take 4 (drop 4 b))) = (w0, w1)" by force
  have "on_block g (on_block f b) = le_enc 4 (le_dec (take 4 b) :: u32) @ le_enc 4 (le_dec (take 4 (drop 4 b)) :: u32)"
    using assms(1) [of "(le_dec (take 4 b), le_dec (take 4 (drop 4 b)))"] by (simp add: on_block_def w)
  also have "\<dots> = take 4 b @ take 4 (drop 4 b)"
    using assms(2) le_enc_dec [of "take 4 b", where 'a = 32] le_enc_dec [of "take 4 (drop 4 b)", where 'a = 32]
    by simp
  also have "\<dots> = b" using assms(2) by (metis append_take_drop_id length_drop diff_numeral_Suc
        add_diff_cancel_left' numeral_Bit0 take_all_iff order_refl)
  finally show ?thesis .
qed

lemma length_on_block [simp]: "length (on_block f b) = 8"
  by (simp add: on_block_def split: prod.splits)

interpretation xtea: block_cipher "xtea_encrypt_block k" "xtea_decrypt_block k" for k
  by unfold_locales
    (simp_all add: xtea_encrypt_block_def xtea_decrypt_block_def on_block_inverse decrypt_encrypt_words)

section \<open>The layers of a message\<close>

record protocol =
  p_key :: "u32 list"
  encryptionEnabled :: bool
  checksumEnabled :: bool
  compactCrypt :: bool
  rawMessages :: bool

definition XTEA_encrypt :: "protocol \<Rightarrow> out_message \<Rightarrow> out_message" where
  "XTEA_encrypt p msg =
     (let paddingBytes = unat (nm_length msg) mod 8;
          m = (if paddingBytes \<noteq> 0 then addPaddingBytes (8 - paddingBytes) msg else msg)
      in m\<lparr>nm_buffer := block_loop (xtea_encrypt_block (p_key p)) (unat (outputBufferStart m))
             (unat (nm_length m)) 0 (nm_buffer m)\<rparr>)"

definition onSendMessage :: "protocol \<Rightarrow> out_message \<Rightarrow> out_message" where
  "onSendMessage p msg =
     (if rawMessages p then msg
      else let m1 = writeMessageLength msg in
        if encryptionEnabled p then
          let m2 = XTEA_encrypt p m1 in
          if \<not> compactCrypt p then addCryptoHeader (if checksumEnabled p then 1 else 0) m2
          else addCryptoHeader 2 m2
        else m1)"

definition XTEA_decrypt :: "protocol \<Rightarrow> net_message \<Rightarrow> bool \<times> net_message" where
  "XTEA_decrypt p msg =
     (let messageLength = uint (nm_length msg) - 6 in
      if messageLength mod 8 \<noteq> 0 then (False, msg)
      else
        let m = msg\<lparr>nm_buffer := block_loop (xtea_decrypt_block (p_key p)) (unat (nm_position msg))
                      (nat messageLength) 0 (nm_buffer msg)\<rparr>;
            (innerLength :: u16, m1) = nm_get m
        in if uint innerLength > uint (nm_length m1) - 8 then (False, m1)
           else (True, m1\<lparr>nm_length := innerLength\<rparr>))"

text \<open>The message handed to \<open>parsePacket\<close>, if any.\<close>

definition onRecvMessage :: "protocol \<Rightarrow> net_message \<Rightarrow> net_message option" where
  "onRecvMessage p msg =
     (if encryptionEnabled p then
        (case XTEA_decrypt p msg of (False, _) \<Rightarrow> None | (True, m) \<Rightarrow> Some m)
      else Some msg)"

definition RSA_decrypt :: "(byte list \<Rightarrow> byte list) \<Rightarrow> net_message \<Rightarrow> bool \<times> net_message" where
  "RSA_decrypt rsa msg =
     (if uint (nm_length msg) - uint (nm_position msg) < 128 then (False, msg)
      else let i = unat (nm_position msg);
               m = msg\<lparr>nm_buffer := write_at i (rsa (read_at i 128 (nm_buffer msg))) (nm_buffer msg)\<rparr>;
               (b, m1) = getByte m
           in (b = 0, m1))"

text \<open>
  The reader of \<open>connection.cpp\<close>: the two header bytes give the size of the body, which is refused
  when it is zero or too large; the body is read behind the header, and its first four bytes are the
  checksum or sequence number, which the server reads and does not check.
\<close>

definition receive_packet :: "byte list \<Rightarrow> net_message \<Rightarrow> net_message option" where
  "receive_packet wire msg =
     (let m = msg\<lparr>nm_buffer := write_at 0 (take 2 wire) (nm_buffer msg)\<rparr>;
          size = le_dec (read_at 0 2 (nm_buffer m)) :: u16
      in if size = 0 \<or> unat size \<ge> NETWORKMESSAGE_MAXSIZE - 16 then None
         else let m1 = getBodyBuffer (m\<lparr>nm_length := size + 2\<rparr>);
                  m2 = m1\<lparr>nm_buffer := write_at 2 (take (unat size) (drop 2 wire)) (nm_buffer m1)\<rparr>;
                  (recvPacket :: u32, m3) = nm_get m2
              in Some m3)"

section \<open>What arrives is what was sent\<close>

definition outgoing :: "nat \<Rightarrow> byte list \<Rightarrow> out_message \<Rightarrow> bool" where
  "outgoing start payload m \<longleftrightarrow> (\<exists>pre rest. nm_buffer m = pre @ payload @ rest \<and> length pre = start) \<and>
     length (nm_buffer m) = NETWORKMESSAGE_MAXSIZE \<and>
     outputBufferStart m = of_nat start \<and> nm_length m = of_nat (length payload)"

lemma outgoing_bounds: "outgoing start payload m \<Longrightarrow> start + length payload \<le> NETWORKMESSAGE_MAXSIZE"
  by (auto simp: outgoing_def)

lemma outgoing_unat: "outgoing start payload m \<Longrightarrow>
    unat (outputBufferStart m) = start \<and> unat (nm_length m) = length payload"
  using outgoing_bounds [of start payload m] unat_of_nat_u16 [of start] unat_of_nat_u16 [of "length payload"]
  by (auto simp: outgoing_def)

lemma outgoing_add_header:
  assumes "outgoing start payload m" "n = sizeof TYPE('a)" "n \<le> start"
  shows "outgoing (start - n) (le_enc n (v :: 'a::len word) @ payload) (add_header v m)"
proof -
  obtain pre rest where b: "nm_buffer m = pre @ payload @ rest" "length pre = start"
    using assms(1) by (auto simp: outgoing_def)
  have s: "outputBufferStart m - of_nat n = of_nat (start - n)"
    using assms by (simp add: outgoing_def of_nat_diff)
  have "start - n < 65536" using outgoing_bounds [OF assms(1)] by simp
  then have u: "unat (of_nat (start - n) :: u16) = start - n" by (rule unat_of_nat_u16)
  have "write_at (start - n) (le_enc n v) (nm_buffer m) = take (start - n) pre @ (le_enc n v @ payload) @ rest"
    using assms(3) b by (simp add: write_at_def)
  then have "add_header v m = m\<lparr>outputBufferStart := of_nat (start - n),
      nm_buffer := take (start - n) pre @ (le_enc n v @ payload) @ rest, nm_length := nm_length m + of_nat n\<rparr>"
    unfolding add_header_def assms(2) [symmetric] Let_def s u by simp
  moreover have "length (take (start - n) pre @ (le_enc n v @ payload) @ rest) = NETWORKMESSAGE_MAXSIZE"
    using assms(1,3) b by (simp add: outgoing_def)
  moreover have "\<exists>p r. take (start - n) pre @ (le_enc n v @ payload) @ rest = p @ (le_enc n v @ payload) @ r \<and>
      length p = start - n"
    using b(2) by (intro exI [of _ "take (start - n) pre"] exI [of _ rest]) simp
  moreover have "nm_length m = of_nat (length payload)" using assms(1) by (simp add: outgoing_def)
  ultimately show ?thesis by (simp add: outgoing_def)
qed

lemma outgoing_bytes: "outgoing start payload m \<Longrightarrow> take (unat (nm_length m)) (getOutputBuffer m) = payload"
  using outgoing_unat [of start payload m] by (auto simp: outgoing_def getOutputBuffer_def)

text \<open>Encryption pads the length header and the body to whole blocks.\<close>

lemma outgoing_encrypt:
  assumes "outgoing start payload m" "nm_position m = of_nat (start + length payload)"
    and "7 + start + length payload < MAX_BODY_LENGTH"
  shows "\<exists>pad. (length payload + length pad) mod 8 = 0 \<and> length pad < 8 \<and>
    outgoing start (xtea.enc_all (p_key p) (payload @ pad)) (XTEA_encrypt p m)"
proof -
  define n where "n = length payload mod 8"
  define pad where "pad = (if n = 0 then [] else replicate (8 - n) (0x33 :: byte))"
  define m1 where "m1 = (if n \<noteq> 0 then addPaddingBytes (8 - n) m else m)"
  have n8: "n < 8" by (simp add: n_def)
  have len: "unat (nm_length m) = length payload" using outgoing_unat [OF assms(1)] by simp
  have mod0: "(length payload + length pad) mod 8 = 0" "length pad < 8"
    using n8 by (simp_all add: pad_def n_def) presburger
  have pos: "unat (nm_position m) = start + length payload"
    using assms(2,3) unat_of_nat_u16 [of "start + length payload"] by simp
  have out1: "outgoing start (payload @ pad) m1"
  proof (cases "n = 0")
    case False
    obtain pre rest where b: "nm_buffer m = pre @ payload @ rest" "length pre = start"
      using assms(1) by (auto simp: outgoing_def)
    have "canAdd m (8 - n)" using False assms(3) by (simp add: canAdd_def pos)
    moreover have "write_at (start + length payload) pad (nm_buffer m) =
        pre @ (payload @ pad) @ drop (length pad) rest"
      using b by (simp add: write_at_def)
    moreover have "length pad \<le> length rest"
      using assms(1,3) b n8 mod0(2) by (auto simp: outgoing_def)
    ultimately show ?thesis using assms(1) False b
      by (auto simp: m1_def addPaddingBytes_def outgoing_def pos pad_def)
  qed (use assms(1) in \<open>simp add: m1_def pad_def\<close>)
  then obtain pre rest where b: "nm_buffer m1 = pre @ (payload @ pad) @ rest" "length pre = start"
    unfolding outgoing_def by blast
  note u = outgoing_unat [OF out1]
  have "XTEA_encrypt p m = m1\<lparr>nm_buffer := block_loop (xtea_encrypt_block (p_key p))
      (unat (outputBufferStart m1)) (unat (nm_length m1)) 0 (nm_buffer m1)\<rparr>"
    by (simp add: XTEA_encrypt_def Let_def len m1_def n_def)
  then have "XTEA_encrypt p m = m1\<lparr>nm_buffer := pre @ xtea.enc_all (p_key p) (payload @ pad) @ rest\<rparr>"
    using xtea.block_loop_enc [of "payload @ pad" pre start "p_key p" rest] mod0(1) b u
    by simp
  with out1 b mod0 have "outgoing start (xtea.enc_all (p_key p) (payload @ pad)) (XTEA_encrypt p m)"
    by (auto simp: outgoing_def xtea.length_enc_all)
  then show ?thesis by (intro exI [of _ pad] conjI mod0)
qed

lemma nm_position_headers [simp]:
  "nm_position (add_header v m) = nm_position m" "nm_position (writeMessageLength m) = nm_position m"
  by (simp_all add: add_header_def writeMessageLength_def Let_def)

lemma outgoing_start: "body_is bs m \<Longrightarrow> outputBufferStart m = 8 \<Longrightarrow> outgoing 8 bs m"
  by (auto simp: body_is_def outgoing_def)

text \<open>The bytes on the wire: size, four header bytes, the encrypted blocks.\<close>

lemma onSendMessage_wire:
  assumes "body_is bs m" "outputBufferStart m = 8" "15 + length bs < MAX_BODY_LENGTH"
    and "\<not> rawMessages p" "encryptionEnabled p" "compactCrypt p \<or> checksumEnabled p"
  shows "\<exists>hdr pad. length hdr = 4 \<and> (2 + length bs + length pad) mod 8 = 0 \<and> length pad < 8 \<and>
    (let mid = le_enc 2 (of_nat (length bs) :: u16) @ bs @ pad; m' = onSendMessage p m in
     take (unat (nm_length m')) (getOutputBuffer m') =
       le_enc 2 (of_nat (4 + length mid) :: u16) @ hdr @ xtea.enc_all (p_key p) mid)"
proof -
  let ?len = "of_nat (length bs) :: u16"
  define m1 where "m1 = writeMessageLength m"
  define m2 where "m2 = XTEA_encrypt p m1"
  have out1: "outgoing 6 (le_enc 2 ?len @ bs) m1"
    using outgoing_add_header [OF outgoing_start [OF assms(1,2)], of 2 "nm_length m"] assms(1)
    by (simp add: m1_def writeMessageLength_def body_is_def)
  have "nm_position m1 = of_nat (6 + length (le_enc 2 ?len @ bs))"
    using assms(1) by (simp add: m1_def body_is_def)
  moreover have "7 + 6 + length (le_enc 2 ?len @ bs) < MAX_BODY_LENGTH" using assms(3) by simp
  ultimately have "\<exists>pad. (length (le_enc 2 ?len @ bs) + length pad) mod 8 = 0 \<and> length pad < 8 \<and>
      outgoing 6 (xtea.enc_all (p_key p) ((le_enc 2 ?len @ bs) @ pad)) m2"
    unfolding m2_def by (rule outgoing_encrypt [OF out1])
  then obtain pad where
    pad: "(length (le_enc 2 ?len @ bs) + length pad) mod 8 = 0" "length pad < 8"
      "outgoing 6 (xtea.enc_all (p_key p) ((le_enc 2 ?len @ bs) @ pad)) m2"
    by (elim exE conjE)
  let ?mid = "le_enc 2 ?len @ bs @ pad"
  have L: "length (xtea.enc_all (p_key p) ?mid) = length ?mid"
    using pad(1) by (intro xtea.length_enc_all) simp
  obtain hdr where hdr: "length hdr = 4" "onSendMessage p m = writeMessageLength
      (add_header (le_dec hdr :: u32) (m2\<lparr>om_sequence := om_sequence (onSendMessage p m)\<rparr>))"
  proof (cases "compactCrypt p")
    case True
    then show ?thesis using assms(4,5) that [of "le_enc 4 (om_sequence m2)"]
      by (simp add: onSendMessage_def Let_def addCryptoHeader_def m1_def m2_def add_header_def writeMessageLength_def)
  next
    case False
    then show ?thesis using assms(4-6) that [of "le_enc 4 (adlerChecksum (take (unat (nm_length m2)) (getOutputBuffer m2)))"]
      by (simp add: onSendMessage_def Let_def addCryptoHeader_def m1_def m2_def add_header_def writeMessageLength_def)
  qed
  let ?m2 = "m2\<lparr>om_sequence := om_sequence (onSendMessage p m)\<rparr>"
  have "outgoing 6 (xtea.enc_all (p_key p) ?mid) ?m2" using pad(3) by (simp add: outgoing_def)
  from outgoing_add_header [OF this, of 4 "le_dec hdr :: u32"]
  have out3: "outgoing 2 (hdr @ xtea.enc_all (p_key p) ?mid) (add_header (le_dec hdr :: u32) ?m2)"
    using le_enc_dec [of hdr, where 'a = 32] hdr(1) by simp
  have nl: "nm_length (add_header (le_dec hdr :: u32) ?m2) = of_nat (4 + length ?mid)"
    using out3 hdr(1) L by (simp add: outgoing_def)
  have "outgoing 0 (le_enc 2 (of_nat (4 + length ?mid) :: u16) @ hdr @ xtea.enc_all (p_key p) ?mid) (onSendMessage p m)"
    using outgoing_add_header [OF out3, of 2 "of_nat (4 + length ?mid) :: u16"] hdr(2) nl
    by (simp add: writeMessageLength_def)
  from outgoing_bytes [OF this] hdr(1) pad(1,2) show ?thesis
    by (intro exI [of _ hdr] exI [of _ pad]) (simp add: Let_def)
qed

lemma write_at_0: "write_at 0 bs buf = bs @ drop (length bs) buf"
  by (simp add: write_at_def)

text \<open>The receiving side undoes it.\<close>

lemma receive_packet_layout:
  assumes "length hdr = 4" "length c < 24570" "length (nm_buffer r0) = NETWORKMESSAGE_MAXSIZE"
  shows "\<exists>r rest. receive_packet (le_enc 2 (of_nat (4 + length c) :: u16) @ hdr @ c) r0 = Some r \<and>
    nm_buffer r = (le_enc 2 (of_nat (4 + length c) :: u16) @ hdr) @ c @ rest \<and>
    nm_length r = of_nat (6 + length c) \<and> nm_position r = 6 \<and> nm_overrun r = nm_overrun r0"
proof -
  define sz where "sz = (of_nat (4 + length c) :: u16)"
  have u: "unat sz = 4 + length c"
    unfolding sz_def using assms(2) by (intro unat_of_nat_u16) simp
  have nz: "sz \<noteq> 0" using u by (metis add_is_0 unat_0 zero_neq_numeral)
  have ul: "sz + 2 = of_nat (6 + length c)" by (simp add: sz_def)
  have ui: "uint (sz + 2) = int (6 + length c)"
    using assms(2) unat_of_nat_u16 [of "6 + length c"] unfolding ul by (simp add: uint_nat)
  have w1: "write_at 0 (le_enc 2 sz) b = le_enc 2 sz @ drop 2 b"
    "read_at 0 2 (le_enc 2 sz @ b) = le_enc 2 sz" for b
    by (simp_all add: write_at_0 read_at_def)
  have w2: "write_at 2 (hdr @ c) (le_enc 2 sz @ drop 2 b) = le_enc 2 sz @ hdr @ c @ drop (6 + length c) b" for b
    using assms(1) by (simp add: write_at_def add.commute)
  show ?thesis
    unfolding sz_def [symmetric] ul [symmetric] using assms
    by (simp add: receive_packet_def Let_def w1 u nz getBodyBuffer_def w2 nm_get_def canRead_def ui)
qed

lemma XTEA_decrypt_layout:
  assumes "nm_buffer r = pre @ xtea.enc_all (p_key p) mid @ rest" "length pre = 6"
    and "mid = le_enc 2 (of_nat (length bs) :: u16) @ bs @ pad" "length mid mod 8 = 0"
    and "length mid < 24570" "nm_length r = of_nat (6 + length mid)" "nm_position r = 6"
  shows "\<exists>r'. XTEA_decrypt p r = (True, r') \<and> nm_length r' = of_nat (length bs) \<and> nm_position r' = 8 \<and>
    nm_overrun r' = nm_overrun r \<and> read_at 8 (length bs) (nm_buffer r') = bs"
proof -
  let ?len = "of_nat (length bs) :: u16"
  have ul: "uint (nm_length r) = int (6 + length mid)"
    unfolding assms(6) uint_nat using assms(5) by (subst unat_of_nat_u16) simp_all
  have ub: "uint ?len = int (length bs)"
    unfolding uint_nat using assms(3,5) by (subst unat_of_nat_u16) simp_all
  have enc8: "length (xtea.enc_all (p_key p) mid) = length mid"
    using assms(4) by (rule xtea.length_enc_all)
  have loop: "block_loop (xtea_decrypt_block (p_key p)) 6 (length mid) 0 (nm_buffer r) = pre @ mid @ rest"
  proof -
    have "block_loop (xtea_decrypt_block (p_key p)) 6 (length mid) 0 (pre @ xtea.enc_all (p_key p) mid @ rest) =
        pre @ concat (map (xtea_decrypt_block (p_key p)) (chunks 8 (xtea.enc_all (p_key p) mid))) @ rest"
      using assms(2,4) enc8 by (intro xtea.block_loop_map) (simp_all add: xtea_decrypt_block_def)
    then show ?thesis
      using xtea.dec_enc_all [OF assms(4), of "p_key p"] by (simp add: assms(1) xtea.dec_all_def)
  qed
  have m8: "(uint (nm_length r) - 6) mod 8 = 0" "nat (uint (nm_length r) - 6) = length mid"
    using assms(4) unfolding ul by (simp_all flip: of_nat_mod) presburger
  have rd: "read_at 6 2 (pre @ mid @ rest) = le_enc 2 ?len"
    using assms(2) by (simp add: read_at_def assms(3))
  have cr: "canRead 2 (r\<lparr>nm_buffer := pre @ mid @ rest\<rparr>) = (True, r\<lparr>nm_buffer := pre @ mid @ rest\<rparr>)"
    using ul assms(7) by (simp add: canRead_def)
  have le: "\<not> uint ?len > uint (nm_length r) - 8"
    unfolding ul ub by (simp add: assms(3))
  have g: "nm_get (r\<lparr>nm_buffer := pre @ mid @ rest\<rparr>) =
      (?len, r\<lparr>nm_buffer := pre @ mid @ rest, nm_position := 8\<rparr>)"
    using assms(7) by (simp add: nm_get_def cr rd)
  have "XTEA_decrypt p r = (True, r\<lparr>nm_buffer := pre @ mid @ rest, nm_position := 8, nm_length := ?len\<rparr>)"
    using m8 le by (simp add: XTEA_decrypt_def Let_def assms(7) loop g)
  moreover have "read_at 8 (length bs) (pre @ mid @ rest) = bs"
    using assms(2) by (simp add: read_at_def assms(3))
  ultimately show ?thesis by simp
qed

text \<open>
C30.
  End to end: an encrypted message with a body that leaves room for the padding, sent by a protocol
  with a checksum or a sequence number and received by a protocol with the same key, is accepted by
  the header reader, decrypts, and has the length and the bytes of the body that was sent.
\<close>

theorem send_receive_roundtrip:
  assumes "body_is bs m" "outputBufferStart m = 8" "15 + length bs < MAX_BODY_LENGTH"
    and "\<not> rawMessages p" "encryptionEnabled p" "compactCrypt p \<or> checksumEnabled p"
    and "encryptionEnabled q" "p_key q = p_key p" "length (nm_buffer r0) = NETWORKMESSAGE_MAXSIZE"
  shows "\<exists>r r'. receive_packet (take (unat (nm_length (onSendMessage p m))) (getOutputBuffer (onSendMessage p m))) r0 = Some r \<and>
    onRecvMessage q r = Some r' \<and> nm_length r' = of_nat (length bs) \<and> nm_position r' = 8 \<and>
    read_at 8 (length bs) (nm_buffer r') = bs"
proof -
  from onSendMessage_wire [OF assms(1-6)] obtain hdr pad where
    hdr: "length hdr = 4" "(2 + length bs + length pad) mod 8 = 0" "length pad < 8"
    and wire: "take (unat (nm_length (onSendMessage p m))) (getOutputBuffer (onSendMessage p m)) =
      le_enc 2 (of_nat (4 + length (le_enc 2 (of_nat (length bs) :: u16) @ bs @ pad)) :: u16) @ hdr @
      xtea.enc_all (p_key p) (le_enc 2 (of_nat (length bs) :: u16) @ bs @ pad)"
    unfolding Let_def by (elim exE conjE)
  define mid where "mid = le_enc 2 (of_nat (length bs) :: u16) @ bs @ pad"
  have lm: "length mid mod 8 = 0" "length mid < 24570" using hdr assms(3) by (simp_all add: mid_def)
  have enc: "length (xtea.enc_all (p_key p) mid) = length mid" by (rule xtea.length_enc_all [OF lm(1)])
  have c: "length (xtea.enc_all (p_key p) mid) < 24570" using lm(2) enc by simp
  from receive_packet_layout [OF hdr(1) c assms(9)] obtain r rest where
    r: "receive_packet (le_enc 2 (of_nat (4 + length mid) :: u16) @ hdr @ xtea.enc_all (p_key p) mid) r0 = Some r"
      "nm_buffer r = (le_enc 2 (of_nat (4 + length mid) :: u16) @ hdr) @ xtea.enc_all (p_key q) mid @ rest"
      "nm_length r = of_nat (6 + length mid)" "nm_position r = 6"
    unfolding enc assms(8) by (elim exE conjE)
  have "length (le_enc 2 (of_nat (4 + length mid) :: u16) @ hdr) = 6" using hdr(1) by simp
  from XTEA_decrypt_layout [OF r(2) this mid_def lm r(3,4)] obtain r' where
    r': "XTEA_decrypt q r = (True, r')" "nm_length r' = of_nat (length bs)" "nm_position r' = 8"
      "read_at 8 (length bs) (nm_buffer r') = bs"
    by (elim exE conjE)
  from r' assms(7) have "onRecvMessage q r = Some r'" by (simp add: onRecvMessage_def)
  with r(1) r'(2-) show ?thesis unfolding wire mid_def [symmetric] by blast
qed

definition ex_protocol :: protocol where
  "ex_protocol = \<lparr>p_key = [1, 2, 3, 4], encryptionEnabled = True, checksumEnabled = True,
     compactCrypt = False, rawMessages = False\<rparr>"

theorem send_receive_roundtrip_witness:
  "\<exists>r r'. receive_packet (take (unat (nm_length (onSendMessage ex_protocol
       (addByte 42 (new_output_message (replicate NETWORKMESSAGE_MAXSIZE 0))))))
     (getOutputBuffer (onSendMessage ex_protocol
       (addByte 42 (new_output_message (replicate NETWORKMESSAGE_MAXSIZE 0))))))
     (new_message (replicate NETWORKMESSAGE_MAXSIZE 0)) = Some r \<and>
    onRecvMessage ex_protocol r = Some r' \<and> nm_length r' = 1 \<and> read_at 8 1 (nm_buffer r') = [42]"
proof -
  let ?m = "new_output_message (replicate NETWORKMESSAGE_MAXSIZE 0)"
  have "\<exists>hd rest. replicate NETWORKMESSAGE_MAXSIZE (0 :: byte) = hd @ rest \<and> length hd = 8"
    by (rule exI [of _ "replicate 8 0"], rule exI [of _ "replicate 24582 0"]) (simp flip: replicate_add)
  then have "body_is [] ?m" by (simp add: body_is_def new_output_message_def)
  then have b: "body_is [42] (addByte 42 ?m)" using body_is_addByte [of "[]" ?m 42] by simp
  have s: "outputBufferStart (addByte 42 ?m) = 8"
    by (simp add: addByte_def put_bytes_def new_output_message_def)
  from send_receive_roundtrip [OF b s, of ex_protocol ex_protocol "new_message (replicate NETWORKMESSAGE_MAXSIZE 0)"]
  show ?thesis by (auto simp: ex_protocol_def new_message_def)
qed

end
