(* ===== verification/Sha1_Token.thy ===== *)
theory Sha1_Token imports Prop_Stream begin

text \<open>
  \<open>transformToSHA1\<close> and \<open>generateToken\<close> of \<open>src/src/tools.cpp\<close>: the hash of the stored passwords and the
  six-digit token of the two-factor login.
\<close>

section \<open>The hash as the code computes it\<close>

definition circularShift :: "nat \<Rightarrow> u32 \<Rightarrow> u32" where
  "circularShift n value = push_bit n value OR drop_bit (32 - n) value"

definition be_word :: "byte \<Rightarrow> byte \<Rightarrow> byte \<Rightarrow> byte \<Rightarrow> u32" where
  "be_word a b c d = push_bit 24 (ucast a) OR push_bit 16 (ucast b) OR push_bit 8 (ucast c) OR ucast d"

text \<open>The 80 words of the schedule: the loop from 16 on appends to what it has.\<close>

definition schedule0 :: "byte list \<Rightarrow> u32 list" where
  "schedule0 messageBlock = map (\<lambda>i. be_word (messageBlock ! (4 * i)) (messageBlock ! (4 * i + 1))
     (messageBlock ! (4 * i + 2)) (messageBlock ! (4 * i + 3))) [0..<16]"

definition schedule_step :: "u32 list \<Rightarrow> nat \<Rightarrow> u32 list" where
  "schedule_step W i = W @ [circularShift 1 (W ! (i - 3) XOR W ! (i - 8) XOR W ! (i - 14) XOR W ! (i - 16))]"

definition schedule :: "byte list \<Rightarrow> u32 list" where
  "schedule messageBlock = foldl schedule_step (schedule0 messageBlock) [16..<80]"

type_synonym sha_regs = "u32 \<times> u32 \<times> u32 \<times> u32 \<times> u32"

definition sha_round :: "u32 list \<Rightarrow> sha_regs \<Rightarrow> nat \<Rightarrow> sha_regs" where
  "sha_round W = (\<lambda>(A, B, C, D, E) i.
     let (f, k) = (if i < 20 then ((B AND C) OR (NOT B AND D), 0x5A827999)
                   else if i < 40 then (B XOR C XOR D, 0x6ED9EBA1)
                   else if i < 60 then ((B AND C) OR (B AND D) OR (C AND D), 0x8F1BBCDC)
                   else (B XOR C XOR D, 0xCA62C1D6));
         tmp = circularShift 5 A + f + E + W ! i + k
     in (tmp, A, circularShift 30 B, C, D))"

definition processSHA1MessageBlock :: "byte list \<Rightarrow> sha_regs \<Rightarrow> sha_regs" where
  "processSHA1MessageBlock messageBlock H =
     (case H of (h0, h1, h2, h3, h4) \<Rightarrow>
      case foldl (sha_round (schedule messageBlock)) H [0..<80] of
        (A, B, C, D, E) \<Rightarrow> (h0 + A, h1 + B, h2 + C, h3 + D, h4 + E))"

text \<open>
  The state of the input loop: the registers, the bytes of the block filled so far, and the two
  halves of the bit count.
\<close>

record sha_state =
  sha_H :: sha_regs
  sha_block :: "byte list"
  length_low :: u32
  length_high :: u32

definition sha_init :: sha_state where
  "sha_init = \<lparr>sha_H = (0x67452301, 0xEFCDAB89, 0x98BADCFE, 0x10325476, 0xC3D2E1F0), sha_block = [],
     length_low = 0, length_high = 0\<rparr>"

definition sha_feed :: "byte \<Rightarrow> sha_state \<Rightarrow> sha_state" where
  "sha_feed ch s =
     (let block = sha_block s @ [ch];
          low = length_low s + 8;
          high = (if low = 0 then length_high s + 1 else length_high s)
      in if length block = 64
         then \<lparr>sha_H = processSHA1MessageBlock block (sha_H s), sha_block = [], length_low = low, length_high = high\<rparr>
         else s\<lparr>sha_block := block, length_low := low, length_high := high\<rparr>)"

definition be_bytes :: "u32 \<Rightarrow> byte list" where
  "be_bytes w = [ucast (drop_bit 24 w), ucast (drop_bit 16 w), ucast (drop_bit 8 w), ucast w]"

definition sha_finish :: "sha_state \<Rightarrow> sha_regs" where
  "sha_finish s =
     (let block = sha_block s @ [0x80];
          (H, block1) = (if length block > 56
             then (processSHA1MessageBlock (block @ replicate (64 - length block) 0) (sha_H s), [])
             else (sha_H s, block));
          block2 = block1 @ replicate (56 - length block1) 0 @ be_bytes (length_high s) @ be_bytes (length_low s)
      in processSHA1MessageBlock block2 H)"

definition hexDigits :: string where
  "hexDigits = ''0123456789abcdef''"

definition hex_byte :: "byte \<Rightarrow> string" where
  "hex_byte b = [hexDigits ! unat (drop_bit 4 b), hexDigits ! unat (b AND 15)]"

definition regs_list :: "sha_regs \<Rightarrow> u32 list" where
  "regs_list = (\<lambda>(h0, h1, h2, h3, h4). [h0, h1, h2, h3, h4])"

definition hash_byte :: "sha_regs \<Rightarrow> nat \<Rightarrow> byte" where
  "hash_byte H hashByte = ucast (drop_bit (8 * ((3 - hashByte mod 4) mod 4)) (regs_list H ! (hashByte div 4)))"

definition hexstring :: "sha_regs \<Rightarrow> string" where
  "hexstring H = concat (map (\<lambda>i. hex_byte (hash_byte H i)) [0..<20])"

definition sha1_regs :: "byte list \<Rightarrow> sha_regs" where
  "sha1_regs input = sha_finish (fold sha_feed input sha_init)"

definition transformToSHA1 :: "byte list \<Rightarrow> string" where
  "transformToSHA1 input = hexstring (sha1_regs input)"

section \<open>The hash as the standard defines it\<close>

text \<open>Padding to whole blocks: a one bit, zeros, the length in bits as 64 bits.\<close>

definition sha_padding :: "byte list \<Rightarrow> byte list" where
  "sha_padding m = m @ [0x80] @ replicate ((119 - length m mod 64) mod 64) 0 @
     be_bytes (of_nat (8 * length m div 2 ^ 32)) @ be_bytes (of_nat (8 * length m))"

definition sha1_spec :: "byte list \<Rightarrow> sha_regs" where
  "sha1_spec m = foldl (\<lambda>H b. processSHA1MessageBlock b H) (sha_H sha_init) (chunks 64 (sha_padding m))"

definition fed :: "byte list \<Rightarrow> sha_state \<Rightarrow> bool" where
  "fed m s \<longleftrightarrow> (\<exists>bs. m = bs @ sha_block s \<and> length bs mod 64 = 0 \<and>
       sha_H s = foldl (\<lambda>H b. processSHA1MessageBlock b H) (sha_H sha_init) (chunks 64 bs)) \<and>
     length (sha_block s) < 64 \<and>
     length_low s = of_nat (8 * length m) \<and> length_high s = of_nat (8 * length m div 2 ^ 32)"

lemma of_nat_u32_0: "(of_nat k :: u32) = 0 \<longleftrightarrow> k mod 4294967296 = 0"
  by (simp add: word_of_nat_eq_0_iff dvd_eq_mod_eq_0)

lemma high_carry: "8 * Suc n div 4294967296 =
    (if 8 * Suc n mod 4294967296 = 0 then Suc (8 * n div 4294967296) else 8 * n div 4294967296)"
proof -
  have p: "(4294967296 :: nat) = 8 * 536870912" by simp
  have "8 * Suc n div 4294967296 = Suc n div 536870912" "8 * n div 4294967296 = n div 536870912"
    "8 * Suc n mod 4294967296 = 0 \<longleftrightarrow> Suc n mod 536870912 = 0"
    unfolding p by (simp_all only: div_mult_mult1 mult_mod_right [symmetric]) simp_all
  then show ?thesis by (simp add: div_Suc)
qed

lemma fed_init: "fed [] sha_init"
  by (simp add: fed_def sha_init_def)

lemma fed_feed: "fed m s \<Longrightarrow> fed (m @ [ch]) (sha_feed ch s)"
proof -
  assume f: "fed m s"
  then obtain bs where bs: "m = bs @ sha_block s" "length bs mod 64 = 0"
    "sha_H s = foldl (\<lambda>H b. processSHA1MessageBlock b H) (sha_H sha_init) (chunks 64 bs)"
    by (auto simp: fed_def)
  have low: "length_low s + 8 = of_nat (8 * length (m @ [ch]))"
    using f by (simp add: fed_def)
  have "of_nat (8 * Suc (length m) div 4294967296) =
      (if length_low s + 8 = 0 then length_high s + 1 else length_high s)"
    unfolding low of_nat_u32_0 high_carry using f by (simp add: fed_def)
  then have high: "length_high (sha_feed ch s) = of_nat (8 * length (m @ [ch]) div 2 ^ 32)"
    by (simp add: sha_feed_def Let_def)
  have lo: "length_low (sha_feed ch s) = of_nat (8 * length (m @ [ch]))"
    using low by (simp add: sha_feed_def Let_def)
  have blocks: "\<exists>cs. m @ [ch] = cs @ sha_block (sha_feed ch s) \<and> length cs mod 64 = 0 \<and>
      sha_H (sha_feed ch s) = foldl (\<lambda>H b. processSHA1MessageBlock b H) (sha_H sha_init) (chunks 64 cs)"
  proof (cases "length (sha_block s @ [ch]) = 64")
    case True
    have "chunks 64 (bs @ sha_block s @ [ch]) = chunks 64 bs @ [sha_block s @ [ch]]"
      using bs(2) True chunks_append [of "sha_block s @ [ch]" 64 "[]"]
      by (simp add: chunks_append_multiple)
    then show ?thesis using True bs
      by (intro exI [of _ "bs @ sha_block s @ [ch]"]) (simp add: sha_feed_def Let_def)
  next
    case False
    then show ?thesis using bs by (intro exI [of _ bs]) (simp add: sha_feed_def Let_def)
  qed
  have "length (sha_block (sha_feed ch s)) < 64"
    using f by (simp add: fed_def sha_feed_def Let_def)
  then show ?thesis unfolding fed_def using blocks lo high by (intro conjI)
qed

lemma fed_all: "fed m (fold sha_feed m sha_init)"
proof (induction m rule: rev_induct)
  case Nil
  then show ?case by (simp add: fed_init)
next
  case (snoc ch m)
  then show ?case by (simp add: fed_feed)
qed

lemma sha_finish_spec: "fed m s \<Longrightarrow> sha_finish s = sha1_spec m"
proof -
  assume f: "fed m s"
  then obtain bs where bs: "m = bs @ sha_block s" "length bs mod 64 = 0"
    "sha_H s = foldl (\<lambda>H b. processSHA1MessageBlock b H) (sha_H sha_init) (chunks 64 bs)"
    by (auto simp: fed_def)
  define r where "r = sha_block s"
  have r: "length r < 64" using f by (simp add: fed_def r_def)
  have lm: "length m mod 64 = length r" using bs r by (simp add: r_def) (metis mod_add_left_eq add_0 mod_less)
  define tail where "tail = be_bytes (length_high s) @ be_bytes (length_low s)"
  have tail: "length tail = 8" by (simp add: tail_def be_bytes_def)
  have pad: "sha_padding m = bs @ (r @ [0x80] @ replicate ((119 - length r) mod 64) 0 @ tail)"
    using f bs(1) lm by (simp add: sha_padding_def tail_def r_def fed_def)
  have fold: "sha1_spec m = foldl (\<lambda>H b. processSHA1MessageBlock b H) (sha_H s)
      (chunks 64 (r @ [0x80] @ replicate ((119 - length r) mod 64) 0 @ tail))"
    using bs(2,3) by (simp add: sha1_spec_def pad chunks_append_multiple)
  show ?thesis
  proof (cases "length r + 1 > 56")
    case False
    then have "(119 - length r) mod 64 = 55 - length r" using mod_add_self2 [of "55 - length r" 64] by simp
    moreover from this False tail have "length (r @ [0x80] @ replicate ((119 - length r) mod 64) 0 @ tail) = 64"
      by simp
    ultimately show ?thesis
      using False chunks_append [of "r @ [0x80] @ replicate (55 - length r) 0 @ tail" 64 "[]"]
      by (simp add: fold sha_finish_def Let_def flip: r_def tail_def)
  next
    case True
    then have m: "(119 - length r) mod 64 = 119 - length r" using r by simp
    have "replicate (119 - length r) (0 :: byte) = replicate (63 - length r) 0 @ replicate 56 0"
      using True r by (simp flip: replicate_add)
    then have "r @ [0x80] @ replicate (119 - length r) 0 @ tail =
        (r @ [0x80] @ replicate (63 - length r) 0) @ (replicate 56 0 @ tail) @ []" by simp
    moreover have "length (r @ [0x80 :: byte] @ replicate (63 - length r) 0) = 64"
      "length (replicate 56 (0 :: byte) @ tail) = 64" using r True tail by simp_all
    ultimately have "chunks 64 (r @ [0x80] @ replicate (119 - length r) 0 @ tail) =
       [r @ [0x80] @ replicate (63 - length r) 0, replicate 56 0 @ tail]"
      by (simp only: chunks_append chunks_Nil)
    with True m show ?thesis by (simp add: fold sha_finish_def Let_def flip: r_def tail_def)
  qed
qed


section \<open>The token\<close>

fun hex_val :: "string \<Rightarrow> char \<Rightarrow> nat" where
  "hex_val [] c = 0"
| "hex_val (d # ds) c = (if c = d then 0 else Suc (hex_val ds c))"

text \<open>\<open>std::stol(s, nullptr, 16)\<close> on a string of lower-case hexadecimal digits.\<close>

definition stol16 :: "string \<Rightarrow> nat" where
  "stol16 s = foldl (\<lambda>n c. 16 * n + hex_val hexDigits c) 0 s"

definition substr :: "nat \<Rightarrow> nat \<Rightarrow> 'a list \<Rightarrow> 'a list" where
  "substr pos n s = take n (drop pos s)"

text \<open>\<open>std::to_string\<close> of a number.\<close>

fun dec_string :: "nat \<Rightarrow> string" where
  "dec_string n = (if n < 10 then [hexDigits ! n] else dec_string (n div 10) @ [hexDigits ! (n mod 10)])"

declare dec_string.simps [simp del]

definition tick_message :: "u32 \<Rightarrow> byte list" where
  "tick_message ticks = 0 # map (\<lambda>i. ucast (drop_bit (8 * (7 - i)) ticks AND 0xFF)) [1..<8]"

definition key_pad :: "byte \<Rightarrow> byte list \<Rightarrow> byte list" where
  "key_pad pad key = map (\<lambda>i. if i < length key then pad XOR key ! i else pad) [0..<64]"

text \<open>
  A key of more than 64 bytes is written past the end of the pads (and one of 256 or more makes the
  8-bit loop counter go round for ever): the model gives \<^const>\<open>None\<close> there.
\<close>

definition generateToken :: "byte list \<Rightarrow> u32 \<Rightarrow> string option" where
  "generateToken key ticks =
     (if length key > 64 then None
      else
        let iKeyPad = key_pad 0x36 key @ tick_message ticks;
            message1 = transformToSHA1 iKeyPad;
            oKeyPad = key_pad 0x5C key @ map (\<lambda>i. of_nat (stol16 (substr (2 * i) 2 message1))) [0..<20];
            message2 = transformToSHA1 oKeyPad;
            offset = stol16 (substr 39 1 message2) mod 16;
            truncHash = stol16 (substr (2 * offset) 8 message2) mod 2 ^ 31;
            message3 = dec_string truncHash;
            hashLen = length message3;
            message4 = drop (hashLen - min hashLen 6) message3
        in Some (replicate (6 - min hashLen 6) (CHR ''0'') @ message4))"

text \<open>The token as a one-time password: the HMAC of the counter, truncated at the offset that its last
  four bits give, in its last six decimal digits.\<close>

definition sha1_bytes :: "byte list \<Rightarrow> byte list" where
  "sha1_bytes m = map (hash_byte (sha1_spec m)) [0..<20]"

definition hmac_sha1 :: "byte list \<Rightarrow> byte list \<Rightarrow> byte list" where
  "hmac_sha1 key m = sha1_bytes (key_pad 0x5C key @ sha1_bytes (key_pad 0x36 key @ m))"

definition be_value :: "byte list \<Rightarrow> nat" where
  "be_value bs = foldl (\<lambda>n b. 256 * n + unat b) 0 bs"

fun dec_fixed :: "nat \<Rightarrow> nat \<Rightarrow> string" where
  "dec_fixed 0 n = []"
| "dec_fixed (Suc k) n = dec_fixed k (n div 10) @ [hexDigits ! (n mod 10)]"

definition hotp :: "byte list \<Rightarrow> byte list \<Rightarrow> string" where
  "hotp key counter =
     (let hs = hmac_sha1 key counter;
          offset = unat (hs ! 19) mod 16
      in dec_fixed 6 (be_value (substr offset 4 hs) mod 2 ^ 31))"

lemma hex_val_digit: "n < 16 \<Longrightarrow> hex_val hexDigits (hexDigits ! n) = n"
proof -
  have "\<forall>n \<in> {..<16}. hex_val hexDigits (hexDigits ! n) = n"
    by (simp add: hexDigits_def numeral_eq_Suc lessThan_Suc)
  then show "n < 16 \<Longrightarrow> hex_val hexDigits (hexDigits ! n) = n" by simp
qed

lemma hi_nibble: "unat (drop_bit 4 (b :: byte)) = unat b div 16"
proof -
  have "unat (drop_bit 4 b) = drop_bit 4 (unat b)" by (rule unat_drop_bit_eq)
  also have "\<dots> = unat b div 2 ^ 4" by (rule drop_bit_eq_div)
  finally show ?thesis by simp
qed

lemma lo_nibble: "unat (b AND 15 :: byte) = unat b mod 16"
proof -
  have "b AND 15 = take_bit 4 b" by (simp add: take_bit_eq_mask mask_eq_exp_minus_1)
  then have "unat (b AND 15) = take_bit 4 (unat b)" by (simp only: unsigned_take_bit_eq)
  then show ?thesis by (simp add: take_bit_eq_mod)
qed

lemma stol16_hex_byte: "stol16 (xs @ hex_byte b) = 256 * stol16 xs + unat b"
proof -
  have "unat b div 16 < 16" using unat_less_u8 [of b] by linarith
  then show ?thesis by (simp add: stol16_def hex_byte_def hi_nibble lo_nibble hex_val_digit)
qed

lemma stol16_hex: "stol16 (concat (map hex_byte bs)) = be_value bs"
proof (induction bs rule: rev_induct)
  case (snoc b bs)
  then show ?case by (simp add: stol16_hex_byte be_value_def)
qed (simp add: stol16_def be_value_def)

lemma length_hex_byte [simp]: "length (hex_byte b) = 2"
  by (simp add: hex_byte_def)

lemma substr_hex: "substr (2 * i) (2 * n) (concat (map hex_byte bs)) = concat (map hex_byte (substr i n bs))"
proof -
  have t: "take (2 * n) (concat (map hex_byte bs)) = concat (map hex_byte (take n bs))" for n bs
  proof (induction bs arbitrary: n)
    case (Cons b bs)
    then show ?case by (cases n) auto
  qed simp
  have d: "drop (2 * n) (concat (map hex_byte bs)) = concat (map hex_byte (drop n bs))" for n bs
  proof (induction bs arbitrary: n)
    case (Cons b bs)
    then show ?case by (cases n) auto
  qed simp
  show ?thesis by (simp add: substr_def t d)
qed

lemma length_hex [simp]: "length (concat (map hex_byte bs)) = 2 * length bs"
  by (induction bs) auto

lemma transformToSHA1_bytes: "transformToSHA1 m = concat (map hex_byte (sha1_bytes m))"
  by (simp add: transformToSHA1_def sha1_regs_def sha_finish_spec [OF fed_all] hexstring_def sha1_bytes_def comp_def)

lemma length_sha1_bytes [simp]: "length (sha1_bytes m) = 20"
  by (simp add: sha1_bytes_def)

lemma bytes_from_hex: "length bs = 20 \<Longrightarrow>
   map (\<lambda>i. of_nat (stol16 (substr (2 * i) 2 (concat (map hex_byte bs))))) [0..<20] = bs"
proof (rule nth_equalityI)
  fix i assume l: "length bs = 20" and "i < length (map (\<lambda>i. of_nat (stol16 (substr (2 * i) 2 (concat (map hex_byte bs)))) :: byte) [0..<20])"
  then have i: "i < length bs" by simp
  then have "substr i 1 bs = [bs ! i]" by (simp add: substr_def take_Suc_conv_app_nth hd_drop_conv_nth)
  then have "stol16 (substr (2 * i) 2 (concat (map hex_byte bs))) = unat (bs ! i)"
    using substr_hex [of i 1 bs] stol16_hex [of "[bs ! i]"] by (simp add: be_value_def)
  with i l show "map (\<lambda>i. of_nat (stol16 (substr (2 * i) 2 (concat (map hex_byte bs))))) [0..<20] ! i = bs ! i"
    by simp
qed simp

lemma last_nibble: "length bs = 20 \<Longrightarrow> stol16 (substr 39 1 (concat (map hex_byte bs))) = unat (bs ! 19) mod 16"
proof -
  assume l: "length bs = 20"
  then have bs: "bs = take 19 bs @ [bs ! 19]" using id_take_nth_drop [of 19 bs] by simp
  have "concat (map hex_byte bs) = concat (map hex_byte (take 19 bs)) @ hex_byte (bs ! 19)"
    by (subst bs) simp
  then have "substr 39 1 (concat (map hex_byte bs)) = [hexDigits ! unat (bs ! 19 AND 15)]"
    using l by (simp add: substr_def hex_byte_def)
  then show ?thesis by (simp add: stol16_def lo_nibble hex_val_digit)
qed

lemma dec_string_fixed: "0 < k \<Longrightarrow>
   replicate (k - min (length (dec_string n)) k) (CHR ''0'') @
     drop (length (dec_string n) - min (length (dec_string n)) k) (dec_string n) = dec_fixed k n"
proof (induction k arbitrary: n)
  case (Suc k)
  have z: "dec_fixed j 0 = replicate j (CHR ''0'')" for j
    by (induction j) (simp_all add: hexDigits_def replicate_append_same)
  have ne: "dec_string m \<noteq> []" for m by (subst dec_string.simps) simp
  show ?case
  proof (cases "n < 10")
    case True
    then have d: "dec_string n = [hexDigits ! n]" by (subst dec_string.simps) simp
    from True z [of k] show ?thesis by (simp add: d)
  next
    case False
    then have d: "dec_string n = dec_string (n div 10) @ [hexDigits ! (n mod 10)]"
      by (subst dec_string.simps) simp
    show ?thesis
    proof (cases k)
      case 0
      then show ?thesis using ne [of "n div 10"] by (cases "dec_string (n div 10)") (simp_all add: d)
    next
      case (Suc j)
      with Suc.IH [of "n div 10"] show ?thesis by (auto simp: d min_def)
    qed
  qed
qed simp

lemma generateToken_hotp: "length key \<le> 64 \<Longrightarrow> generateToken key ticks = Some (hotp key (tick_message ticks))"
proof -
  assume k: "length key \<le> 64"
  have sub8: "substr (2 * i) 8 (concat (map hex_byte bs)) = concat (map hex_byte (substr i 4 bs))" for i bs
    using substr_hex [of i 4 bs] by simp
  show ?thesis
    using k dec_string_fixed [of 6]
    by (simp add: generateToken_def Let_def transformToSHA1_bytes bytes_from_hex last_nibble [simplified] sub8 stol16_hex
        hotp_def hmac_sha1_def)
qed



end
