(* ===== verification/Conditions.thy ===== *)
theory Conditions imports Prop_Stream begin

text \<open>
  The data of \<open>src/src/condition.h\<close> and the operations of \<open>src/src/condition.cpp\<close> that create
  conditions and store them with a player. Signed integers are mathematical integers (their overflow
  is undefined in C++), stored in 32 bits; unsigned ones are words. A \<open>float\<close> is carried by its bits.
  A subclass of \<open>Condition\<close> is a constructor of \<open>condition_data\<close>.
\<close>

section \<open>Data\<close>

type_synonym condition_type = u32
type_synonym condition_id = "8 word"

abbreviation "CONDITION_POISON \<equiv> (0x1 :: condition_type)"
abbreviation "CONDITION_FIRE \<equiv> (0x2 :: condition_type)"
abbreviation "CONDITION_ENERGY \<equiv> (0x4 :: condition_type)"
abbreviation "CONDITION_BLEEDING \<equiv> (0x8 :: condition_type)"
abbreviation "CONDITION_HASTE \<equiv> (0x10 :: condition_type)"
abbreviation "CONDITION_PARALYZE \<equiv> (0x20 :: condition_type)"
abbreviation "CONDITION_OUTFIT \<equiv> (0x40 :: condition_type)"
abbreviation "CONDITION_INVISIBLE \<equiv> (0x80 :: condition_type)"
abbreviation "CONDITION_LIGHT \<equiv> (0x100 :: condition_type)"
abbreviation "CONDITION_MANASHIELD \<equiv> (0x200 :: condition_type)"
abbreviation "CONDITION_INFIGHT \<equiv> (0x400 :: condition_type)"
abbreviation "CONDITION_DRUNK \<equiv> (0x800 :: condition_type)"
abbreviation "CONDITION_EXHAUST_WEAPON \<equiv> (0x1000 :: condition_type)"
abbreviation "CONDITION_REGENERATION \<equiv> (0x2000 :: condition_type)"
abbreviation "CONDITION_SOUL \<equiv> (0x4000 :: condition_type)"
abbreviation "CONDITION_DROWN \<equiv> (0x8000 :: condition_type)"
abbreviation "CONDITION_MUTED \<equiv> (0x10000 :: condition_type)"
abbreviation "CONDITION_CHANNELMUTEDTICKS \<equiv> (0x20000 :: condition_type)"
abbreviation "CONDITION_YELLTICKS \<equiv> (0x40000 :: condition_type)"
abbreviation "CONDITION_ATTRIBUTES \<equiv> (0x80000 :: condition_type)"
abbreviation "CONDITION_FREEZING \<equiv> (0x100000 :: condition_type)"
abbreviation "CONDITION_DAZZLED \<equiv> (0x200000 :: condition_type)"
abbreviation "CONDITION_CURSED \<equiv> (0x400000 :: condition_type)"
abbreviation "CONDITION_EXHAUST_COMBAT \<equiv> (0x800000 :: condition_type)"
abbreviation "CONDITION_EXHAUST_HEAL \<equiv> (0x1000000 :: condition_type)"
abbreviation "CONDITION_PACIFIED \<equiv> (0x2000000 :: condition_type)"
abbreviation "CONDITION_SPELLCOOLDOWN \<equiv> (0x4000000 :: condition_type)"
abbreviation "CONDITION_SPELLGROUPCOOLDOWN \<equiv> (0x8000000 :: condition_type)"

abbreviation "CONDITIONID_DEFAULT \<equiv> (-1 :: condition_id)"
abbreviation "CONDITIONID_COMBAT \<equiv> (0 :: condition_id)"

abbreviation "int64_max \<equiv> (9223372036854775807 :: int)"

datatype interval_info = IntervalInfo (timeLeft: int) (ivalue: int) (interval: int)

record attributes_data =
  skills :: "int list"
  skillsPercent :: "int list"
  stats :: "int list"
  statsPercent :: "int list"
  currentSkill :: nat
  currentStat :: nat

record regeneration_data =
  internalHealthTicks :: u32
  internalManaTicks :: u32
  healthTicks :: u32
  manaTicks :: u32
  healthGain :: u32
  manaGain :: u32

record soul_data =
  internalSoulTicks :: u32
  soulTicks :: u32
  soulGain :: u32

record damage_data =
  maxDamage :: int
  minDamage :: int
  startDamage :: int
  periodDamage :: int
  periodDamageTick :: int
  tickInterval :: int
  forceUpdate :: bool
  delayed :: bool
  is_field :: bool
  dmg_owner :: u32
  damageList :: "interval_info list"

record speed_data =
  speedDelta :: int
  mina :: u32
  minb :: u32
  maxa :: u32
  maxb :: u32

record outfit =
  lookType :: u16
  lookTypeEx :: u16
  lookMount :: u16
  lookHead :: u8
  lookBody :: u8
  lookLegs :: u8
  lookFeet :: u8
  lookAddons :: u8

record light_data =
  lightLevel :: u8
  lightColor :: u8
  internalLightTicks :: u32
  lightChangeInterval :: u32

datatype condition_data =
    ConditionGeneric
  | ConditionAttributes attributes_data
  | ConditionRegeneration regeneration_data
  | ConditionSoul soul_data
  | ConditionInvisible
  | ConditionDamage damage_data
  | ConditionSpeed speed_data
  | ConditionOutfit outfit
  | ConditionLight light_data
  | ConditionSpellCooldown
  | ConditionSpellGroupCooldown

record condition =
  endTime :: int
  subId :: u32
  ticks :: int
  conditionType :: condition_type
  cond_id :: condition_id
  isBuff :: bool
  cdata :: condition_data

section \<open>Creation\<close>

definition new_attributes :: attributes_data where
  "new_attributes = \<lparr>skills = replicate 13 0, skillsPercent = replicate 13 0, stats = replicate 4 0,
     statsPercent = replicate 4 0, currentSkill = 0, currentStat = 0\<rparr>"

definition new_regeneration :: regeneration_data where
  "new_regeneration = \<lparr>internalHealthTicks = 0, internalManaTicks = 0, healthTicks = 1000,
     manaTicks = 1000, healthGain = 0, manaGain = 0\<rparr>"

definition new_soul :: soul_data where
  "new_soul = \<lparr>internalSoulTicks = 0, soulTicks = 0, soulGain = 0\<rparr>"

definition new_damage :: damage_data where
  "new_damage = \<lparr>maxDamage = 0, minDamage = 0, startDamage = 0, periodDamage = 0, periodDamageTick = 0,
     tickInterval = 2000, forceUpdate = False, delayed = False, is_field = False, dmg_owner = 0,
     damageList = []\<rparr>"

definition new_speed :: "int \<Rightarrow> speed_data" where
  "new_speed changeSpeed = \<lparr>speedDelta = changeSpeed, mina = 0, minb = 0, maxa = 0, maxb = 0\<rparr>"

definition new_outfit :: outfit where
  "new_outfit = \<lparr>lookType = 0, lookTypeEx = 0, lookMount = 0, lookHead = 0, lookBody = 0, lookLegs = 0,
     lookFeet = 0, lookAddons = 0\<rparr>"

definition new_light :: "u8 \<Rightarrow> u8 \<Rightarrow> light_data" where
  "new_light level color = \<lparr>lightLevel = level, lightColor = color, internalLightTicks = 0,
     lightChangeInterval = 0\<rparr>"

definition new_condition :: "condition_id \<Rightarrow> condition_type \<Rightarrow> int \<Rightarrow> bool \<Rightarrow> u32 \<Rightarrow> condition_data \<Rightarrow> condition" where
  "new_condition i type tk buff sub d =
     \<lparr>endTime = (if tk = -1 then int64_max else 0), subId = sub, ticks = tk, conditionType = type,
      cond_id = i, isBuff = buff, cdata = d\<rparr>"

definition damage_types :: "condition_type list" where
  "damage_types = [CONDITION_POISON, CONDITION_FIRE, CONDITION_ENERGY, CONDITION_DROWN, CONDITION_FREEZING,
     CONDITION_DAZZLED, CONDITION_CURSED, CONDITION_BLEEDING]"

definition generic_types :: "condition_type list" where
  "generic_types = [CONDITION_INFIGHT, CONDITION_DRUNK, CONDITION_EXHAUST_WEAPON, CONDITION_EXHAUST_COMBAT,
     CONDITION_EXHAUST_HEAL, CONDITION_MUTED, CONDITION_CHANNELMUTEDTICKS, CONDITION_YELLTICKS,
     CONDITION_PACIFIED, CONDITION_MANASHIELD]"

text \<open>A condition of damage is created with zero ticks, whatever the caller asks for.\<close>

definition createCondition :: "condition_id \<Rightarrow> condition_type \<Rightarrow> int \<Rightarrow> int \<Rightarrow> bool \<Rightarrow> u32 \<Rightarrow> condition option" where
  "createCondition i type tk param buff sub =
     (let mk = new_condition i type tk buff sub in
      if type \<in> set damage_types then Some (new_condition i type 0 buff sub (ConditionDamage new_damage))
      else if type = CONDITION_HASTE \<or> type = CONDITION_PARALYZE then Some (mk (ConditionSpeed (new_speed param)))
      else if type = CONDITION_INVISIBLE then Some (mk ConditionInvisible)
      else if type = CONDITION_OUTFIT then Some (mk (ConditionOutfit new_outfit))
      else if type = CONDITION_LIGHT then
        Some (mk (ConditionLight (new_light (word_of_int param) (word_of_int (param div 256)))))
      else if type = CONDITION_REGENERATION then Some (mk (ConditionRegeneration new_regeneration))
      else if type = CONDITION_SOUL then Some (mk (ConditionSoul new_soul))
      else if type = CONDITION_ATTRIBUTES then Some (mk (ConditionAttributes new_attributes))
      else if type = CONDITION_SPELLCOOLDOWN then Some (mk ConditionSpellCooldown)
      else if type = CONDITION_SPELLGROUPCOOLDOWN then Some (mk ConditionSpellGroupCooldown)
      else if type \<in> set generic_types then Some (mk ConditionGeneric)
      else None)"

definition setTicks :: "int \<Rightarrow> int \<Rightarrow> condition \<Rightarrow> condition" where
  "setTicks now newTicks c = c\<lparr>ticks := newTicks, endTime := newTicks + now\<rparr>"

definition isPersistent :: "condition \<Rightarrow> bool" where
  "isPersistent c =
     (if ticks c = -1 then False
      else if \<not> (cond_id c = CONDITIONID_DEFAULT \<or> cond_id c = CONDITIONID_COMBAT) then False
      else True)"

section \<open>Serialisation\<close>

abbreviation "CONDITIONATTR_TYPE \<equiv> (1 :: u8)"
abbreviation "CONDITIONATTR_ID \<equiv> (2 :: u8)"
abbreviation "CONDITIONATTR_TICKS \<equiv> (3 :: u8)"
abbreviation "CONDITIONATTR_HEALTHTICKS \<equiv> (4 :: u8)"
abbreviation "CONDITIONATTR_HEALTHGAIN \<equiv> (5 :: u8)"
abbreviation "CONDITIONATTR_MANATICKS \<equiv> (6 :: u8)"
abbreviation "CONDITIONATTR_MANAGAIN \<equiv> (7 :: u8)"
abbreviation "CONDITIONATTR_DELAYED \<equiv> (8 :: u8)"
abbreviation "CONDITIONATTR_OWNER \<equiv> (9 :: u8)"
abbreviation "CONDITIONATTR_INTERVALDATA \<equiv> (10 :: u8)"
abbreviation "CONDITIONATTR_SPEEDDELTA \<equiv> (11 :: u8)"
abbreviation "CONDITIONATTR_FORMULA_MINA \<equiv> (12 :: u8)"
abbreviation "CONDITIONATTR_FORMULA_MINB \<equiv> (13 :: u8)"
abbreviation "CONDITIONATTR_FORMULA_MAXA \<equiv> (14 :: u8)"
abbreviation "CONDITIONATTR_FORMULA_MAXB \<equiv> (15 :: u8)"
abbreviation "CONDITIONATTR_LIGHTCOLOR \<equiv> (16 :: u8)"
abbreviation "CONDITIONATTR_LIGHTLEVEL \<equiv> (17 :: u8)"
abbreviation "CONDITIONATTR_LIGHTTICKS \<equiv> (18 :: u8)"
abbreviation "CONDITIONATTR_LIGHTINTERVAL \<equiv> (19 :: u8)"
abbreviation "CONDITIONATTR_SOULTICKS \<equiv> (20 :: u8)"
abbreviation "CONDITIONATTR_SOULGAIN \<equiv> (21 :: u8)"
abbreviation "CONDITIONATTR_SKILLS \<equiv> (22 :: u8)"
abbreviation "CONDITIONATTR_STATS \<equiv> (23 :: u8)"
abbreviation "CONDITIONATTR_OUTFIT \<equiv> (24 :: u8)"
abbreviation "CONDITIONATTR_PERIODDAMAGE \<equiv> (25 :: u8)"
abbreviation "CONDITIONATTR_ISBUFF \<equiv> (26 :: u8)"
abbreviation "CONDITIONATTR_SUBID \<equiv> (27 :: u8)"
abbreviation "CONDITIONATTR_END \<equiv> (254 :: u8)"

text \<open>A signed integer in the stream.\<close>

definition write_i32 :: "int \<Rightarrow> byte list" where
  "write_i32 v = prop_write (word_of_int v :: u32)"

definition read_i32 :: "byte list \<Rightarrow> int option \<times> byte list" where
  "read_i32 p = map_prod (map_option sint) id (prop_read p :: u32 option \<times> byte list)"

interpretation i32f: field_codec write_i32 read_i32 in_i32
  by unfold_locales (simp add: write_i32_def read_i32_def sint_of_int_i32)

text \<open>Read a value and put it into the condition, or fail.\<close>

definition take_field :: "(byte list \<Rightarrow> 'v option \<times> byte list) \<Rightarrow> ('v \<Rightarrow> condition) \<Rightarrow> byte list \<Rightarrow>
    (condition \<times> byte list) option" where
  "take_field rd k p = (case rd p of (None, _) \<Rightarrow> None | (Some v, p') \<Rightarrow> Some (k v, p'))"

abbreviation "read_u8 \<equiv> (prop_read :: byte list \<Rightarrow> u8 option \<times> byte list)"
abbreviation "read_u16 \<equiv> (prop_read :: byte list \<Rightarrow> u16 option \<times> byte list)"
abbreviation "read_u32 \<equiv> (prop_read :: byte list \<Rightarrow> u32 option \<times> byte list)"

definition base_unserializeProp :: "u8 \<Rightarrow> byte list \<Rightarrow> condition \<Rightarrow> (condition \<times> byte list) option" where
  "base_unserializeProp attr p c =
     (if attr = CONDITIONATTR_TYPE then take_field read_u32 (\<lambda>v. c\<lparr>conditionType := v\<rparr>) p
      else if attr = CONDITIONATTR_ID then take_field read_u32 (\<lambda>v. c\<lparr>cond_id := ucast v\<rparr>) p
      else if attr = CONDITIONATTR_TICKS then take_field read_i32 (\<lambda>v. c\<lparr>ticks := v\<rparr>) p
      else if attr = CONDITIONATTR_ISBUFF then take_field read_u8 (\<lambda>v. c\<lparr>isBuff := (v \<noteq> 0)\<rparr>) p
      else if attr = CONDITIONATTR_SUBID then take_field read_u32 (\<lambda>v. c\<lparr>subId := v\<rparr>) p
      else if attr = CONDITIONATTR_END then Some (c, p)
      else None)"

definition read_interval :: "byte list \<Rightarrow> interval_info option \<times> byte list" where
  "read_interval p =
     (if prop_size p < 12 then (None, p)
      else (case (read_i32 p, read_i32 (drop 4 p), read_i32 (drop 8 p)) of
              ((Some t, _), (Some v, _), (Some i, _)) \<Rightarrow> (Some (IntervalInfo t v i), drop 12 p)
            | _ \<Rightarrow> (None, p)))"

definition write_interval :: "interval_info \<Rightarrow> byte list" where
  "write_interval d = write_i32 (timeLeft d) @ write_i32 (ivalue d) @ write_i32 (interval d)"

text \<open>\<open>Outfit_t\<close> takes twelve bytes: eleven of data and one of padding, of unspecified value.\<close>

definition write_outfit :: "outfit \<Rightarrow> byte list" where
  "write_outfit out = prop_write (lookType out) @ prop_write (lookTypeEx out) @ prop_write (lookMount out) @
     [lookHead out, lookBody out, lookLegs out, lookFeet out, lookAddons out, 0]"

definition read_outfit :: "byte list \<Rightarrow> outfit option \<times> byte list" where
  "read_outfit p =
     (if prop_size p < 12 then (None, p)
      else (Some \<lparr>lookType = le_dec (take 2 p), lookTypeEx = le_dec (take 2 (drop 2 p)),
                  lookMount = le_dec (take 2 (drop 4 p)), lookHead = p ! 6, lookBody = p ! 7,
                  lookLegs = p ! 8, lookFeet = p ! 9, lookAddons = p ! 10\<rparr>, drop 12 p))"

text \<open>
  \<open>skills[currentSkill++]\<close> writes past the array at its end; the model fails there.
\<close>

definition attributes_unserializeProp :: "u8 \<Rightarrow> byte list \<Rightarrow> condition \<Rightarrow> attributes_data \<Rightarrow> (condition \<times> byte list) option" where
  "attributes_unserializeProp attr p c a =
     (if attr = CONDITIONATTR_SKILLS then
        (if length (skills a) \<le> currentSkill a then None
         else take_field read_i32 (\<lambda>v. c\<lparr>cdata := ConditionAttributes
                (a\<lparr>skills := (skills a)[currentSkill a := v], currentSkill := currentSkill a + 1\<rparr>)\<rparr>) p)
      else if attr = CONDITIONATTR_STATS then
        (if length (stats a) \<le> currentStat a then None
         else take_field read_i32 (\<lambda>v. c\<lparr>cdata := ConditionAttributes
                (a\<lparr>stats := (stats a)[currentStat a := v], currentStat := currentStat a + 1\<rparr>)\<rparr>) p)
      else base_unserializeProp attr p c)"

definition regeneration_unserializeProp :: "u8 \<Rightarrow> byte list \<Rightarrow> condition \<Rightarrow> regeneration_data \<Rightarrow> (condition \<times> byte list) option" where
  "regeneration_unserializeProp attr p c r =
     (let put = (\<lambda>r'. c\<lparr>cdata := ConditionRegeneration r'\<rparr>) in
      if attr = CONDITIONATTR_HEALTHTICKS then take_field read_u32 (\<lambda>v. put (r\<lparr>healthTicks := v\<rparr>)) p
      else if attr = CONDITIONATTR_HEALTHGAIN then take_field read_u32 (\<lambda>v. put (r\<lparr>healthGain := v\<rparr>)) p
      else if attr = CONDITIONATTR_MANATICKS then take_field read_u32 (\<lambda>v. put (r\<lparr>manaTicks := v\<rparr>)) p
      else if attr = CONDITIONATTR_MANAGAIN then take_field read_u32 (\<lambda>v. put (r\<lparr>manaGain := v\<rparr>)) p
      else base_unserializeProp attr p c)"

definition soul_unserializeProp :: "u8 \<Rightarrow> byte list \<Rightarrow> condition \<Rightarrow> soul_data \<Rightarrow> (condition \<times> byte list) option" where
  "soul_unserializeProp attr p c r =
     (let put = (\<lambda>r'. c\<lparr>cdata := ConditionSoul r'\<rparr>) in
      if attr = CONDITIONATTR_SOULGAIN then take_field read_u32 (\<lambda>v. put (r\<lparr>soulGain := v\<rparr>)) p
      else if attr = CONDITIONATTR_SOULTICKS then take_field read_u32 (\<lambda>v. put (r\<lparr>soulTicks := v\<rparr>)) p
      else base_unserializeProp attr p c)"

definition damage_unserializeProp :: "int \<Rightarrow> u8 \<Rightarrow> byte list \<Rightarrow> condition \<Rightarrow> damage_data \<Rightarrow> (condition \<times> byte list) option" where
  "damage_unserializeProp now attr p c d =
     (let put = (\<lambda>d'. c\<lparr>cdata := ConditionDamage d'\<rparr>) in
      if attr = CONDITIONATTR_DELAYED then take_field read_u8 (\<lambda>v. put (d\<lparr>delayed := (v \<noteq> 0)\<rparr>)) p
      else if attr = CONDITIONATTR_PERIODDAMAGE then take_field read_i32 (\<lambda>v. put (d\<lparr>periodDamage := v\<rparr>)) p
      else if attr = CONDITIONATTR_OWNER then (case prop_skip 4 p of (ok, p') \<Rightarrow> if ok then Some (c, p') else None)
      else if attr = CONDITIONATTR_INTERVALDATA then
        take_field read_interval (\<lambda>i. let c' = put (d\<lparr>damageList := damageList d @ [i]\<rparr>) in
          if ticks c \<noteq> -1 then setTicks now (ticks c + interval i) c' else c') p
      else base_unserializeProp attr p c)"

definition speed_unserializeProp :: "u8 \<Rightarrow> byte list \<Rightarrow> condition \<Rightarrow> speed_data \<Rightarrow> (condition \<times> byte list) option" where
  "speed_unserializeProp attr p c d =
     (let put = (\<lambda>d'. c\<lparr>cdata := ConditionSpeed d'\<rparr>) in
      if attr = CONDITIONATTR_SPEEDDELTA then take_field read_i32 (\<lambda>v. put (d\<lparr>speedDelta := v\<rparr>)) p
      else if attr = CONDITIONATTR_FORMULA_MINA then take_field read_u32 (\<lambda>v. put (d\<lparr>mina := v\<rparr>)) p
      else if attr = CONDITIONATTR_FORMULA_MINB then take_field read_u32 (\<lambda>v. put (d\<lparr>minb := v\<rparr>)) p
      else if attr = CONDITIONATTR_FORMULA_MAXA then take_field read_u32 (\<lambda>v. put (d\<lparr>maxa := v\<rparr>)) p
      else if attr = CONDITIONATTR_FORMULA_MAXB then take_field read_u32 (\<lambda>v. put (d\<lparr>maxb := v\<rparr>)) p
      else base_unserializeProp attr p c)"

definition outfit_unserializeProp :: "u8 \<Rightarrow> byte list \<Rightarrow> condition \<Rightarrow> outfit \<Rightarrow> (condition \<times> byte list) option" where
  "outfit_unserializeProp attr p c out =
     (if attr = CONDITIONATTR_OUTFIT then take_field read_outfit (\<lambda>v. c\<lparr>cdata := ConditionOutfit v\<rparr>) p
      else base_unserializeProp attr p c)"

definition light_unserializeProp :: "u8 \<Rightarrow> byte list \<Rightarrow> condition \<Rightarrow> light_data \<Rightarrow> (condition \<times> byte list) option" where
  "light_unserializeProp attr p c l =
     (let put = (\<lambda>l'. c\<lparr>cdata := ConditionLight l'\<rparr>) in
      if attr = CONDITIONATTR_LIGHTCOLOR then take_field read_u32 (\<lambda>v. put (l\<lparr>lightColor := ucast v\<rparr>)) p
      else if attr = CONDITIONATTR_LIGHTLEVEL then take_field read_u32 (\<lambda>v. put (l\<lparr>lightLevel := ucast v\<rparr>)) p
      else if attr = CONDITIONATTR_LIGHTTICKS then take_field read_u32 (\<lambda>v. put (l\<lparr>internalLightTicks := v\<rparr>)) p
      else if attr = CONDITIONATTR_LIGHTINTERVAL then take_field read_u32 (\<lambda>v. put (l\<lparr>lightChangeInterval := v\<rparr>)) p
      else base_unserializeProp attr p c)"

definition unserializeProp :: "int \<Rightarrow> u8 \<Rightarrow> byte list \<Rightarrow> condition \<Rightarrow> (condition \<times> byte list) option" where
  "unserializeProp now attr p c =
     (case cdata c of
        ConditionAttributes a \<Rightarrow> attributes_unserializeProp attr p c a
      | ConditionRegeneration r \<Rightarrow> regeneration_unserializeProp attr p c r
      | ConditionSoul r \<Rightarrow> soul_unserializeProp attr p c r
      | ConditionDamage d \<Rightarrow> damage_unserializeProp now attr p c d
      | ConditionSpeed d \<Rightarrow> speed_unserializeProp attr p c d
      | ConditionOutfit out \<Rightarrow> outfit_unserializeProp attr p c out
      | ConditionLight l \<Rightarrow> light_unserializeProp attr p c l
      | _ \<Rightarrow> base_unserializeProp attr p c)"

lemmas unserializeProp_defs = unserializeProp_def attributes_unserializeProp_def regeneration_unserializeProp_def soul_unserializeProp_def damage_unserializeProp_def speed_unserializeProp_def outfit_unserializeProp_def light_unserializeProp_def

lemma read_i32_length: "read_i32 p = (r, p') \<Longrightarrow> length p' \<le> length p"
  by (auto simp: read_i32_def map_prod_def split: prod.splits dest: prop_read_suffix)

lemma take_field_length:
  "take_field rd k p = Some (c', p') \<Longrightarrow> (\<And>r q. rd p = (r, q) \<Longrightarrow> length q \<le> length p) \<Longrightarrow> length p' \<le> length p"
  by (auto simp: take_field_def split: prod.splits option.splits)

lemma base_unserializeProp_length: "base_unserializeProp attr p c = Some (c', p') \<Longrightarrow> length p' \<le> length p"
  by (auto simp: base_unserializeProp_def split: if_splits
      dest!: take_field_length intro: prop_read_suffix read_i32_length)

lemma unserializeProp_length: "unserializeProp now attr p c = Some (c', p') \<Longrightarrow> length p' \<le> length p"
  by (auto simp: unserializeProp_defs Let_def read_interval_def read_outfit_def prop_skip_def
      split: condition_data.splits if_splits prod.splits option.splits
      dest!: take_field_length intro: prop_read_suffix read_i32_length base_unserializeProp_length)

text \<open>The loop ends at the end mark or, without complaint, at the end of the stream.\<close>

function unserialize :: "int \<Rightarrow> byte list \<Rightarrow> condition \<Rightarrow> (condition \<times> byte list) option" where
  "unserialize now p c =
     (case prop_read p of
        (None, p1) \<Rightarrow> Some (c, p1)
      | (Some attr, p1) \<Rightarrow>
          if attr = CONDITIONATTR_END then Some (c, p1)
          else (case unserializeProp now attr p1 c of
                  None \<Rightarrow> None
                | Some (c', p2) \<Rightarrow> unserialize now p2 c'))"
  by pat_completeness auto
termination
proof (relation "measure (\<lambda>(now, p, c). length p)", goal_cases)
  case (2 now p c r p1 attr q c' p2)
  then have "length p1 < length p" by (auto simp: prop_read_def prop_size_def split: if_splits)
  moreover have "length p2 \<le> length p1" using 2 by (auto dest: unserializeProp_length)
  ultimately show ?case by simp
qed simp

declare unserialize.simps [simp del]

definition base_serialize :: "condition \<Rightarrow> byte list" where
  "base_serialize c =
     CONDITIONATTR_TYPE # prop_write (conditionType c) @
     CONDITIONATTR_ID # prop_write (scast (cond_id c) :: u32) @
     CONDITIONATTR_TICKS # write_i32 (ticks c) @
     [CONDITIONATTR_ISBUFF, if isBuff c then 1 else 0] @
     CONDITIONATTR_SUBID # prop_write (subId c)"

definition attributes_serialize :: "attributes_data \<Rightarrow> byte list" where
  "attributes_serialize a =
      concat (map (\<lambda>v. CONDITIONATTR_SKILLS # write_i32 v) (skills a)) @
      concat (map (\<lambda>v. CONDITIONATTR_STATS # write_i32 v) (stats a))"

definition regeneration_serialize :: "regeneration_data \<Rightarrow> byte list" where
  "regeneration_serialize r =
      CONDITIONATTR_HEALTHTICKS # prop_write (healthTicks r) @
      CONDITIONATTR_HEALTHGAIN # prop_write (healthGain r) @
      CONDITIONATTR_MANATICKS # prop_write (manaTicks r) @
      CONDITIONATTR_MANAGAIN # prop_write (manaGain r)"

definition soul_serialize :: "soul_data \<Rightarrow> byte list" where
  "soul_serialize r =
      CONDITIONATTR_SOULGAIN # prop_write (soulGain r) @
      CONDITIONATTR_SOULTICKS # prop_write (soulTicks r)"

definition damage_serialize :: "damage_data \<Rightarrow> byte list" where
  "damage_serialize d =
      [CONDITIONATTR_DELAYED, if delayed d then 1 else 0] @
      CONDITIONATTR_PERIODDAMAGE # write_i32 (periodDamage d) @
      concat (map (\<lambda>i. CONDITIONATTR_INTERVALDATA # write_interval i) (damageList d))"

definition speed_serialize :: "speed_data \<Rightarrow> byte list" where
  "speed_serialize d =
      CONDITIONATTR_SPEEDDELTA # write_i32 (speedDelta d) @
      CONDITIONATTR_FORMULA_MINA # prop_write (mina d) @
      CONDITIONATTR_FORMULA_MINB # prop_write (minb d) @
      CONDITIONATTR_FORMULA_MAXA # prop_write (maxa d) @
      CONDITIONATTR_FORMULA_MAXB # prop_write (maxb d)"

definition outfit_serialize :: "outfit \<Rightarrow> byte list" where
  "outfit_serialize out =
      CONDITIONATTR_OUTFIT # write_outfit out"

definition light_serialize :: "light_data \<Rightarrow> byte list" where
  "light_serialize l =
      CONDITIONATTR_LIGHTCOLOR # prop_write (ucast (lightColor l) :: u32) @
      CONDITIONATTR_LIGHTLEVEL # prop_write (ucast (lightLevel l) :: u32) @
      CONDITIONATTR_LIGHTTICKS # prop_write (internalLightTicks l) @
      CONDITIONATTR_LIGHTINTERVAL # prop_write (lightChangeInterval l)"

definition data_serialize :: "condition_data \<Rightarrow> byte list" where
  "data_serialize cd =
     (case cd of
        ConditionAttributes a \<Rightarrow> attributes_serialize a
      | ConditionRegeneration r \<Rightarrow> regeneration_serialize r
      | ConditionSoul r \<Rightarrow> soul_serialize r
      | ConditionDamage d \<Rightarrow> damage_serialize d
      | ConditionSpeed d \<Rightarrow> speed_serialize d
      | ConditionOutfit out \<Rightarrow> outfit_serialize out
      | ConditionLight l \<Rightarrow> light_serialize l
      | _ \<Rightarrow> [])"

lemmas serialize_defs = data_serialize_def attributes_serialize_def regeneration_serialize_def soul_serialize_def damage_serialize_def speed_serialize_def outfit_serialize_def light_serialize_def

definition serialize :: "condition \<Rightarrow> byte list" where
  "serialize c = base_serialize c @ data_serialize (cdata c)"

text \<open>\<open>createCondition(PropStream&)\<close>: the five attributes of the base class, in this order.\<close>

definition expect :: "u8 \<Rightarrow> (byte list \<Rightarrow> 'v option \<times> byte list) \<Rightarrow> byte list \<Rightarrow> ('v \<times> byte list) option" where
  "expect attr rd p =
     (case prop_read p of
        (Some a, p1) \<Rightarrow> if a = attr then (case rd p1 of (Some v, p2) \<Rightarrow> Some (v, p2) | (None, _) \<Rightarrow> None) else None
      | (None, _) \<Rightarrow> None)"

definition createCondition_stream :: "byte list \<Rightarrow> (condition \<times> byte list) option" where
  "createCondition_stream p =
     (case expect CONDITIONATTR_TYPE read_u32 p of None \<Rightarrow> None | Some (type, p1) \<Rightarrow>
     (case expect CONDITIONATTR_ID read_u32 p1 of None \<Rightarrow> None | Some (i, p2) \<Rightarrow>
     (case expect CONDITIONATTR_TICKS read_i32 p2 of None \<Rightarrow> None | Some (tk, p3) \<Rightarrow>
     (case expect CONDITIONATTR_ISBUFF read_u8 p3 of None \<Rightarrow> None | Some (buff, p4) \<Rightarrow>
     (case expect CONDITIONATTR_SUBID read_u32 p4 of None \<Rightarrow> None | Some (sub, p5) \<Rightarrow>
        (case createCondition (ucast i) type tk 0 (buff \<noteq> 0) sub of
           None \<Rightarrow> None | Some c \<Rightarrow> Some (c, p5)))))))"

text \<open>Loading a stored condition: create it, then read its attributes.\<close>

definition load_condition :: "int \<Rightarrow> byte list \<Rightarrow> (condition \<times> byte list) option" where
  "load_condition now p =
     (case createCondition_stream p of None \<Rightarrow> None | Some (c, p1) \<Rightarrow> unserialize now p1 c)"

section \<open>What is restored\<close>

text \<open>The values fit their 32-bit fields, and the subclass is the one its type is created with.\<close>

definition interval_fits :: "interval_info \<Rightarrow> bool" where
  "interval_fits i \<longleftrightarrow> in_i32 (timeLeft i) \<and> in_i32 (ivalue i) \<and> in_i32 (interval i) \<and> 0 \<le> interval i"

definition data_fits :: "condition_data \<Rightarrow> bool" where
  "data_fits d \<longleftrightarrow>
     (case d of
        ConditionAttributes a \<Rightarrow> length (skills a) = 13 \<and> length (stats a) = 4 \<and>
          list_all in_i32 (skills a) \<and> list_all in_i32 (stats a)
      | ConditionDamage g \<Rightarrow> in_i32 (periodDamage g) \<and> list_all interval_fits (damageList g)
      | ConditionSpeed v \<Rightarrow> in_i32 (speedDelta v)
      | _ \<Rightarrow> True)"

definition kind_of_data :: "condition_data \<Rightarrow> nat" where
  "kind_of_data d = (case d of ConditionGeneric \<Rightarrow> 0 | ConditionAttributes _ \<Rightarrow> 1 | ConditionRegeneration _ \<Rightarrow> 2
     | ConditionSoul _ \<Rightarrow> 3 | ConditionInvisible \<Rightarrow> 4 | ConditionDamage _ \<Rightarrow> 5 | ConditionSpeed _ \<Rightarrow> 6
     | ConditionOutfit _ \<Rightarrow> 7 | ConditionLight _ \<Rightarrow> 8 | ConditionSpellCooldown \<Rightarrow> 9
     | ConditionSpellGroupCooldown \<Rightarrow> 10)"

definition storable :: "condition \<Rightarrow> bool" where
  "storable c \<longleftrightarrow> in_i32 (ticks c) \<and> data_fits (cdata c) \<and>
     (\<exists>c0. createCondition (cond_id c) (conditionType c) (ticks c) 0 (isBuff c) (subId c) = Some c0 \<and>
           kind_of_data (cdata c0) = kind_of_data (cdata c))"

text \<open>The part of a subclass that the stream holds; the rest comes back as in a new condition.\<close>

definition kept :: "condition_data \<Rightarrow> condition_data" where
  "kept cd =
     (case cd of
        ConditionAttributes a \<Rightarrow> ConditionAttributes (new_attributes\<lparr>skills := skills a, stats := stats a,
          currentSkill := 13, currentStat := 4\<rparr>)
      | ConditionRegeneration r \<Rightarrow> ConditionRegeneration (r\<lparr>internalHealthTicks := 0, internalManaTicks := 0\<rparr>)
      | ConditionSoul r \<Rightarrow> ConditionSoul (r\<lparr>internalSoulTicks := 0\<rparr>)
      | ConditionDamage d \<Rightarrow> ConditionDamage (new_damage\<lparr>delayed := delayed d, periodDamage := periodDamage d,
          damageList := damageList d\<rparr>)
      | d \<Rightarrow> d)"

definition restored :: "int \<Rightarrow> condition \<Rightarrow> condition" where
  "restored now c =
     (case cdata c of
        ConditionDamage d \<Rightarrow>
          let total = sum_list (map interval (damageList d)) in
          c\<lparr>ticks := total, endTime := (if damageList d = [] then 0 else now + total), cdata := kept (cdata c)\<rparr>
      | _ \<Rightarrow> c\<lparr>endTime := (if ticks c = -1 then int64_max else 0), cdata := kept (cdata c)\<rparr>)"

lemma prop_read_byte [simp]: "prop_read ((b :: u8) # p) = (Some b, p)"
  by (simp add: prop_read_def prop_size_def)

lemma prop_read_byte_Nil [simp]: "(prop_read [] :: u8 option \<times> _) = (None, [])"
  by (simp add: prop_read_def prop_size_def)

lemma unserialize_end [simp]: "unserialize now (CONDITIONATTR_END # rest) c = Some (c, rest)"
  by (subst unserialize.simps) simp

lemma unserialize_attr:
  "attr \<noteq> CONDITIONATTR_END \<Longrightarrow> unserializeProp now attr p c = Some (c', p') \<Longrightarrow>
   unserialize now (attr # p) c = unserialize now p' c'"
  by (subst unserialize.simps) simp

lemma read_interval_write: "interval_fits i \<Longrightarrow> read_interval (write_interval i @ rest) = (Some i, rest)"
proof -
  assume f: "interval_fits i"
  have l: "length (write_i32 v) = 4" for v by (simp add: write_i32_def)
  have d: "drop 4 (write_interval i @ rest) = write_i32 (ivalue i) @ write_i32 (interval i) @ rest"
    "drop 8 (write_interval i @ rest) = write_i32 (interval i) @ rest"
    "drop 12 (write_interval i @ rest) = rest"
    by (simp_all add: write_interval_def l)
  have r: "read_i32 (write_interval i @ rest) = (Some (timeLeft i), write_i32 (ivalue i) @ write_i32 (interval i) @ rest)"
    "read_i32 (drop 4 (write_interval i @ rest)) = (Some (ivalue i), write_i32 (interval i) @ rest)"
    "read_i32 (drop 8 (write_interval i @ rest)) = (Some (interval i), rest)"
    unfolding d using f by (simp_all add: write_interval_def i32f.dec_enc interval_fits_def)
  have "\<not> prop_size (write_interval i @ rest) < 12" by (simp add: prop_size_def write_interval_def l)
  then show ?thesis by (simp add: read_interval_def r d(3) del: drop_append)
qed

lemma read_outfit_write: "read_outfit (write_outfit out @ rest) = (Some out, rest)"
proof -
  have w: "\<exists>a b. prop_write (w :: u16) = [a, b] \<and> le_dec [a, b] = w" for w
  proof -
    have "le_dec (prop_write w) = w" by (simp add: prop_write_def)
    moreover have "\<exists>a b. prop_write w = [a, b]"
      by (simp add: prop_write_def le_enc_def upt_rec)
    ultimately show ?thesis by auto
  qed
  obtain a b c d e f where "prop_write (lookType out) = [a, b]" "le_dec [a, b] = lookType out"
    "prop_write (lookTypeEx out) = [c, d]" "le_dec [c, d] = lookTypeEx out"
    "prop_write (lookMount out) = [e, f]" "le_dec [e, f] = lookMount out"
    using w by metis
  then show ?thesis by (cases out) (simp add: read_outfit_def write_outfit_def prop_size_def del: le_dec.simps)
qed

lemma take_field_reads [simp]:
  "take_field read_u32 k (prop_write (v :: u32) @ rest) = Some (k v, rest)"
  "take_field read_u8 k' (b # rest) = Some (k' b, rest)"
  "in_i32 n \<Longrightarrow> take_field read_i32 l (write_i32 n @ rest) = Some (l n, rest)"
  "interval_fits i \<Longrightarrow> take_field read_interval m (write_interval i @ rest) = Some (m i, rest)"
  "take_field read_outfit q (write_outfit out @ rest) = Some (q out, rest)"
  by (simp_all add: take_field_def i32f.dec_enc read_interval_write read_outfit_write)

lemma expect_reads [simp]:
  "expect attr read_u32 (attr # prop_write (v :: u32) @ rest) = Some (v, rest)"
  "expect attr read_u8 (attr # b # rest) = Some (b, rest)"
  "in_i32 n \<Longrightarrow> expect attr read_i32 (attr # write_i32 n @ rest) = Some (n, rest)"
  by (simp_all add: expect_def i32f.dec_enc)

lemma ucast_scast_id: "ucast (scast (i :: 8 word) :: u32) = i"
proof (rule bit_word_eqI)
  fix n assume "n < LENGTH(8)"
  then have "n < 7 \<or> n = 7" by auto
  then show "bit (ucast (scast i :: u32) :: 8 word) n = bit i n" by (auto simp: bit_simps min_def)
qed

lemma createCondition_stream_serialize:
  "in_i32 (ticks c) \<Longrightarrow> createCondition_stream (base_serialize c @ rest) =
     map_option (\<lambda>c0. (c0, rest)) (createCondition (cond_id c) (conditionType c) (ticks c) 0 (isBuff c) (subId c))"
  by (simp add: createCondition_stream_def base_serialize_def ucast_scast_id split: option.splits)

section \<open>Storing and loading\<close>

lemma take_Suc_update: "k < length xs \<Longrightarrow> take (Suc k) (xs[k := v]) = take k xs @ [v]"
  by (simp add: take_Suc_conv_app_nth)

lemma ucast_ucast_u8: "ucast (ucast (b :: u8) :: u32) = b"
  by (rule bit_word_eqI) (simp add: bit_simps)

lemma cdata_same: "cdata c = d \<Longrightarrow> c\<lparr>cdata := d\<rparr> = c"
  by (cases c) simp

lemma createCondition_data:
  "createCondition i type tk 0 b u = Some c0 \<Longrightarrow> cdata c0 \<in> {ConditionGeneric, ConditionAttributes new_attributes,
      ConditionRegeneration new_regeneration, ConditionSoul new_soul, ConditionInvisible, ConditionDamage new_damage,
      ConditionSpeed (new_speed 0), ConditionOutfit new_outfit, ConditionLight (new_light 0 0),
      ConditionSpellCooldown, ConditionSpellGroupCooldown}"
  by (auto simp: createCondition_def new_condition_def Let_def split: if_splits)

lemma unserialize_skills:
  "cdata c = ConditionAttributes a \<Longrightarrow> list_all in_i32 vs \<Longrightarrow> currentSkill a + length vs \<le> length (skills a) \<Longrightarrow>
   unserialize now (concat (map (\<lambda>v. CONDITIONATTR_SKILLS # write_i32 v) vs) @ p) c =
   unserialize now p (c\<lparr>cdata := ConditionAttributes (a\<lparr>
     skills := take (currentSkill a) (skills a) @ vs @ drop (currentSkill a + length vs) (skills a),
     currentSkill := currentSkill a + length vs\<rparr>)\<rparr>)"
proof (induction vs arbitrary: c a)
  case Nil
  then show ?case by (simp add: cdata_same)
next
  case (Cons v vs)
  define a' where "a' = a\<lparr>skills := (skills a)[currentSkill a := v], currentSkill := currentSkill a + 1\<rparr>"
  have k: "currentSkill a < length (skills a)" using Cons.prems by simp
  have "unserialize now (concat (map (\<lambda>v. CONDITIONATTR_SKILLS # write_i32 v) (v # vs)) @ p) c =
      unserialize now (concat (map (\<lambda>v. CONDITIONATTR_SKILLS # write_i32 v) vs) @ p) (c\<lparr>cdata := ConditionAttributes a'\<rparr>)"
    using Cons.prems k by (simp, subst unserialize_attr) (simp_all add: unserializeProp_defs a'_def)
  also have "\<dots> = unserialize now p (c\<lparr>cdata := ConditionAttributes (a'\<lparr>
     skills := take (currentSkill a') (skills a') @ vs @ drop (currentSkill a' + length vs) (skills a'),
     currentSkill := currentSkill a' + length vs\<rparr>)\<rparr>)"
    using Cons.prems by (intro trans [OF Cons.IH [of "c\<lparr>cdata := ConditionAttributes a'\<rparr>" a']]) (simp_all add: a'_def)
  also have "take (currentSkill a') (skills a') @ vs @ drop (currentSkill a' + length vs) (skills a') =
      take (currentSkill a) (skills a) @ (v # vs) @ drop (currentSkill a + length (v # vs)) (skills a)"
    using k by (simp add: a'_def take_Suc_update del: take_update_swap)
  finally show ?case by (simp add: a'_def)
qed

lemma unserialize_stats:
  "cdata c = ConditionAttributes a \<Longrightarrow> list_all in_i32 vs \<Longrightarrow> currentStat a + length vs \<le> length (stats a) \<Longrightarrow>
   unserialize now (concat (map (\<lambda>v. CONDITIONATTR_STATS # write_i32 v) vs) @ p) c =
   unserialize now p (c\<lparr>cdata := ConditionAttributes (a\<lparr>
     stats := take (currentStat a) (stats a) @ vs @ drop (currentStat a + length vs) (stats a),
     currentStat := currentStat a + length vs\<rparr>)\<rparr>)"
proof (induction vs arbitrary: c a)
  case Nil
  then show ?case by (simp add: cdata_same)
next
  case (Cons v vs)
  define a' where "a' = a\<lparr>stats := (stats a)[currentStat a := v], currentStat := currentStat a + 1\<rparr>"
  have k: "currentStat a < length (stats a)" using Cons.prems by simp
  have "unserialize now (concat (map (\<lambda>v. CONDITIONATTR_STATS # write_i32 v) (v # vs)) @ p) c =
      unserialize now (concat (map (\<lambda>v. CONDITIONATTR_STATS # write_i32 v) vs) @ p) (c\<lparr>cdata := ConditionAttributes a'\<rparr>)"
    using Cons.prems k by (simp, subst unserialize_attr) (simp_all add: unserializeProp_defs a'_def)
  also have "\<dots> = unserialize now p (c\<lparr>cdata := ConditionAttributes (a'\<lparr>
     stats := take (currentStat a') (stats a') @ vs @ drop (currentStat a' + length vs) (stats a'),
     currentStat := currentStat a' + length vs\<rparr>)\<rparr>)"
    using Cons.prems by (intro trans [OF Cons.IH [of "c\<lparr>cdata := ConditionAttributes a'\<rparr>" a']]) (simp_all add: a'_def)
  also have "take (currentStat a') (stats a') @ vs @ drop (currentStat a' + length vs) (stats a') =
      take (currentStat a) (stats a) @ (v # vs) @ drop (currentStat a + length (v # vs)) (stats a)"
    using k by (simp add: a'_def take_Suc_update del: take_update_swap)
  finally show ?case by (simp add: a'_def)
qed

lemma unserialize_intervals:
  "cdata c = ConditionDamage d \<Longrightarrow> list_all interval_fits is \<Longrightarrow> 0 \<le> ticks c \<Longrightarrow>
   unserialize now (concat (map (\<lambda>i. CONDITIONATTR_INTERVALDATA # write_interval i) is) @ p) c =
   unserialize now p (c\<lparr>cdata := ConditionDamage (d\<lparr>damageList := damageList d @ is\<rparr>),
     ticks := ticks c + sum_list (map interval is),
     endTime := (if is = [] then endTime c else now + ticks c + sum_list (map interval is))\<rparr>)"
proof (induction "is" arbitrary: c d)
  case Nil
  then show ?case by (simp add: cdata_same)
next
  case (Cons i "is")
  define c' where "c' = setTicks now (ticks c + interval i)
    (c\<lparr>cdata := ConditionDamage (d\<lparr>damageList := damageList d @ [i]\<rparr>)\<rparr>)"
  have "0 \<le> interval i" using Cons.prems by (simp add: interval_fits_def)
  have "unserialize now (concat (map (\<lambda>i. CONDITIONATTR_INTERVALDATA # write_interval i) (i # is)) @ p) c =
      unserialize now (concat (map (\<lambda>i. CONDITIONATTR_INTERVALDATA # write_interval i) is) @ p) c'"
    using Cons.prems by (simp, subst unserialize_attr) (simp_all add: unserializeProp_defs c'_def)
  also have "\<dots> = unserialize now p (c'\<lparr>cdata := ConditionDamage (d\<lparr>damageList := (damageList d @ [i]) @ is\<rparr>),
     ticks := ticks c' + sum_list (map interval is),
     endTime := (if is = [] then endTime c' else now + ticks c' + sum_list (map interval is))\<rparr>)"
    using Cons.prems \<open>0 \<le> interval i\<close>
    by (subst Cons.IH [of c' "d\<lparr>damageList := damageList d @ [i]\<rparr>"]) (simp_all add: c'_def setTicks_def)
  finally show ?case by (simp add: c'_def setTicks_def algebra_simps)
qed

text \<open>What a fresh condition of each kind becomes after its attributes are read.\<close>

lemma unserialize_data:
  assumes "data_fits d" "createCondition i type tk 0 b u = Some c0" "kind_of_data (cdata c0) = kind_of_data d"
    and "\<And>g. d = ConditionDamage g \<Longrightarrow> ticks c0 = 0 \<and> endTime c0 = 0"
  shows "unserialize now (data_serialize d @ CONDITIONATTR_END # rest) c0 =
    Some ((case d of ConditionDamage g \<Rightarrow> c0\<lparr>ticks := sum_list (map interval (damageList g)),
             endTime := (if damageList g = [] then 0 else now + sum_list (map interval (damageList g)))\<rparr>
           | _ \<Rightarrow> c0)\<lparr>cdata := kept d\<rparr>, rest)"
proof -
  note new = createCondition_data [OF assms(2)]
  show ?thesis
  proof (cases d)
    case (ConditionAttributes a)
    with assms(3) new have c: "cdata c0 = ConditionAttributes new_attributes" by (auto simp: kind_of_data_def)
    have l: "length (skills a) = 13" "length (stats a) = 4" "list_all in_i32 (skills a)" "list_all in_i32 (stats a)"
      using assms(1) ConditionAttributes by (simp_all add: data_fits_def)
    show ?thesis
      using l c by (simp add: ConditionAttributes serialize_defs unserialize_skills [OF c]
          unserialize_stats [where a = "new_attributes\<lparr>skills := skills a, currentSkill := 13\<rparr>"]
          kept_def new_attributes_def)
  next
    case (ConditionDamage g)
    with assms(3) new have c: "cdata c0 = ConditionDamage new_damage" by (auto simp: kind_of_data_def)
    have t: "ticks c0 = 0" "endTime c0 = 0" using assms(4) ConditionDamage by auto
    show ?thesis using assms(1) c t
      by (simp add: ConditionDamage serialize_defs data_fits_def unserialize_attr unserializeProp_defs
          unserialize_intervals [where d = "new_damage\<lparr>delayed := delayed g, periodDamage := periodDamage g\<rparr>"]
          kept_def new_damage_def)
  next
    case (ConditionRegeneration r)
    with assms(3) new have c: "cdata c0 = ConditionRegeneration new_regeneration" by (auto simp: kind_of_data_def)
    show ?thesis using c by (cases r) (simp add: ConditionRegeneration serialize_defs unserialize_attr
          unserializeProp_defs kept_def new_regeneration_def)
  next
    case (ConditionSoul r)
    with assms(3) new have c: "cdata c0 = ConditionSoul new_soul" by (auto simp: kind_of_data_def)
    show ?thesis using c by (cases r) (simp add: ConditionSoul serialize_defs unserialize_attr
          unserializeProp_defs kept_def new_soul_def)
  next
    case (ConditionSpeed r)
    with assms(3) new have c: "cdata c0 = ConditionSpeed (new_speed 0)" by (auto simp: kind_of_data_def)
    show ?thesis using c assms(1) by (cases r) (simp add: ConditionSpeed serialize_defs unserialize_attr
          unserializeProp_defs kept_def new_speed_def data_fits_def)
  next
    case (ConditionOutfit r)
    with assms(3) new have c: "cdata c0 = ConditionOutfit new_outfit" by (auto simp: kind_of_data_def)
    show ?thesis using c by (simp add: ConditionOutfit serialize_defs unserialize_attr
          unserializeProp_defs kept_def)
  next
    case (ConditionLight r)
    with assms(3) new have c: "cdata c0 = ConditionLight (new_light 0 0)" by (auto simp: kind_of_data_def)
    show ?thesis using c by (cases r) (simp add: ConditionLight serialize_defs unserialize_attr
          unserializeProp_defs kept_def new_light_def ucast_ucast_u8)
  qed (use assms(3) new in \<open>auto simp: kind_of_data_def serialize_defs kept_def cdata_same split: condition_data.splits\<close>)
qed



end
