(* ===== verification/Condition_Effects.thy ===== *)
theory Condition_Effects imports Conditions "HOL-Library.Signed_Division" begin

text \<open>
  The life of a condition on a creature, from \<open>src/src/condition.cpp\<close>: it starts, is executed at every
  think, is merged with another of its type, and ends. What the condition does to the creature is a
  list of effects in the order of the calls; what it reads of the creature and of the world is an
  environment. Floating-point results and random draws are fields of the environment.
\<close>

section \<open>Environment and effects\<close>

record cond_env =
  now :: int
  is_player :: bool
  in_protection_zone :: bool
  skill_percent :: "nat \<Rightarrow> int \<Rightarrow> int"
  stat_percent :: "nat \<Rightarrow> int \<Rightarrow> int"
  real_health_gain :: int
  speed_draw :: int
  amount_draw :: int
  damage_split :: "int \<Rightarrow> int \<Rightarrow> int list"
  tick_remove :: "bool \<Rightarrow> bool"
  is_suppressed :: bool
  attacker_is_player :: bool
  can_be_attacked :: bool
  in_ghost_mode :: bool
  hit_blocked :: bool
  health_changed :: bool
  is_invisible :: bool
  creature_light :: "u8 \<times> u8"

datatype cond_effect =
    SetVarSkill nat int | SendSkills
  | SetVarStat nat int | SendStats
  | ChangeHealth u32 | Healed int | ChangeMana u32 | ChangeSoul u32
  | TickCondition condition_type | DamageHealth int | Poff
  | ChangeSpeed int | ChangeVisible bool | ChangeOutfit outfit | DefaultOutfit
  | SetCreatureLight u8 u8 | SetNormalLight | ChangeLight
  | SendSpellCooldown u32 int | SendSpellGroupCooldown u32 int

section \<open>The base class\<close>

definition base_startCondition :: "cond_env \<Rightarrow> condition \<Rightarrow> condition" where
  "base_startCondition env c = (if ticks c > 0 then c\<lparr>endTime := ticks c + now env\<rparr> else c)"

definition base_executeCondition :: "cond_env \<Rightarrow> int \<Rightarrow> condition \<Rightarrow> bool \<times> condition" where
  "base_executeCondition env iv c =
     (if ticks c = -1 then (True, c)
      else (endTime c \<ge> now env, c\<lparr>ticks := max 0 (ticks c - iv)\<rparr>))"

definition base_updateCondition :: "cond_env \<Rightarrow> condition \<Rightarrow> condition \<Rightarrow> bool" where
  "base_updateCondition env c add =
     (if conditionType c \<noteq> conditionType add then False
      else if ticks c = -1 \<and> ticks add > 0 then False
      else if ticks add \<ge> 0 \<and> endTime c > now env + ticks add then False
      else True)"

section \<open>Parameters\<close>

abbreviation "CONDITION_PARAM_OWNER \<equiv> (1 :: nat)"
abbreviation "CONDITION_PARAM_TICKS \<equiv> (2 :: nat)"
abbreviation "CONDITION_PARAM_HEALTHGAIN \<equiv> (4 :: nat)"
abbreviation "CONDITION_PARAM_HEALTHTICKS \<equiv> (5 :: nat)"
abbreviation "CONDITION_PARAM_MANAGAIN \<equiv> (6 :: nat)"
abbreviation "CONDITION_PARAM_MANATICKS \<equiv> (7 :: nat)"
abbreviation "CONDITION_PARAM_DELAYED \<equiv> (8 :: nat)"
abbreviation "CONDITION_PARAM_SPEED \<equiv> (9 :: nat)"
abbreviation "CONDITION_PARAM_LIGHT_LEVEL \<equiv> (10 :: nat)"
abbreviation "CONDITION_PARAM_LIGHT_COLOR \<equiv> (11 :: nat)"
abbreviation "CONDITION_PARAM_SOULGAIN \<equiv> (12 :: nat)"
abbreviation "CONDITION_PARAM_SOULTICKS \<equiv> (13 :: nat)"
abbreviation "CONDITION_PARAM_MINVALUE \<equiv> (14 :: nat)"
abbreviation "CONDITION_PARAM_MAXVALUE \<equiv> (15 :: nat)"
abbreviation "CONDITION_PARAM_STARTVALUE \<equiv> (16 :: nat)"
abbreviation "CONDITION_PARAM_TICKINTERVAL \<equiv> (17 :: nat)"
abbreviation "CONDITION_PARAM_FORCEUPDATE \<equiv> (18 :: nat)"
abbreviation "CONDITION_PARAM_SKILL_MELEE \<equiv> (19 :: nat)"
abbreviation "CONDITION_PARAM_SKILL_FIST \<equiv> (20 :: nat)"
abbreviation "CONDITION_PARAM_SKILL_CLUB \<equiv> (21 :: nat)"
abbreviation "CONDITION_PARAM_SKILL_SWORD \<equiv> (22 :: nat)"
abbreviation "CONDITION_PARAM_SKILL_AXE \<equiv> (23 :: nat)"
abbreviation "CONDITION_PARAM_SKILL_DISTANCE \<equiv> (24 :: nat)"
abbreviation "CONDITION_PARAM_SKILL_SHIELD \<equiv> (25 :: nat)"
abbreviation "CONDITION_PARAM_SKILL_FISHING \<equiv> (26 :: nat)"
abbreviation "CONDITION_PARAM_STAT_MAXHITPOINTS \<equiv> (27 :: nat)"
abbreviation "CONDITION_PARAM_STAT_MAXMANAPOINTS \<equiv> (28 :: nat)"
abbreviation "CONDITION_PARAM_STAT_MAGICPOINTS \<equiv> (30 :: nat)"
abbreviation "CONDITION_PARAM_STAT_MAXHITPOINTSPERCENT \<equiv> (31 :: nat)"
abbreviation "CONDITION_PARAM_STAT_MAXMANAPOINTSPERCENT \<equiv> (32 :: nat)"
abbreviation "CONDITION_PARAM_STAT_MAGICPOINTSPERCENT \<equiv> (34 :: nat)"
abbreviation "CONDITION_PARAM_PERIODICDAMAGE \<equiv> (35 :: nat)"
abbreviation "CONDITION_PARAM_SKILL_MELEEPERCENT \<equiv> (36 :: nat)"
abbreviation "CONDITION_PARAM_SKILL_FISTPERCENT \<equiv> (37 :: nat)"
abbreviation "CONDITION_PARAM_SKILL_CLUBPERCENT \<equiv> (38 :: nat)"
abbreviation "CONDITION_PARAM_SKILL_SWORDPERCENT \<equiv> (39 :: nat)"
abbreviation "CONDITION_PARAM_SKILL_AXEPERCENT \<equiv> (40 :: nat)"
abbreviation "CONDITION_PARAM_SKILL_DISTANCEPERCENT \<equiv> (41 :: nat)"
abbreviation "CONDITION_PARAM_SKILL_SHIELDPERCENT \<equiv> (42 :: nat)"
abbreviation "CONDITION_PARAM_SKILL_FISHINGPERCENT \<equiv> (43 :: nat)"
abbreviation "CONDITION_PARAM_BUFF_SPELL \<equiv> (44 :: nat)"
abbreviation "CONDITION_PARAM_SUBID \<equiv> (45 :: nat)"
abbreviation "CONDITION_PARAM_FIELD \<equiv> (46 :: nat)"
abbreviation "CONDITION_PARAM_SKILL_CRITICAL_HIT_CHANCE \<equiv> (47 :: nat)"
abbreviation "CONDITION_PARAM_SKILL_CRITICAL_HIT_DAMAGE \<equiv> (48 :: nat)"
abbreviation "CONDITION_PARAM_SKILL_LIFE_LEECH_CHANCE \<equiv> (49 :: nat)"
abbreviation "CONDITION_PARAM_SKILL_LIFE_LEECH_AMOUNT \<equiv> (50 :: nat)"
abbreviation "CONDITION_PARAM_SKILL_MANA_LEECH_CHANCE \<equiv> (51 :: nat)"
abbreviation "CONDITION_PARAM_SKILL_MANA_LEECH_AMOUNT \<equiv> (52 :: nat)"
abbreviation "CONDITION_PARAM_SKILL_CRITICAL_HIT_CHANCEPERCENT \<equiv> (53 :: nat)"
abbreviation "CONDITION_PARAM_SKILL_CRITICAL_HIT_DAMAGEPERCENT \<equiv> (54 :: nat)"
abbreviation "CONDITION_PARAM_SKILL_LIFE_LEECH_CHANCEPERCENT \<equiv> (55 :: nat)"
abbreviation "CONDITION_PARAM_SKILL_LIFE_LEECH_AMOUNTPERCENT \<equiv> (56 :: nat)"
abbreviation "CONDITION_PARAM_SKILL_MANA_LEECH_CHANCEPERCENT \<equiv> (57 :: nat)"
abbreviation "CONDITION_PARAM_SKILL_MANA_LEECH_AMOUNTPERCENT \<equiv> (58 :: nat)"

definition base_setParam :: "nat \<Rightarrow> int \<Rightarrow> condition \<Rightarrow> bool \<times> condition" where
  "base_setParam param v c =
     (if param = CONDITION_PARAM_TICKS then (True, c\<lparr>ticks := v\<rparr>)
      else if param = CONDITION_PARAM_BUFF_SPELL then (True, c\<lparr>isBuff := (v \<noteq> 0)\<rparr>)
      else if param = CONDITION_PARAM_SUBID then (True, c\<lparr>subId := word_of_int v\<rparr>)
      else (False, c))"

text \<open>The indices of \<open>skills_t\<close> and \<open>stats_t\<close> that a parameter sets, flat or in percent.\<close>

definition skill_params :: "(nat \<times> nat list) list" where
  "skill_params =
     [(CONDITION_PARAM_SKILL_MELEE, [1, 3, 2]),
      (CONDITION_PARAM_SKILL_FIST, [0]),
      (CONDITION_PARAM_SKILL_CLUB, [1]),
      (CONDITION_PARAM_SKILL_SWORD, [2]),
      (CONDITION_PARAM_SKILL_AXE, [3]),
      (CONDITION_PARAM_SKILL_DISTANCE, [4]),
      (CONDITION_PARAM_SKILL_SHIELD, [5]),
      (CONDITION_PARAM_SKILL_FISHING, [6]),
      (CONDITION_PARAM_SKILL_CRITICAL_HIT_CHANCE, [7]),
      (CONDITION_PARAM_SKILL_CRITICAL_HIT_DAMAGE, [8]),
      (CONDITION_PARAM_SKILL_LIFE_LEECH_CHANCE, [9]),
      (CONDITION_PARAM_SKILL_LIFE_LEECH_AMOUNT, [10]),
      (CONDITION_PARAM_SKILL_MANA_LEECH_CHANCE, [11]),
      (CONDITION_PARAM_SKILL_MANA_LEECH_AMOUNT, [12])]"

definition skill_percent_params :: "(nat \<times> nat list) list" where
  "skill_percent_params =
     [(CONDITION_PARAM_SKILL_MELEEPERCENT, [1, 3, 2]),
      (CONDITION_PARAM_SKILL_FISTPERCENT, [0]),
      (CONDITION_PARAM_SKILL_CLUBPERCENT, [1]),
      (CONDITION_PARAM_SKILL_SWORDPERCENT, [2]),
      (CONDITION_PARAM_SKILL_AXEPERCENT, [3]),
      (CONDITION_PARAM_SKILL_DISTANCEPERCENT, [4]),
      (CONDITION_PARAM_SKILL_SHIELDPERCENT, [5]),
      (CONDITION_PARAM_SKILL_FISHINGPERCENT, [6]),
      (CONDITION_PARAM_SKILL_CRITICAL_HIT_CHANCEPERCENT, [7]),
      (CONDITION_PARAM_SKILL_CRITICAL_HIT_DAMAGEPERCENT, [8]),
      (CONDITION_PARAM_SKILL_LIFE_LEECH_CHANCEPERCENT, [9]),
      (CONDITION_PARAM_SKILL_LIFE_LEECH_AMOUNTPERCENT, [10]),
      (CONDITION_PARAM_SKILL_MANA_LEECH_CHANCEPERCENT, [11]),
      (CONDITION_PARAM_SKILL_MANA_LEECH_AMOUNTPERCENT, [12])]"

definition stat_params :: "(nat \<times> nat) list" where
  "stat_params = [(CONDITION_PARAM_STAT_MAXHITPOINTS, 0), (CONDITION_PARAM_STAT_MAXMANAPOINTS, 1),
     (CONDITION_PARAM_STAT_MAGICPOINTS, 3)]"

definition stat_percent_params :: "(nat \<times> nat) list" where
  "stat_percent_params = [(CONDITION_PARAM_STAT_MAXHITPOINTSPERCENT, 0),
     (CONDITION_PARAM_STAT_MAXMANAPOINTSPERCENT, 1), (CONDITION_PARAM_STAT_MAGICPOINTSPERCENT, 3)]"

definition set_all :: "nat list \<Rightarrow> int \<Rightarrow> int list \<Rightarrow> int list" where
  "set_all is v xs = fold (\<lambda>i ys. ys[i := v]) is xs"

definition attributes_setParam :: "nat \<Rightarrow> int \<Rightarrow> attributes_data \<Rightarrow> attributes_data option" where
  "attributes_setParam param v a =
     (case map_of skill_params param of
        Some is \<Rightarrow> Some (a\<lparr>skills := set_all is v (skills a)\<rparr>)
      | None \<Rightarrow>
     (case map_of skill_percent_params param of
        Some is \<Rightarrow> Some (a\<lparr>skillsPercent := set_all is v (skillsPercent a)\<rparr>)
      | None \<Rightarrow>
     (case map_of stat_params param of
        Some i \<Rightarrow> Some (a\<lparr>stats := (stats a)[i := v]\<rparr>)
      | None \<Rightarrow>
     (case map_of stat_percent_params param of
        Some i \<Rightarrow> Some (a\<lparr>statsPercent := (statsPercent a)[i := max 0 v]\<rparr>)
      | None \<Rightarrow> None))))"

definition regeneration_setParam :: "nat \<Rightarrow> int \<Rightarrow> regeneration_data \<Rightarrow> regeneration_data option" where
  "regeneration_setParam param v r =
     (if param = CONDITION_PARAM_HEALTHGAIN then Some (r\<lparr>healthGain := word_of_int v\<rparr>)
      else if param = CONDITION_PARAM_HEALTHTICKS then Some (r\<lparr>healthTicks := word_of_int v\<rparr>)
      else if param = CONDITION_PARAM_MANAGAIN then Some (r\<lparr>manaGain := word_of_int v\<rparr>)
      else if param = CONDITION_PARAM_MANATICKS then Some (r\<lparr>manaTicks := word_of_int v\<rparr>)
      else None)"

definition soul_setParam :: "nat \<Rightarrow> int \<Rightarrow> soul_data \<Rightarrow> soul_data option" where
  "soul_setParam param v r =
     (if param = CONDITION_PARAM_SOULGAIN then Some (r\<lparr>soulGain := word_of_int v\<rparr>)
      else if param = CONDITION_PARAM_SOULTICKS then Some (r\<lparr>soulTicks := word_of_int v\<rparr>)
      else None)"

text \<open>
  \<open>ConditionDamage::setParam\<close> leaves the switch with \<open>break\<close> after most of its parameters and then
  returns what the base class returned for them, which is false; and it returns false in the default
  case although the base class may have set the parameter.
\<close>

definition damage_setParam :: "nat \<Rightarrow> int \<Rightarrow> bool \<Rightarrow> damage_data \<Rightarrow> bool \<times> damage_data" where
  "damage_setParam param v ret d =
     (if param = CONDITION_PARAM_OWNER then (True, d\<lparr>dmg_owner := word_of_int v\<rparr>)
      else if param = CONDITION_PARAM_FORCEUPDATE then (True, d\<lparr>forceUpdate := (v \<noteq> 0)\<rparr>)
      else if param = CONDITION_PARAM_DELAYED then (True, d\<lparr>delayed := (v \<noteq> 0)\<rparr>)
      else if param = CONDITION_PARAM_MAXVALUE then (ret, d\<lparr>maxDamage := \<bar>v\<bar>\<rparr>)
      else if param = CONDITION_PARAM_MINVALUE then (ret, d\<lparr>minDamage := \<bar>v\<bar>\<rparr>)
      else if param = CONDITION_PARAM_STARTVALUE then (ret, d\<lparr>startDamage := \<bar>v\<bar>\<rparr>)
      else if param = CONDITION_PARAM_TICKINTERVAL then (ret, d\<lparr>tickInterval := \<bar>v\<bar>\<rparr>)
      else if param = CONDITION_PARAM_PERIODICDAMAGE then (ret, d\<lparr>periodDamage := v\<rparr>)
      else if param = CONDITION_PARAM_FIELD then (ret, d\<lparr>is_field := (v \<noteq> 0)\<rparr>)
      else (False, d))"

definition speed_setParam :: "nat \<Rightarrow> int \<Rightarrow> condition \<Rightarrow> speed_data \<Rightarrow> bool \<times> condition" where
  "speed_setParam param v c d =
     (let c1 = snd (base_setParam param v c) in
      if param \<noteq> CONDITION_PARAM_SPEED then (False, c1)
      else (True, c1\<lparr>cdata := ConditionSpeed (d\<lparr>speedDelta := v\<rparr>),
                     conditionType := (if v > 0 then CONDITION_HASTE else CONDITION_PARALYZE)\<rparr>))"

definition light_setParam :: "nat \<Rightarrow> int \<Rightarrow> condition \<Rightarrow> light_data \<Rightarrow> bool \<times> condition" where
  "light_setParam param v c l =
     (case base_setParam param v c of (ret, c1) \<Rightarrow>
      if ret then (False, c1)
      else if param = CONDITION_PARAM_LIGHT_LEVEL then (True, c1\<lparr>cdata := ConditionLight (l\<lparr>lightLevel := word_of_int v\<rparr>)\<rparr>)
      else if param = CONDITION_PARAM_LIGHT_COLOR then (True, c1\<lparr>cdata := ConditionLight (l\<lparr>lightColor := word_of_int v\<rparr>)\<rparr>)
      else (False, c1))"

definition setParam :: "nat \<Rightarrow> int \<Rightarrow> condition \<Rightarrow> bool \<times> condition" where
  "setParam param v c =
     (case base_setParam param v c of (ret, c1) \<Rightarrow>
      case cdata c of
        ConditionAttributes a \<Rightarrow> (case attributes_setParam param v a of
          Some a' \<Rightarrow> (True, c1\<lparr>cdata := ConditionAttributes a'\<rparr>) | None \<Rightarrow> (ret, c1))
      | ConditionRegeneration r \<Rightarrow> (case regeneration_setParam param v r of
          Some r' \<Rightarrow> (True, c1\<lparr>cdata := ConditionRegeneration r'\<rparr>) | None \<Rightarrow> (ret, c1))
      | ConditionSoul r \<Rightarrow> (case soul_setParam param v r of
          Some r' \<Rightarrow> (True, c1\<lparr>cdata := ConditionSoul r'\<rparr>) | None \<Rightarrow> (ret, c1))
      | ConditionDamage d \<Rightarrow> (case damage_setParam param v ret d of
          (r, d') \<Rightarrow> (r, c1\<lparr>cdata := ConditionDamage d'\<rparr>))
      | ConditionSpeed d \<Rightarrow> speed_setParam param v c d
      | ConditionLight l \<Rightarrow> light_setParam param v c l
      | _ \<Rightarrow> (ret, c1))"

section \<open>Attributes\<close>

definition updatePercentSkills :: "cond_env \<Rightarrow> attributes_data \<Rightarrow> attributes_data" where
  "updatePercentSkills env a = a\<lparr>skills := map (\<lambda>i. if skillsPercent a ! i = 0 then skills a ! i
     else skill_percent env i (skillsPercent a ! i)) [0..<13]\<rparr>"

definition updatePercentStats :: "cond_env \<Rightarrow> attributes_data \<Rightarrow> attributes_data" where
  "updatePercentStats env a = a\<lparr>stats := map (\<lambda>i. if statsPercent a ! i = 0 \<or> i = 2 then stats a ! i
     else stat_percent env i (statsPercent a ! i)) [0..<4]\<rparr>"

definition updateSkills :: "attributes_data \<Rightarrow> cond_effect list" where
  "updateSkills a =
     (let es = map (\<lambda>i. SetVarSkill i (skills a ! i)) (filter (\<lambda>i. skills a ! i \<noteq> 0) [0..<13])
      in es @ (if es \<noteq> [] then [SendSkills] else []))"

definition updateStats :: "attributes_data \<Rightarrow> cond_effect list" where
  "updateStats a =
     (let es = map (\<lambda>i. SetVarStat i (stats a ! i)) (filter (\<lambda>i. stats a ! i \<noteq> 0) [0..<4])
      in es @ (if es \<noteq> [] then [SendStats] else []))"

definition apply_attributes :: "cond_env \<Rightarrow> attributes_data \<Rightarrow> attributes_data \<times> cond_effect list" where
  "apply_attributes env a =
     (if is_player env then
        let a1 = updatePercentSkills env a; a2 = updatePercentStats env a1
        in (a2, updateSkills a1 @ updateStats a2)
      else (a, []))"

definition attributes_endCondition :: "cond_env \<Rightarrow> attributes_data \<Rightarrow> cond_effect list" where
  "attributes_endCondition env a =
     (if is_player env then
        let es = map (\<lambda>i. SetVarSkill i (- (skills a ! i)))
                   (filter (\<lambda>i. skills a ! i \<noteq> 0 \<or> skillsPercent a ! i \<noteq> 0) [0..<13]);
            fs = map (\<lambda>i. SetVarStat i (- (stats a ! i))) (filter (\<lambda>i. stats a ! i \<noteq> 0) [0..<4])
        in es @ (if es \<noteq> [] then [SendSkills] else []) @ fs @ (if fs \<noteq> [] then [SendStats] else [])
      else [])"

section \<open>Damage over time\<close>

abbreviation "EVENT_CREATURE_THINK_INTERVAL \<equiv> (1000 :: int)"

definition getTotalDamage :: "damage_data \<Rightarrow> int" where
  "getTotalDamage d =
     \<bar>if damageList d \<noteq> [] then sum_list (map ivalue (damageList d))
      else minDamage d + (maxDamage d - minDamage d) sdiv 2\<bar>"

definition damage_updateCondition :: "condition \<Rightarrow> damage_data \<Rightarrow> condition \<Rightarrow> damage_data \<Rightarrow> bool" where
  "damage_updateCondition c d add d2 =
     (if forceUpdate d2 then True
      else if ticks c = -1 \<and> ticks add > 0 then False
      else getTotalDamage d2 > getTotalDamage d)"

text \<open>One round more; the duration grows by its interval unless it is endless.\<close>

definition add_round :: "int \<Rightarrow> int \<Rightarrow> int \<Rightarrow> condition \<times> damage_data \<Rightarrow> condition \<times> damage_data" where
  "add_round tm iv v cd = (case cd of (c, d) \<Rightarrow>
     (if ticks c \<noteq> -1 then setTicks tm (ticks c + iv) c else c,
      d\<lparr>damageList := damageList d @ [IntervalInfo iv v iv]\<rparr>))"

definition addDamage :: "int \<Rightarrow> int \<Rightarrow> int \<Rightarrow> int \<Rightarrow> condition \<times> damage_data \<Rightarrow> bool \<times> condition \<times> damage_data" where
  "addDamage tm rounds iv0 v cd =
     (let iv = max iv0 EVENT_CREATURE_THINK_INTERVAL in
      case cd of (c, d) \<Rightarrow>
      if rounds = -1 then (True, c\<lparr>ticks := -1\<rparr>, d\<lparr>periodDamage := v, tickInterval := \<bar>iv\<bar>\<rparr>)
      else if periodDamage d > 0 then (False, c, d)
      else (True, (add_round tm iv v ^^ nat rounds) (c, d)))"

definition damage_init :: "cond_env \<Rightarrow> condition \<times> damage_data \<Rightarrow> bool \<times> condition \<times> damage_data" where
  "damage_init env cd = (case cd of (c, d) \<Rightarrow>
     if periodDamage d \<noteq> 0 then (True, c, d)
     else
       let (c2, d2) =
         (if damageList d = [] then
            let c1 = setTicks (now env) 0 c; amount = amount_draw env in
            if amount \<noteq> 0 then
              let start = (if startDamage d > maxDamage d then maxDamage d
                           else if startDamage d = 0 then max 1 (- (- amount div 20))
                           else startDamage d)
              in fold (\<lambda>v cd. snd (addDamage (now env) 1 (tickInterval d) (- v) cd))
                   (damage_split env amount start) (c1, d\<lparr>startDamage := start\<rparr>)
            else (c1, d)
          else (c, d))
       in (damageList d2 \<noteq> [], c2, d2))"

definition getNextDamage :: "condition \<Rightarrow> damage_data \<Rightarrow> (int \<times> damage_data) option" where
  "getNextDamage c d =
     (if periodDamage d \<noteq> 0 then Some (periodDamage d, d)
      else if damageList d \<noteq> [] then
        Some (ivalue (hd (damageList d)), if ticks c \<noteq> -1 then d\<lparr>damageList := tl (damageList d)\<rparr> else d)
      else None)"

text \<open>\<open>std::round\<close> of the half: halves go away from zero.\<close>

definition half_round :: "int \<Rightarrow> int" where
  "half_round v = sgn v * ((\<bar>v\<bar> + 1) div 2)"

definition doDamage :: "cond_env \<Rightarrow> damage_data \<Rightarrow> int \<Rightarrow> bool \<times> cond_effect list" where
  "doDamage env d v =
     (if is_suppressed env then (True, [])
      else
        let v' = (if is_field d \<and> is_player env \<and> attacker_is_player env then half_round v else v) in
        if \<not> can_be_attacked env then (False, if in_ghost_mode env then [] else [Poff])
        else if hit_blocked env then (False, [])
        else (health_changed env, [DamageHealth v']))"

definition damage_startCondition :: "cond_env \<Rightarrow> condition \<Rightarrow> damage_data \<Rightarrow>
    bool \<times> condition \<times> cond_effect list" where
  "damage_startCondition env c d =
     (case damage_init env (base_startCondition env c, d) of (ok, c1, d1) \<Rightarrow>
      if \<not> ok then (False, c1\<lparr>cdata := ConditionDamage d1\<rparr>, [])
      else if delayed d1 then (True, c1\<lparr>cdata := ConditionDamage d1\<rparr>, [])
      else (case getNextDamage c1 d1 of
              None \<Rightarrow> (True, c1\<lparr>cdata := ConditionDamage d1\<rparr>, [])
            | Some (v, d2) \<Rightarrow>
                (case doDamage env d2 v of (r, es) \<Rightarrow> (r, c1\<lparr>cdata := ConditionDamage d2\<rparr>, es))))"

definition base_finish :: "cond_env \<Rightarrow> int \<Rightarrow> condition \<Rightarrow> damage_data \<Rightarrow> cond_effect list \<Rightarrow>
    bool \<times> condition \<times> cond_effect list" where
  "base_finish env iv c d es =
     (case base_executeCondition env iv c of (r, c1) \<Rightarrow> (r, c1\<lparr>cdata := ConditionDamage d\<rparr>, es))"

definition damage_executeCondition :: "cond_env \<Rightarrow> int \<Rightarrow> condition \<Rightarrow> damage_data \<Rightarrow>
    bool \<times> condition \<times> cond_effect list" where
  "damage_executeCondition env iv c d =
     (if periodDamage d \<noteq> 0 then
        (let t = periodDamageTick d + iv in
         if t \<ge> tickInterval d
         then base_finish env iv c (d\<lparr>periodDamageTick := 0\<rparr>) (snd (doDamage env d (periodDamage d)))
         else base_finish env iv c (d\<lparr>periodDamageTick := t\<rparr>) [])
      else (case damageList d of
        [] \<Rightarrow> base_finish env iv c d []
      | IntervalInfo left v ivl # rest \<Rightarrow>
          let remove = tick_remove env (ticks c \<noteq> -1);
              left' = left - iv;
              d1 = (if left' \<le> 0 then
                      (if remove then d\<lparr>damageList := rest\<rparr>
                       else d\<lparr>damageList := IntervalInfo ivl v ivl # rest\<rparr>)
                    else d\<lparr>damageList := IntervalInfo left' v ivl # rest\<rparr>);
              es = TickCondition (conditionType c) # (if left' \<le> 0 then snd (doDamage env d1 v) else [])
          in if remove then base_finish env iv c d1 es
             else base_finish env 0 (if ticks c > 0 then c\<lparr>endTime := endTime c + iv\<rparr> else c) d1 es))"

definition damage_addCondition :: "cond_env \<Rightarrow> condition \<Rightarrow> damage_data \<Rightarrow> condition \<Rightarrow> damage_data \<Rightarrow>
    condition \<times> cond_effect list" where
  "damage_addCondition env c d add d2 =
     (if conditionType add \<noteq> conditionType c then (c, [])
      else if \<not> damage_updateCondition c d add d2 then (c, [])
      else
        let c1 = setTicks (now env) (ticks add) c;
            next_left = (if damageList d \<noteq> [] then timeLeft (hd (damageList d)) else tickInterval d2);
            d1 = d\<lparr>dmg_owner := dmg_owner d2, maxDamage := maxDamage d2, minDamage := minDamage d2,
                   startDamage := startDamage d2, tickInterval := tickInterval d2,
                   periodDamage := periodDamage d2, damageList := damageList d2\<rparr>
        in case damage_init env (c1, d1) of (ok, c3, d3) \<Rightarrow>
           if \<not> ok then (c3\<lparr>cdata := ConditionDamage d3\<rparr>, [])
           else
             let d4 = (case damageList d3 of [] \<Rightarrow> d3
                       | IntervalInfo _ v i # rest \<Rightarrow> d3\<lparr>damageList := IntervalInfo next_left v i # rest\<rparr>)
             in if delayed d4 then (c3\<lparr>cdata := ConditionDamage d4\<rparr>, [])
                else (case getNextDamage c3 d4 of
                        None \<Rightarrow> (c3\<lparr>cdata := ConditionDamage d4\<rparr>, [])
                      | Some (v, d5) \<Rightarrow> (c3\<lparr>cdata := ConditionDamage d5\<rparr>, snd (doDamage env d5 v))))"

section \<open>The other kinds\<close>

definition regeneration_execute :: "cond_env \<Rightarrow> int \<Rightarrow> bool \<Rightarrow> regeneration_data \<Rightarrow> regeneration_data \<times> cond_effect list" where
  "regeneration_execute env iv buff r =
     (let ht = internalHealthTicks r + word_of_int iv; mt = internalManaTicks r + word_of_int iv;
          health = \<not> in_protection_zone env \<and> ht \<ge> healthTicks r;
          mana = \<not> in_protection_zone env \<and> mt \<ge> manaTicks r
      in (r\<lparr>internalHealthTicks := (if health then 0 else ht), internalManaTicks := (if mana then 0 else mt)\<rparr>,
          (if health then ChangeHealth (healthGain r) #
             (if buff \<and> real_health_gain env > 0 \<and> is_player env then [Healed (real_health_gain env)] else [])
           else []) @
          (if mana then [ChangeMana (manaGain r)] else [])))"

definition soul_execute :: "cond_env \<Rightarrow> int \<Rightarrow> soul_data \<Rightarrow> soul_data \<times> cond_effect list" where
  "soul_execute env iv r =
     (let t = internalSoulTicks r + word_of_int iv in
      if is_player env \<and> \<not> in_protection_zone env \<and> t \<ge> soulTicks r
      then (r\<lparr>internalSoulTicks := 0\<rparr>, [ChangeSoul (soulGain r)])
      else (r\<lparr>internalSoulTicks := t\<rparr>, []))"

definition light_execute :: "cond_env \<Rightarrow> int \<Rightarrow> light_data \<Rightarrow> light_data \<times> cond_effect list" where
  "light_execute env iv l =
     (let t = internalLightTicks l + word_of_int iv in
      if t \<ge> lightChangeInterval l
      then (l\<lparr>internalLightTicks := 0\<rparr>,
            case creature_light env of (lv, col) \<Rightarrow>
              if lv > 0 then [SetCreatureLight (lv - 1) col, ChangeLight] else [])
      else (l\<lparr>internalLightTicks := t\<rparr>, []))"

text \<open>A light of level zero divides by zero when it starts.\<close>

definition light_begin :: "int \<Rightarrow> light_data \<Rightarrow> (light_data \<times> cond_effect list) option" where
  "light_begin tk l =
     (if lightLevel l = 0 then None
      else Some (l\<lparr>internalLightTicks := 0, lightChangeInterval := word_of_int (tk sdiv uint (lightLevel l))\<rparr>,
                 [SetCreatureLight (lightLevel l) (lightColor l), ChangeLight]))"

definition speed_fill :: "cond_env \<Rightarrow> speed_data \<Rightarrow> speed_data" where
  "speed_fill env s = (if speedDelta s = 0 then s\<lparr>speedDelta := speed_draw env\<rparr> else s)"

definition cooldown_effects :: "cond_env \<Rightarrow> condition \<Rightarrow> (u32 \<Rightarrow> int \<Rightarrow> cond_effect) \<Rightarrow> cond_effect list" where
  "cooldown_effects env c send = (if subId c \<noteq> 0 \<and> ticks c > 0 \<and> is_player env then [send (subId c) (ticks c)] else [])"

section \<open>The life of a condition\<close>

definition attributes_startCondition :: "cond_env \<Rightarrow> condition \<Rightarrow> attributes_data \<Rightarrow> bool \<times> condition \<times> cond_effect list" where
  "attributes_startCondition env c a =
     (case apply_attributes env a of
        (a', es) \<Rightarrow> (True, (base_startCondition env c)\<lparr>cdata := ConditionAttributes a'\<rparr>, es))"

definition speed_startCondition :: "cond_env \<Rightarrow> condition \<Rightarrow> speed_data \<Rightarrow> bool \<times> condition \<times> cond_effect list" where
  "speed_startCondition env c s =
     (let s' = speed_fill env s
      in (True, (base_startCondition env c)\<lparr>cdata := ConditionSpeed s'\<rparr>, [ChangeSpeed (speedDelta s')]))"

definition outfit_startCondition :: "cond_env \<Rightarrow> condition \<Rightarrow> outfit \<Rightarrow> bool \<times> condition \<times> cond_effect list" where
  "outfit_startCondition env c out = (True, base_startCondition env c, [ChangeOutfit out])"

definition invisible_startCondition :: "cond_env \<Rightarrow> condition \<Rightarrow> bool \<times> condition \<times> cond_effect list" where
  "invisible_startCondition env c = (True, base_startCondition env c, [ChangeVisible False])"

definition light_startCondition :: "cond_env \<Rightarrow> condition \<Rightarrow> light_data \<Rightarrow>
    (bool \<times> condition \<times> cond_effect list) option" where
  "light_startCondition env c l =
     (let c1 = base_startCondition env c in
      case light_begin (ticks c1) l of None \<Rightarrow> None
      | Some (l', es) \<Rightarrow> Some (True, c1\<lparr>cdata := ConditionLight l'\<rparr>, es))"

definition spellCooldown_startCondition :: "cond_env \<Rightarrow> condition \<Rightarrow> bool \<times> condition \<times> cond_effect list" where
  "spellCooldown_startCondition env c =
     (let c1 = base_startCondition env c in (True, c1, cooldown_effects env c1 SendSpellCooldown))"

definition spellGroupCooldown_startCondition :: "cond_env \<Rightarrow> condition \<Rightarrow> bool \<times> condition \<times> cond_effect list" where
  "spellGroupCooldown_startCondition env c =
     (let c1 = base_startCondition env c in (True, c1, cooldown_effects env c1 SendSpellGroupCooldown))"

definition generic_startCondition :: "cond_env \<Rightarrow> condition \<Rightarrow> bool \<times> condition \<times> cond_effect list" where
  "generic_startCondition env c = (True, base_startCondition env c, [])"

definition startCondition :: "cond_env \<Rightarrow> condition \<Rightarrow> (bool \<times> condition \<times> cond_effect list) option" where
  "startCondition env c =
     (case cdata c of
        ConditionAttributes a \<Rightarrow> Some (attributes_startCondition env c a)
      | ConditionInvisible \<Rightarrow> Some (invisible_startCondition env c)
      | ConditionDamage d \<Rightarrow> Some (damage_startCondition env c d)
      | ConditionSpeed s \<Rightarrow> Some (speed_startCondition env c s)
      | ConditionOutfit out \<Rightarrow> Some (outfit_startCondition env c out)
      | ConditionLight l \<Rightarrow> light_startCondition env c l
      | ConditionSpellCooldown \<Rightarrow> Some (spellCooldown_startCondition env c)
      | ConditionSpellGroupCooldown \<Rightarrow> Some (spellGroupCooldown_startCondition env c)
      | _ \<Rightarrow> Some (generic_startCondition env c))"

lemmas start_defs = startCondition_def attributes_startCondition_def invisible_startCondition_def
  speed_startCondition_def outfit_startCondition_def light_startCondition_def
  spellCooldown_startCondition_def spellGroupCooldown_startCondition_def generic_startCondition_def

definition executeCondition :: "cond_env \<Rightarrow> int \<Rightarrow> condition \<Rightarrow> bool \<times> condition \<times> cond_effect list" where
  "executeCondition env iv c =
     (let base = (\<lambda>d es. case base_executeCondition env iv c of (r, c1) \<Rightarrow> (r, c1\<lparr>cdata := d\<rparr>, es)) in
      case cdata c of
        ConditionRegeneration r \<Rightarrow>
          (case regeneration_execute env iv (isBuff c) r of (r', es) \<Rightarrow> base (ConditionRegeneration r') es)
      | ConditionSoul r \<Rightarrow> (case soul_execute env iv r of (r', es) \<Rightarrow> base (ConditionSoul r') es)
      | ConditionDamage d \<Rightarrow> damage_executeCondition env iv c d
      | ConditionLight l \<Rightarrow> (case light_execute env iv l of (l', es) \<Rightarrow> base (ConditionLight l') es)
      | d \<Rightarrow> base d [])"

definition invisible_endCondition :: "cond_env \<Rightarrow> cond_effect list" where
  "invisible_endCondition env = (if \<not> is_invisible env then [ChangeVisible True] else [])"

definition speed_endCondition :: "speed_data \<Rightarrow> cond_effect list" where
  "speed_endCondition s = [ChangeSpeed (- speedDelta s)]"

definition light_endCondition :: "cond_effect list" where
  "light_endCondition = [SetNormalLight, ChangeLight]"

definition outfit_endCondition :: "cond_effect list" where
  "outfit_endCondition = [DefaultOutfit]"

definition endCondition :: "cond_env \<Rightarrow> condition \<Rightarrow> cond_effect list" where
  "endCondition env c =
     (case cdata c of
        ConditionAttributes a \<Rightarrow> attributes_endCondition env a
      | ConditionInvisible \<Rightarrow> invisible_endCondition env
      | ConditionSpeed s \<Rightarrow> speed_endCondition s
      | ConditionOutfit _ \<Rightarrow> outfit_endCondition
      | ConditionLight _ \<Rightarrow> light_endCondition
      | _ \<Rightarrow> [])"

lemmas end_defs = endCondition_def invisible_endCondition_def speed_endCondition_def light_endCondition_def
  outfit_endCondition_def

definition generic_addCondition :: "cond_env \<Rightarrow> condition \<Rightarrow> condition \<Rightarrow> condition \<times> cond_effect list" where
  "generic_addCondition env c add =
     (if base_updateCondition env c add then (setTicks (now env) (ticks add) c, []) else (c, []))"

definition attributes_addCondition :: "cond_env \<Rightarrow> condition \<Rightarrow> attributes_data \<Rightarrow> condition \<Rightarrow> attributes_data \<Rightarrow>
    condition \<times> cond_effect list" where
  "attributes_addCondition env c a add b =
     (if base_updateCondition env c add then
        (case apply_attributes env (a\<lparr>skills := skills b, skillsPercent := skillsPercent b, stats := stats b,
                                      statsPercent := statsPercent b\<rparr>) of
           (a', es) \<Rightarrow> ((setTicks (now env) (ticks add) c)\<lparr>cdata := ConditionAttributes a'\<rparr>,
                       attributes_endCondition env a @ es))
      else (c, []))"

definition regeneration_addCondition :: "cond_env \<Rightarrow> condition \<Rightarrow> regeneration_data \<Rightarrow> condition \<Rightarrow>
    regeneration_data \<Rightarrow> condition \<times> cond_effect list" where
  "regeneration_addCondition env c r add b =
     (if base_updateCondition env c add then
        ((setTicks (now env) (ticks add) c)\<lparr>cdata := ConditionRegeneration (r\<lparr>healthTicks := healthTicks b,
            manaTicks := manaTicks b, healthGain := healthGain b, manaGain := manaGain b\<rparr>)\<rparr>, [])
      else (c, []))"

definition soul_addCondition :: "cond_env \<Rightarrow> condition \<Rightarrow> soul_data \<Rightarrow> condition \<Rightarrow> soul_data \<Rightarrow>
    condition \<times> cond_effect list" where
  "soul_addCondition env c r add b =
     (if base_updateCondition env c add then
        ((setTicks (now env) (ticks add) c)\<lparr>cdata := ConditionSoul (r\<lparr>soulTicks := soulTicks b,
            soulGain := soulGain b\<rparr>)\<rparr>, [])
      else (c, []))"

definition speed_addCondition :: "cond_env \<Rightarrow> condition \<Rightarrow> speed_data \<Rightarrow> condition \<Rightarrow> speed_data \<Rightarrow>
    condition \<times> cond_effect list" where
  "speed_addCondition env c s add b =
     (if conditionType c \<noteq> conditionType add then (c, [])
      else if ticks c = -1 \<and> ticks add > 0 then (c, [])
      else
        let s' = speed_fill env b; change = speedDelta s' - speedDelta s
        in ((setTicks (now env) (ticks add) c)\<lparr>cdata := ConditionSpeed s'\<rparr>,
            if change \<noteq> 0 then [ChangeSpeed change] else []))"

definition outfit_addCondition :: "cond_env \<Rightarrow> condition \<Rightarrow> condition \<Rightarrow> outfit \<Rightarrow> condition \<times> cond_effect list" where
  "outfit_addCondition env c add out =
     (if base_updateCondition env c add
      then ((setTicks (now env) (ticks add) c)\<lparr>cdata := ConditionOutfit out\<rparr>, [ChangeOutfit out])
      else (c, []))"

definition light_addCondition :: "cond_env \<Rightarrow> condition \<Rightarrow> light_data \<Rightarrow> condition \<Rightarrow> light_data \<Rightarrow>
    (condition \<times> cond_effect list) option" where
  "light_addCondition env c l add b =
     (if base_updateCondition env c add then
        (let c1 = setTicks (now env) (ticks add) c in
         case light_begin (ticks c1) (l\<lparr>lightLevel := lightLevel b, lightColor := lightColor b\<rparr>) of
           None \<Rightarrow> None | Some (l', es) \<Rightarrow> Some (c1\<lparr>cdata := ConditionLight l'\<rparr>, es))
      else Some (c, []))"

definition spellCooldown_addCondition :: "cond_env \<Rightarrow> condition \<Rightarrow> condition \<Rightarrow> condition \<times> cond_effect list" where
  "spellCooldown_addCondition env c add =
     (if base_updateCondition env c add then
        (let c1 = setTicks (now env) (ticks add) c in (c1, cooldown_effects env c1 SendSpellCooldown))
      else (c, []))"

definition spellGroupCooldown_addCondition :: "cond_env \<Rightarrow> condition \<Rightarrow> condition \<Rightarrow> condition \<times> cond_effect list" where
  "spellGroupCooldown_addCondition env c add =
     (if base_updateCondition env c add then
        (let c1 = setTicks (now env) (ticks add) c in (c1, cooldown_effects env c1 SendSpellGroupCooldown))
      else (c, []))"

text \<open>
  The added condition is cast to the class of the old one without a check: the model fails when the
  classes differ.
\<close>

definition addCondition :: "cond_env \<Rightarrow> condition \<Rightarrow> condition \<Rightarrow> (condition \<times> cond_effect list) option" where
  "addCondition env c add =
     (case (cdata c, cdata add) of
        (ConditionAttributes a, ConditionAttributes b) \<Rightarrow> Some (attributes_addCondition env c a add b)
      | (ConditionRegeneration r, ConditionRegeneration b) \<Rightarrow> Some (regeneration_addCondition env c r add b)
      | (ConditionSoul r, ConditionSoul b) \<Rightarrow> Some (soul_addCondition env c r add b)
      | (ConditionDamage d, ConditionDamage b) \<Rightarrow> Some (damage_addCondition env c d add b)
      | (ConditionSpeed s, ConditionSpeed b) \<Rightarrow> Some (speed_addCondition env c s add b)
      | (ConditionOutfit _, ConditionOutfit out) \<Rightarrow> Some (outfit_addCondition env c add out)
      | (ConditionLight l, ConditionLight b) \<Rightarrow> light_addCondition env c l add b
      | (ConditionSpellCooldown, ConditionSpellCooldown) \<Rightarrow> Some (spellCooldown_addCondition env c add)
      | (ConditionSpellGroupCooldown, ConditionSpellGroupCooldown) \<Rightarrow> Some (spellGroupCooldown_addCondition env c add)
      | (ConditionGeneric, ConditionGeneric) \<Rightarrow> Some (generic_addCondition env c add)
      | (ConditionInvisible, ConditionInvisible) \<Rightarrow> Some (generic_addCondition env c add)
      | _ \<Rightarrow> None)"

lemmas add_defs = addCondition_def attributes_addCondition_def regeneration_addCondition_def soul_addCondition_def
  speed_addCondition_def outfit_addCondition_def light_addCondition_def spellCooldown_addCondition_def
  spellGroupCooldown_addCondition_def generic_addCondition_def

definition base_getIcons :: "condition \<Rightarrow> u32" where
  "base_getIcons c = (if isBuff c then 4096 else 0)"

definition generic_getIcons :: "condition \<Rightarrow> u32" where
  "generic_getIcons c =
     base_getIcons c OR
       (if conditionType c = CONDITION_MANASHIELD then 16
        else if conditionType c = CONDITION_INFIGHT then 128
        else if conditionType c = CONDITION_DRUNK then 8 else 0)"

definition damage_getIcons :: "condition \<Rightarrow> u32" where
  "damage_getIcons c =
     base_getIcons c OR
       (if conditionType c = CONDITION_FIRE then 2
        else if conditionType c = CONDITION_ENERGY then 4
        else if conditionType c = CONDITION_DROWN then 256
        else if conditionType c = CONDITION_POISON then 1
        else if conditionType c = CONDITION_FREEZING then 512
        else if conditionType c = CONDITION_DAZZLED then 1024
        else if conditionType c = CONDITION_CURSED then 2048
        else if conditionType c = CONDITION_BLEEDING then 32768 else 0)"

definition speed_getIcons :: "condition \<Rightarrow> u32" where
  "speed_getIcons c =
     base_getIcons c OR
       (if conditionType c = CONDITION_HASTE then 64
        else if conditionType c = CONDITION_PARALYZE then 32 else 0)"

definition getIcons :: "condition \<Rightarrow> u32" where
  "getIcons c =
     (case cdata c of
        ConditionDamage _ \<Rightarrow> damage_getIcons c
      | ConditionSpeed _ \<Rightarrow> speed_getIcons c
      | ConditionOutfit _ \<Rightarrow> base_getIcons c
      | ConditionLight _ \<Rightarrow> base_getIcons c
      | _ \<Rightarrow> generic_getIcons c)"

section \<open>What a condition holds of its creature\<close>

text \<open>
  The effects that add to a value of the creature belong to an account; the balance of an effect list
  is what it adds in total, and a running condition holds the balance it has to give back.
\<close>

datatype account = SkillAccount nat | StatAccount nat | SpeedAccount

fun posted :: "account \<Rightarrow> cond_effect \<Rightarrow> int" where
  "posted acc (SetVarSkill i v) = (if acc = SkillAccount i then v else 0)"
| "posted acc (SetVarStat i v) = (if acc = StatAccount i then v else 0)"
| "posted acc (ChangeSpeed v) = (if acc = SpeedAccount then v else 0)"
| "posted acc _ = 0"

definition balance :: "account \<Rightarrow> cond_effect list \<Rightarrow> int" where
  "balance acc es = sum_list (map (posted acc) es)"

definition held :: "bool \<Rightarrow> account \<Rightarrow> condition \<Rightarrow> int" where
  "held player acc c =
     (case (cdata c, acc) of
        (ConditionAttributes a, SkillAccount i) \<Rightarrow> if player \<and> i < 13 then skills a ! i else 0
      | (ConditionAttributes a, StatAccount i) \<Rightarrow> if player \<and> i < 4 then stats a ! i else 0
      | (ConditionSpeed s, SpeedAccount) \<Rightarrow> speedDelta s
      | _ \<Rightarrow> 0)"

datatype cond_event = Think cond_env int | Merge cond_env condition

primrec event_env :: "cond_event \<Rightarrow> cond_env" where
  "event_env (Think env _) = env"
| "event_env (Merge env _) = env"

fun run_event :: "cond_event \<Rightarrow> condition \<Rightarrow> (condition \<times> cond_effect list) option" where
  "run_event (Think env iv) c = Some (snd (executeCondition env iv c))"
| "run_event (Merge env add) c = addCondition env c add"

fun run_events :: "cond_event list \<Rightarrow> condition \<Rightarrow> (condition \<times> cond_effect list) option" where
  "run_events [] c = Some (c, [])"
| "run_events (ev # evs) c =
     (case run_event ev c of None \<Rightarrow> None
      | Some (c1, es) \<Rightarrow> (case run_events evs c1 of None \<Rightarrow> None | Some (c2, fs) \<Rightarrow> Some (c2, es @ fs)))"

lemma balance_simps [simp]:
  "balance acc [] = 0"
  "balance acc (e # es) = posted acc e + balance acc es"
  "balance acc (es @ fs) = balance acc es + balance acc fs"
  by (simp_all add: balance_def)

lemma balance_skills:
  "balance acc (map (\<lambda>i. SetVarSkill i (f i)) (filter P [0..<n])) =
     (case acc of SkillAccount i \<Rightarrow> if i < n \<and> P i then f i else 0 | _ \<Rightarrow> 0)"
  by (induction n) (auto split: account.splits simp: less_Suc_eq)

lemma balance_stats:
  "balance acc (map (\<lambda>i. SetVarStat i (f i)) (filter P [0..<n])) =
     (case acc of StatAccount i \<Rightarrow> if i < n \<and> P i then f i else 0 | _ \<Rightarrow> 0)"
  by (induction n) (auto split: account.splits simp: less_Suc_eq)

lemma balance_updates:
  "balance acc (updateSkills a) = (case acc of SkillAccount i \<Rightarrow> if i < 13 then skills a ! i else 0 | _ \<Rightarrow> 0)"
  "balance acc (updateStats a) = (case acc of StatAccount i \<Rightarrow> if i < 4 then stats a ! i else 0 | _ \<Rightarrow> 0)"
  by (auto simp: updateSkills_def updateStats_def Let_def balance_skills balance_stats split: account.splits)

lemma updatePercent_fields [simp]:
  "skills (updatePercentStats env a) = skills a"
  "stats (updatePercentSkills env a) = stats a"
  by (simp_all add: updatePercentStats_def updatePercentSkills_def)

lemma balance_apply:
  "apply_attributes env a = (a', es) \<Longrightarrow>
     balance acc es = held (is_player env) acc (c\<lparr>cdata := ConditionAttributes a'\<rparr>)"
  by (auto simp: apply_attributes_def Let_def balance_updates held_def split: if_splits account.splits)

lemma balance_end:
  "balance acc (endCondition env c) = - held (is_player env) acc c"
  by (auto simp: end_defs held_def attributes_endCondition_def Let_def balance_skills balance_stats
      split: condition_data.splits account.splits)

lemma balance_doDamage [simp]: "balance acc (snd (doDamage env d v)) = 0"
  by (simp add: doDamage_def Let_def)

lemma held_no_account: "\<forall>a. cdata c \<noteq> ConditionAttributes a \<Longrightarrow> \<forall>s. cdata c \<noteq> ConditionSpeed s \<Longrightarrow> held p acc c = 0"
  by (simp add: held_def split: condition_data.splits)

lemma damage_start_kept:
  assumes "damage_startCondition env c d = (r, c', es)"
  shows "balance acc es = 0 \<and> (\<exists>d'. cdata c' = ConditionDamage d')"
proof -
  obtain ok c1 d1 where init: "damage_init env (base_startCondition env c, d) = (ok, c1, d1)"
    by (metis prod_cases3)
  have hit: "balance acc fs = 0" if "doDamage env e v = (b, fs)" for e v b fs
    using balance_doDamage [of acc env e v] that by simp
  show ?thesis
    using assms unfolding damage_startCondition_def init prod.case
    by (cases "\<not> ok"; cases "delayed d1"; cases "getNextDamage c1 d1") (auto dest: hit split: prod.splits)
qed

lemma base_finish_kept:
  "base_finish env iv c d es = (r, c', es') \<Longrightarrow> es' = es \<and> cdata c' = ConditionDamage d"
  by (auto simp: base_finish_def split: prod.splits)

lemma damage_execute_kept:
  assumes "damage_executeCondition env iv c d = (r, c', es)"
  shows "balance acc es = 0 \<and> (\<exists>d'. cdata c' = ConditionDamage d')"
proof -
  have tick: "balance acc (TickCondition t # (if b then snd (doDamage env d1 v) else [])) = 0" for t b d1 v
    by simp
  show ?thesis
  proof (cases "damageList d")
    case Nil
    with assms show ?thesis
      unfolding damage_executeCondition_def Let_def by (auto dest!: base_finish_kept split: if_splits)
  next
    case (Cons i rest)
    obtain left v ivl where i: "i = IntervalInfo left v ivl" by (cases i)
    show ?thesis
      using assms unfolding damage_executeCondition_def Let_def Cons i list.case interval_info.case
      by (cases "periodDamage d \<noteq> 0"; cases "periodDamageTick d + iv \<ge> tickInterval d";
          cases "tick_remove env (ticks c \<noteq> -1)") (auto dest!: base_finish_kept simp: tick)
  qed
qed

lemma next_damage_kept:
  assumes "(case getNextDamage c d of None \<Rightarrow> (c\<lparr>cdata := ConditionDamage d\<rparr>, [])
     | Some (v, d5) \<Rightarrow> (c\<lparr>cdata := ConditionDamage d5\<rparr>, snd (doDamage env d5 v))) = (c', es)"
  shows "balance acc es = 0" "\<exists>d'. cdata c' = ConditionDamage d'"
  using assms by (auto split: option.splits)

lemma damage_add_kept:
  assumes "damage_addCondition env c d add d2 = (c', es)" "cdata c = ConditionDamage d"
  shows "balance acc es = 0 \<and> (\<exists>d'. cdata c' = ConditionDamage d')"
proof (cases "conditionType add = conditionType c \<and> damage_updateCondition c d add d2")
  case False
  then have "damage_addCondition env c d add d2 = (c, [])" unfolding damage_addCondition_def by argo
  with assms show ?thesis by auto
next
  case True
  define d1 where "d1 = d\<lparr>dmg_owner := dmg_owner d2, maxDamage := maxDamage d2, minDamage := minDamage d2,
     startDamage := startDamage d2, tickInterval := tickInterval d2, periodDamage := periodDamage d2,
     damageList := damageList d2\<rparr>"
  obtain ok c3 d3 where init: "damage_init env (setTicks (now env) (ticks add) c, d1) = (ok, c3, d3)"
    by (cases "damage_init env (setTicks (now env) (ticks add) c, d1)") auto
  define left where "left = (if damageList d \<noteq> [] then timeLeft (hd (damageList d)) else tickInterval d2)"
  define d4 where "d4 = (case damageList d3 of [] \<Rightarrow> d3
     | IntervalInfo _ v i # rest \<Rightarrow> d3\<lparr>damageList := IntervalInfo left v i # rest\<rparr>)"
  have eq: "(if \<not> ok then (c3\<lparr>cdata := ConditionDamage d3\<rparr>, [])
      else if delayed d4 then (c3\<lparr>cdata := ConditionDamage d4\<rparr>, [])
      else (case getNextDamage c3 d4 of None \<Rightarrow> (c3\<lparr>cdata := ConditionDamage d4\<rparr>, [])
            | Some (v, d5) \<Rightarrow> (c3\<lparr>cdata := ConditionDamage d5\<rparr>, snd (doDamage env d5 v)))) = (c', es)"
    using assms(1) True
    unfolding damage_addCondition_def Let_def d1_def[symmetric] init left_def[symmetric] d4_def
    by (simp add: left_def)
  then show ?thesis
    by (cases "\<not> ok"; cases "delayed d4") (auto dest: next_damage_kept)
qed

lemma start_posts:
  assumes "startCondition env c = Some (ok, c1, es)"
  shows "balance acc es = held (is_player env) acc c1"
proof (cases "cdata c")
  case (ConditionAttributes a)
  then show ?thesis using assms balance_apply [of env a _ es acc "base_startCondition env c"]
    by (auto simp: start_defs Let_def split: prod.splits)
next
  case (ConditionDamage d)
  then show ?thesis using assms damage_start_kept [of env c d ok c1 es acc]
    by (auto simp: start_defs Let_def held_def)
next
  case (ConditionLight l)
  then show ?thesis using assms
    by (auto simp: start_defs Let_def held_def light_begin_def split: if_splits)
qed (use assms in \<open>auto simp: start_defs Let_def held_def base_startCondition_def cooldown_effects_def
      split: account.splits if_splits\<close>)

lemma base_execute_data [simp]: "cdata (snd (base_executeCondition env iv c)) = cdata c"
  by (simp add: base_executeCondition_def)

lemma held_data: "cdata c1 = cdata c2 \<Longrightarrow> held p acc c1 = held p acc c2"
  by (simp add: held_def)

lemma execute_posts:
  assumes "executeCondition env iv c = (r, c1, es)"
  shows "balance acc es = 0 \<and> held p acc c1 = held p acc c"
proof (cases "cdata c")
  case (ConditionDamage d)
  then show ?thesis using assms damage_execute_kept [of env iv c d r c1 es acc]
    by (auto simp: executeCondition_def Let_def held_def)
qed (use assms in \<open>auto simp: executeCondition_def Let_def held_def regeneration_execute_def soul_execute_def
      light_execute_def split: prod.splits if_splits account.splits\<close>)

lemma setTicks_data [simp]: "cdata (setTicks tm t c) = cdata c"
  by (simp add: setTicks_def)

lemma add_posts:
  assumes "addCondition env c add = Some (c1, es)"
  shows "balance acc es = held (is_player env) acc c1 - held (is_player env) acc c"
proof (cases "cdata c")
  case (ConditionAttributes a)
  with assms obtain b where b: "cdata add = ConditionAttributes b"
    by (auto simp: add_defs Let_def split: condition_data.splits)
  obtain a' fs where ap: "apply_attributes env (a\<lparr>skills := skills b, skillsPercent := skillsPercent b,
      stats := stats b, statsPercent := statsPercent b\<rparr>) = (a', fs)" by fastforce
  have "balance acc (attributes_endCondition env a) = - held (is_player env) acc c"
    using balance_end [of acc env c] ConditionAttributes by (simp add: end_defs)
  then show ?thesis using assms ConditionAttributes b ap balance_apply [OF ap, of acc "setTicks (now env) (ticks add) c"]
    by (auto simp: add_defs Let_def split: if_splits)
next
  case (ConditionDamage d)
  with assms obtain b where b: "damage_addCondition env c d add b = (c1, es)"
    by (auto simp: add_defs Let_def split: condition_data.splits)
  then show ?thesis using damage_add_kept [OF b ConditionDamage, of acc] ConditionDamage by (auto simp: held_def)
next
  case (ConditionLight l)
  with assms show ?thesis
    by (auto simp: add_defs Let_def held_def light_begin_def split: if_splits condition_data.splits)
next
  case (ConditionSpeed s)
  with assms show ?thesis
    by (auto simp: add_defs Let_def held_def speed_fill_def split: if_splits condition_data.splits account.splits)
qed (use assms in \<open>auto simp: add_defs Let_def held_def cooldown_effects_def
      split: if_splits condition_data.splits account.splits\<close>)

lemma event_posts:
  assumes "run_event ev c = Some (c1, es)" "is_player (event_env ev) = p"
  shows "balance acc es = held p acc c1 - held p acc c"
  using assms execute_posts add_posts by (cases ev) (fastforce simp: prod_eq_iff)+

lemma events_post:
  "run_events evs c = Some (c1, es) \<Longrightarrow> \<forall>ev \<in> set evs. is_player (event_env ev) = p \<Longrightarrow>
   balance acc es = held p acc c1 - held p acc c"
proof (induction evs arbitrary: c es)
  case (Cons ev evs)
  then obtain c2 fs gs where "run_event ev c = Some (c2, fs)" "run_events evs c2 = Some (c1, gs)" "es = fs @ gs"
    by (auto split: option.splits prod.splits)
  with Cons.IH [of c2 gs] Cons.prems(2) event_posts [of ev c c2 fs p acc] show ?case by simp
qed simp

text \<open>
C35.
  What a condition adds to a skill, to a stat or to the speed of its creature is taken back when it
  ends: over its whole life - its start, any sequence of thinks and of merges with later conditions,
  and its end - the changes of each value sum to zero, whatever the percentages, formulas and random
  draws were at each step.
\<close>

theorem condition_life_balanced:
  assumes "startCondition env c0 = Some (ok, c1, es)"
    and "run_events evs c1 = Some (c2, fs)"
    and "\<forall>ev \<in> set evs. is_player (event_env ev) = is_player env"
    and "is_player env' = is_player env"
  shows "balance acc (es @ fs @ endCondition env' c2) = 0"
  using start_posts [OF assms(1)] events_post [OF assms(2,3)] balance_end [of acc env' c2] assms(4) by simp

definition quiet_env :: cond_env where
  "quiet_env = \<lparr>now = 100, is_player = True, in_protection_zone = False, skill_percent = (\<lambda>_ _. 3),
     stat_percent = (\<lambda>_ _. 0), real_health_gain = 0, speed_draw = 40, amount_draw = 0,
     damage_split = (\<lambda>_ _. []), tick_remove = id, is_suppressed = False, attacker_is_player = False,
     can_be_attacked = True, in_ghost_mode = False, hit_blocked = False, health_changed = True,
     is_invisible = False, creature_light = (0, 0)\<rparr>"

theorem condition_life_balanced_witness:
  "balance SpeedAccount ([ChangeSpeed 40] @ [ChangeSpeed (- 90)] @
     endCondition quiet_env (setTicks 100 500 (new_condition 0 CONDITION_PARALYZE 0 False 0
       (ConditionSpeed (new_speed (- 50)))))) = 0"
proof -
  let ?c0 = "new_condition 0 CONDITION_PARALYZE 0 False 0 (ConditionSpeed (new_speed 0))"
  let ?c1 = "new_condition 0 CONDITION_PARALYZE 0 False 0 (ConditionSpeed (new_speed 40))"
  let ?add = "new_condition 0 CONDITION_PARALYZE 500 False 0 (ConditionSpeed (new_speed (- 50)))"
  let ?c2 = "setTicks 100 500 (new_condition 0 CONDITION_PARALYZE 0 False 0 (ConditionSpeed (new_speed (- 50))))"
  have s: "startCondition quiet_env ?c0 = Some (True, ?c1, [ChangeSpeed 40])"
    by (simp add: start_defs new_condition_def base_startCondition_def quiet_env_def speed_fill_def
        new_speed_def Let_def)
  have r: "run_events [Think quiet_env 1000, Merge quiet_env ?add] ?c1 = Some (?c2, [ChangeSpeed (- 90)])"
    by (simp add: executeCondition_def add_defs new_condition_def base_executeCondition_def quiet_env_def
        speed_fill_def new_speed_def setTicks_def Let_def)
  from condition_life_balanced [OF s r, of quiet_env SpeedAccount] show ?thesis by simp
qed

section \<open>Merging\<close>

definition timed_kind :: "condition \<Rightarrow> bool" where
  "timed_kind c \<longleftrightarrow> (\<forall>d. cdata c \<noteq> ConditionDamage d) \<and> (\<forall>s. cdata c \<noteq> ConditionSpeed s)"

lemma timed_merge:
  assumes "addCondition env c add = Some (c', es)" "timed_kind c"
  shows "(\<not> base_updateCondition env c add \<and> c' = c \<and> es = []) \<or>
     (base_updateCondition env c add \<and> ticks c' = ticks add \<and> endTime c' = ticks add + now env)"
  using assms
  by (cases "base_updateCondition env c add"; cases "cdata c")
    (auto simp: add_defs timed_kind_def Let_def setTicks_def split: condition_data.splits prod.splits option.splits)

text \<open>
  Merging never shortens a condition: whether the later one of its kind is taken or refused, the
  condition then runs at least as long as it did before, and at least as long as the later one asked
  for unless that one was refused. This holds for every kind but damage and speed, which are merged by
  other rules.
\<close>

theorem addCondition_extends:
  assumes "addCondition env c add = Some (c', es)" "timed_kind c" "ticks add > 0"
  shows "ticks c \<noteq> -1 \<and> endTime c \<le> endTime c' \<and>
           endTime c' = max (endTime c) (now env + ticks add) \<and> conditionType c = conditionType add
         \<or> c' = c \<and> es = [] \<and> (ticks c = -1 \<or> conditionType c \<noteq> conditionType add \<or> endTime c > now env + ticks add)"
proof (cases "base_updateCondition env c add")
  case True
  then have "conditionType c = conditionType add" "ticks c \<noteq> -1" "endTime c \<le> now env + ticks add"
    using assms(3) by (auto simp: base_updateCondition_def split: if_splits)
  with timed_merge [OF assms(1,2)] True show ?thesis by auto
next
  case False
  with timed_merge [OF assms(1,2)] show ?thesis
    using assms(3) by (auto simp: base_updateCondition_def split: if_splits)
qed

theorem addCondition_extends_witness:
  "addCondition quiet_env (new_condition 0 CONDITION_MUTED 50 False 0 ConditionGeneric\<lparr>endTime := 120\<rparr>)
     (new_condition 0 CONDITION_MUTED 70 False 0 ConditionGeneric) =
   Some (new_condition 0 CONDITION_MUTED 70 False 0 ConditionGeneric\<lparr>endTime := 170\<rparr>, []) \<and>
   (170 :: int) = max 120 (now quiet_env + 70)"
proof -
  let ?c = "new_condition 0 CONDITION_MUTED 50 False 0 ConditionGeneric\<lparr>endTime := 120\<rparr>"
  let ?add = "new_condition 0 CONDITION_MUTED 70 False 0 ConditionGeneric"
  have a: "addCondition quiet_env ?c ?add =
      Some (new_condition 0 CONDITION_MUTED 70 False 0 ConditionGeneric\<lparr>endTime := 170\<rparr>, [])"
    by (simp add: add_defs base_updateCondition_def new_condition_def quiet_env_def setTicks_def Let_def)
  have k: "timed_kind ?c" "ticks ?add > 0" by (simp_all add: timed_kind_def new_condition_def)
  show ?thesis using a addCondition_extends [OF a k] by (simp add: new_condition_def quiet_env_def)
qed

section \<open>Rounds of damage\<close>

definition dealt :: "cond_effect list \<Rightarrow> int list" where
  "dealt es = concat (map (\<lambda>e. case e of DamageHealth v \<Rightarrow> [v] | _ \<Rightarrow> []) es)"

definition pending :: "condition \<Rightarrow> interval_info list" where
  "pending c = (case cdata c of ConditionDamage d \<Rightarrow> damageList d | _ \<Rightarrow> [])"

text \<open>An environment in which each round reaches its creature.\<close>

definition exposed :: "cond_env \<Rightarrow> bool" where
  "exposed env \<longleftrightarrow> (\<forall>b. tick_remove env b = b) \<and> \<not> is_suppressed env \<and> can_be_attacked env \<and> \<not> hit_blocked env"

definition rounds_only :: "condition \<Rightarrow> bool" where
  "rounds_only c \<longleftrightarrow> ticks c \<noteq> -1 \<and>
     (\<exists>d. cdata c = ConditionDamage d \<and> periodDamage d = 0 \<and> \<not> is_field d)"

definition work_left :: "int \<Rightarrow> condition \<Rightarrow> int" where
  "work_left iv c = sum_list (map (\<lambda>i. max 0 (timeLeft i) + iv) (pending c))"

lemma dealt_append [simp]: "dealt [] = []" "dealt (es @ fs) = dealt es @ dealt fs"
  by (simp_all add: dealt_def)

lemma dealt_doDamage: "exposed env \<Longrightarrow> \<not> is_field d \<Longrightarrow> dealt (snd (doDamage env d v)) = [v]"
  by (simp add: doDamage_def exposed_def dealt_def)

lemma base_finish_rounds:
  assumes "base_finish env iv c d es = (r, c', es')" "ticks c \<noteq> -1" "periodDamage d = 0" "\<not> is_field d"
  shows "rounds_only c' \<and> pending c' = damageList d \<and> es' = es"
  using assms by (auto simp: base_finish_def base_executeCondition_def rounds_only_def pending_def)

lemma round_step:
  assumes "executeCondition env iv c = (r, c', es)" "exposed env" "rounds_only c" "0 < iv"
  shows "rounds_only c' \<and> dealt es @ map ivalue (pending c') = map ivalue (pending c) \<and>
    (pending c = [] \<longrightarrow> pending c' = []) \<and> (pending c \<noteq> [] \<longrightarrow> work_left iv c' \<le> work_left iv c - iv)"
proof -
  obtain d where d: "cdata c = ConditionDamage d" "periodDamage d = 0" "\<not> is_field d" "ticks c \<noteq> -1"
    using assms(3) by (auto simp: rounds_only_def)
  have run: "damage_executeCondition env iv c d = (r, c', es)"
    using assms(1) d by (simp add: executeCondition_def)
  have remove: "tick_remove env (ticks c \<noteq> -1)" using assms(2) d by (simp add: exposed_def)
  show ?thesis
  proof (cases "damageList d")
    case Nil
    with run d show ?thesis
      using base_finish_rounds [of env iv c d "[]" r c' es]
      by (auto simp: damage_executeCondition_def pending_def)
  next
    case (Cons i rest)
    obtain left v ivl where i: "i = IntervalInfo left v ivl" by (cases i)
    show ?thesis
    proof (cases "left - iv \<le> 0")
      case True
      let ?d1 = "d\<lparr>damageList := rest\<rparr>"
      have "base_finish env iv c ?d1 (TickCondition (conditionType c) # snd (doDamage env ?d1 v)) = (r, c', es)"
        using run d remove Cons i True by (simp add: damage_executeCondition_def Let_def)
      from base_finish_rounds [OF this] d
      have c': "rounds_only c'" "pending c' = rest" "es = TickCondition (conditionType c) # snd (doDamage env ?d1 v)"
        by simp_all
      have "dealt es = [v]" using dealt_doDamage [of env ?d1 v] assms(2) d c' by (simp add: dealt_def)
      with c' d Cons i assms(4) show ?thesis by (simp add: pending_def work_left_def)
    next
      case False
      let ?d1 = "d\<lparr>damageList := IntervalInfo (left - iv) v ivl # rest\<rparr>"
      have "base_finish env iv c ?d1 [TickCondition (conditionType c)] = (r, c', es)"
        using run d remove Cons i False by (simp add: damage_executeCondition_def Let_def)
      from base_finish_rounds [OF this] d
      have "rounds_only c'" "pending c' = IntervalInfo (left - iv) v ivl # rest" "dealt es = []"
        by (simp_all add: dealt_def)
      with d Cons i assms(4) False show ?thesis by (simp add: pending_def work_left_def)
    qed
  qed
qed

lemma rounds_run:
  "run_events evs c = Some (c', es) \<Longrightarrow> rounds_only c \<Longrightarrow> 0 < iv \<Longrightarrow>
   \<forall>ev \<in> set evs. \<exists>env. ev = Think env iv \<and> exposed env \<Longrightarrow>
   dealt es @ map ivalue (pending c') = map ivalue (pending c) \<and>
   (work_left iv c \<le> int (length evs) * iv \<longrightarrow> pending c' = [])"
proof (induction evs arbitrary: c es)
  case Nil
  have "0 < work_left iv c" if ne: "pending c \<noteq> []"
  proof -
    obtain i rest where i: "pending c = i # rest" using ne by (cases "pending c") auto
    have "0 \<le> sum_list (map (\<lambda>i. max 0 (timeLeft i) + iv) rest)"
      by (rule sum_list_nonneg) (use \<open>0 < iv\<close> in auto)
    then show ?thesis using \<open>0 < iv\<close> i by (simp add: work_left_def)
  qed
  with Nil show ?case by fastforce
next
  case (Cons ev evs)
  obtain env where ev: "ev = Think env iv" "exposed env" using Cons.prems(4) by auto
  obtain r c1 fs gs where one: "executeCondition env iv c = (r, c1, fs)"
    and rest: "run_events evs c1 = Some (c', gs)" and es: "es = fs @ gs"
    using Cons.prems(1) ev by (cases "executeCondition env iv c") (auto split: option.splits)
  note step = round_step [OF one ev(2) Cons.prems(2,3)]
  have IH: "dealt gs @ map ivalue (pending c') = map ivalue (pending c1)"
      "work_left iv c1 \<le> int (length evs) * iv \<Longrightarrow> pending c' = []"
    using Cons.IH [OF rest _ Cons.prems(3)] step Cons.prems(4) by auto
  have "pending c' = []" if "work_left iv c \<le> int (length (ev # evs)) * iv"
  proof (cases "pending c = []")
    case True
    with step IH(1) show ?thesis by simp
  next
    case False
    with step that show ?thesis by (intro IH(2)) (simp add: algebra_simps)
  qed
  moreover have "dealt es @ map ivalue (pending c') = map ivalue (pending c)"
    using IH(1) step es by simp
  ultimately show ?case by blast
qed


definition burning :: "interval_info list \<Rightarrow> int \<Rightarrow> condition" where
  "burning is t = \<lparr>endTime = 9000, subId = 0, ticks = t, conditionType = CONDITION_FIRE, cond_id = 0, isBuff = False,
     cdata = ConditionDamage (new_damage\<lparr>damageList := is\<rparr>)\<rparr>"


end
