(* ===== verification/Sight_Line.thy ===== *)
theory Sight_Line imports Positions begin

text \<open>
  Lines of sight on the map, from \<open>src/src/map.cpp\<close>: the ray that decides whether a projectile reaches
  its target, and the checks before a throw. A tile is seen by whether it stops projectiles and by the
  number of things on it; the map is the function from positions to tiles that \<open>Map::getTile\<close> is.
\<close>

section \<open>The ray\<close>

record map_tile =
  blockProjectile :: bool
  thingCount :: nat

type_synonym tile_view = "position \<Rightarrow> map_tile option"

definition sign_step :: "u16 \<Rightarrow> u16 \<Rightarrow> int" where
  "sign_step a b = (if a < b then 1 else if a = b then 0 else -1)"

definition line_A :: "position \<Rightarrow> position \<Rightarrow> int" where
  "line_A start dest = getOffsetY dest start"

definition line_B :: "position \<Rightarrow> position \<Rightarrow> int" where
  "line_B start dest = getOffsetX start dest"

definition line_C :: "position \<Rightarrow> position \<Rightarrow> int" where
  "line_C start dest = - (line_A start dest * uint (pos_x dest) + line_B start dest * uint (pos_y dest))"

text \<open>The value of the line's equation at a point; it is zero on the line.\<close>

definition line_value :: "position \<Rightarrow> position \<Rightarrow> int \<Rightarrow> int \<Rightarrow> int" where
  "line_value start dest x y = line_A start dest * x + line_B start dest * y + line_C start dest"

definition ray_step :: "position \<Rightarrow> position \<Rightarrow> position \<Rightarrow> position" where
  "ray_step start dest p =
     (let mx = sign_step (pos_x start) (pos_x dest); my = sign_step (pos_y start) (pos_y dest);
          x = uint (pos_x p); y = uint (pos_y p);
          move_hor = \<bar>line_value start dest (x + mx) y\<bar>;
          move_ver = \<bar>line_value start dest x (y + my)\<bar>;
          move_cross = \<bar>line_value start dest (x + mx) (y + my)\<bar>;
          y' = (if pos_y p \<noteq> pos_y dest \<and> (pos_x p = pos_x dest \<or> move_hor > move_ver \<or> move_hor > move_cross)
                then word_of_int (y + my) else pos_y p);
          x' = (if pos_x p \<noteq> pos_x dest \<and> (y' = pos_y dest \<or> move_ver > move_hor \<or> move_ver > move_cross)
                then word_of_int (x + mx) else pos_x p)
      in Position x' y' (pos_z p))"

text \<open>The jump between the floors: \<open>n\<close> floors down from \<open>p\<close>.\<close>

primrec floors_clear :: "tile_view \<Rightarrow> nat \<Rightarrow> position \<Rightarrow> bool" where
  "floors_clear tiles 0 p = True"
| "floors_clear tiles (Suc n) p =
     (case tiles p of
        Some t \<Rightarrow> if thingCount t > 0 then False
                  else floors_clear tiles n (Position (pos_x p) (pos_y p) (pos_z p + 1))
      | None \<Rightarrow> floors_clear tiles n (Position (pos_x p) (pos_y p) (pos_z p + 1)))"

text \<open>The loop of the ray, with fuel: no result when the fuel is spent before the target is reached.\<close>

primrec ray :: "tile_view \<Rightarrow> position \<Rightarrow> position \<Rightarrow> nat \<Rightarrow> position \<Rightarrow> bool option" where
  "ray tiles start dest 0 p =
     (if pos_x p = pos_x dest \<and> pos_y p = pos_y dest
      then Some (floors_clear tiles (unat (pos_z dest) - unat (pos_z p)) p) else None)"
| "ray tiles start dest (Suc n) p =
     (if pos_x p = pos_x dest \<and> pos_y p = pos_y dest
      then Some (floors_clear tiles (unat (pos_z dest) - unat (pos_z p)) p)
      else
        let q = ray_step start dest p in
        case tiles q of
          Some t \<Rightarrow> if blockProjectile t then Some False else ray tiles start dest n q
        | None \<Rightarrow> ray tiles start dest n q)"

definition ray_start :: "position \<Rightarrow> position \<Rightarrow> position" where
  "ray_start from_pos to_pos = (if pos_z from_pos > pos_z to_pos then to_pos else from_pos)"

definition ray_dest :: "position \<Rightarrow> position \<Rightarrow> position" where
  "ray_dest from_pos to_pos = (if pos_z from_pos > pos_z to_pos then from_pos else to_pos)"

definition ray_fuel :: "position \<Rightarrow> position \<Rightarrow> nat" where
  "ray_fuel p q = nat (getDistanceX p q + getDistanceY p q)"

definition checkSightLine :: "tile_view \<Rightarrow> position \<Rightarrow> position \<Rightarrow> bool option" where
  "checkSightLine tiles from_pos to_pos =
     (if from_pos = to_pos then Some True
      else
        let start = ray_start from_pos to_pos; dest = ray_dest from_pos to_pos in
        ray tiles start dest (ray_fuel start dest) start)"

definition isSightClear :: "tile_view \<Rightarrow> position \<Rightarrow> position \<Rightarrow> bool \<Rightarrow> bool option" where
  "isSightClear tiles from_pos to_pos floorCheck =
     (if floorCheck \<and> pos_z from_pos \<noteq> pos_z to_pos then Some False
      else (case checkSightLine tiles from_pos to_pos of
              None \<Rightarrow> None
            | Some True \<Rightarrow> Some True
            | Some False \<Rightarrow> checkSightLine tiles to_pos from_pos))"

definition canThrowObjectTo :: "tile_view \<Rightarrow> position \<Rightarrow> position \<Rightarrow> bool \<Rightarrow> int \<Rightarrow> int \<Rightarrow> bool option" where
  "canThrowObjectTo tiles from_pos to_pos checkLineOfSight rangex rangey =
     (if pos_z from_pos \<ge> 8 \<and> pos_z to_pos < 8 \<or> pos_z to_pos \<ge> 8 \<and> pos_z from_pos < 8 then Some False
      else
        let deltaz = getDistanceZ from_pos to_pos in
        if deltaz > 2 then Some False
        else if getDistanceX from_pos to_pos - deltaz > rangex then Some False
        else if getDistanceY from_pos to_pos - deltaz > rangey then Some False
        else if \<not> checkLineOfSight then Some True
        else isSightClear tiles from_pos to_pos False)"

section \<open>One step of the ray\<close>

text \<open>The point of the ray lies between its ends.\<close>

definition on_way :: "position \<Rightarrow> position \<Rightarrow> position \<Rightarrow> bool" where
  "on_way start dest p \<longleftrightarrow>
     (pos_x p = pos_x dest \<or> sign_step (pos_x p) (pos_x dest) = sign_step (pos_x start) (pos_x dest)) \<and>
     (pos_y p = pos_y dest \<or> sign_step (pos_y p) (pos_y dest) = sign_step (pos_y start) (pos_y dest))"

definition deviation :: "position \<Rightarrow> position \<Rightarrow> position \<Rightarrow> int" where
  "deviation start dest p = line_value start dest (uint (pos_x p)) (uint (pos_y p))"

definition near_line :: "position \<Rightarrow> position \<Rightarrow> position \<Rightarrow> bool" where
  "near_line start dest p \<longleftrightarrow> 2 * \<bar>deviation start dest p\<bar> \<le> max (getDistanceX start dest) (getDistanceY start dest)"

text \<open>Three candidates with opposite increments: one of them is always taken, and it is the nearest.\<close>

lemma nearest_candidate:
  fixes e P Q :: int
  assumes "P > 0 \<and> Q < 0 \<or> P < 0 \<and> Q > 0" "2 * \<bar>e\<bar> \<le> max \<bar>P\<bar> \<bar>Q\<bar>"
  shows "2 * \<bar>e + P\<bar> \<le> max \<bar>P\<bar> \<bar>Q\<bar> \<or> 2 * \<bar>e + Q\<bar> \<le> max \<bar>P\<bar> \<bar>Q\<bar> \<or> 2 * \<bar>e + P + Q\<bar> \<le> max \<bar>P\<bar> \<bar>Q\<bar>"
proof -
  have le: "2 * \<bar>x\<bar> \<le> m \<longleftrightarrow> 2 * x \<le> m \<and> - m \<le> 2 * x" for x m :: int by linarith
  from assms(1) show ?thesis
  proof
    assume "P > 0 \<and> Q < 0"
    then have "max \<bar>P\<bar> \<bar>Q\<bar> = max P (- Q)" by simp
    with \<open>P > 0 \<and> Q < 0\<close> assms(2) show ?thesis
      unfolding le by (cases "P \<le> - Q") (simp_all add: max_def le, linarith+)
  next
    assume "P < 0 \<and> Q > 0"
    then have "max \<bar>P\<bar> \<bar>Q\<bar> = max (- P) Q" by simp
    with \<open>P < 0 \<and> Q > 0\<close> assms(2) show ?thesis
      unfolding le by (cases "- P \<le> Q") (simp_all add: max_def le, linarith+)
  qed
qed

lemma some_candidate:
  fixes e P Q :: int
  assumes "P > 0 \<and> Q < 0 \<or> P < 0 \<and> Q > 0"
  shows "\<bar>e + P\<bar> > \<bar>e + Q\<bar> \<or> \<bar>e + P\<bar> > \<bar>e + P + Q\<bar> \<or> \<bar>e + Q\<bar> > \<bar>e + P\<bar> \<or> \<bar>e + Q\<bar> > \<bar>e + P + Q\<bar>"
  using assms by linarith

lemma sign_step_sgn: "sign_step a b = sgn (uint b - uint a)"
  by (simp add: sign_step_def word_less_def word_uint_eq_iff sgn_if)

lemma uint_toward:
  assumes "sgn (uint (b :: u16) - uint a) = m" "a \<noteq> b"
  shows "uint (word_of_int (uint a + m) :: u16) = uint a + m" "\<bar>uint b - (uint a + m)\<bar> = \<bar>uint b - uint a\<bar> - 1"
    "uint a + m = uint b \<or> sgn (uint b - (uint a + m)) = m"
proof -
  have ne: "uint a \<noteq> uint b" using assms(2) by (simp add: word_uint_eq_iff)
  have m: "m = 1 \<and> uint a < uint b \<or> m = -1 \<and> uint b < uint a"
    using assms(1) ne by (auto simp: sgn_if split: if_splits)
  have "0 \<le> uint a + m \<and> uint a + m < 65536"
    using m uint_ge_0 [of a] uint_ge_0 [of b] uint_less_u16 [of a] uint_less_u16 [of b] by linarith
  then show "uint (word_of_int (uint a + m) :: u16) = uint a + m"
    unfolding uint_word_of_int by simp
  show "\<bar>uint b - (uint a + m)\<bar> = \<bar>uint b - uint a\<bar> - 1" "uint a + m = uint b \<or> sgn (uint b - (uint a + m)) = m"
    using assms(1) ne by (auto simp: sgn_if split: if_splits)
qed

lemma line_value_add:
  "line_value start dest (x + i) y = line_value start dest x y + line_A start dest * i"
  "line_value start dest x (y + j) = line_value start dest x y + line_B start dest * j"
  by (simp_all add: line_value_def algebra_simps)

lemma line_value_dest:
  "line_value start dest x y =
     line_A start dest * (x - uint (pos_x dest)) + line_B start dest * (y - uint (pos_y dest))"
  by (simp add: line_value_def line_C_def algebra_simps)

lemma increments:
  assumes "mx = sgn (uint (pos_x dest) - uint (pos_x start))" "my = sgn (uint (pos_y dest) - uint (pos_y start))"
    "mx \<noteq> 0" "my \<noteq> 0"
  shows "line_A start dest * mx > 0 \<and> line_B start dest * my < 0 \<or> line_A start dest * mx < 0 \<and> line_B start dest * my > 0"
    "\<bar>line_A start dest * mx\<bar> = getDistanceY start dest" "\<bar>line_B start dest * my\<bar> = getDistanceX start dest"
  using assms by (auto simp: line_A_def line_B_def getOffsetX_def getOffsetY_def getDistanceX_def getDistanceY_def
      sgn_if split: if_splits)

text \<open>What a step does, by the coordinates that still differ from the target's.\<close>

lemma near_min:
  fixes e P Q D :: int
  assumes "P > 0 \<and> Q < 0 \<or> P < 0 \<and> Q > 0" "2 * \<bar>e\<bar> \<le> max \<bar>Q\<bar> \<bar>P\<bar>"
    "v \<le> \<bar>e + P\<bar>" "v \<le> \<bar>e + Q\<bar>" "v \<le> \<bar>e + P + Q\<bar>"
  shows "2 * v \<le> max \<bar>Q\<bar> \<bar>P\<bar>"
proof -
  have "2 * \<bar>e + P\<bar> \<le> max \<bar>P\<bar> \<bar>Q\<bar> \<or> 2 * \<bar>e + Q\<bar> \<le> max \<bar>P\<bar> \<bar>Q\<bar> \<or> 2 * \<bar>e + P + Q\<bar> \<le> max \<bar>P\<bar> \<bar>Q\<bar>"
    by (rule nearest_candidate [OF assms(1)]) (use assms(2) in \<open>simp add: max.commute\<close>)
  then have "2 * v \<le> max \<bar>P\<bar> \<bar>Q\<bar>" using assms(3-5) by (elim disjE) linarith+
  then show ?thesis by (simp add: max.commute)
qed

lemma toward_dest_smaller:
  fixes k d m :: int
  assumes "\<bar>d + m\<bar> \<le> \<bar>d\<bar>"
  shows "\<bar>k * (d + m)\<bar> \<le> \<bar>k * d\<bar>"
  using assms by (simp add: abs_mult mult_left_mono)

lemma ray_step_moves:
  assumes way: "on_way start dest p" and near: "near_line start dest p"
    and ne: "\<not> (pos_x p = pos_x dest \<and> pos_y p = pos_y dest)"
  defines "q \<equiv> ray_step start dest p"
  shows "on_way start dest q \<and> near_line start dest q \<and> pos_z q = pos_z p \<and>
    getDistanceX q dest + getDistanceY q dest < getDistanceX p dest + getDistanceY p dest \<and>
    getDistanceX p q \<le> 1 \<and> getDistanceY p q \<le> 1"
proof -
  define mx where "mx = sgn (uint (pos_x dest) - uint (pos_x start))"
  define my where "my = sgn (uint (pos_y dest) - uint (pos_y start))"
  define x y where "x = uint (pos_x p)" and "y = uint (pos_y p)"
  define P Q where "P = line_A start dest * mx" and "Q = line_B start dest * my"
  define e where "e = line_value start dest x y"
  have hor: "line_value start dest (x + mx) y = e + P" and ver_value: "line_value start dest x (y + my) = e + Q"
    and cross: "line_value start dest (x + mx) (y + my) = e + P + Q"
    by (simp_all add: line_value_add e_def P_def Q_def)
  have mx_sign: "sign_step (pos_x start) (pos_x dest) = mx" and my_sign: "sign_step (pos_y start) (pos_y dest) = my"
    by (simp_all add: sign_step_sgn mx_def my_def)
  define yq where "yq = (if pos_y p \<noteq> pos_y dest \<and> (pos_x p = pos_x dest \<or> \<bar>e + P\<bar> > \<bar>e + Q\<bar> \<or> \<bar>e + P\<bar> > \<bar>e + P + Q\<bar>)
    then word_of_int (y + my) else pos_y p)"
  define xq where "xq = (if pos_x p \<noteq> pos_x dest \<and> (yq = pos_y dest \<or> \<bar>e + Q\<bar> > \<bar>e + P\<bar> \<or> \<bar>e + Q\<bar> > \<bar>e + P + Q\<bar>)
    then word_of_int (x + mx) else pos_x p)"
  have q: "q = Position xq yq (pos_z p)"
    unfolding q_def ray_step_def mx_sign my_sign Let_def x_def [symmetric] y_def [symmetric] hor ver_value cross
      yq_def [symmetric] xq_def [symmetric] by (rule refl)
  have xm: "uint (word_of_int (x + mx) :: u16) = x + mx" "\<bar>uint (pos_x dest) - (x + mx)\<bar> = \<bar>uint (pos_x dest) - x\<bar> - 1"
      "x + mx = uint (pos_x dest) \<or> sgn (uint (pos_x dest) - (x + mx)) = mx" "mx \<noteq> 0" if "pos_x p \<noteq> pos_x dest"
    using uint_toward [of "pos_x dest" "pos_x p" mx] that way
    by (auto simp: x_def mx_def on_way_def sign_step_sgn word_uint_eq_iff sgn_if split: if_splits)
  have ym: "uint (word_of_int (y + my) :: u16) = y + my" "\<bar>uint (pos_y dest) - (y + my)\<bar> = \<bar>uint (pos_y dest) - y\<bar> - 1"
      "y + my = uint (pos_y dest) \<or> sgn (uint (pos_y dest) - (y + my)) = my" "my \<noteq> 0" if "pos_y p \<noteq> pos_y dest"
    using uint_toward [of "pos_y dest" "pos_y p" my] that way
    by (auto simp: y_def my_def on_way_def sign_step_sgn word_uint_eq_iff sgn_if split: if_splits)
  have near_e: "2 * \<bar>e\<bar> \<le> max (getDistanceX start dest) (getDistanceY start dest)"
    using near by (simp add: near_line_def deviation_def e_def x_def y_def)
  have xs: "uint xq = x \<and> xq = pos_x p \<or> pos_x p \<noteq> pos_x dest \<and> uint xq = x + mx"
    using xm(1) by (auto simp: xq_def x_def)
  have ys: "uint yq = y \<and> yq = pos_y p \<or> pos_y p \<noteq> pos_y dest \<and> uint yq = y + my"
    using ym(1) by (auto simp: yq_def y_def)
  have opposite: "P > 0 \<and> Q < 0 \<or> P < 0 \<and> Q > 0" and sizes: "\<bar>P\<bar> = getDistanceY start dest" "\<bar>Q\<bar> = getDistanceX start dest"
    if "pos_x p \<noteq> pos_x dest" "pos_y p \<noteq> pos_y dest"
    using increments [OF mx_def my_def xm(4) [OF that(1)] ym(4) [OF that(2)]] by (simp_all add: P_def Q_def)
  have moved: "(pos_x p \<noteq> pos_x dest \<and> uint xq = x + mx) \<or> (pos_y p \<noteq> pos_y dest \<and> uint yq = y + my)"
  proof (cases "pos_x p \<noteq> pos_x dest \<and> pos_y p \<noteq> pos_y dest")
    case True
    with some_candidate [OF opposite, of e] xm(1) ym(1) show ?thesis by (auto simp: xq_def yq_def)
  next
    case False
    with ne xm(1) ym(1) show ?thesis by (auto simp: xq_def yq_def)
  qed
  have dist: "\<bar>uint (pos_x dest) - uint xq\<bar> + \<bar>uint (pos_y dest) - uint yq\<bar> <
      \<bar>uint (pos_x dest) - x\<bar> + \<bar>uint (pos_y dest) - y\<bar>"
    using moved xs ys xm(2) ym(2) by auto
  have way_q: "on_way start dest q"
    using xs ys xm(3) ym(3) way unfolding on_way_def q sign_step_sgn mx_def [symmetric] my_def [symmetric]
    by (auto simp: word_uint_eq_iff)
  have adjacent: "\<bar>x - uint xq\<bar> \<le> 1" "\<bar>y - uint yq\<bar> \<le> 1"
    using xs ys by (auto simp: mx_def my_def sgn_if)
  have "2 * \<bar>line_value start dest (uint xq) (uint yq)\<bar> \<le> max (getDistanceX start dest) (getDistanceY start dest)"
  proof -
    consider (x) "pos_x p \<noteq> pos_x dest" "pos_y p = pos_y dest" | (y) "pos_x p = pos_x dest" "pos_y p \<noteq> pos_y dest"
      | (both) "pos_x p \<noteq> pos_x dest" "pos_y p \<noteq> pos_y dest" using ne by blast
    then show ?thesis
    proof cases
      case x
      then have "uint xq = x + mx" "uint yq = uint (pos_y dest)" using moved ys by (auto simp: y_def)
      then show ?thesis
        using toward_dest_smaller [of "x - uint (pos_x dest)" mx "line_A start dest"] xm(2) [OF x(1)] near_e x(2)
        by (simp add: line_value_dest e_def y_def algebra_simps abs_minus_commute)
    next
      case y
      then have "uint yq = y + my" "uint xq = uint (pos_x dest)" using moved xs by (auto simp: x_def)
      then show ?thesis
        using toward_dest_smaller [of "y - uint (pos_y dest)" my "line_B start dest"] ym(2) [OF y(2)] near_e y(1)
        by (simp add: line_value_dest e_def x_def algebra_simps abs_minus_commute)
    next
      case both
      note op = opposite [OF both] and sz = sizes [OF both]
      have e: "2 * \<bar>e\<bar> \<le> max \<bar>Q\<bar> \<bar>P\<bar>" using near_e sz by simp
      let ?cy = "\<bar>e + P\<bar> > \<bar>e + Q\<bar> \<or> \<bar>e + P\<bar> > \<bar>e + P + Q\<bar>"
      let ?cx = "\<bar>e + Q\<bar> > \<bar>e + P\<bar> \<or> \<bar>e + Q\<bar> > \<bar>e + P + Q\<bar>"
      have yq: "uint yq = (if ?cy then y + my else y)" using both ym(1) by (simp add: yq_def y_def)
      consider (hor) "\<not> ?cy" | (cross) "?cy" ?cx | (ver) "?cy" "\<not> ?cx" by blast
      then have "2 * \<bar>line_value start dest (uint xq) (uint yq)\<bar> \<le> max \<bar>Q\<bar> \<bar>P\<bar>"
      proof cases
        case hor
        then have "uint xq = x + mx" using some_candidate [OF op, of e] both xm(1) by (auto simp: xq_def)
        with yq hor have "line_value start dest (uint xq) (uint yq) = e + P" by (simp only: line_value_add e_def P_def if_False)
        with near_min [OF op e, of "\<bar>e + P\<bar>"] hor show ?thesis by simp
      next
        case cross
        then have "uint xq = x + mx" using both xm(1) by (auto simp: xq_def)
        with yq cross have "line_value start dest (uint xq) (uint yq) = e + P + Q"
          by (simp add: line_value_add e_def P_def Q_def)
        moreover have "\<bar>e + P + Q\<bar> \<le> \<bar>e + P\<bar>" "\<bar>e + P + Q\<bar> \<le> \<bar>e + Q\<bar>" using cross by linarith+
        ultimately show ?thesis using near_min [OF op e, of "\<bar>e + P + Q\<bar>"] by simp
      next
        case ver
        have v: "2 * \<bar>e + Q\<bar> \<le> max \<bar>Q\<bar> \<bar>P\<bar>" using near_min [OF op e, of "\<bar>e + Q\<bar>"] ver by linarith
        have y1: "uint yq = y + my" using yq ver by simp
        show ?thesis
        proof (cases "yq = pos_y dest")
          case True
          then have "uint xq = x + mx" using both xm(1) by (simp add: xq_def)
          moreover have "e + Q = line_A start dest * (x - uint (pos_x dest))"
            using ver True y1 by (simp add: line_value_dest flip: ver_value)
          moreover have "\<bar>line_A start dest * (x - uint (pos_x dest) + mx)\<bar> \<le> \<bar>line_A start dest * (x - uint (pos_x dest))\<bar>"
            using xm(2) [OF both(1)] by (intro toward_dest_smaller) linarith
          moreover have "line_value start dest (uint xq) (uint yq) = line_A start dest * (x - uint (pos_x dest) + mx)"
            using True \<open>uint xq = x + mx\<close> by (simp add: line_value_dest algebra_simps)
          ultimately have "\<bar>line_value start dest (uint xq) (uint yq)\<bar> \<le> \<bar>e + Q\<bar>" by simp
          then show ?thesis using v by (intro order_trans [OF _ v]) simp
        next
          case False
          then have "uint xq = x" using ver by (simp add: xq_def x_def)
          with v y1 show ?thesis by (simp add: line_value_add e_def Q_def)
        qed
      qed
      with sz show ?thesis by simp
    qed
  qed
  with way_q dist adjacent show ?thesis
    unfolding q near_line_def deviation_def
    by (auto simp: q x_def y_def getDistanceX_def getDistanceY_def getOffsetX_def getOffsetY_def abs_minus_commute)
qed

section \<open>The whole ray\<close>

text \<open>The tiles the ray asks for, in order; they do not depend on what is on the map.\<close>

primrec ray_path :: "position \<Rightarrow> position \<Rightarrow> nat \<Rightarrow> position \<Rightarrow> position list" where
  "ray_path start dest 0 p = []"
| "ray_path start dest (Suc n) p =
     (if pos_x p = pos_x dest \<and> pos_y p = pos_y dest then []
      else ray_step start dest p # ray_path start dest n (ray_step start dest p))"

definition free_tile :: "tile_view \<Rightarrow> position \<Rightarrow> bool" where
  "free_tile tiles p \<longleftrightarrow> (\<forall>t. tiles p = Some t \<longrightarrow> \<not> blockProjectile t)"

primrec adjacent_chain :: "position \<Rightarrow> position list \<Rightarrow> bool" where
  "adjacent_chain p [] = True"
| "adjacent_chain p (q # qs) = (areInRange3 1 1 0 p q \<and> adjacent_chain q qs)"

definition chain_end :: "position \<Rightarrow> position list \<Rightarrow> position" where
  "chain_end p qs = last (p # qs)"

lemma ray_run:
  assumes "on_way start dest p" "near_line start dest p"
    and "nat (getDistanceX p dest + getDistanceY p dest) \<le> n"
  shows "ray tiles start dest n p = Some (list_all (free_tile tiles) (ray_path start dest n p) \<and>
           floors_clear tiles (unat (pos_z dest) - unat (pos_z p)) (Position (pos_x dest) (pos_y dest) (pos_z p))) \<and>
         list_all (near_line start dest) (ray_path start dest n p) \<and>
         adjacent_chain p (ray_path start dest n p) \<and>
         chain_end p (ray_path start dest n p) = Position (pos_x dest) (pos_y dest) (pos_z p)"
  using assms
proof (induction n arbitrary: p)
  case 0
  then have "getDistanceX p dest + getDistanceY p dest \<le> 0" by simp
  then have "getDistanceX p dest = 0 \<and> getDistanceY p dest = 0" unfolding getDistanceX_def getDistanceY_def by linarith
  then have "pos_x p = pos_x dest \<and> pos_y p = pos_y dest"
    by (simp add: getDistanceX_def getDistanceY_def getOffsetX_def getOffsetY_def word_uint_eq_iff)
  then show ?case by (cases p) (simp add: chain_end_def)
next
  case (Suc n)
  show ?case
  proof (cases "pos_x p = pos_x dest \<and> pos_y p = pos_y dest")
    case True
    then show ?thesis by (cases p) (simp add: chain_end_def)
  next
    case False
    let ?q = "ray_step start dest p"
    note step = ray_step_moves [OF Suc.prems(1,2) False]
    have fuel: "nat (getDistanceX ?q dest + getDistanceY ?q dest) \<le> n"
      using step Suc.prems(3) by linarith
    note IH = Suc.IH [OF conjunct1 [OF step] _ fuel]
    have "areInRange3 1 1 0 p ?q"
      using step by (simp add: areInRange3_def getDistanceZ_def getOffsetZ_def)
    with IH step False show ?thesis
      by (auto simp: free_tile_def chain_end_def Let_def split: option.splits)
  qed
qed

lemma ray_ends [simp]:
  "on_way start dest start" "near_line start dest start"
  by (simp_all add: on_way_def near_line_def deviation_def line_value_def line_C_def line_A_def line_B_def
      getOffsetX_def getOffsetY_def getDistanceX_def getDistanceY_def algebra_simps)

lemma ray_run_start:
  defines "path \<equiv> (\<lambda>start dest. ray_path start dest (ray_fuel start dest) start)"
  shows "ray tiles start dest (ray_fuel start dest) start =
           Some (list_all (free_tile tiles) (path start dest) \<and>
             floors_clear tiles (unat (pos_z dest) - unat (pos_z start)) (chain_end start (path start dest))) \<and>
         list_all (near_line start dest) (path start dest) \<and> adjacent_chain start (path start dest) \<and>
         chain_end start (path start dest) = Position (pos_x dest) (pos_y dest) (pos_z start)"
  using ray_run [OF ray_ends, of start dest "ray_fuel start dest" tiles] unfolding path_def ray_fuel_def by simp

text \<open>
C38.
  The ray of \<open>checkSightLine\<close> always reaches its target. The tiles it asks for form a chain of adjacent
  tiles from one end to the column of the other, none of them further than half a tile from the straight
  line between the two; the sight is clear exactly if none of these tiles stops projectiles and the
  floors between the two ends are empty there.
\<close>

theorem checkSightLine_spec:
  fixes from_pos to_pos
  defines "start \<equiv> ray_start from_pos to_pos" and "dest \<equiv> ray_dest from_pos to_pos"
  defines "path \<equiv> ray_path start dest (ray_fuel start dest) start"
  assumes "from_pos \<noteq> to_pos"
  shows "checkSightLine tiles from_pos to_pos = Some (list_all (free_tile tiles) path \<and>
           floors_clear tiles (unat (pos_z dest) - unat (pos_z start)) (chain_end start path)) \<and>
         list_all (near_line start dest) path \<and> adjacent_chain start path \<and>
         chain_end start path = Position (pos_x dest) (pos_y dest) (pos_z start)"
  using ray_run_start [of tiles start dest] assms(4)
  by (simp add: checkSightLine_def Let_def start_def [symmetric] dest_def [symmetric] path_def)

theorem checkSightLine_spec_witness:
  "checkSightLine (\<lambda>p. if p = Position 101 100 7 then Some \<lparr>blockProjectile = True, thingCount = 1\<rparr> else None)
     (Position 100 100 7) (Position 102 100 7) = Some False"
proof -
  have steps: "ray_step (Position 100 100 7) (Position 102 100 7) (Position 100 100 7) = Position 101 100 7"
    "ray_step (Position 100 100 7) (Position 102 100 7) (Position 101 100 7) = Position 102 100 7"
    by (simp_all add: ray_step_def line_value_def line_A_def line_B_def line_C_def sign_step_def
        getOffsetX_def getOffsetY_def Let_def)
  have fuel: "ray_fuel (Position 100 100 7) (Position 102 100 7) = Suc (Suc 0)"
    by (simp add: ray_fuel_def getDistanceX_def getDistanceY_def getOffsetX_def getOffsetY_def)
  have "Position 100 100 7 \<noteq> Position 102 100 7" by simp
  from checkSightLine_spec [OF this, of "\<lambda>p. if p = Position 101 100 7 then Some \<lparr>blockProjectile = True, thingCount = 1\<rparr> else None"]
  show ?thesis
    by (simp add: ray_start_def ray_dest_def fuel steps free_tile_def)
qed

lemma checkSightLine_total: "checkSightLine tiles p q \<noteq> None"
  using ray_run_start [of tiles "ray_start p q" "ray_dest p q"] by (auto simp: checkSightLine_def Let_def)


text \<open>
  The 32-bit arithmetic of the ray does not overflow as long as its ends are less than 16384 tiles apart
  in each direction, which every range of the server respects: the products, their sums and the value
  of the line's equation fit for every tile of the map and its neighbours.
\<close>

theorem sight_line_no_overflow:
  assumes "getDistanceX start dest < 16384" "getDistanceY start dest < 16384"
    and "-1 \<le> x" "x \<le> 65536" "-1 \<le> y" "y \<le> 65536"
  shows "in_i32 (line_A start dest * x) \<and> in_i32 (line_B start dest * y) \<and>
    in_i32 (line_A start dest * x + line_B start dest * y) \<and> in_i32 (line_C start dest) \<and>
    in_i32 (line_value start dest x y)"
proof -
  have AB: "\<bar>line_A start dest\<bar> \<le> 16383" "\<bar>line_B start dest\<bar> \<le> 16383"
    using assms(1,2) by (simp_all add: line_A_def line_B_def getDistanceX_def getDistanceY_def getOffsetX_def
        getOffsetY_def abs_minus_commute)
  have prod: "\<bar>a * b\<bar> \<le> 16383 * 65536" if "\<bar>a\<bar> \<le> 16383" "\<bar>b\<bar> \<le> 65536" for a b :: int
    using mult_mono [OF that] by (simp add: abs_mult)
  have dest: "\<bar>uint (pos_x dest)\<bar> \<le> 65536" "\<bar>uint (pos_y dest)\<bar> \<le> 65536"
    "\<bar>x - uint (pos_x dest)\<bar> \<le> 65536" "\<bar>y - uint (pos_y dest)\<bar> \<le> 65536"
    using uint_less_u16 [of "pos_x dest"] uint_less_u16 [of "pos_y dest"] uint_ge_0 [of "pos_x dest"]
      uint_ge_0 [of "pos_y dest"] assms(3-6) by linarith+
  have xy: "\<bar>x\<bar> \<le> 65536" "\<bar>y\<bar> \<le> 65536" using assms(3-6) by linarith+
  have p: "\<bar>line_A start dest * x\<bar> \<le> 16383 * 65536" "\<bar>line_B start dest * y\<bar> \<le> 16383 * 65536"
    "\<bar>line_A start dest * uint (pos_x dest)\<bar> \<le> 16383 * 65536" "\<bar>line_B start dest * uint (pos_y dest)\<bar> \<le> 16383 * 65536"
    "\<bar>line_A start dest * (x - uint (pos_x dest))\<bar> \<le> 16383 * 65536"
    "\<bar>line_B start dest * (y - uint (pos_y dest))\<bar> \<le> 16383 * 65536"
    by (intro prod AB xy dest)+
  have v: "\<bar>line_value start dest x y\<bar> \<le> 2 * (16383 * 65536)"
    using p(5,6) unfolding line_value_dest by linarith
  show ?thesis using p v unfolding in_i32_def line_C_def by (simp; linarith)
qed

theorem sight_line_no_overflow_witness:
  "in_i32 (line_value (Position 65535 65535 7) (Position 49152 49152 7) 65536 65536)"
  using sight_line_no_overflow [of "Position 65535 65535 7" "Position 49152 49152 7" 65536 65536]
  by (simp add: getDistanceX_def getDistanceY_def getOffsetX_def getOffsetY_def)

end
