(* ===== verification/Path_Finding.thy ===== *)
theory Path_Finding imports Sight_Line begin

text \<open>
  The search for a path on one floor, from \<open>src/src/map.cpp\<close> (\<open>Map::getPathMatching\<close> and \<open>AStarNodes\<close>),
  with the condition on its end, \<open>FrozenPathingConditionCall\<close> of \<open>src/src/creature.cpp\<close>. The array of
  nodes is a list that grows up to \<open>MAX_NODES\<close>; a pointer to a node is its index.
\<close>

section \<open>The condition on the end of a path\<close>

record find_path_params =
  fullPathSearch :: bool
  clearSight :: bool
  allowDiagonal :: bool
  keepDistance :: bool
  maxSearchDist :: int
  minTargetDist :: int
  maxTargetDist :: int

definition isInRange :: "position \<Rightarrow> position \<Rightarrow> position \<Rightarrow> find_path_params \<Rightarrow> bool" where
  "isInRange target start test fpp =
     (let tx = uint (pos_x target); ty = uint (pos_y target); px = uint (pos_x test); py = uint (pos_y test);
          d = maxTargetDist fpp in
      if fullPathSearch fpp then
        (if px > tx + d then False
         else if px < tx - d then False
         else if py > ty + d then False
         else if py < ty - d then False
         else True)
      else
        (let dx = getOffsetX start target; dy = getOffsetY start target in
         if px > tx + (if dx \<ge> 0 then d else 0) then False
         else if px < tx - (if dx \<le> 0 then d else 0) then False
         else if py > ty + (if dy \<ge> 0 then d else 0) then False
         else if py < ty - (if dy \<le> 0 then d else 0) then False
         else True))"

text \<open>\<open>operator()\<close>: whether the position will do, and the best distance found so far.\<close>

definition pathing_condition :: "tile_view \<Rightarrow> position \<Rightarrow> position \<Rightarrow> position \<Rightarrow> find_path_params \<Rightarrow> int \<Rightarrow>
    bool \<times> int" where
  "pathing_condition tiles target start test fpp best =
     (if \<not> isInRange target start test fpp then (False, best)
      else if clearSight fpp \<and> isSightClear tiles test target True \<noteq> Some True then (False, best)
      else
        let dist = max (getDistanceX target test) (getDistanceY target test) in
        if maxTargetDist fpp = 1 then
          (if dist < minTargetDist fpp \<or> dist > maxTargetDist fpp then (False, best) else (True, best))
        else if dist \<le> maxTargetDist fpp then
          (if dist < minTargetDist fpp then (False, best)
           else if dist = maxTargetDist fpp then (True, 0)
           else if dist > best then (True, dist)
           else (False, best))
        else (False, best))"

section \<open>Where a creature can walk\<close>

text \<open>
  What the search reads of a tile: whether the creature may enter it (\<open>queryAdd\<close> with the flags of
  path finding), whether a creature is seen on it and whether a magic field on it would hurt.
\<close>

record walk_tile =
  enterable :: bool
  visible_creature :: bool
  harmful_field :: bool

record walker =
  walker_pos :: position
  use_cache_map :: bool
  map_cache :: "int \<Rightarrow> int \<Rightarrow> bool"
  walk_tiles :: "position \<Rightarrow> walk_tile option"

abbreviation "maxWalkCacheWidth \<equiv> (11 :: int)"
abbreviation "maxWalkCacheHeight \<equiv> (11 :: int)"

definition getWalkCache :: "walker \<Rightarrow> position \<Rightarrow> int" where
  "getWalkCache w p =
     (if \<not> use_cache_map w then 2
      else if pos_z (walker_pos w) \<noteq> pos_z p then 0
      else if p = walker_pos w then 1
      else
        let dx = getOffsetX p (walker_pos w); dy = getOffsetY p (walker_pos w) in
        if \<bar>dx\<bar> \<le> maxWalkCacheWidth \<and> \<bar>dy\<bar> \<le> maxWalkCacheHeight then
          (if map_cache w (maxWalkCacheHeight + dy) (maxWalkCacheWidth + dx) then 1 else 0)
        else 2)"

definition canWalkTo :: "walker \<Rightarrow> position \<Rightarrow> walk_tile option" where
  "canWalkTo w p =
     (let cache = getWalkCache w p in
      if cache = 0 then None
      else if cache = 1 then walk_tiles w p
      else if p \<noteq> walker_pos w then
        (case walk_tiles w p of
           None \<Rightarrow> None
         | Some t \<Rightarrow> if \<not> enterable t then None else Some t)
      else walk_tiles w p)"

definition getTileWalkCost :: "walk_tile \<Rightarrow> int" where
  "getTileWalkCost t = (if visible_creature t then 10 * 3 else 0) + (if harmful_field t then 10 * 18 else 0)"

definition getMapWalkCost :: "u16 \<times> u16 \<Rightarrow> u16 \<times> u16 \<Rightarrow> int" where
  "getMapWalkCost a b =
     (if \<bar>uint (fst a) - uint (fst b)\<bar> = \<bar>uint (snd a) - uint (snd b)\<bar> then 25 else 10)"

section \<open>The nodes\<close>

abbreviation "MAX_NODES \<equiv> (512 :: nat)"
abbreviation "SEARCH_ROUNDS \<equiv> (513 :: nat)"

record astar_node =
  parent :: "nat option"
  node_f :: int
  node_x :: u16
  node_y :: u16

record astar =
  nodes :: "astar_node list"
  openNodes :: "bool list"
  nodeTable :: "u32 \<rightharpoonup> nat"
  closedNodes :: int

definition node_key :: "u16 \<Rightarrow> u16 \<Rightarrow> u32" where
  "node_key x y = push_bit 16 (ucast x) OR ucast y"

definition new_astar :: "u16 \<Rightarrow> u16 \<Rightarrow> astar" where
  "new_astar x y = \<lparr>nodes = [\<lparr>parent = None, node_f = 0, node_x = x, node_y = y\<rparr>], openNodes = [True],
     nodeTable = [node_key x y \<mapsto> 0], closedNodes = 0\<rparr>"

definition createOpenNode :: "nat option \<Rightarrow> u16 \<Rightarrow> u16 \<Rightarrow> int \<Rightarrow> astar \<Rightarrow> astar option" where
  "createOpenNode par x y f st =
     (if length (nodes st) \<ge> MAX_NODES then None
      else Some (st\<lparr>nodes := nodes st @ [\<lparr>parent = par, node_f = f, node_x = x, node_y = y\<rparr>],
                    openNodes := openNodes st @ [True],
                    nodeTable := (nodeTable st)(node_key x y \<mapsto> length (nodes st))\<rparr>))"

text \<open>The first open node with the least value below the largest 32-bit integer.\<close>

definition better :: "astar \<Rightarrow> nat \<Rightarrow> int \<times> nat option \<Rightarrow> int \<times> nat option" where
  "better st i best =
     (if openNodes st ! i \<and> node_f (nodes st ! i) < fst best then (node_f (nodes st ! i), Some i) else best)"

definition getBestNode :: "astar \<Rightarrow> nat option" where
  "getBestNode st = snd (fold (better st) [0..<length (nodes st)] (2147483647, None))"

definition closeNode :: "nat \<Rightarrow> astar \<Rightarrow> astar" where
  "closeNode i st = st\<lparr>openNodes := (openNodes st)[i := False], closedNodes := closedNodes st + 1\<rparr>"

definition openNode :: "nat \<Rightarrow> astar \<Rightarrow> astar" where
  "openNode i st =
     (if \<not> openNodes st ! i
      then st\<lparr>openNodes := (openNodes st)[i := True], closedNodes := closedNodes st - 1\<rparr> else st)"

definition getNodeByPosition :: "u16 \<Rightarrow> u16 \<Rightarrow> astar \<Rightarrow> nat option" where
  "getNodeByPosition x y st = nodeTable st (node_key x y)"

section \<open>The search\<close>

definition allNeighbors :: "(int \<times> int) list" where
  "allNeighbors = [(-1, 0), (0, 1), (1, 0), (0, -1), (-1, -1), (1, -1), (1, 1), (-1, 1)]"

fun dirNeighbors :: "direction \<Rightarrow> (int \<times> int) list" where
  "dirNeighbors DIRECTION_NORTH = [(-1, 0), (0, 1), (1, 0), (1, 1), (-1, 1)]"
| "dirNeighbors DIRECTION_EAST = [(-1, 0), (0, 1), (0, -1), (-1, -1), (-1, 1)]"
| "dirNeighbors DIRECTION_SOUTH = [(-1, 0), (1, 0), (0, -1), (-1, -1), (1, -1)]"
| "dirNeighbors DIRECTION_WEST = [(0, 1), (1, 0), (0, -1), (1, -1), (1, 1)]"
| "dirNeighbors DIRECTION_SOUTHWEST = [(1, 0), (0, -1), (-1, -1), (1, -1), (1, 1)]"
| "dirNeighbors DIRECTION_SOUTHEAST = [(-1, 0), (0, -1), (-1, -1), (1, -1), (-1, 1)]"
| "dirNeighbors DIRECTION_NORTHWEST = [(0, 1), (1, 0), (1, -1), (1, 1), (-1, 1)]"
| "dirNeighbors DIRECTION_NORTHEAST = [(-1, 0), (0, 1), (-1, -1), (1, 1), (-1, 1)]"
| "dirNeighbors DIRECTION_NONE = []"

text \<open>The neighbours to try of a node, away from its parent.\<close>

definition parent_direction :: "bool \<Rightarrow> int \<Rightarrow> int \<Rightarrow> direction" where
  "parent_direction diagonal offset_x offset_y =
     (if offset_y = 0 then (if offset_x = -1 then DIRECTION_WEST else DIRECTION_EAST)
      else if \<not> diagonal \<or> offset_x = 0 then (if offset_y = -1 then DIRECTION_NORTH else DIRECTION_SOUTH)
      else if offset_y = -1 then (if offset_x = -1 then DIRECTION_NORTHWEST else DIRECTION_NORTHEAST)
      else if offset_x = -1 then DIRECTION_SOUTHWEST
      else DIRECTION_SOUTHEAST)"

definition neighbors_of :: "find_path_params \<Rightarrow> astar \<Rightarrow> astar_node \<Rightarrow> (int \<times> int) list" where
  "neighbors_of fpp st n =
     (case parent n of
        None \<Rightarrow> allNeighbors
      | Some p \<Rightarrow>
          take (if allowDiagonal fpp then 5 else 3)
            (dirNeighbors (parent_direction (allowDiagonal fpp)
               (uint (node_x (nodes st ! p)) - uint (node_x n)) (uint (node_y (nodes st ! p)) - uint (node_y n)))))"

record path_task =
  pt_walker :: walker
  pt_sight :: tile_view
  pt_target :: position
  pt_params :: find_path_params

definition start_pos :: "path_task \<Rightarrow> position" where
  "start_pos pt = walker_pos (pt_walker pt)"

definition in_search :: "path_task \<Rightarrow> position \<Rightarrow> bool" where
  "in_search pt p \<longleftrightarrow>
     \<not> (maxSearchDist (pt_params pt) \<noteq> 0 \<and>
        (getDistanceX (start_pos pt) p > maxSearchDist (pt_params pt) \<or>
         getDistanceY (start_pos pt) p > maxSearchDist (pt_params pt))) \<and>
     \<not> (keepDistance (pt_params pt) \<and> \<not> isInRange (pt_target pt) (start_pos pt) p (pt_params pt))"

definition tile_cost :: "path_task \<Rightarrow> position \<Rightarrow> int" where
  "tile_cost pt p = (case walk_tiles (pt_walker pt) p of None \<Rightarrow> 0 | Some t \<Rightarrow> getTileWalkCost t)"

definition set_node :: "nat \<Rightarrow> nat \<Rightarrow> int \<Rightarrow> astar \<Rightarrow> astar" where
  "set_node k n f st = st\<lparr>nodes := (nodes st)[k := (nodes st ! k)\<lparr>parent := Some n, node_f := f\<rparr>]\<rparr>"

text \<open>
  The loop over the neighbours of the node \<open>n\<close>, whose value was \<open>f\<close>; no result when the nodes are
  used up and nothing was found.
\<close>

fun expand :: "path_task \<Rightarrow> nat \<Rightarrow> int \<Rightarrow> bool \<Rightarrow> (int \<times> int) list \<Rightarrow> astar \<Rightarrow> astar option" where
  "expand pt n f found [] st = Some st"
| "expand pt n f found (d # ds) st =
     (let x = node_x (nodes st ! n); y = node_y (nodes st ! n);
          px = word_of_int (uint x + fst d); py = word_of_int (uint y + snd d);
          p = Position px py (pos_z (start_pos pt));
          newf = f + getMapWalkCost (x, y) (px, py) + tile_cost pt p in
      if \<not> in_search pt p then expand pt n f found ds st
      else (case getNodeByPosition px py st of
        Some k \<Rightarrow>
          if node_f (nodes st ! k) \<le> newf then expand pt n f found ds st
          else expand pt n f found ds (openNode k (set_node k n newf st))
      | None \<Rightarrow>
          if canWalkTo (pt_walker pt) p = None then expand pt n f found ds st
          else (case createOpenNode (Some n) px py newf st of
                  Some st' \<Rightarrow> expand pt n f found ds st'
                | None \<Rightarrow> if found then Some st else None)))"

datatype search_end = Failed | Finished astar "nat option"

definition node_pos :: "path_task \<Rightarrow> astar \<Rightarrow> nat \<Rightarrow> position" where
  "node_pos pt st i = Position (node_x (nodes st ! i)) (node_y (nodes st ! i)) (pos_z (start_pos pt))"

text \<open>The search loop, with fuel.\<close>

primrec search :: "nat \<Rightarrow> path_task \<Rightarrow> int \<Rightarrow> nat option \<Rightarrow> astar \<Rightarrow> search_end option" where
  "search 0 pt best found st = None"
| "search (Suc fuel) pt best found st =
     (if \<not> (maxSearchDist (pt_params pt) \<noteq> 0 \<or> closedNodes st < 100) then Some (Finished st found)
      else (case getBestNode st of
        None \<Rightarrow> Some (if found \<noteq> None then Finished st found else Failed)
      | Some n \<Rightarrow>
          (case pathing_condition (pt_sight pt) (pt_target pt) (start_pos pt) (node_pos pt st n) (pt_params pt) best of
             (ok, best') \<Rightarrow>
               let found' = (if ok then Some n else found) in
               if ok \<and> best' = 0 then Some (Finished st found')
               else (case expand pt n (node_f (nodes st ! n)) (found' \<noteq> None)
                            (neighbors_of (pt_params pt) st (nodes st ! n)) st of
                       None \<Rightarrow> Some Failed
                     | Some st' \<Rightarrow> search fuel pt best' found' (closeNode n st')))))"

text \<open>The directions from the start, read off the parents of the node that was found.\<close>

definition push_direction :: "int \<Rightarrow> int \<Rightarrow> direction list \<Rightarrow> direction list" where
  "push_direction dx dy ds =
     (if dx = 1 \<and> dy = 1 then DIRECTION_NORTHWEST # ds
      else if dx = -1 \<and> dy = 1 then DIRECTION_NORTHEAST # ds
      else if dx = 1 \<and> dy = -1 then DIRECTION_SOUTHWEST # ds
      else if dx = -1 \<and> dy = -1 then DIRECTION_SOUTHEAST # ds
      else if dx = 1 then DIRECTION_WEST # ds
      else if dx = -1 then DIRECTION_EAST # ds
      else if dy = 1 then DIRECTION_NORTH # ds
      else if dy = -1 then DIRECTION_SOUTH # ds
      else ds)"

primrec walk_back :: "nat \<Rightarrow> astar \<Rightarrow> nat option \<Rightarrow> int \<Rightarrow> int \<Rightarrow> direction list \<Rightarrow> direction list option" where
  "walk_back 0 st found prevx prevy ds = (case found of None \<Rightarrow> Some ds | Some _ \<Rightarrow> None)"
| "walk_back (Suc fuel) st found prevx prevy ds =
     (case found of
        None \<Rightarrow> Some ds
      | Some i \<Rightarrow>
          let n = nodes st ! i; x = uint (node_x n); y = uint (node_y n) in
          walk_back fuel st (parent n) x y (push_direction (x - prevx) (y - prevy) ds))"

definition getPathMatching :: "path_task \<Rightarrow> (bool \<times> direction list) option" where
  "getPathMatching pt =
     (case search SEARCH_ROUNDS pt 0 None (new_astar (pos_x (start_pos pt)) (pos_y (start_pos pt))) of
        None \<Rightarrow> None
      | Some Failed \<Rightarrow> Some (False, [])
      | Some (Finished st None) \<Rightarrow> Some (False, [])
      | Some (Finished st (Some i)) \<Rightarrow>
          (let n = nodes st ! i in
           map_option (Pair True)
             (walk_back MAX_NODES st (parent n) (uint (node_x n)) (uint (node_y n)) [])))"

section \<open>The invariant of the search\<close>

definition shift :: "position \<Rightarrow> int \<times> int \<Rightarrow> position" where
  "shift p d = Position (word_of_int (uint (pos_x p) + fst d)) (word_of_int (uint (pos_y p) + snd d)) (pos_z p)"

text \<open>A step of a path: to a neighbour that is searched and that the creature can walk to.\<close>

definition linked :: "path_task \<Rightarrow> position \<Rightarrow> position \<Rightarrow> bool" where
  "linked pt p q \<longleftrightarrow> (\<exists>d \<in> set allNeighbors. q = shift p d) \<and> in_search pt q \<and> canWalkTo (pt_walker pt) q \<noteq> None"

definition parents_ok :: "path_task \<Rightarrow> astar \<Rightarrow> bool" where
  "parents_ok pt st \<longleftrightarrow>
     parent (nodes st ! 0) = None \<and> node_pos pt st 0 = start_pos pt \<and> node_f (nodes st ! 0) = 0 \<and>
     (\<forall>i < length (nodes st). 0 \<le> node_f (nodes st ! i) \<and>
        (0 < i \<longrightarrow> (\<exists>p < length (nodes st). parent (nodes st ! i) = Some p \<and>
           node_f (nodes st ! p) < node_f (nodes st ! i) \<and> linked pt (node_pos pt st p) (node_pos pt st i))))"

definition table_ok :: "astar \<Rightarrow> bool" where
  "table_ok st \<longleftrightarrow> (\<forall>x y k. nodeTable st (node_key x y) = Some k \<longrightarrow>
     k < length (nodes st) \<and> node_x (nodes st ! k) = x \<and> node_y (nodes st ! k) = y)"

definition closed_count :: "astar \<Rightarrow> nat" where
  "closed_count st = length (filter Not (openNodes st))"

definition astar_ok :: "path_task \<Rightarrow> astar \<Rightarrow> bool" where
  "astar_ok pt st \<longleftrightarrow> length (openNodes st) = length (nodes st) \<and> nodes st \<noteq> [] \<and> length (nodes st) \<le> MAX_NODES \<and>
     parents_ok pt st \<and> table_ok st \<and> closedNodes st = int (closed_count st)"

text \<open>No closed node is dearer, and no open node cheaper, than \<open>f\<close>: the nodes that were closed are final.\<close>

definition frontier :: "int \<Rightarrow> astar \<Rightarrow> bool" where
  "frontier f st \<longleftrightarrow> (\<forall>i < length (nodes st). if openNodes st ! i then f \<le> node_f (nodes st ! i)
     else node_f (nodes st ! i) \<le> f)"

lemma node_key_bits:
  "n < 16 \<Longrightarrow> bit (node_key x y) (n + 16) = bit x n" "n < 16 \<Longrightarrow> bit (node_key x y) n = bit y n"
  using bit_imp_le_length [of y "n + 16"] by (auto simp: node_key_def bit_simps)

lemma node_key_injectD: "node_key x y = node_key x' y' \<Longrightarrow> x = x' \<and> y = y'"
  using node_key_bits [of _ x y] node_key_bits [of _ x' y'] by (auto intro!: bit_word_eqI)

lemma node_key_inject [simp]: "node_key x y = node_key x' y' \<longleftrightarrow> x = x' \<and> y = y'"
  using node_key_injectD by blast

lemma astar_ok_new: "astar_ok pt (new_astar (pos_x (start_pos pt)) (pos_y (start_pos pt)))"
  by (simp add: astar_ok_def new_astar_def parents_ok_def table_ok_def closed_count_def node_pos_def)

lemma frontier_new: "frontier 0 (new_astar x y)"
  by (simp add: frontier_def new_astar_def)

lemma best_fold:
  "case fold (better st) [0..<m] (2147483647, None) of (b, r) \<Rightarrow>
     (case r of None \<Rightarrow> True
      | Some n \<Rightarrow> n < m \<and> openNodes st ! n \<and> b = node_f (nodes st ! n)) \<and> b \<le> 2147483647 \<and>
     (\<forall>i < m. openNodes st ! i \<longrightarrow> b \<le> node_f (nodes st ! i) \<or> r = None \<and> 2147483647 \<le> node_f (nodes st ! i))"
  by (induction m) (auto simp: better_def less_Suc_eq split: prod.splits option.splits if_splits)

lemma getBestNode_Some:
  assumes "getBestNode st = Some n"
  shows "n < length (nodes st) \<and> openNodes st ! n \<and>
    (\<forall>i < length (nodes st). openNodes st ! i \<longrightarrow> node_f (nodes st ! n) \<le> node_f (nodes st ! i))"
  using assms best_fold [where st = st and m = "length (nodes st)"] by (auto simp: getBestNode_def split: prod.splits)

lemma getMapWalkCost_pos: "10 \<le> getMapWalkCost a b" by (simp add: getMapWalkCost_def)
lemma tile_cost_nonneg: "0 \<le> tile_cost pt p" by (simp add: tile_cost_def getTileWalkCost_def split: option.split)

lemma node_pos_set [simp]: "node_pos pt (set_node k n f st) i = node_pos pt st i"
  by (cases "k < length (nodes st)"; cases "i = k") (simp_all add: node_pos_def set_node_def list_update_beyond)

lemma length_set_node [simp]: "length (nodes (set_node k n f st)) = length (nodes st)"
  by (simp add: set_node_def)

lemma nodes_set_node:
  "i < length (nodes st) \<Longrightarrow>
   nodes (set_node k n f st) ! i = (if i = k then (nodes st ! k)\<lparr>parent := Some n, node_f := f\<rparr> else nodes st ! i)"
  by (simp add: set_node_def)

text \<open>A cheaper way to an open node: its parent becomes the node that is expanded.\<close>

lemma astar_ok_reparent:
  assumes ok: "astar_ok pt st" and n: "n < length (nodes st)" "node_f (nodes st ! n) < newf"
    and k: "k < length (nodes st)" "newf < node_f (nodes st ! k)" and l: "linked pt (node_pos pt st n) (node_pos pt st k)"
  shows "astar_ok pt (set_node k n newf st)"
proof -
  let ?st = "set_node k n newf st"
  have nodes: "nodes ?st ! i = (if i = k then (nodes st ! k)\<lparr>parent := Some n, node_f := newf\<rparr> else nodes st ! i)"
    if "i < length (nodes st)" for i using that by (simp add: set_node_def)
  have p: "parents_ok pt st" using ok by (simp add: astar_ok_def)
  have "0 \<le> node_f (nodes st ! n)" using p n by (simp add: parents_ok_def)
  then have pos: "0 \<le> newf" using n by linarith
  have k0: "k \<noteq> 0"
  proof
    assume "k = 0"
    with p k n \<open>0 \<le> node_f (nodes st ! n)\<close> show False by (simp add: parents_ok_def)
  qed
  have kn: "k \<noteq> n" using n k by auto
  have "parents_ok pt ?st"
    unfolding parents_ok_def
  proof (intro conjI allI impI)
    show "parent (nodes ?st ! 0) = None" "node_pos pt ?st 0 = start_pos pt" "node_f (nodes ?st ! 0) = 0"
      using p k0 ok nodes [of 0] by (simp_all add: parents_ok_def astar_ok_def)
  next
    fix i assume i: "i < length (nodes ?st)"
    then have i': "i < length (nodes st)" by (simp add: set_node_def)
    show "0 \<le> node_f (nodes ?st ! i)"
      using p i' nodes [OF i'] pos by (simp add: parents_ok_def)
    assume "0 < i"
    show "\<exists>q < length (nodes ?st). parent (nodes ?st ! i) = Some q \<and>
        node_f (nodes ?st ! q) < node_f (nodes ?st ! i) \<and> linked pt (node_pos pt ?st q) (node_pos pt ?st i)"
    proof (cases "i = k")
      case True
      then show ?thesis using nodes [OF i'] nodes [OF n(1)] n kn l by (intro exI [of _ n]) simp
    next
      case False
      then obtain q where "q < length (nodes st)" "parent (nodes st ! i) = Some q"
        "node_f (nodes st ! q) < node_f (nodes st ! i)" "linked pt (node_pos pt st q) (node_pos pt st i)"
        using p i' \<open>0 < i\<close> by (auto simp: parents_ok_def)
      then show ?thesis using nodes [OF i'] nodes [of q] False k by (intro exI [of _ q]) auto
    qed
  qed
  moreover have "table_ok ?st"
    using ok k(1) by (auto simp: astar_ok_def table_ok_def set_node_def nth_list_update)
  ultimately show ?thesis using ok by (simp add: astar_ok_def set_node_def closed_count_def)
qed

lemma astar_ok_create:
  assumes ok: "astar_ok pt st" and n: "n < length (nodes st)" "node_f (nodes st ! n) < newf"
    and c: "createOpenNode (Some n) x y newf st = Some st'" and new: "getNodeByPosition x y st = None"
    and l: "linked pt (node_pos pt st n) (Position x y (pos_z (start_pos pt)))"
  shows "astar_ok pt st' \<and> length (nodes st') = Suc (length (nodes st)) \<and> closed_count st' = closed_count st \<and>
     (\<forall>i < length (nodes st). nodes st' ! i = nodes st ! i \<and> openNodes st' ! i = openNodes st ! i) \<and>
     openNodes st' ! length (nodes st) \<and> node_f (nodes st' ! length (nodes st)) = newf"
proof -
  have len: "length (openNodes st) = length (nodes st)" "nodes st \<noteq> []" using ok by (simp_all add: astar_ok_def)
  have st': "nodes st' = nodes st @ [\<lparr>parent = Some n, node_f = newf, node_x = x, node_y = y\<rparr>]"
    "openNodes st' = openNodes st @ [True]" "nodeTable st' = (nodeTable st)(node_key x y \<mapsto> length (nodes st))"
    "closedNodes st' = closedNodes st" "length (nodes st) < MAX_NODES"
    using c by (auto simp: createOpenNode_def split: if_splits)
  have old: "nodes st' ! i = nodes st ! i" "node_pos pt st' i = node_pos pt st i" if "i < length (nodes st)" for i
    using that by (simp_all add: st' nth_append node_pos_def)
  have p: "parents_ok pt st" using ok by (simp add: astar_ok_def)
  have "parents_ok pt st'"
    unfolding parents_ok_def
  proof (intro conjI allI impI)
    show "parent (nodes st' ! 0) = None" "node_pos pt st' 0 = start_pos pt" "node_f (nodes st' ! 0) = 0"
      using p old [of 0] len by (simp_all add: parents_ok_def)
  next
    fix i assume i: "i < length (nodes st')"
    show "0 \<le> node_f (nodes st' ! i)"
      using p old [of i] i n by (cases "i < length (nodes st)") (force simp: parents_ok_def st' nth_append)+
    assume "0 < i"
    show "\<exists>q < length (nodes st'). parent (nodes st' ! i) = Some q \<and>
        node_f (nodes st' ! q) < node_f (nodes st' ! i) \<and> linked pt (node_pos pt st' q) (node_pos pt st' i)"
    proof (cases "i < length (nodes st)")
      case True
      then obtain q where "q < length (nodes st)" "parent (nodes st ! i) = Some q"
        "node_f (nodes st ! q) < node_f (nodes st ! i)" "linked pt (node_pos pt st q) (node_pos pt st i)"
        using p \<open>0 < i\<close> by (auto simp: parents_ok_def)
      then show ?thesis using old [of i] old [of q] True by (intro exI [of _ q]) (simp add: st'(1))
    next
      case False
      then have "i = length (nodes st)" using i by (simp add: st')
      moreover have "node_pos pt st' (length (nodes st)) = Position x y (pos_z (start_pos pt))"
        by (simp add: node_pos_def st')
      ultimately show ?thesis using n l old [of n] by (intro exI [of _ n]) (simp add: st'(1) nth_append)
    qed
  qed
  moreover have "table_ok st'"
    using ok by (auto simp: astar_ok_def table_ok_def st' nth_append less_SucI)
  ultimately show ?thesis using ok len st' old by (auto simp: astar_ok_def closed_count_def nth_append)
qed

text \<open>What the loop over the neighbours keeps.\<close>

definition grows :: "astar \<Rightarrow> astar \<Rightarrow> bool" where
  "grows st st' \<longleftrightarrow> length (nodes st) \<le> length (nodes st') \<and> closed_count st' = closed_count st \<and>
     (\<forall>i < length (nodes st). node_x (nodes st' ! i) = node_x (nodes st ! i) \<and>
        node_y (nodes st' ! i) = node_y (nodes st ! i) \<and> openNodes st' ! i = openNodes st ! i)"

lemma grows_refl: "grows st st" by (simp add: grows_def)
lemma grows_trans: "grows a b \<Longrightarrow> grows b c \<Longrightarrow> grows a c" by (force simp: grows_def)

lemma grows_node_pos: "grows st st' \<Longrightarrow> i < length (nodes st) \<Longrightarrow> node_pos pt st' i = node_pos pt st i"
  by (simp add: grows_def node_pos_def)

definition expanding :: "path_task \<Rightarrow> nat \<Rightarrow> int \<Rightarrow> astar \<Rightarrow> bool" where
  "expanding pt n f st \<longleftrightarrow> astar_ok pt st \<and> frontier f st \<and> n < length (nodes st) \<and> openNodes st ! n \<and>
     node_f (nodes st ! n) = f"

lemma frontierD: "frontier f st \<Longrightarrow> i < length (nodes st) \<Longrightarrow> f < node_f (nodes st ! i) \<Longrightarrow> openNodes st ! i"
  by (auto simp: frontier_def split: if_splits)

lemma existing_linked:
  assumes "astar_ok pt st" "k < length (nodes st)" "k \<noteq> 0"
  shows "in_search pt (node_pos pt st k) \<and> canWalkTo (pt_walker pt) (node_pos pt st k) \<noteq> None"
  using assms by (auto simp: astar_ok_def parents_ok_def linked_def)

lemma expanding_reparent:
  assumes e: "expanding pt n f st" and k: "getNodeByPosition px py st = Some k" "newf < node_f (nodes st ! k)"
    and f: "f < newf" and d: "d \<in> set allNeighbors" "Position px py (pos_z (start_pos pt)) = shift (node_pos pt st n) d"
  shows "expanding pt n f (openNode k (set_node k n newf st)) \<and> grows st (openNode k (set_node k n newf st))"
proof -
  have len: "k < length (nodes st)" and pos: "node_pos pt st k = Position px py (pos_z (start_pos pt))"
    using e k(1) by (auto simp: expanding_def astar_ok_def table_ok_def getNodeByPosition_def node_pos_def)
  have "openNodes st ! k" using e k f len by (intro frontierD [of f]) (auto simp: expanding_def)
  then have same: "openNode k (set_node k n newf st) = set_node k n newf st"
    by (simp add: openNode_def set_node_def)
  have "k \<noteq> 0"
  proof
    assume "k = 0"
    then have "node_f (nodes st ! k) = 0" using e by (simp add: expanding_def astar_ok_def parents_ok_def)
    moreover have "0 \<le> f" using e by (auto simp: expanding_def astar_ok_def parents_ok_def)
    ultimately show False using k f by simp
  qed
  then have "linked pt (node_pos pt st n) (node_pos pt st k)"
    using existing_linked [of pt st k] e len d pos by (auto simp: linked_def expanding_def)
  with e k f len have "astar_ok pt (set_node k n newf st)"
    by (intro astar_ok_reparent) (auto simp: expanding_def)
  moreover have "frontier f (set_node k n newf st)"
    using e k(2) f \<open>openNodes st ! k\<close> len by (auto simp: expanding_def frontier_def set_node_def nth_list_update)
  moreover have "k \<noteq> n" using e k f by (auto simp: expanding_def)
  moreover have "openNodes (set_node k n newf st) = openNodes st" by (simp add: set_node_def)
  moreover have "grows st (set_node k n newf st)"
    by (auto simp: grows_def nodes_set_node) (simp_all add: set_node_def closed_count_def)
  moreover have "nodes (set_node k n newf st) ! n = nodes st ! n" using \<open>k \<noteq> n\<close> by (simp add: set_node_def)
  ultimately show ?thesis using e unfolding same by (simp add: expanding_def)
qed

lemma expanding_create:
  assumes e: "expanding pt n f st" and new: "getNodeByPosition px py st = None"
    and c: "createOpenNode (Some n) px py newf st = Some st'" and f: "f < newf"
    and l: "linked pt (node_pos pt st n) (Position px py (pos_z (start_pos pt)))"
  shows "expanding pt n f st' \<and> grows st st'"
proof -
  have n: "n < length (nodes st)" "node_f (nodes st ! n) < newf" "astar_ok pt st"
    using e f by (simp_all add: expanding_def)
  note st' = astar_ok_create [OF n(3) n(1,2) c new l]
  have "frontier f st'"
    using e f st' unfolding expanding_def frontier_def by (simp add: less_Suc_eq)
  with st' e show ?thesis by (simp add: expanding_def grows_def)
qed

lemma expand_keeps:
  "expand pt n f found ds st = Some st' \<Longrightarrow> expanding pt n f st \<Longrightarrow> set ds \<subseteq> set allNeighbors \<Longrightarrow>
   expanding pt n f st' \<and> grows st st'"
proof (induction ds arbitrary: st)
  case Nil
  then show ?case by (simp add: grows_refl)
next
  case (Cons d ds)
  define px where "px = (word_of_int (uint (node_x (nodes st ! n)) + fst d) :: u16)"
  define py where "py = (word_of_int (uint (node_y (nodes st ! n)) + snd d) :: u16)"
  define p where "p = Position px py (pos_z (start_pos pt))"
  define newf where "newf = f + getMapWalkCost (node_x (nodes st ! n), node_y (nodes st ! n)) (px, py) + tile_cost pt p"
  have f: "f < newf"
    using getMapWalkCost_pos [of "(node_x (nodes st ! n), node_y (nodes st ! n))" "(px, py)"] tile_cost_nonneg [of pt p]
    by (simp add: newf_def)
  have shift: "p = shift (node_pos pt st n) d" by (simp add: p_def shift_def node_pos_def px_def py_def)
  have d: "d \<in> set allNeighbors" "set ds \<subseteq> set allNeighbors" using Cons.prems(3) by simp_all
  have unfold: "expand pt n f found (d # ds) st =
      (if \<not> in_search pt p then expand pt n f found ds st
       else (case getNodeByPosition px py st of
        Some k \<Rightarrow>
          if node_f (nodes st ! k) \<le> newf then expand pt n f found ds st
          else expand pt n f found ds (openNode k (set_node k n newf st))
      | None \<Rightarrow>
          if canWalkTo (pt_walker pt) p = None then expand pt n f found ds st
          else (case createOpenNode (Some n) px py newf st of
                  Some st' \<Rightarrow> expand pt n f found ds st'
                | None \<Rightarrow> if found then Some st else None)))"
    by (simp only: expand.simps Let_def px_def py_def p_def newf_def)
  have continue: "expanding pt n f st' \<and> grows st st'"
    if "expand pt n f found ds s = Some st'" "expanding pt n f s \<and> grows st s" for s
    using Cons.IH [of s] that d(2) grows_trans by blast
  have here: "expanding pt n f st \<and> grows st st" using Cons.prems(2) grows_refl by blast
  show ?case
  proof (cases "getNodeByPosition px py st")
    case None
    have "expanding pt n f s \<and> grows st s"
      if "createOpenNode (Some n) px py newf st = Some s" "in_search pt p" "canWalkTo (pt_walker pt) p \<noteq> None" for s
      by (rule expanding_create [OF Cons.prems(2) None that(1) f])
        (use d shift that p_def in \<open>auto simp: linked_def\<close>)
    with None show ?thesis
      using Cons.prems(1) here continue unfolding unfold by (auto split: if_splits option.splits)
  next
    case (Some k)
    have "expanding pt n f (openNode k (set_node k n newf st)) \<and> grows st (openNode k (set_node k n newf st))"
      if "newf < node_f (nodes st ! k)"
      by (rule expanding_reparent [OF Cons.prems(2) Some that f d(1)]) (simp add: shift flip: p_def)
    with Some show ?thesis
      using Cons.prems(1) here continue unfolding unfold by (auto split: if_splits)
  qed
qed

lemma neighbors_subset: "set (neighbors_of fpp st n) \<subseteq> set allNeighbors"
proof -
  have "set (dirNeighbors d) \<subseteq> set allNeighbors" for d by (cases d) (simp_all add: allNeighbors_def)
  then have "set (take m (dirNeighbors d)) \<subseteq> set allNeighbors" for m d
    by (rule order_trans [OF set_take_subset])
  then show ?thesis by (simp add: neighbors_of_def split: option.split)
qed

lemma count_closed:
  "n < length bs \<Longrightarrow> bs ! n \<Longrightarrow> length (filter Not (bs[n := False])) = Suc (length (filter Not bs))"
  by (induction bs arbitrary: n) (auto split: nat.split simp: nth_Cons)

lemma close_expanded:
  assumes "expanding pt n f st"
  shows "astar_ok pt (closeNode n st) \<and> frontier f (closeNode n st) \<and> closed_count (closeNode n st) = Suc (closed_count st)"
proof -
  have n: "n < length (openNodes st)" "openNodes st ! n" using assms by (auto simp: expanding_def astar_ok_def)
  note count_closed [OF n]
  with assms show ?thesis
    by (auto simp: expanding_def astar_ok_def closeNode_def closed_count_def parents_ok_def table_ok_def frontier_def
        node_pos_def nth_list_update)
qed

section \<open>The search ends\<close>

lemma closed_lt:
  assumes "astar_ok pt st" "n < length (nodes st)" "openNodes st ! n"
  shows "closed_count st < MAX_NODES"
proof -
  have "openNodes st ! n \<in> set (openNodes st)" using assms by (intro nth_mem) (simp add: astar_ok_def)
  then have "length (filter Not (openNodes st)) < length (openNodes st)"
    using assms(3) by (intro length_filter_less [of "openNodes st ! n"]) auto
  then show ?thesis using assms(1) by (simp add: astar_ok_def closed_count_def)
qed

text \<open>What the search keeps from one round to the next, and what it hands over at its end.\<close>

definition found_ok :: "path_task \<Rightarrow> astar \<Rightarrow> nat option \<Rightarrow> bool" where
  "found_ok pt st found \<longleftrightarrow> (\<forall>i. found = Some i \<longrightarrow> i < length (nodes st) \<and>
     (\<exists>b. fst (pathing_condition (pt_sight pt) (pt_target pt) (start_pos pt) (node_pos pt st i) (pt_params pt) b)))"

lemma found_ok_grows: "found_ok pt st found \<Longrightarrow> grows st st' \<Longrightarrow> found_ok pt st' found"
  using grows_node_pos [of st st'] by (auto simp: found_ok_def grows_def)

lemma node_pos_close [simp]: "node_pos pt (closeNode n st) i = node_pos pt st i"
  by (simp add: node_pos_def closeNode_def)

lemma search_round:
  assumes ok: "astar_ok pt st" "frontier f st" "found_ok pt st found" and best: "getBestNode st = Some n"
    and cond: "pathing_condition (pt_sight pt) (pt_target pt) (start_pos pt) (node_pos pt st n) (pt_params pt) b = (ok, b')"
  defines "found' \<equiv> if ok then Some n else found"
  shows "expanding pt n (node_f (nodes st ! n)) st" "found_ok pt st found'"
proof -
  note n = getBestNode_Some [OF best]
  have "f \<le> node_f (nodes st ! n)" using ok(2) n by (auto simp: frontier_def split: if_splits)
  then have "frontier (node_f (nodes st ! n)) st"
    unfolding frontier_def
  proof (intro allI impI)
    fix i assume "f \<le> node_f (nodes st ! n)" and i: "i < length (nodes st)"
    then show "if openNodes st ! i then node_f (nodes st ! n) \<le> node_f (nodes st ! i)
        else node_f (nodes st ! i) \<le> node_f (nodes st ! n)"
      using ok(2) n unfolding frontier_def by (cases "openNodes st ! i") fastforce+
  qed
  then show "expanding pt n (node_f (nodes st ! n)) st"
    using ok n by (simp add: expanding_def)
  show "found_ok pt st found'"
    using ok(3) n cond by (auto simp: found_ok_def found'_def intro!: exI [of _ b])
qed

lemma search_next:
  assumes e: "expanding pt n f st" and fo: "found_ok pt st found"
    and ex: "expand pt n f found_any (neighbors_of fpp st (nodes st ! n)) st = Some st'"
  shows "astar_ok pt (closeNode n st') \<and> frontier f (closeNode n st') \<and> found_ok pt (closeNode n st') found \<and>
    closed_count (closeNode n st') = Suc (closed_count st)"
proof -
  have keep: "expanding pt n f st'" "grows st st'" using expand_keeps [OF ex e neighbors_subset] by simp_all
  then show ?thesis
    using close_expanded [OF keep(1)] found_ok_grows [OF fo keep(2)]
    by (auto simp: grows_def found_ok_def closeNode_def node_pos_def)
qed

lemma search_ends:
  "astar_ok pt st \<Longrightarrow> frontier f st \<Longrightarrow> found_ok pt st found \<Longrightarrow> MAX_NODES < closed_count st + fuel \<Longrightarrow>
   \<exists>r. search fuel pt b found st = Some r \<and>
       (\<forall>st' found'. r = Finished st' found' \<longrightarrow> astar_ok pt st' \<and> found_ok pt st' found')"
proof (induction fuel arbitrary: st f found b)
  case 0
  have "closed_count st \<le> length (openNodes st)" by (simp add: closed_count_def)
  with 0 show ?case by (simp add: astar_ok_def)
next
  case (Suc fuel)
  show ?case
  proof (cases "getBestNode st")
    case None
    with Suc.prems show ?thesis by auto
  next
    case (Some n)
    obtain ok b' where cond: "pathing_condition (pt_sight pt) (pt_target pt) (start_pos pt) (node_pos pt st n) (pt_params pt) b = (ok, b')"
      by fastforce
    define found' where "found' = (if ok then Some n else found)"
    note e = search_round [OF Suc.prems(1-3) Some cond, folded found'_def]
    have next_round: "\<exists>r. search fuel pt b' found' (closeNode n st') = Some r \<and>
        (\<forall>st2 found2. r = Finished st2 found2 \<longrightarrow> astar_ok pt st2 \<and> found_ok pt st2 found2)"
      if "expand pt n (node_f (nodes st ! n)) (found' \<noteq> None) (neighbors_of (pt_params pt) st (nodes st ! n)) st = Some st'" for st'
      using search_next [OF e that] Suc.prems(4) by (intro Suc.IH) auto
    have unfold: "search (Suc fuel) pt b found st =
        (if \<not> (maxSearchDist (pt_params pt) \<noteq> 0 \<or> closedNodes st < 100) then Some (Finished st found)
         else if ok \<and> b' = 0 then Some (Finished st found')
         else (case expand pt n (node_f (nodes st ! n)) (found' \<noteq> None)
                      (neighbors_of (pt_params pt) st (nodes st ! n)) st of
                 None \<Rightarrow> Some Failed
               | Some st' \<Rightarrow> search fuel pt b' found' (closeNode n st')))"
      by (simp only: search.simps Some option.case cond prod.case Let_def found'_def)
    show ?thesis
      using next_round Suc.prems(1,3) e(2)
      unfolding unfold by (auto split: option.split)
  qed
qed

section \<open>The way back\<close>

definition rank :: "astar \<Rightarrow> nat \<Rightarrow> nat" where
  "rank st i = card {j. j < length (nodes st) \<and> node_f (nodes st ! j) < node_f (nodes st ! i)}"

lemma rank_parent:
  assumes "p < length (nodes st)" "node_f (nodes st ! p) < node_f (nodes st ! i)"
  shows "rank st p < rank st i"
  unfolding rank_def by (rule psubset_card_mono) (use assms in auto)

lemma rank_less: "i < length (nodes st) \<Longrightarrow> rank st i < length (nodes st)"
proof -
  assume i: "i < length (nodes st)"
  have "rank st i < card {..<length (nodes st)}"
    unfolding rank_def by (rule psubset_card_mono) (use i in auto)
  then show ?thesis by simp
qed

text \<open>Following the parents goes back to the start, because each parent is strictly cheaper.\<close>

primrec walk :: "position \<Rightarrow> direction list \<Rightarrow> position list" where
  "walk p [] = []"
| "walk p (d # ds) = getNextPosition d p # walk (getNextPosition d p) ds"

definition walk_end :: "position \<Rightarrow> direction list \<Rightarrow> position" where
  "walk_end p ds = fold getNextPosition ds p"

lemma walk_append: "walk p (ds @ es) = walk p ds @ walk (walk_end p ds) es"
  by (induction ds arbitrary: p) (simp_all add: walk_end_def)

definition inside :: "position \<Rightarrow> bool" where
  "inside p \<longleftrightarrow> uint (pos_x p) < 65535 \<and> uint (pos_y p) < 65535"

lemma step_back:
  assumes l: "linked pt p q" and i: "inside p" "inside q"
  shows "\<exists>d. push_direction (uint (pos_x p) - uint (pos_x q)) (uint (pos_y p) - uint (pos_y q)) ds = d # ds \<and>
    getNextPosition d p = q"
proof -
  obtain x y z where p: "p = Position x y z" by (cases p)
  have dec: "uint (x - 1) = uint x - 1" if "uint (x - 1) < 65535" for x :: u16
  proof -
    have "x \<noteq> 0" using that by (auto simp: unsigned_minus_1_eq_mask mask_eq_exp_minus_1)
    then have "uint 0 < uint x" by (simp add: word_neq_0_conv word_less_def)
    then show ?thesis by (rule uint_word_minus_1)
  qed
  have inc: "uint (x + 1) = uint x + 1" if "uint x < 65535" for x :: u16
    using that by (intro uint_word_plus_1 [of x "-1"]) (simp add: unsigned_minus_1_eq_mask mask_eq_exp_minus_1)
  from l obtain d where "d \<in> set allNeighbors" "q = shift p d" by (auto simp: linked_def)
  then show ?thesis
    using i p inc [of x] inc [of y] dec [of x] dec [of y]
    by (auto simp: allNeighbors_def shift_def push_direction_def inside_def)
qed

definition walkable :: "path_task \<Rightarrow> position \<Rightarrow> bool" where
  "walkable pt q \<longleftrightarrow> canWalkTo (pt_walker pt) q \<noteq> None \<and> in_search pt q"

lemma parents_okD:
  assumes "astar_ok pt st" "i < length (nodes st)"
  shows "i = 0 \<and> parent (nodes st ! i) = None \<and> node_pos pt st i = start_pos pt \<or>
    (\<exists>p < length (nodes st). parent (nodes st ! i) = Some p \<and> rank st p < rank st i \<and>
       linked pt (node_pos pt st p) (node_pos pt st i))"
proof (cases "i = 0")
  case True
  then show ?thesis using assms by (simp add: astar_ok_def parents_ok_def)
next
  case False
  then obtain p where "p < length (nodes st)" "parent (nodes st ! i) = Some p"
      "node_f (nodes st ! p) < node_f (nodes st ! i)" "linked pt (node_pos pt st p) (node_pos pt st i)"
    using assms by (auto simp: astar_ok_def parents_ok_def)
  then show ?thesis using rank_parent [of p st i] by blast
qed

lemma walk_back_total:
  assumes "astar_ok pt st"
  shows "c < length (nodes st) \<Longrightarrow> rank st c \<le> fuel \<Longrightarrow> walk_back fuel st (parent (nodes st ! c)) x y ds \<noteq> None"
proof (induction fuel arbitrary: c x y ds)
  case 0
  then show ?case using parents_okD [OF assms 0(1)] by auto
next
  case (Suc fuel)
  then show ?case using parents_okD [OF assms Suc.prems(1)] by (auto simp: Let_def)
qed

lemma walk_back_path:
  assumes ok: "astar_ok pt st" and inside: "\<And>i. i < length (nodes st) \<Longrightarrow> inside (node_pos pt st i)"
  shows "c < length (nodes st) \<Longrightarrow> rank st c \<le> fuel \<Longrightarrow>
    \<exists>pre. walk_back fuel st (parent (nodes st ! c)) (uint (node_x (nodes st ! c))) (uint (node_y (nodes st ! c))) ds =
            Some (pre @ ds) \<and> walk_end (start_pos pt) pre = node_pos pt st c \<and> length pre \<le> rank st c \<and>
          list_all (walkable pt) (walk (start_pos pt) pre)"
proof (induction fuel arbitrary: c ds)
  case 0
  then show ?case using parents_okD [OF ok 0(1)] by (intro exI [of _ "[]"]) (auto simp: walk_end_def)
next
  case (Suc fuel)
  from parents_okD [OF ok Suc.prems(1)] show ?case
  proof
    assume "c = 0 \<and> parent (nodes st ! c) = None \<and> node_pos pt st c = start_pos pt"
    then have "parent (nodes st ! c) = None" "node_pos pt st c = start_pos pt" by auto
    then show ?case by (intro exI [of _ "[]"]) (simp add: walk_end_def)
  next
    assume "\<exists>p < length (nodes st). parent (nodes st ! c) = Some p \<and> rank st p < rank st c \<and>
       linked pt (node_pos pt st p) (node_pos pt st c)"
    then obtain p where p: "p < length (nodes st)" "parent (nodes st ! c) = Some p" "rank st p < rank st c"
      "linked pt (node_pos pt st p) (node_pos pt st c)" by blast
    obtain d where d: "push_direction (uint (node_x (nodes st ! p)) - uint (node_x (nodes st ! c)))
        (uint (node_y (nodes st ! p)) - uint (node_y (nodes st ! c))) ds = d # ds"
      "getNextPosition d (node_pos pt st p) = node_pos pt st c"
      using step_back [OF p(4) inside [OF p(1)] inside [OF Suc.prems(1)], of ds] by (auto simp: node_pos_def)
    from Suc.IH [OF p(1), of "d # ds"] p(3) Suc.prems(2) obtain pre where
      "walk_back fuel st (parent (nodes st ! p)) (uint (node_x (nodes st ! p))) (uint (node_y (nodes st ! p))) (d # ds) =
         Some (pre @ d # ds)" "walk_end (start_pos pt) pre = node_pos pt st p" "length pre \<le> rank st p"
      "list_all (walkable pt) (walk (start_pos pt) pre)" by auto
    moreover have "walkable pt (node_pos pt st c)" using p(4) by (simp add: linked_def walkable_def)
    ultimately show ?case using p d
      by (intro exI [of _ "pre @ [d]"]) (simp add: Let_def walk_append walk_end_def)
  qed
qed

lemma search_from_start:
  "\<exists>r. search SEARCH_ROUNDS pt 0 None (new_astar (pos_x (start_pos pt)) (pos_y (start_pos pt))) = Some r \<and>
     (\<forall>st found. r = Finished st found \<longrightarrow> astar_ok pt st \<and> found_ok pt st found)"
  by (rule search_ends [OF astar_ok_new frontier_new])
    (simp_all add: found_ok_def new_astar_def closed_count_def)

text \<open>
C12.
  The search for a path always ends: every round closes one more of the at most 512 nodes, since a
  closed node is never opened again, and the way back from the node that was found runs along strictly
  cheaper parents.
\<close>

theorem getPathMatching_terminates: "getPathMatching pt \<noteq> None"
proof -
  obtain r where r: "search SEARCH_ROUNDS pt 0 None (new_astar (pos_x (start_pos pt)) (pos_y (start_pos pt))) = Some r"
    "\<And>st found. r = Finished st found \<Longrightarrow> astar_ok pt st \<and> found_ok pt st found"
    using search_from_start by blast
  have "walk_back MAX_NODES st (parent (nodes st ! i)) x y [] \<noteq> None" if "r = Finished st (Some i)" for st i x y
  proof -
    have i: "i < length (nodes st)" "astar_ok pt st" using r(2) [OF that] by (simp_all add: found_ok_def)
    then show ?thesis using rank_less [OF i(1)] by (intro walk_back_total [OF i(2,1)]) (simp add: astar_ok_def)
  qed
  then show ?thesis
    by (auto simp: getPathMatching_def r(1) Let_def split: search_end.split option.split)
qed

lemma canWalkTo_tile: "canWalkTo w p = Some t \<Longrightarrow> walk_tiles w p = Some t"
  by (auto simp: canWalkTo_def Let_def split: if_splits option.splits)

lemma pathing_condition_sound:
  assumes "fst (pathing_condition tiles target start test fpp b)"
  shows "isInRange target start test fpp \<and> (clearSight fpp \<longrightarrow> isSightClear tiles test target True = Some True) \<and>
    minTargetDist fpp \<le> chebyshev target test \<and> chebyshev target test \<le> maxTargetDist fpp"
  using assms by (auto simp: pathing_condition_def chebyshev_def Let_def split: if_splits)

text \<open>
C11.
  A path that is returned can be walked: following its directions from the creature's position visits
  only positions that it can walk to and that are within the searched area, and it ends where the caller
  asked for: in the range of the target, in its sight if that was required, and neither closer nor
  farther than demanded. It has fewer than 512 steps. The map is assumed to leave out the last row and
  column of the coordinates, so that no step wraps around.
\<close>

theorem getPathMatching_sound:
  assumes path: "getPathMatching pt = Some (True, dirs)"
    and map: "\<And>p t. walk_tiles (pt_walker pt) p = Some t \<Longrightarrow> inside p"
    and own: "walk_tiles (pt_walker pt) (start_pos pt) \<noteq> None"
  defines "goal \<equiv> walk_end (start_pos pt) dirs" and "fpp \<equiv> pt_params pt"
  shows "list_all (walkable pt) (walk (start_pos pt) dirs) \<and> length dirs < 512 \<and>
    isInRange (pt_target pt) (start_pos pt) goal fpp \<and>
    (clearSight fpp \<longrightarrow> isSightClear (pt_sight pt) goal (pt_target pt) True = Some True) \<and>
    minTargetDist fpp \<le> chebyshev (pt_target pt) goal \<and> chebyshev (pt_target pt) goal \<le> maxTargetDist fpp"
proof -
  obtain r where r: "search SEARCH_ROUNDS pt 0 None (new_astar (pos_x (start_pos pt)) (pos_y (start_pos pt))) = Some r"
    "\<And>st found. r = Finished st found \<Longrightarrow> astar_ok pt st \<and> found_ok pt st found"
    using search_from_start by blast
  from path obtain st i where fin: "r = Finished st (Some i)"
    and way: "walk_back MAX_NODES st (parent (nodes st ! i)) (uint (node_x (nodes st ! i))) (uint (node_y (nodes st ! i))) [] = Some dirs"
    by (auto simp: getPathMatching_def r(1) Let_def split: search_end.splits option.splits)
  from r(2) [OF fin] obtain b where ok: "astar_ok pt st" and i: "i < length (nodes st)"
    and cond: "fst (pathing_condition (pt_sight pt) (pt_target pt) (start_pos pt) (node_pos pt st i) (pt_params pt) b)"
    by (auto simp: found_ok_def)
  have inside: "inside (node_pos pt st j)" if "j < length (nodes st)" for j
    using parents_okD [OF ok that] own map canWalkTo_tile by (auto simp: linked_def)
  have "rank st i \<le> MAX_NODES" "rank st i < 512" using rank_less [OF i] ok by (simp_all add: astar_ok_def)
  with walk_back_path [OF ok inside i, where fuel = MAX_NODES and ds = "[]"] way
  have "goal = node_pos pt st i" "length dirs < 512" "list_all (walkable pt) (walk (start_pos pt) dirs)"
    by (auto simp: goal_def)
  with pathing_condition_sound [OF cond] show ?thesis by (simp add: fpp_def)
qed

text \<open>A corner that can only be passed diagonally, and a creature that is told not to.\<close>

definition corner_task :: path_task where
  "corner_task = \<lparr>
     pt_walker = \<lparr>walker_pos = Position 100 100 7, use_cache_map = False, map_cache = (\<lambda>_ _. False),
       walk_tiles = (\<lambda>p. if p = Position 100 100 7 \<or> p = Position 101 101 7
                          then Some \<lparr>enterable = True, visible_creature = False, harmful_field = False\<rparr> else None)\<rparr>,
     pt_sight = (\<lambda>_. None), pt_target = Position 101 101 7,
     pt_params = \<lparr>fullPathSearch = True, clearSight = False, allowDiagonal = False, keepDistance = False,
       maxSearchDist = 0, minTargetDist = 0, maxTargetDist = 0\<rparr>\<rparr>"

lemma corner_path: "getPathMatching corner_task = Some (True, [DIRECTION_SOUTHEAST])"
  by code_simp

theorem getPathMatching_sound_witness:
  "list_all (walkable corner_task) (walk (start_pos corner_task) [DIRECTION_SOUTHEAST]) \<and>
   walk_end (start_pos corner_task) [DIRECTION_SOUTHEAST] = pt_target corner_task"
proof -
  have map: "inside p" if "walk_tiles (pt_walker corner_task) p = Some t" for p t
    using that by (auto simp: corner_task_def inside_def split: if_splits)
  have own: "walk_tiles (pt_walker corner_task) (start_pos corner_task) \<noteq> None"
    by (simp add: corner_task_def start_pos_def)
  have "walk_end (start_pos corner_task) [DIRECTION_SOUTHEAST] = pt_target corner_task"
    by (simp add: walk_end_def start_pos_def corner_task_def)
  then show ?thesis using getPathMatching_sound [OF corner_path map own] by simp
qed

text \<open>
  A search that was told to leave out diagonal steps can still return one: the creature's own field is
  always expanded in all eight directions.
\<close>

theorem allowDiagonal_ignored_at_start:
  "\<exists>pt dirs. \<not> allowDiagonal (pt_params pt) \<and> getPathMatching pt = Some (True, dirs) \<and> DIRECTION_SOUTHEAST \<in> set dirs"
  using corner_path by (intro exI [of _ corner_task] exI [of _ "[DIRECTION_SOUTHEAST]"]) (simp add: corner_task_def)

end
