(* ===== verification/Quad_Tree.thy ===== *)
theory Quad_Tree imports Positions begin

text \<open>
  The store of the map's tiles, from \<open>src/src/map.h\<close> and \<open>src/src/map.cpp\<close>: a quadtree over the upper
  thirteen bits of the coordinates, whose leaves hold sixteen floors of eight by eight tiles, the
  creatures on them, and links to the leaves to the south and to the east. A pointer to a leaf is its
  number in the list of leaves. Merging a tile into one that is there already is a parameter of
  \<open>setTile\<close>: the tile's own operations are not part of this theory.
\<close>

section \<open>Data\<close>

datatype qtree = QLeaf nat | QNode "nat \<Rightarrow> qtree option"

abbreviation "FLOOR_BITS \<equiv> (3 :: nat)"
abbreviation "FLOOR_SIZE \<equiv> (8 :: u32)"
abbreviation "FLOOR_MASK \<equiv> (7 :: u16)"
abbreviation "MAP_MAX_LAYERS \<equiv> (16 :: u8)"

type_synonym 'tile floor = "u16 \<Rightarrow> u16 \<Rightarrow> 'tile option"

type_synonym creature_id = u32

record 'tile qleaf =
  leafS :: "nat option"
  leafE :: "nat option"
  floors :: "u8 \<Rightarrow> 'tile floor option"
  creature_list :: "creature_id list"
  player_list :: "creature_id list"

record 'tile game_map =
  root :: qtree
  leaves :: "'tile qleaf list"

definition empty_leaf :: "'tile qleaf" where
  "empty_leaf = \<lparr>leafS = None, leafE = None, floors = (\<lambda>_. None), creature_list = [], player_list = []\<rparr>"

definition empty_map :: "'tile game_map" where
  "empty_map = \<lparr>root = QNode (\<lambda>_. None), leaves = []\<rparr>"

section \<open>Operations\<close>

definition quad_index :: "u32 \<Rightarrow> u32 \<Rightarrow> nat" where
  "quad_index x y = unat (drop_bit 15 (x AND 0x8000) OR drop_bit 14 (y AND 0x8000))"

primrec getLeaf :: "qtree \<Rightarrow> u32 \<Rightarrow> u32 \<Rightarrow> nat option" where
  "getLeaf (QLeaf i) = (\<lambda>x y. Some i)"
| "getLeaf (QNode child) = (\<lambda>x y.
     case map_option getLeaf (child (quad_index x y)) of
       None \<Rightarrow> None
     | Some get \<Rightarrow> get (push_bit 1 x) (push_bit 1 y))"

text \<open>\<open>getLeafStatic\<close> is the loop that does the same from a node; a leaf has no children.\<close>

primrec getLeafStatic :: "qtree \<Rightarrow> u32 \<Rightarrow> u32 \<Rightarrow> nat option" where
  "getLeafStatic (QLeaf i) = (\<lambda>x y. None)"
| "getLeafStatic (QNode child) = (\<lambda>x y.
     case map_option (\<lambda>c. (c, getLeafStatic c)) (child (quad_index x y)) of
       None \<Rightarrow> None
     | Some (QLeaf i, _) \<Rightarrow> Some i
     | Some (QNode _, get) \<Rightarrow> get (push_bit 1 x) (push_bit 1 y))"

text \<open>
  The new tree, the leaf, and whether it was made; \<open>fresh\<close> is the number of a new leaf. The level goes
  down with the depth and never passes \<open>FLOOR_BITS\<close>.
\<close>

primrec createLeaf :: "nat \<Rightarrow> nat \<Rightarrow> qtree \<Rightarrow> u32 \<Rightarrow> u32 \<Rightarrow> qtree \<times> nat \<times> bool" where
  "createLeaf fresh 0 t x y = (case t of QLeaf i \<Rightarrow> (t, i, False) | QNode _ \<Rightarrow> (t, fresh, False))"
| "createLeaf fresh (Suc l) t x y =
     (case t of
        QLeaf i \<Rightarrow> (t, i, False)
      | QNode child \<Rightarrow>
          let index = quad_index x y;
              (c, made) = (case child index of
                             Some c \<Rightarrow> (c, False)
                           | None \<Rightarrow> if Suc l \<noteq> FLOOR_BITS then (QNode (\<lambda>_. None), False) else (QLeaf fresh, True))
          in case createLeaf fresh l c (2 * x) (2 * y) of
               (c', i, made') \<Rightarrow> (QNode (child(index \<mapsto> c')), i, made \<or> made'))"

definition upd_leaf :: "nat \<Rightarrow> ('tile qleaf \<Rightarrow> 'tile qleaf) \<Rightarrow> 'tile game_map \<Rightarrow> 'tile game_map" where
  "upd_leaf i f m = m\<lparr>leaves := (leaves m)[i := f (leaves m ! i)]\<rparr>"

definition getTile :: "'tile game_map \<Rightarrow> position \<Rightarrow> 'tile option" where
  "getTile m p =
     (if pos_z p \<ge> MAP_MAX_LAYERS then None
      else (case getLeafStatic (root m) (ucast (pos_x p)) (ucast (pos_y p)) of
        None \<Rightarrow> None
      | Some i \<Rightarrow>
          (case floors (leaves m ! i) (pos_z p) of
             None \<Rightarrow> None
           | Some fl \<Rightarrow> fl (pos_x p AND FLOOR_MASK) (pos_y p AND FLOOR_MASK))))"

text \<open>The links of a new leaf with its four neighbours, each of which may be missing.\<close>

definition upd_leaf_opt :: "nat option \<Rightarrow> ('tile qleaf \<Rightarrow> 'tile qleaf) \<Rightarrow> 'tile game_map \<Rightarrow> 'tile game_map" where
  "upd_leaf_opt oi f m = (case oi of None \<Rightarrow> m | Some i \<Rightarrow> upd_leaf i f m)"

definition link_leaf :: "nat \<Rightarrow> u32 \<Rightarrow> u32 \<Rightarrow> 'tile game_map \<Rightarrow> 'tile game_map" where
  "link_leaf leaf x y m =
     (let m1 = upd_leaf_opt (getLeaf (root m) x (y - FLOOR_SIZE)) (\<lambda>l. l\<lparr>leafS := Some leaf\<rparr>) m;
          m2 = upd_leaf_opt (getLeaf (root m) (x - FLOOR_SIZE) y) (\<lambda>l. l\<lparr>leafE := Some leaf\<rparr>) m1;
          m3 = (case getLeaf (root m) x (y + FLOOR_SIZE) of
                  None \<Rightarrow> m2 | Some s \<Rightarrow> upd_leaf leaf (\<lambda>l. l\<lparr>leafS := Some s\<rparr>) m2)
      in (case getLeaf (root m) (x + FLOOR_SIZE) y of
            None \<Rightarrow> m3 | Some e \<Rightarrow> upd_leaf leaf (\<lambda>l. l\<lparr>leafE := Some e\<rparr>) m3))"

definition createFloor :: "u8 \<Rightarrow> 'tile qleaf \<Rightarrow> 'tile qleaf" where
  "createFloor z l = (case floors l z of None \<Rightarrow> l\<lparr>floors := (floors l)(z \<mapsto> (\<lambda>_ _. None))\<rparr> | Some _ \<Rightarrow> l)"

definition put_tile :: "('tile \<Rightarrow> 'tile \<Rightarrow> 'tile) \<Rightarrow> position \<Rightarrow> 'tile \<Rightarrow> 'tile qleaf \<Rightarrow> 'tile qleaf" where
  "put_tile merge p t l0 =
     (let l = createFloor (pos_z p) l0; fl = the (floors l (pos_z p));
          ox = pos_x p AND FLOOR_MASK; oy = pos_y p AND FLOOR_MASK;
          t' = (case fl ox oy of Some old \<Rightarrow> merge old t | None \<Rightarrow> t)
      in l\<lparr>floors := (floors l)(pos_z p \<mapsto> (\<lambda>i j. if i = ox \<and> j = oy then Some t' else fl i j))\<rparr>)"

definition setTile :: "('tile \<Rightarrow> 'tile \<Rightarrow> 'tile) \<Rightarrow> position \<Rightarrow> 'tile \<Rightarrow> 'tile game_map \<Rightarrow> 'tile game_map" where
  "setTile merge p t m =
     (if pos_z p \<ge> MAP_MAX_LAYERS then m
      else
        let x = ucast (pos_x p); y = ucast (pos_y p) in
        case createLeaf (length (leaves m)) 15 (root m) x y of
          (r, leaf, made) \<Rightarrow>
            let m1 = (if made then link_leaf leaf x y (m\<lparr>root := r, leaves := leaves m @ [empty_leaf]\<rparr>)
                      else m\<lparr>root := r\<rparr>)
            in upd_leaf leaf (put_tile merge p t) m1)"

definition addCreature :: "(creature_id \<Rightarrow> bool) \<Rightarrow> creature_id \<Rightarrow> 'tile qleaf \<Rightarrow> 'tile qleaf" where
  "addCreature is_player c l =
     (let l1 = l\<lparr>creature_list := creature_list l @ [c]\<rparr>
      in if is_player c then l1\<lparr>player_list := player_list l1 @ [c]\<rparr> else l1)"

text \<open>The found entry is overwritten by the last one, which is then dropped; fails when it is not there.\<close>

definition swap_remove :: "'a \<Rightarrow> 'a list \<Rightarrow> 'a list option" where
  "swap_remove c xs =
     (if c \<in> set xs then Some (butlast (xs[length (takeWhile (\<lambda>d. d \<noteq> c) xs) := last xs])) else None)"

definition removeCreature :: "(creature_id \<Rightarrow> bool) \<Rightarrow> creature_id \<Rightarrow> 'tile qleaf \<Rightarrow> 'tile qleaf option" where
  "removeCreature is_player c l =
     (case swap_remove c (creature_list l) of
        None \<Rightarrow> None
      | Some cs \<Rightarrow>
          if is_player c then
            (case swap_remove c (player_list l) of
               None \<Rightarrow> None
             | Some ps \<Rightarrow> Some (l\<lparr>creature_list := cs, player_list := ps\<rparr>))
          else Some (l\<lparr>creature_list := cs\<rparr>))"

section \<open>The tree\<close>

text \<open>All leaves lie at the same depth.\<close>

primrec tree_ok :: "nat \<Rightarrow> qtree \<Rightarrow> bool" where
  "tree_ok 0 t = (\<exists>i. t = QLeaf i)"
| "tree_ok (Suc n) t = (\<exists>child. t = QNode child \<and> (\<forall>k c. child k = Some c \<longrightarrow> tree_ok n c))"

definition same_path :: "nat \<Rightarrow> u32 \<Rightarrow> u32 \<Rightarrow> u32 \<Rightarrow> u32 \<Rightarrow> bool" where
  "same_path n x y x' y' \<longleftrightarrow> (\<forall>i < n. (bit x (15 - i) \<longleftrightarrow> bit x' (15 - i)) \<and> (bit y (15 - i) \<longleftrightarrow> bit y' (15 - i)))"

lemma quad_index_bits: "quad_index x y = (if bit x 15 then 1 else 0) + (if bit y 15 then 2 else 0)"
proof -
  have "(0x8000 :: u32) = 2 ^ 15" by simp
  then have b: "bit (0x8000 :: u32) n \<longleftrightarrow> n = 15" for n
    by (simp only: bit_exp_iff) auto
  have "drop_bit 15 (x AND 0x8000) = (if bit x 15 then 1 else 0 :: u32)"
    by (rule bit_word_eqI) (auto simp: b bit_and_iff bit_drop_bit_eq bit_1_iff intro: gr0I)
  moreover have "drop_bit 14 (y AND 0x8000) = (if bit y 15 then 2 else 0 :: u32)"
    by (rule bit_word_eqI) (auto simp: b bit_and_iff bit_drop_bit_eq bit_2_iff)
  moreover have "(1 :: u32) OR 2 = 3" by simp
  ultimately show ?thesis by (simp add: quad_index_def)
qed

lemma quad_index_same: "quad_index x y = quad_index x' y' \<longleftrightarrow> (bit x 15 \<longleftrightarrow> bit x' 15) \<and> (bit y 15 \<longleftrightarrow> bit y' 15)"
  by (simp add: quad_index_bits)

lemma same_path_Suc:
  assumes "n \<le> 14"
  shows "same_path (Suc n) x y x' y' \<longleftrightarrow> quad_index x y = quad_index x' y' \<and>
    same_path n (push_bit 1 x) (push_bit 1 y) (push_bit 1 x') (push_bit 1 y')"
proof -
  have "bit (push_bit 1 z) (15 - i) = bit z (15 - Suc i)" if "i < n" for i and z :: u32
  proof -
    have "15 - i = Suc (15 - Suc i)" "15 - i < 32" using that assms by simp_all
    then show ?thesis by (simp only: bit_push_bit_iff) simp
  qed
  then show ?thesis by (auto simp: same_path_def quad_index_same less_Suc_eq_0_disj)
qed

lemma getLeafStatic_eq: "tree_ok (Suc n) t \<Longrightarrow> getLeafStatic t x y = getLeaf t x y"
proof (induction n arbitrary: t x y)
  case 0
  then show ?case by (fastforce split: option.splits)
next
  case (Suc n)
  from Suc.prems obtain child where t: "t = QNode child" "\<And>k c. child k = Some c \<Longrightarrow> tree_ok (Suc n) c" by auto
  show ?case
  proof (cases "child (quad_index x y)")
    case None
    then show ?thesis by (simp add: t(1))
  next
    case (Some c)
    with t(2) obtain ch where c: "c = QNode ch" "tree_ok (Suc n) (QNode ch)" by fastforce
    show ?thesis
      using Suc.IH [OF c(2), of "push_bit 1 x" "push_bit 1 y"] Some c(1) by (simp add: t(1))
  qed
qed

lemma createLeaf_spec:
  "tree_ok n t \<Longrightarrow> n \<le> 13 \<Longrightarrow> createLeaf fresh (Suc (Suc n)) t x y = (t', i, made) \<Longrightarrow>
   tree_ok n t' \<and> i = (case getLeaf t x y of Some j \<Rightarrow> j | None \<Rightarrow> fresh) \<and> made = (getLeaf t x y = None) \<and>
   (\<forall>x' y'. getLeaf t' x' y' = (if same_path n x y x' y' then Some i else getLeaf t x' y'))"
proof (induction n arbitrary: t x y t' i made)
  case 0
  then show ?case by (auto simp: same_path_def)
next
  case (Suc n)
  from Suc.prems(1) obtain child where t: "t = QNode child" "\<And>k c. child k = Some c \<Longrightarrow> tree_ok n c" by auto
  define c where "c = (case child (quad_index x y) of Some c \<Rightarrow> c
     | None \<Rightarrow> if n \<noteq> 0 then QNode (\<lambda>_. None) else QLeaf fresh)"
  have c_ok: "tree_ok n c" using t(2) by (cases n) (auto simp: c_def split: option.split)
  obtain c' i' made' where rec: "createLeaf fresh (Suc (Suc n)) c (push_bit 1 x) (push_bit 1 y) = (c', i', made')"
    by (metis prod_cases3)
  note IH = Suc.IH [OF c_ok _ rec]
  have twice: "2 * z = push_bit 1 z" for z :: u32 by simp
  have res: "t' = QNode (child(quad_index x y \<mapsto> c'))" "i = i'"
      "made = ((child (quad_index x y) = None \<and> n = 0) \<or> made')"
    using Suc.prems(3) rec by (auto simp: t(1) c_def twice split: option.splits if_splits simp del: push_bit_of_1)
  have n: "n \<le> 13" "n \<le> 14" using Suc.prems(2) by simp_all
  have look: "getLeaf t x' y' = (case child (quad_index x' y') of None \<Rightarrow> None
      | Some d \<Rightarrow> getLeaf d (push_bit 1 x') (push_bit 1 y'))" for x' y'
    by (simp add: t(1) split: option.split)
  have here: "getLeaf c x' y' = (case child (quad_index x y) of None \<Rightarrow> if n = 0 then Some fresh else None
      | Some d \<Rightarrow> getLeaf d x' y')" for x' y'
    by (simp add: c_def split: option.split)
  have "tree_ok (Suc n) t'" using IH [OF n(1)] t(2) by (simp add: res(1))
  moreover have "i = (case getLeaf t x y of Some j \<Rightarrow> j | None \<Rightarrow> fresh) \<and> made = (getLeaf t x y = None)"
    using IH [OF n(1)] unfolding res(2,3) look [of x y] here by (cases "child (quad_index x y)") auto
  moreover have "getLeaf t' x' y' = (if same_path (Suc n) x y x' y' then Some i else getLeaf t x' y')" for x' y'
  proof (cases "quad_index x' y' = quad_index x y")
    case True
    have "getLeaf t' x' y' = getLeaf c' (push_bit 1 x') (push_bit 1 y')" by (simp add: res(1) True)
    also have "\<dots> = (if same_path n (push_bit 1 x) (push_bit 1 y) (push_bit 1 x') (push_bit 1 y') then Some i
        else getLeaf c (push_bit 1 x') (push_bit 1 y'))" using IH [OF n(1)] res(2) by simp
    also have "\<dots> = (if same_path (Suc n) x y x' y' then Some i else getLeaf t x' y')"
      unfolding same_path_Suc [OF n(2)] look here True
      by (auto simp: same_path_def split: option.split)
    finally show ?thesis .
  next
    case False
    then show ?thesis unfolding same_path_Suc [OF n(2)] look by (auto simp: res(1) split: option.split)
  qed
  ultimately show ?case by simp
qed

section \<open>Blocks\<close>

text \<open>A leaf covers a block of eight by eight columns; the coordinates count modulo 65536.\<close>

definition block :: "u32 \<Rightarrow> nat" where
  "block x = unat x mod 65536 div 8"

lemma bit_block: "bit (block x) k \<longleftrightarrow> k < 13 \<and> bit x (k + 3)"
proof -
  have "block x = drop_bit 3 (take_bit 16 (unat x))"
    by (simp add: block_def drop_bit_eq_div take_bit_eq_mod)
  then show ?thesis by (auto simp: bit_simps add.commute)
qed

lemma same_path_blocks: "same_path 13 x y x' y' \<longleftrightarrow> block x = block x' \<and> block y = block y'"
proof -
  have one: "block x = block x' \<longleftrightarrow> (\<forall>i < 13. bit x (15 - i) \<longleftrightarrow> bit x' (15 - i))" for x x'
  proof
    assume same: "block x = block x'"
    show "\<forall>i < 13. bit x (15 - i) \<longleftrightarrow> bit x' (15 - i)"
    proof (intro allI impI)
      fix i :: nat assume "i < 13"
      then have "12 - i < 13" "12 - i + 3 = 15 - i" by simp_all
      with bit_block [of x "12 - i"] bit_block [of x' "12 - i"] same show "bit x (15 - i) \<longleftrightarrow> bit x' (15 - i)" by simp
    qed
  next
    assume same: "\<forall>i < 13. bit x (15 - i) \<longleftrightarrow> bit x' (15 - i)"
    show "block x = block x'"
    proof (rule bit_eqI)
      fix k
      show "bit (block x) k = bit (block x') k"
        using same [rule_format, of "12 - k"] by (cases "k < 13") (simp_all add: bit_block add.commute)
    qed
  qed
  show ?thesis unfolding one by (auto simp: same_path_def)
qed

definition leaf_at :: "'tile game_map \<Rightarrow> u32 \<Rightarrow> u32 \<Rightarrow> nat option" where
  "leaf_at m x y = getLeaf (root m) x y"

lemma block_less: "block x < 8192" by (simp add: block_def less_mult_imp_div_less)

lemma block_add: "block (x + 8) = (block x + 1) mod 8192"
proof -
  define u where "u = unat x mod 65536"
  have "unat (x + 8) mod 65536 = (u + 8) mod 65536"
    by (simp add: u_def unat_word_ariths mod_mod_cancel mod_add_left_eq)
  moreover have "(u + 8) mod 65536 div 8 = (u div 8 + 1) mod 8192"
  proof (cases "u + 8 < 65536")
    case True
    then have "u div 8 + 1 < 8192" by (simp add: less_mult_imp_div_less)
    with True show ?thesis by simp
  next
    case False
    moreover have "u < 65536" by (simp add: u_def)
    ultimately have "(u + 8) mod 65536 = u - 65528" "u div 8 = 8191" "u - 65528 < 8"
      by (simp_all add: mod_if div_nat_eqI)
    then show ?thesis by simp
  qed
  ultimately show ?thesis by (simp add: block_def u_def)
qed

lemma block_shift: "block (x' + 8) = block x \<longleftrightarrow> block x' = block (x - 8)"
proof -
  have "(a + 1) mod 8192 = (b + 1) mod 8192 \<longleftrightarrow> a = b" if "a < 8192" "b < 8192" for a b :: nat
    using that by (auto simp: mod_if split: if_splits)
  moreover have "block x = (block (x - 8) + 1) mod 8192" using block_add [of "x - 8"] by simp
  ultimately show ?thesis using block_less by (simp add: block_add)
qed

lemma block_neq [simp]: "block (x + 8) \<noteq> block x" "block (x - 8) \<noteq> block x"
proof -
  have "(a + 1) mod 8192 \<noteq> a" if "a < 8192" for a :: nat using that by (auto simp: mod_if split: if_splits)
  then show *: "block (x + 8) \<noteq> block x" for x using block_less by (simp add: block_add)
  show "block (x - 8) \<noteq> block x" using * [of "x - 8"] by simp
qed

lemmas block_neq_sym [simp] = block_neq [symmetric]

lemma getLeaf_same_path:
  "tree_ok n t \<Longrightarrow> n \<le> 13 \<Longrightarrow> same_path n x y x' y' \<Longrightarrow> getLeaf t x y = getLeaf t x' y'"
proof (induction n arbitrary: t x y x' y')
  case 0
  then show ?case by auto
next
  case (Suc n)
  then obtain child where t: "t = QNode child" "\<And>k c. child k = Some c \<Longrightarrow> tree_ok n c" by auto
  have "quad_index x y = quad_index x' y'"
    "same_path n (push_bit 1 x) (push_bit 1 y) (push_bit 1 x') (push_bit 1 y')"
    using Suc.prems(2,3) same_path_Suc [of n x y x' y'] by simp_all
  then show ?case
    using Suc.IH [OF t(2)] Suc.prems(2) by (simp add: t(1) split: option.split)
qed

section \<open>The invariant of the map\<close>

definition blocks_agree :: "'tile game_map \<Rightarrow> bool" where
  "blocks_agree m \<longleftrightarrow> (\<forall>x y i. leaf_at m x y = Some i \<longrightarrow> i < length (leaves m) \<and>
     (\<forall>x' y'. leaf_at m x' y' = Some i \<longleftrightarrow> block x' = block x \<and> block y' = block y))"

definition links_ok :: "'tile game_map \<Rightarrow> bool" where
  "links_ok m \<longleftrightarrow> (\<forall>x y i. leaf_at m x y = Some i \<longrightarrow>
     leafE (leaves m ! i) = leaf_at m (x + 8) y \<and> leafS (leaves m ! i) = leaf_at m x (y + 8))"

definition map_ok :: "'tile game_map \<Rightarrow> bool" where
  "map_ok m \<longleftrightarrow> tree_ok 13 (root m) \<and> blocks_agree m \<and> links_ok m"

lemma tree_ok_empty: "tree_ok (Suc n) (QNode (\<lambda>_. None))" by simp

lemma map_ok_empty: "map_ok empty_map"
proof -
  have "tree_ok 13 (QNode (\<lambda>_. None))" by (simp add: numeral_eq_Suc)
  then show ?thesis by (simp add: map_ok_def empty_map_def blocks_agree_def links_ok_def leaf_at_def)
qed

lemma leaf_at_blocks:
  "tree_ok 13 (root m) \<Longrightarrow> block x = block x' \<Longrightarrow> block y = block y' \<Longrightarrow> leaf_at m x y = leaf_at m x' y'"
  unfolding leaf_at_def by (rule getLeaf_same_path [where n = 13]) (simp_all add: same_path_blocks)

lemma leaf_at_static: "tree_ok 13 (root m) \<Longrightarrow> getLeafStatic (root m) x y = leaf_at m x y"
  unfolding leaf_at_def by (rule getLeafStatic_eq [of 12]) (simp only: Suc_numeral semiring_norm)

text \<open>A change of the leaves alone, one that keeps their links.\<close>

lemma leaf_at_upd [simp]: "leaf_at (upd_leaf i f m) x y = leaf_at m x y" "root (upd_leaf i f m) = root m"
    "length (leaves (upd_leaf i f m)) = length (leaves m)"
  by (simp_all add: leaf_at_def upd_leaf_def)

lemma leaves_upd: "j < length (leaves m) \<Longrightarrow> leaves (upd_leaf i f m) ! j = (if j = i then f (leaves m ! i) else leaves m ! j)"
  by (simp add: upd_leaf_def)

lemma map_ok_upd:
  assumes "map_ok m" "\<And>l. leafS (f l) = leafS l" "\<And>l. leafE (f l) = leafE l"
  shows "map_ok (upd_leaf i f m)"
  using assms by (auto simp: map_ok_def blocks_agree_def links_ok_def leaves_upd)

lemma create_leaf_at:
  assumes "map_ok m" "createLeaf fresh 15 (root m) x y = (r, i, made)"
  shows "tree_ok 13 r" "i = (case leaf_at m x y of Some j \<Rightarrow> j | None \<Rightarrow> fresh)" "made = (leaf_at m x y = None)"
    "getLeaf r x' y' = (if block x = block x' \<and> block y = block y' then Some i else leaf_at m x' y')"
proof -
  have "createLeaf fresh (Suc (Suc 13)) (root m) x y = (r, i, made)"
    using assms(2) by (simp only: Suc_numeral semiring_norm)
  from createLeaf_spec [OF _ order_refl this] assms(1)
  show "tree_ok 13 r" "i = (case leaf_at m x y of Some j \<Rightarrow> j | None \<Rightarrow> fresh)" "made = (leaf_at m x y = None)"
    "getLeaf r x' y' = (if block x = block x' \<and> block y = block y' then Some i else leaf_at m x' y')"
    unfolding map_ok_def leaf_at_def same_path_blocks by simp_all
qed

lemma leaf_at_cong: "root m = root m' \<Longrightarrow> leaf_at m = leaf_at m'"
  by (intro ext) (simp add: leaf_at_def)

text \<open>What linking a new leaf does to the links.\<close>

lemma link_leaf_frame [simp]:
  "root (link_leaf i x y m) = root m" "length (leaves (link_leaf i x y m)) = length (leaves m)"
  by (simp_all add: link_leaf_def upd_leaf_opt_def Let_def split: option.split)

lemma link_leaf_links:
  assumes "i < length (leaves m)" "j < length (leaves m)"
    and "getLeaf (root m) x (y - 8) \<noteq> Some i" "getLeaf (root m) (x - 8) y \<noteq> Some i"
  shows "leafS (leaves (link_leaf i x y m) ! j) =
      (if j = i \<and> getLeaf (root m) x (y + 8) \<noteq> None then getLeaf (root m) x (y + 8)
       else if getLeaf (root m) x (y - 8) = Some j then Some i else leafS (leaves m ! j))"
    "leafE (leaves (link_leaf i x y m) ! j) =
      (if j = i \<and> getLeaf (root m) (x + 8) y \<noteq> None then getLeaf (root m) (x + 8) y
       else if getLeaf (root m) (x - 8) y = Some j then Some i else leafE (leaves m ! j))"
  using assms by (auto simp: link_leaf_def upd_leaf_opt_def Let_def leaves_upd split: option.split)

lemma link_leaf_rest:
  assumes "j < length (leaves m)"
  shows "floors (leaves (link_leaf i x y m) ! j) = floors (leaves m ! j)"
    "creature_list (leaves (link_leaf i x y m) ! j) = creature_list (leaves m ! j)"
    "player_list (leaves (link_leaf i x y m) ! j) = player_list (leaves m ! j)"
  using assms by (auto simp: link_leaf_def upd_leaf_opt_def Let_def leaves_upd split: option.split)

lemma map_ok_new_leaf:
  assumes ok: "map_ok m" and create: "createLeaf (length (leaves m)) 15 (root m) x y = (r, i, True)"
  defines "m1 \<equiv> m\<lparr>root := r, leaves := leaves m @ [empty_leaf]\<rparr>"
  shows "map_ok (link_leaf i x y m1)"
proof -
  note c = create_leaf_at [OF ok create]
  have none: "leaf_at m x y = None" and i: "i = length (leaves m)" using c(2,3) by simp_all
  have at: "getLeaf r x' y' = (if block x = block x' \<and> block y = block y' then Some i else leaf_at m x' y')" for x' y'
    by (rule c(4))
  have old: "leaf_at m x' y' = Some j \<Longrightarrow> j < length (leaves m)" for x' y' j
    using ok by (auto simp: map_ok_def blocks_agree_def)
  have agree: "leaf_at m x' y' = Some j \<Longrightarrow> leaf_at m x2 y2 = Some j \<longleftrightarrow> block x2 = block x' \<and> block y2 = block y'" for x' y' x2 y2 j
    using ok by (auto simp: map_ok_def blocks_agree_def)
  have at1: "leaf_at (link_leaf i x y m1) x' y' = getLeaf r x' y'" for x' y'
    by (simp add: leaf_at_def m1_def)
  have notnew: "leaf_at m x' y' \<noteq> Some i" for x' y' using old i by blast
  have "blocks_agree (link_leaf i x y m1)"
    unfolding blocks_agree_def at1 at
  proof (intro allI impI)
    fix x1 y1 j
    assume a: "(if block x = block x1 \<and> block y = block y1 then Some i else leaf_at m x1 y1) = Some j"
    show "j < length (leaves (link_leaf i x y m1)) \<and>
      (\<forall>x' y'. ((if block x = block x' \<and> block y = block y' then Some i else leaf_at m x' y') = Some j) =
         (block x' = block x1 \<and> block y' = block y1))"
    proof (cases "block x = block x1 \<and> block y = block y1")
      case True
      with a i notnew show ?thesis by (auto simp: m1_def)
    next
      case False
      with a have l: "leaf_at m x1 y1 = Some j" by simp
      with old [OF l] agree [OF l] False i show ?thesis by (auto simp: m1_def)
    qed
  qed
  moreover have "links_ok (link_leaf i x y m1)"
    unfolding links_ok_def at1
  proof (intro allI impI)
    fix x1 y1 j
    assume a: "getLeaf r x1 y1 = Some j"
    have len: "i < length (leaves m1)" by (simp add: m1_def i)
    have j: "j < length (leaves m1)"
      using a old unfolding at by (auto simp: m1_def i split: if_splits intro: less_SucI)
    have away: "getLeaf (root m1) x (y - 8) \<noteq> Some i" "getLeaf (root m1) (x - 8) y \<noteq> Some i"
      using notnew block_neq(2) [of y, symmetric] block_neq(2) [of x, symmetric] by (auto simp: m1_def at)
    note links = link_leaf_links [OF len j away]
    show "leafE (leaves (link_leaf i x y m1) ! j) = getLeaf r (x1 + 8) y1 \<and>
          leafS (leaves (link_leaf i x y m1) ! j) = getLeaf r x1 (y1 + 8)"
    proof (cases "block x = block x1 \<and> block y = block y1")
      case True
      then have ji: "j = i" using a by (simp add: at)
      have b: "block (x + 8) = block (x1 + 8)" "block (y + 8) = block (y1 + 8)" using True by (simp_all add: block_add)
      have "getLeaf r (x1 + 8) y1 = getLeaf r (x + 8) y" "getLeaf r x1 (y1 + 8) = getLeaf r x (y + 8)"
        using True b ok leaf_at_blocks [of m "x1 + 8" "x + 8" y1 y] leaf_at_blocks [of m x1 x "y1 + 8" "y + 8"]
        by (simp_all add: at map_ok_def)
      moreover have "leafE (leaves m1 ! i) = None" "leafS (leaves m1 ! i) = None"
        by (simp_all add: m1_def i empty_leaf_def)
      ultimately show ?thesis using links away by (auto simp: ji m1_def)
    next
      case False
      then have l: "leaf_at m x1 y1 = Some j" using a unfolding at by argo
      then have "j \<noteq> i" "leaves m1 ! j = leaves m ! j" using old i by (auto simp: m1_def nth_append)
      moreover have "leafE (leaves m ! j) = leaf_at m (x1 + 8) y1" "leafS (leaves m ! j) = leaf_at m x1 (y1 + 8)"
        using ok l by (auto simp: map_ok_def links_ok_def)
      moreover have "getLeaf r (x - 8) y = Some j \<longleftrightarrow> block (x1 + 8) = block x \<and> block y1 = block y"
        using agree [OF l, of "x - 8" y] block_neq(2) [of x] unfolding at block_shift by auto
      moreover have "getLeaf r x (y - 8) = Some j \<longleftrightarrow> block x1 = block x \<and> block (y1 + 8) = block y"
        using agree [OF l, of x "y - 8"] block_neq(2) [of y] unfolding at block_shift by auto
      ultimately show ?thesis using links by (auto simp: at m1_def)
    qed
  qed
  ultimately show ?thesis using c(1) by (simp add: map_ok_def m1_def)
qed

lemma put_tile_links [simp]:
  "leafS (put_tile merge p t l) = leafS l" "leafE (put_tile merge p t l) = leafE l"
  "creature_list (put_tile merge p t l) = creature_list l" "player_list (put_tile merge p t l) = player_list l"
  by (simp_all add: put_tile_def createFloor_def Let_def split: option.split)

text \<open>The map before its tile is put: the leaf is there, and no tile has changed.\<close>

definition ready :: "'tile game_map \<Rightarrow> u32 \<Rightarrow> u32 \<Rightarrow> nat \<Rightarrow> 'tile game_map \<Rightarrow> bool" where
  "ready m x y i m1 \<longleftrightarrow> map_ok m1 \<and> leaf_at m1 x y = Some i \<and>
     (\<forall>x' y' j. leaf_at m x' y' = Some j \<longrightarrow> leaf_at m1 x' y' = Some j \<and> floors (leaves m1 ! j) = floors (leaves m ! j) \<and>
        creature_list (leaves m1 ! j) = creature_list (leaves m ! j) \<and> player_list (leaves m1 ! j) = player_list (leaves m ! j)) \<and>
     (\<forall>x' y' j. leaf_at m x' y' = None \<longrightarrow> leaf_at m1 x' y' = Some j \<longrightarrow> floors (leaves m1 ! j) = (\<lambda>_. None) \<and>
        creature_list (leaves m1 ! j) = [] \<and> player_list (leaves m1 ! j) = [])"

lemma setTile_ready:
  assumes ok: "map_ok m" and z: "pos_z p < MAP_MAX_LAYERS"
  shows "\<exists>i m1. setTile merge p t m = upd_leaf i (put_tile merge p t) m1 \<and> ready m (ucast (pos_x p)) (ucast (pos_y p)) i m1"
proof -
  let ?x = "ucast (pos_x p) :: u32" and ?y = "ucast (pos_y p) :: u32"
  obtain r i made where create: "createLeaf (length (leaves m)) 15 (root m) ?x ?y = (r, i, made)"
    by (metis prod_cases3)
  note c = create_leaf_at [OF ok create]
  have old: "leaf_at m x' y' = Some j \<Longrightarrow> j < length (leaves m)" for x' y' j
    using ok by (auto simp: map_ok_def blocks_agree_def)
  show ?thesis
  proof (cases made)
    case True
    define m1 where "m1 = m\<lparr>root := r, leaves := leaves m @ [empty_leaf]\<rparr>"
    let ?m = "link_leaf i ?x ?y m1"
    have i: "i = length (leaves m)" and none: "leaf_at m ?x ?y = None" using c(2,3) True by simp_all
    have at: "leaf_at ?m x' y' = (if block ?x = block x' \<and> block ?y = block y' then Some i else leaf_at m x' y')" for x' y'
      using c(4) [of x' y'] by (simp add: leaf_at_def m1_def)
    have same: "leaf_at m x' y' = None" if "block ?x = block x'" "block ?y = block y'" for x' y'
      using none leaf_at_blocks [of m x' ?x y' ?y] ok that by (simp add: map_ok_def)
    have len: "i < length (leaves m1)" by (simp add: m1_def i)
    have "ready m ?x ?y i ?m"
      unfolding ready_def
    proof (intro conjI allI impI)
      show "map_ok ?m" unfolding m1_def using map_ok_new_leaf [OF ok] create True by simp
      show "leaf_at ?m ?x ?y = Some i" by (simp add: at)
    next
      fix x' y' j assume a: "leaf_at m x' y' = Some j"
      then have "j < length (leaves m)" by (rule old)
      then have "j < length (leaves m1)" "leaves m1 ! j = leaves m ! j" by (simp_all add: m1_def nth_append)
      then show "floors (leaves ?m ! j) = floors (leaves m ! j)" "creature_list (leaves ?m ! j) = creature_list (leaves m ! j)"
        "player_list (leaves ?m ! j) = player_list (leaves m ! j)" by (simp_all add: link_leaf_rest)
      show "leaf_at ?m x' y' = Some j" unfolding at using a same by auto
    next
      fix x' y' j assume "leaf_at m x' y' = None" "leaf_at ?m x' y' = Some j"
      then have "j = i" by (auto simp: at split: if_splits)
      then show "floors (leaves ?m ! j) = (\<lambda>_. None)" "creature_list (leaves ?m ! j) = []" "player_list (leaves ?m ! j) = []"
        using link_leaf_rest [OF len] by (auto simp: m1_def i empty_leaf_def)
    qed
    moreover have "setTile merge p t m = upd_leaf i (put_tile merge p t) ?m"
      using z create True by (simp add: setTile_def Let_def m1_def not_le)
    ultimately show ?thesis by blast
  next
    case False
    let ?m = "m\<lparr>root := r\<rparr>"
    have i: "leaf_at m ?x ?y = Some i" using c(2,3) False by auto
    have "leaf_at ?m x' y' = leaf_at m x' y'" for x' y'
    proof (cases "block ?x = block x' \<and> block ?y = block y'")
      case True
      then show ?thesis using i leaf_at_blocks [of m x' ?x y' ?y] ok c(4) [of x' y'] by (simp add: leaf_at_def [of ?m] map_ok_def)
    next
      case False
      then show ?thesis using c(4) [of x' y'] unfolding leaf_at_def [of ?m] by auto
    qed
    then have at: "leaf_at ?m = leaf_at m" by (intro ext)
    have "map_ok ?m" using ok c(1) by (simp add: map_ok_def blocks_agree_def links_ok_def at)
    then have "ready m ?x ?y i ?m" by (simp add: ready_def at i)
    moreover have "setTile merge p t m = upd_leaf i (put_tile merge p t) ?m"
      using z create False by (simp add: setTile_def Let_def not_le)
    ultimately show ?thesis by blast
  qed
qed

lemma setTile_out: "MAP_MAX_LAYERS \<le> pos_z p \<Longrightarrow> setTile merge p t m = m"
  by (simp add: setTile_def)

lemma map_ok_setTile: "map_ok m \<Longrightarrow> map_ok (setTile merge p t m)"
proof (cases "MAP_MAX_LAYERS \<le> pos_z p")
  case False
  assume "map_ok m"
  from setTile_ready [OF this, of p merge t] False obtain i m1 where
    "setTile merge p t m = upd_leaf i (put_tile merge p t) m1" "map_ok m1" by (auto simp: ready_def not_le)
  then show ?thesis by (simp add: map_ok_upd)
qed (simp add: setTile_out)

lemma map_tile_at:
  "map_ok m \<Longrightarrow> getTile m p = (if pos_z p \<ge> MAP_MAX_LAYERS then None
     else (case leaf_at m (ucast (pos_x p)) (ucast (pos_y p)) of None \<Rightarrow> None
       | Some i \<Rightarrow> (case floors (leaves m ! i) (pos_z p) of None \<Rightarrow> None
           | Some fl \<Rightarrow> fl (pos_x p AND FLOOR_MASK) (pos_y p AND FLOOR_MASK))))"
  by (simp add: getTile_def leaf_at_static map_ok_def)

text \<open>A coordinate is its block and its place in the block.\<close>

lemma block_and_mask: "a = (b :: u16) \<longleftrightarrow> block (ucast a) = block (ucast b) \<and> a AND FLOOR_MASK = b AND FLOOR_MASK"
proof
  assume h: "block (ucast a) = block (ucast b) \<and> a AND FLOOR_MASK = b AND FLOOR_MASK"
  have m: "bit (w AND 7) k \<longleftrightarrow> bit w k \<and> k < 3" for w :: u16 and k
  proof -
    have "(7 :: u16) = mask 3" by (simp add: mask_eq_exp_minus_1)
    then show ?thesis by (simp only: bit_and_iff bit_mask_iff) (auto dest: bit_imp_le_length)
  qed
  show "a = b"
  proof (rule bit_word_eqI)
    fix n assume "n < LENGTH(16)"
    then have n: "n < 16" by simp
    show "bit a n = bit b n"
    proof (cases "n < 3")
      case True
      then show ?thesis using h m [of a n] m [of b n] by simp
    next
      case False
      then have "n - 3 < 13" "n - 3 + 3 = n" using n by simp_all
      then show ?thesis
        using h n bit_block [of "ucast a" "n - 3"] bit_block [of "ucast b" "n - 3"] by (simp add: bit_ucast_iff)
    qed
  qed
qed simp

section \<open>A map from positions to tiles\<close>

text \<open>
  The contract of a keyed store: what is put under a key is got back, merged with what was there, and
  other keys are left alone. A store that is filled from a list of distinct keys is the map of the list.
\<close>

locale keyed_store =
  fixes get :: "'s \<Rightarrow> 'k \<Rightarrow> 'v option" and put :: "'k \<Rightarrow> 'v \<Rightarrow> 's \<Rightarrow> 's"
    and inv :: "'s \<Rightarrow> bool" and valid :: "'k \<Rightarrow> bool" and start :: 's
  assumes start_inv: "inv start" and start_empty: "get start k = None"
    and put_inv: "inv s \<Longrightarrow> inv (put k v s)"
    and put_same: "inv s \<Longrightarrow> get s k = None \<Longrightarrow> get (put k v s) k = (if valid k then Some v else None)"
    and put_other: "inv s \<Longrightarrow> k' \<noteq> k \<Longrightarrow> get (put k v s) k' = get s k'"
begin

definition fill :: "('k \<times> 'v) list \<Rightarrow> 's \<Rightarrow> 's" where
  "fill kvs s = fold (\<lambda>(k, v). put k v) kvs s"

lemma fill_inv: "inv s \<Longrightarrow> inv (fill kvs s)"
  by (induction kvs arbitrary: s) (auto simp: fill_def put_inv)

lemma get_fill:
  "inv s \<Longrightarrow> distinct (map fst kvs) \<Longrightarrow> (\<And>k. k \<in> fst ` set kvs \<Longrightarrow> get s k = None) \<Longrightarrow>
   get (fill kvs s) k = (if k \<in> fst ` set kvs then if valid k then map_of kvs k else None else get s k)"
proof (induction kvs arbitrary: s)
  case Nil
  then show ?case by (simp add: fill_def)
next
  case (Cons kv kvs)
  obtain k1 v where kv: "kv = (k1, v)" by (cases kv)
  have rest: "get (put k1 v s) k' = None" if "k' \<in> fst ` set kvs" for k'
    using put_other [of s k' k1 v] that Cons.prems by (auto simp: kv)
  have "get (fill kvs (put k1 v s)) k =
      (if k \<in> fst ` set kvs then if valid k then map_of kvs k else None else get (put k1 v s) k)"
    using Cons.prems rest by (intro Cons.IH) (auto simp: kv put_inv)
  moreover have "fill (kv # kvs) s = fill kvs (put k1 v s)" by (simp add: fill_def kv)
  ultimately show ?case using Cons.prems put_same [of s k1 v] put_other [of s k k1 v] by (auto simp: kv)
qed

lemma get_filled:
  "distinct (map fst kvs) \<Longrightarrow> get (fill kvs start) k = (if valid k then map_of kvs k else None)"
  using get_fill [OF start_inv, of kvs k] start_empty map_of_eq_None_iff [of kvs k]
  by (cases "k \<in> fst ` set kvs") auto

end

lemma getTile_ready:
  assumes "map_ok m" "ready m x y i m1" and p: "x = ucast (pos_x p)" "y = ucast (pos_y p)"
  shows "getTile m1 q = getTile m q"
proof -
  have ok: "map_ok m1" using assms(2) by (simp add: ready_def)
  show ?thesis
  proof (cases "leaf_at m (ucast (pos_x q)) (ucast (pos_y q))")
    case None
    with assms(2) have "leaf_at m1 (ucast (pos_x q)) (ucast (pos_y q)) = Some j \<Longrightarrow> floors (leaves m1 ! j) = (\<lambda>_. None)" for j
      by (auto simp: ready_def)
    then show ?thesis
      using None by (auto simp: map_tile_at [OF ok] map_tile_at [OF assms(1)] split: option.split)
  next
    case (Some j)
    with assms(2) have "leaf_at m1 (ucast (pos_x q)) (ucast (pos_y q)) = Some j" "floors (leaves m1 ! j) = floors (leaves m ! j)"
      by (auto simp: ready_def)
    with Some show ?thesis by (simp add: map_tile_at [OF ok] map_tile_at [OF assms(1)])
  qed
qed

lemma put_tile_get:
  assumes "map_ok m" "leaf_at m (ucast (pos_x p)) (ucast (pos_y p)) = Some i" "pos_z p < MAP_MAX_LAYERS"
  shows "getTile (upd_leaf i (put_tile merge p t) m) q =
    (if q = p then Some (case getTile m p of Some old \<Rightarrow> merge old t | None \<Rightarrow> t) else getTile m q)"
proof -
  have i: "i < length (leaves m)" using assms by (auto simp: map_ok_def blocks_agree_def)
  have ok: "map_ok (upd_leaf i (put_tile merge p t) m)" by (rule map_ok_upd [OF assms(1)]) simp_all
  have agree: "leaf_at m (ucast (pos_x q)) (ucast (pos_y q)) = Some i \<longleftrightarrow>
      block (ucast (pos_x q)) = block (ucast (pos_x p)) \<and> block (ucast (pos_y q)) = block (ucast (pos_y p))"
    using assms(1,2) by (auto simp: map_ok_def blocks_agree_def)
  have q: "q = p \<longleftrightarrow> leaf_at m (ucast (pos_x q)) (ucast (pos_y q)) = Some i \<and> pos_z q = pos_z p \<and>
      pos_x q AND FLOOR_MASK = pos_x p AND FLOOR_MASK \<and> pos_y q AND FLOOR_MASK = pos_y p AND FLOOR_MASK"
    using block_and_mask [of "pos_x q" "pos_x p"] block_and_mask [of "pos_y q" "pos_y p"]
    unfolding agree by (cases p; cases q) auto
  show ?thesis
  proof (cases "leaf_at m (ucast (pos_x q)) (ucast (pos_y q)) = Some i")
    case True
    then show ?thesis
      using assms(2,3) i q
      by (auto simp: map_tile_at [OF ok] map_tile_at [OF assms(1)] leaves_upd put_tile_def createFloor_def Let_def not_le
          split: option.split)
  next
    case False
    moreover have "j < length (leaves m)" if "leaf_at m (ucast (pos_x q)) (ucast (pos_y q)) = Some j" for j
      using that assms(1) by (auto simp: map_ok_def blocks_agree_def)
    ultimately show ?thesis
      using q by (auto simp: map_tile_at [OF ok] map_tile_at [OF assms(1)] leaves_upd split: option.split)
  qed
qed

lemma getTile_setTile:
  assumes "map_ok m"
  shows "getTile (setTile merge p t m) q =
    (if q = p \<and> pos_z p < MAP_MAX_LAYERS then Some (case getTile m p of Some old \<Rightarrow> merge old t | None \<Rightarrow> t)
     else getTile m q)"
proof (cases "pos_z p < MAP_MAX_LAYERS")
  case True
  from setTile_ready [OF assms True, of merge t] obtain i m1 where
    set: "setTile merge p t m = upd_leaf i (put_tile merge p t) m1"
    and ready: "ready m (ucast (pos_x p)) (ucast (pos_y p)) i m1" by blast
  then have "map_ok m1" "leaf_at m1 (ucast (pos_x p)) (ucast (pos_y p)) = Some i" by (simp_all add: ready_def)
  then show ?thesis
    using put_tile_get [of m1 p i merge t q] getTile_ready [OF assms ready refl refl] True by (simp add: set)
qed (auto simp: setTile_out not_less)

interpretation tiles: keyed_store getTile "setTile merge" map_ok "\<lambda>p. pos_z p < MAP_MAX_LAYERS" empty_map
proof unfold_locales
  show "getTile empty_map k = None" for k
    by (simp add: getTile_def empty_map_def)
qed (auto simp: map_ok_empty map_ok_setTile getTile_setTile)

text \<open>
C3.
  The quadtree is a map from positions to tiles: after the tiles of a list have been set on an empty map,
  each at a position of its own, \<open>getTile\<close> finds at every position the tile of the list, and nothing
  elsewhere or on a floor beyond the sixteenth.
\<close>

theorem getTile_after_load:
  assumes "distinct (map fst ts)"
  shows "getTile (fold (\<lambda>(p, t). setTile merge p t) ts empty_map) q =
    (if pos_z q < MAP_MAX_LAYERS then map_of ts q else None)"
  using tiles.get_filled [OF assms, of merge q] by (simp add: tiles.fill_def)

theorem getTile_after_load_witness:
  "getTile (fold (\<lambda>(p, t). setTile (\<lambda>a b. a) p t) [(Position 8 7 7, ''a''), (Position 7 8 7, ''b'')] empty_map)
     (Position 7 8 7) = Some ''b''"
  using getTile_after_load [of "[(Position 8 7 7, ''a''), (Position 7 8 7, ''b'')]" "\<lambda>a b. a" "Position 7 8 7"] by simp

end
