(* ===== verification/Spectators.thy ===== *)
theory Spectators imports Quad_Tree begin

text \<open>
  The creatures around a position, from \<open>src/src/map.cpp\<close>: the register of the creatures in the leaves
  of the quadtree, the walk over the leaves of a range along their links, and the cache of its results.
  The position of a creature is a field of the world; a set of spectators is a set of creature numbers.
\<close>

section \<open>The register\<close>

record 'tile world =
  gmap :: "'tile game_map"
  place :: "creature_id \<rightharpoonup> position"

text \<open>\<open>getQTNode\<close>; calling a method of a missing leaf fails.\<close>

definition getQTNode :: "'tile game_map \<Rightarrow> position \<Rightarrow> nat option" where
  "getQTNode m p = getLeafStatic (root m) (ucast (pos_x p)) (ucast (pos_y p))"

definition register_creature :: "(creature_id \<Rightarrow> bool) \<Rightarrow> creature_id \<Rightarrow> position \<Rightarrow> 'tile world \<Rightarrow> 'tile world option" where
  "register_creature is_player c p w =
     (case getQTNode (gmap w) p of
        None \<Rightarrow> None
      | Some i \<Rightarrow> Some (w\<lparr>gmap := upd_leaf i (addCreature is_player c) (gmap w), place := (place w)(c \<mapsto> p)\<rparr>))"

definition take_from_leaf :: "(creature_id \<Rightarrow> bool) \<Rightarrow> creature_id \<Rightarrow> nat \<Rightarrow> 'tile game_map \<Rightarrow> 'tile game_map option" where
  "take_from_leaf is_player c i m =
     (case removeCreature is_player c (leaves m ! i) of None \<Rightarrow> None | Some l \<Rightarrow> Some (upd_leaf i (\<lambda>_. l) m))"

definition unregister_creature :: "(creature_id \<Rightarrow> bool) \<Rightarrow> creature_id \<Rightarrow> 'tile world \<Rightarrow> 'tile world option" where
  "unregister_creature is_player c w =
     (case place w c of None \<Rightarrow> None | Some p \<Rightarrow>
      (case getQTNode (gmap w) p of None \<Rightarrow> None | Some i \<Rightarrow>
       (case take_from_leaf is_player c i (gmap w) of
          None \<Rightarrow> None | Some m \<Rightarrow> Some (w\<lparr>gmap := m, place := (place w)(c := None)\<rparr>))))"

text \<open>The part of \<open>moveCreature\<close> that switches the ownership of the leaves.\<close>

definition move_creature :: "(creature_id \<Rightarrow> bool) \<Rightarrow> creature_id \<Rightarrow> position \<Rightarrow> 'tile world \<Rightarrow> 'tile world option" where
  "move_creature is_player c newPos w =
     (case place w c of None \<Rightarrow> None | Some oldPos \<Rightarrow>
        let leaf = getQTNode (gmap w) oldPos; new_leaf = getQTNode (gmap w) newPos;
            done = (\<lambda>m. Some (w\<lparr>gmap := m, place := (place w)(c \<mapsto> newPos)\<rparr>)) in
        if leaf \<noteq> new_leaf then
          (case (leaf, new_leaf) of
             (Some i, Some j) \<Rightarrow>
               (case take_from_leaf is_player c i (gmap w) of
                  None \<Rightarrow> None | Some m \<Rightarrow> done (upd_leaf j (addCreature is_player c) m))
           | _ \<Rightarrow> None)
        else done (gmap w))"

section \<open>The scan\<close>

record scan_query =
  sq_center :: position
  sq_minX :: int
  sq_maxX :: int
  sq_minY :: int
  sq_maxY :: int
  sq_minZ :: int
  sq_maxZ :: int
  sq_players :: bool

definition min_x :: "scan_query \<Rightarrow> int" where "min_x q = uint (pos_x (sq_center q)) + sq_minX q"
definition max_x :: "scan_query \<Rightarrow> int" where "max_x q = uint (pos_x (sq_center q)) + sq_maxX q"
definition min_y :: "scan_query \<Rightarrow> int" where "min_y q = uint (pos_y (sq_center q)) + sq_minY q"
definition max_y :: "scan_query \<Rightarrow> int" where "max_y q = uint (pos_y (sq_center q)) + sq_maxY q"

definition in_window :: "scan_query \<Rightarrow> position \<Rightarrow> bool" where
  "in_window q p =
     (if sq_minZ q > uint (pos_z p) \<or> sq_maxZ q < uint (pos_z p) then False
      else
        let offsetZ = getOffsetZ (sq_center q) p in
        \<not> (min_y q + offsetZ > uint (pos_y p) \<or> max_y q + offsetZ < uint (pos_y p) \<or>
           min_x q + offsetZ > uint (pos_x p) \<or> max_x q + offsetZ < uint (pos_x p)))"

definition clip :: "int \<Rightarrow> int" where
  "clip v = min 65535 (max 0 v)"

definition block_start :: "int \<Rightarrow> int" where
  "block_start v = v - v mod 8"

definition scan_leaf :: "(creature_id \<rightharpoonup> position) \<Rightarrow> scan_query \<Rightarrow> 'tile qleaf \<Rightarrow> creature_id set \<Rightarrow> creature_id set" where
  "scan_leaf pos q l acc =
     fold (\<lambda>c s. case pos c of Some p \<Rightarrow> if in_window q p then insert c s else s | None \<Rightarrow> s)
       (if sq_players q then player_list l else creature_list l) acc"

function scan_row :: "'tile world \<Rightarrow> scan_query \<Rightarrow> int \<Rightarrow> int \<Rightarrow> int \<Rightarrow> nat option \<Rightarrow> creature_id set \<Rightarrow> creature_id set" where
  "scan_row w q ny endx nx leaf acc =
     (if nx > endx then acc
      else (case leaf of
        Some i \<Rightarrow> scan_row w q ny endx (nx + 8) (leafE (leaves (gmap w) ! i))
                    (scan_leaf (place w) q (leaves (gmap w) ! i) acc)
      | None \<Rightarrow> scan_row w q ny endx (nx + 8)
                  (getLeafStatic (root (gmap w)) (word_of_int (nx + 8)) (word_of_int ny)) acc))"
  by pat_completeness auto
termination by (relation "measure (\<lambda>(w, q, ny, endx, nx, leaf, acc). nat (endx + 1 - nx))") auto

declare scan_row.simps [simp del]

function scan_rows :: "'tile world \<Rightarrow> scan_query \<Rightarrow> int \<Rightarrow> int \<Rightarrow> int \<Rightarrow> int \<Rightarrow> nat option \<Rightarrow> creature_id set \<Rightarrow> creature_id set" where
  "scan_rows w q startx endx endy ny leaf acc =
     (if ny > endy then acc
      else scan_rows w q startx endx endy (ny + 8)
        (case leaf of
           Some i \<Rightarrow> leafS (leaves (gmap w) ! i)
         | None \<Rightarrow> getLeafStatic (root (gmap w)) (word_of_int startx) (word_of_int (ny + 8)))
        (scan_row w q ny endx startx leaf acc))"
  by pat_completeness auto
termination by (relation "measure (\<lambda>(w, q, startx, endx, endy, ny, leaf, acc). nat (endy + 1 - ny))") auto

declare scan_rows.simps [simp del]

definition getSpectatorsInternal :: "'tile world \<Rightarrow> scan_query \<Rightarrow> creature_id set \<Rightarrow> creature_id set" where
  "getSpectatorsInternal w q spectators =
     (let z = uint (pos_z (sq_center q));
          minoffset = z - sq_maxZ q; maxoffset = z - sq_minZ q;
          startx1 = block_start (clip (min_x q + minoffset)); starty1 = block_start (clip (min_y q + minoffset));
          endx2 = block_start (clip (max_x q + maxoffset)); endy2 = block_start (clip (max_y q + maxoffset));
          startLeaf = getLeafStatic (root (gmap w)) (word_of_int startx1) (word_of_int starty1)
      in scan_rows w q startx1 endx2 endy2 starty1 startLeaf spectators)"

section \<open>The cache\<close>

record caches =
  spectatorCache :: "position \<rightharpoonup> creature_id set"
  playersSpectatorCache :: "position \<rightharpoonup> creature_id set"

abbreviation "maxViewportX \<equiv> (11 :: int)"
abbreviation "maxViewportY \<equiv> (11 :: int)"

definition default_range :: "int \<Rightarrow> int \<Rightarrow> int" where
  "default_range view r = (if r = 0 then view else r)"

definition floor_range :: "bool \<Rightarrow> position \<Rightarrow> int \<times> int" where
  "floor_range multifloor p =
     (let z = uint (pos_z p) in
      if multifloor then
        (if z > 7 then (max (z - 2) 0, min (z + 2) 15)
         else if z = 6 then (0, 8)
         else if z = 7 then (0, 9)
         else (0, 7))
      else (z, z))"

definition cached :: "(creature_id \<Rightarrow> bool) \<Rightarrow> caches \<Rightarrow> position \<Rightarrow> bool \<Rightarrow> creature_id set option" where
  "cached is_player cs p onlyPlayers =
     (case (if onlyPlayers then playersSpectatorCache cs p else None) of
        Some s \<Rightarrow> Some s
      | None \<Rightarrow>
          (case spectatorCache cs p of
             Some s \<Rightarrow> Some (if onlyPlayers then Set.filter is_player s else s)
           | None \<Rightarrow> None))"

definition getSpectators :: "(creature_id \<Rightarrow> bool) \<Rightarrow> 'tile world \<Rightarrow> position \<Rightarrow> bool \<Rightarrow> bool \<Rightarrow>
    int \<Rightarrow> int \<Rightarrow> int \<Rightarrow> int \<Rightarrow> creature_id set \<times> caches \<Rightarrow> creature_id set \<times> caches" where
  "getSpectators is_player w centerPos multifloor onlyPlayers minRangeX maxRangeX minRangeY maxRangeY sc =
     (case sc of (spectators, cs) \<Rightarrow>
      if uint (pos_z centerPos) \<ge> 16 then (spectators, cs)
      else
        let minX = - default_range maxViewportX minRangeX; maxX = default_range maxViewportX maxRangeX;
            minY = - default_range maxViewportY minRangeY; maxY = default_range maxViewportY maxRangeY;
            full = (minX = - maxViewportX \<and> maxX = maxViewportX \<and> minY = - maxViewportY \<and> maxY = maxViewportY \<and> multifloor)
        in case (if full then cached is_player cs centerPos onlyPlayers else None) of
             Some s \<Rightarrow> (spectators \<union> s, cs)
           | None \<Rightarrow>
               (case floor_range multifloor centerPos of (minZ, maxZ) \<Rightarrow>
                let found = getSpectatorsInternal w \<lparr>sq_center = centerPos, sq_minX = minX, sq_maxX = maxX,
                      sq_minY = minY, sq_maxY = maxY, sq_minZ = minZ, sq_maxZ = maxZ, sq_players = onlyPlayers\<rparr> spectators
                in (found,
                    if full then
                      (if onlyPlayers then cs\<lparr>playersSpectatorCache := (playersSpectatorCache cs)(centerPos \<mapsto> found)\<rparr>
                       else cs\<lparr>spectatorCache := (spectatorCache cs)(centerPos \<mapsto> found)\<rparr>)
                    else cs)))"

definition clearSpectatorCache :: caches where
  "clearSpectatorCache = \<lparr>spectatorCache = Map.empty, playersSpectatorCache = Map.empty\<rparr>"

section \<open>The register is exact\<close>

lemma swap_remove_set:
  assumes "distinct xs" "c \<in> set xs"
  obtains ys where "swap_remove c xs = Some ys" "distinct ys" "set ys = set xs - {c}"
proof -
  obtain as bs where xs: "xs = as @ c # bs" "c \<notin> set as"
    using split_list_first [OF assms(2)] by blast
  then have len: "length (takeWhile (\<lambda>d. d \<noteq> c) xs) = length as"
    by (subst xs(1), subst takeWhile_append2) (use xs(2) in auto)
  have eq: "swap_remove c xs = Some (butlast (as @ last xs # bs))"
    using assms(2) by (simp add: swap_remove_def len) (simp add: xs)
  show thesis
  proof (cases bs rule: rev_cases)
    case Nil
    with eq xs assms(1) show thesis by (intro that [of as]) (auto simp: butlast_append)
  next
    case (snoc cs d)
    with eq xs have "swap_remove c xs = Some (as @ d # cs)" by (simp add: butlast_append)
    with snoc xs assms(1) show thesis by (intro that [of "as @ d # cs"]) auto
  qed
qed

definition same_block :: "position \<Rightarrow> u32 \<Rightarrow> u32 \<Rightarrow> bool" where
  "same_block p x y \<longleftrightarrow> block (ucast (pos_x p)) = block x \<and> block (ucast (pos_y p)) = block y"

abbreviation pos_leaf :: "'tile game_map \<Rightarrow> position \<Rightarrow> nat option" where
  "pos_leaf m p \<equiv> leaf_at m (ucast (pos_x p)) (ucast (pos_y p))"

definition leaf_exact :: "(creature_id \<Rightarrow> bool) \<Rightarrow> (creature_id \<rightharpoonup> position) \<Rightarrow> u32 \<Rightarrow> u32 \<Rightarrow> 'tile qleaf \<Rightarrow> bool" where
  "leaf_exact is_player pos x y l \<longleftrightarrow> distinct (creature_list l) \<and> distinct (player_list l) \<and>
     set (creature_list l) = {c. \<exists>p. pos c = Some p \<and> same_block p x y} \<and>
     set (player_list l) = {c \<in> set (creature_list l). is_player c}"

definition registered :: "(creature_id \<Rightarrow> bool) \<Rightarrow> 'tile world \<Rightarrow> bool" where
  "registered is_player w \<longleftrightarrow> map_ok (gmap w) \<and>
     (\<forall>c p. place w c = Some p \<longrightarrow> pos_leaf (gmap w) p \<noteq> None) \<and>
     (\<forall>x y i. leaf_at (gmap w) x y = Some i \<longrightarrow> leaf_exact is_player (place w) x y (leaves (gmap w) ! i))"

inductive map_step :: "(creature_id \<Rightarrow> bool) \<Rightarrow> 'tile world \<Rightarrow> 'tile world \<Rightarrow> bool" for is_player where
  step_tile: "map_step is_player w (w\<lparr>gmap := setTile merge p t (gmap w)\<rparr>)"
| step_register: "place w c = None \<Longrightarrow> register_creature is_player c p w = Some w' \<Longrightarrow> map_step is_player w w'"
| step_unregister: "unregister_creature is_player c w = Some w' \<Longrightarrow> map_step is_player w w'"
| step_move: "move_creature is_player c p w = Some w' \<Longrightarrow> map_step is_player w w'"

definition new_world :: "'tile world" where
  "new_world = \<lparr>gmap = empty_map, place = Map.empty\<rparr>"

lemma registered_new: "registered is_player new_world"
  using map_ok_empty by (simp add: registered_def new_world_def leaf_at_def empty_map_def)

lemma getQTNode_leaf: "map_ok m \<Longrightarrow> getQTNode m p = pos_leaf m p"
  by (simp add: getQTNode_def leaf_at_static map_ok_def)

lemma pos_leaf_block:
  "map_ok m \<Longrightarrow> pos_leaf m p = Some i \<Longrightarrow> leaf_at m x y = Some i \<longleftrightarrow> same_block p x y"
  by (auto simp: map_ok_def blocks_agree_def same_block_def)

lemma leaf_index: "map_ok m \<Longrightarrow> leaf_at m x y = Some i \<Longrightarrow> i < length (leaves m)"
  by (auto simp: map_ok_def blocks_agree_def)

lemma registered_setTile:
  assumes "registered is_player w"
  shows "registered is_player (w\<lparr>gmap := setTile merge p t (gmap w)\<rparr>)"
proof (cases "pos_z p < MAP_MAX_LAYERS")
  case True
  have ok: "map_ok (gmap w)" using assms by (simp add: registered_def)
  from setTile_ready [OF this True, of merge t] obtain i m1 where
    set: "setTile merge p t (gmap w) = upd_leaf i (put_tile merge p t) m1"
    and ready: "ready (gmap w) (ucast (pos_x p)) (ucast (pos_y p)) i m1" by blast
  have ok1: "map_ok m1" using ready by (simp add: ready_def)
  have keep: "leaf_at m1 x y = Some j \<and> creature_list (leaves m1 ! j) = creature_list (leaves (gmap w) ! j) \<and>
      player_list (leaves m1 ! j) = player_list (leaves (gmap w) ! j)" if "leaf_at (gmap w) x y = Some j" for x y j
    using ready that by (auto simp: ready_def)
  have exact: "leaf_exact is_player (place w) x y (leaves m1 ! j)" if at: "leaf_at m1 x y = Some j" for x y j
  proof (cases "leaf_at (gmap w) x y")
    case None
    then have "creature_list (leaves m1 ! j) = []" "player_list (leaves m1 ! j) = []"
      using ready at by (auto simp: ready_def)
    moreover have "\<not> same_block q x y" if "place w c = Some q" for c q
    proof
      assume "same_block q x y"
      then have "leaf_at (gmap w) x y = pos_leaf (gmap w) q"
        using ok by (intro leaf_at_blocks) (simp_all add: same_block_def map_ok_def)
      moreover have "pos_leaf (gmap w) q \<noteq> None" using that assms unfolding registered_def by blast
      ultimately show False using None by simp
    qed
    ultimately show ?thesis by (auto simp: leaf_exact_def)
  next
    case (Some j')
    with keep [OF Some] at have "j' = j" by simp
    with keep [OF Some] Some assms show ?thesis by (auto simp: registered_def leaf_exact_def)
  qed
  have "leaf_exact is_player (place w) x y (leaves (upd_leaf i (put_tile merge p t) m1) ! j)"
    if "leaf_at m1 x y = Some j" for x y j
    using exact [OF that] leaf_index [OF ok1 that] by (cases "j = i") (simp_all add: leaves_upd leaf_exact_def)
  moreover have "pos_leaf m1 q \<noteq> None" if "place w c = Some q" for c q
    using that assms keep by (fastforce simp: registered_def)
  moreover have "map_ok (upd_leaf i (put_tile merge p t) m1)"
    using map_ok_setTile [OF ok, of merge p t] unfolding set .
  ultimately show ?thesis by (simp add: registered_def set)
qed (use assms in \<open>simp add: setTile_out not_less\<close>)

text \<open>Changes of one leaf's register and of one creature's place.\<close>

lemma registered_update:
  assumes ok: "map_ok m" and others: "\<And>x y j. leaf_at m x y = Some j \<Longrightarrow> j \<noteq> i \<Longrightarrow>
        leaf_exact is_player pos x y (leaves m ! j)"
    and one: "\<And>x y. leaf_at m x y = Some i \<Longrightarrow> leaf_exact is_player pos x y (f (leaves m ! i))"
    and links: "\<And>l. leafS (f l) = leafS l" "\<And>l. leafE (f l) = leafE l"
    and leaf: "\<And>c p. pos c = Some p \<Longrightarrow> pos_leaf m p \<noteq> None"
  shows "registered is_player \<lparr>gmap = upd_leaf i f m, place = pos\<rparr>"
proof -
  have "leaf_exact is_player pos x y (leaves (upd_leaf i f m) ! j)" if "leaf_at m x y = Some j" for x y j
    using that others [OF that] one [of x y] leaf_index [OF ok that] by (simp add: leaves_upd)
  then show ?thesis
    using map_ok_upd [OF ok links] leaf by (simp add: registered_def)
qed

lemma same_block_leaf:
  assumes "map_ok m" "same_block p x y"
  shows "pos_leaf m p = leaf_at m x y"
  using assms by (intro leaf_at_blocks) (simp_all add: same_block_def map_ok_def)

lemma addCreature_links [simp]: "leafS (addCreature is_player c l) = leafS l" "leafE (addCreature is_player c l) = leafE l"
  by (simp_all add: addCreature_def Let_def)

lemma leaf_exact_add:
  assumes "leaf_exact is_player pos x y l" "pos c = None" "same_block p x y"
  shows "leaf_exact is_player (pos(c \<mapsto> p)) x y (addCreature is_player c l)"
proof -
  have fresh: "c \<notin> set (creature_list l)" "c \<notin> set (player_list l)" using assms by (auto simp: leaf_exact_def)
  have "{d. \<exists>q. (pos(c \<mapsto> p)) d = Some q \<and> same_block q x y} = insert c {d. \<exists>q. pos d = Some q \<and> same_block q x y}"
    using assms(3) by auto
  then show ?thesis using assms(1) fresh by (auto simp: leaf_exact_def addCreature_def Let_def)
qed

lemma leaf_exact_other:
  assumes "leaf_exact is_player pos x y l" "\<not> same_block p x y" "\<And>q. pos c = Some q \<Longrightarrow> \<not> same_block q x y"
  shows "leaf_exact is_player (pos(c \<mapsto> p)) x y l" "leaf_exact is_player (pos(c := None)) x y l"
proof -
  have "{d. \<exists>q. (pos(c \<mapsto> p)) d = Some q \<and> same_block q x y} = {d. \<exists>q. pos d = Some q \<and> same_block q x y}"
    "{d. \<exists>q. (pos(c := None)) d = Some q \<and> same_block q x y} = {d. \<exists>q. pos d = Some q \<and> same_block q x y}"
    using assms(2,3) by (auto split: if_splits)
  then show "leaf_exact is_player (pos(c \<mapsto> p)) x y l" "leaf_exact is_player (pos(c := None)) x y l"
    using assms(1) by (simp_all add: leaf_exact_def)
qed

lemma leaf_exact_remove:
  assumes "leaf_exact is_player pos x y l" "pos c = Some p" "same_block p x y"
  obtains l' where "removeCreature is_player c l = Some l'" "leaf_exact is_player (pos(c := None)) x y l'"
    "leafS l' = leafS l" "leafE l' = leafE l"
proof -
  have c: "c \<in> set (creature_list l)" "distinct (creature_list l)" "distinct (player_list l)"
    "c \<in> set (player_list l) \<longleftrightarrow> is_player c" using assms by (auto simp: leaf_exact_def)
  obtain cs where cs: "swap_remove c (creature_list l) = Some cs" "distinct cs" "set cs = set (creature_list l) - {c}"
    using swap_remove_set [OF c(2,1)] .
  have set: "{d. \<exists>q. (pos(c := None)) d = Some q \<and> same_block q x y} = {d. \<exists>q. pos d = Some q \<and> same_block q x y} - {c}"
    by (auto split: if_splits)
  show thesis
  proof (cases "is_player c")
    case True
    then obtain ps where ps: "swap_remove c (player_list l) = Some ps" "distinct ps" "set ps = set (player_list l) - {c}"
      using swap_remove_set [OF c(3)] c(4) by blast
    have "leaf_exact is_player (pos(c := None)) x y (l\<lparr>creature_list := cs, player_list := ps\<rparr>)"
      using assms(1) cs ps set by (auto simp: leaf_exact_def)
    then show thesis using cs ps True by (intro that [of "l\<lparr>creature_list := cs, player_list := ps\<rparr>"]) (simp_all add: removeCreature_def)
  next
    case False
    have "leaf_exact is_player (pos(c := None)) x y (l\<lparr>creature_list := cs\<rparr>)"
      using assms(1) cs set False by (auto simp: leaf_exact_def)
    then show thesis using cs False by (intro that [of "l\<lparr>creature_list := cs\<rparr>"]) (simp_all add: removeCreature_def)
  qed
qed

lemma registered_add:
  assumes reg: "registered is_player w" and new: "place w c = None" and leaf: "pos_leaf (gmap w) p = Some i"
  shows "registered is_player (w\<lparr>gmap := upd_leaf i (addCreature is_player c) (gmap w), place := (place w)(c \<mapsto> p)\<rparr>)"
proof -
  have ok: "map_ok (gmap w)" using reg by (simp add: registered_def)
  have "registered is_player \<lparr>gmap = upd_leaf i (addCreature is_player c) (gmap w), place = (place w)(c \<mapsto> p)\<rparr>"
  proof (rule registered_update [OF ok])
    fix x y assume at: "leaf_at (gmap w) x y = Some i"
    then have "same_block p x y" using pos_leaf_block [OF ok leaf] by simp
    with at new reg show "leaf_exact is_player ((place w)(c \<mapsto> p)) x y (addCreature is_player c (leaves (gmap w) ! i))"
      by (intro leaf_exact_add) (auto simp: registered_def)
  next
    fix x y j assume at: "leaf_at (gmap w) x y = Some j" "j \<noteq> i"
    then have "\<not> same_block p x y" using same_block_leaf [OF ok, of p x y] leaf by auto
    with at new reg show "leaf_exact is_player ((place w)(c \<mapsto> p)) x y (leaves (gmap w) ! j)"
      by (intro leaf_exact_other) (auto simp: registered_def)
  next
    show "pos_leaf (gmap w) q \<noteq> None" if "((place w)(c \<mapsto> p)) d = Some q" for d q
      using that reg leaf by (auto simp: registered_def split: if_splits)
  qed simp_all
  then show ?thesis by (cases w) simp
qed

lemma registered_remove:
  assumes reg: "registered is_player w" and at: "place w c = Some p" "pos_leaf (gmap w) p = Some i"
  obtains m where "take_from_leaf is_player c i (gmap w) = Some m"
    "registered is_player (w\<lparr>gmap := m, place := (place w)(c := None)\<rparr>)" "\<And>x y. leaf_at m x y = leaf_at (gmap w) x y"
proof -
  have ok: "map_ok (gmap w)" using reg by (simp add: registered_def)
  let ?x = "ucast (pos_x p) :: u32" and ?y = "ucast (pos_y p) :: u32"
  have ex: "leaf_exact is_player (place w) ?x ?y (leaves (gmap w) ! i)" using reg at by (simp add: registered_def)
  have sb: "same_block p ?x ?y" by (simp add: same_block_def)
  obtain l' where l': "removeCreature is_player c (leaves (gmap w) ! i) = Some l'"
    "leaf_exact is_player ((place w)(c := None)) ?x ?y l'" "leafS l' = leafS (leaves (gmap w) ! i)" "leafE l' = leafE (leaves (gmap w) ! i)"
    by (rule leaf_exact_remove [OF ex at(1) sb])
  let ?m = "upd_leaf i (\<lambda>_. l') (gmap w)"
  let ?f = "\<lambda>l. l\<lparr>floors := floors l', creature_list := creature_list l', player_list := player_list l'\<rparr>"
  have f: "?f (leaves (gmap w) ! i) = l'" using l'(3,4) by simp
  then have m: "?m = upd_leaf i ?f (gmap w)" by (simp only: upd_leaf_def f)
  have "registered is_player \<lparr>gmap = upd_leaf i ?f (gmap w), place = (place w)(c := None)\<rparr>"
  proof (rule registered_update [OF ok])
    fix x y assume "leaf_at (gmap w) x y = Some i"
    then have "same_block p x y" using pos_leaf_block [OF ok at(2)] by simp
    then have "same_block q x y \<longleftrightarrow> same_block q ?x ?y" for q by (auto simp: same_block_def)
    with l'(2) show "leaf_exact is_player ((place w)(c := None)) x y (?f (leaves (gmap w) ! i))"
      unfolding f by (simp add: leaf_exact_def)
  next
    fix x y j assume a: "leaf_at (gmap w) x y = Some j" "j \<noteq> i"
    then have n: "\<not> same_block p x y" using same_block_leaf [OF ok, of p x y] at(2) by auto
    show "leaf_exact is_player ((place w)(c := None)) x y (leaves (gmap w) ! j)"
      by (rule leaf_exact_other(2) [OF _ n]) (use reg a n at(1) in \<open>auto simp: registered_def\<close>)
  next
    show "pos_leaf (gmap w) q \<noteq> None" if "((place w)(c := None)) d = Some q" for d q
      using that reg by (auto simp: registered_def split: if_splits)
  qed simp_all
  then have "registered is_player (w\<lparr>gmap := ?m, place := (place w)(c := None)\<rparr>)" unfolding m by (cases w) simp
  then show thesis using l'(1) by (intro that [of ?m]) (simp_all add: take_from_leaf_def)
qed


lemma registered_map_ok: "registered is_player w \<Longrightarrow> map_ok (gmap w)"
  by (simp add: registered_def)

lemma registered_place:
  assumes "registered is_player w" "place w c = Some p"
  obtains i where "pos_leaf (gmap w) p = Some i"
  using assms unfolding registered_def by blast

lemma registered_move:
  assumes reg: "registered is_player w" and move: "move_creature is_player c p w = Some w'"
  shows "registered is_player w'"
proof -
  note ok = registered_map_ok [OF reg]
  obtain old where old: "place w c = Some old" using move by (auto simp: move_creature_def split: option.splits)
  obtain i where i: "pos_leaf (gmap w) old = Some i" using registered_place [OF reg old] .
  show ?thesis
  proof (cases "pos_leaf (gmap w) p = Some i")
    case True
    then have w': "w' = w\<lparr>place := (place w)(c \<mapsto> p)\<rparr>"
      using move by (simp add: move_creature_def old getQTNode_leaf [OF ok] i)
    have sb: "same_block p x y \<longleftrightarrow> same_block old x y" for x y
      using pos_leaf_block [OF ok i] pos_leaf_block [OF ok True] by blast
    have "{d. \<exists>q. ((place w)(c \<mapsto> p)) d = Some q \<and> same_block q x y} = {d. \<exists>q. place w d = Some q \<and> same_block q x y}" for x y
      using old sb by (auto split: if_splits)
    then have "leaf_exact is_player ((place w)(c \<mapsto> p)) x y l = leaf_exact is_player (place w) x y l" for x y l
      by (simp add: leaf_exact_def)
    then have eq: "leaf_exact is_player ((place w)(c \<mapsto> p)) = leaf_exact is_player (place w)" by (intro ext)
    have sel: "gmap w' = gmap w" "place w' = (place w)(c \<mapsto> p)" by (simp_all add: w')
    show ?thesis using reg True unfolding registered_def sel eq by (auto split: if_splits)
  next
    case False
    obtain m where m: "take_from_leaf is_player c i (gmap w) = Some m"
      "registered is_player (w\<lparr>gmap := m, place := (place w)(c := None)\<rparr>)" "\<And>x y. leaf_at m x y = leaf_at (gmap w) x y"
      by (rule registered_remove [OF reg old i]) (rule that)
    from move False obtain j where j: "pos_leaf (gmap w) p = Some j"
      "w' = w\<lparr>gmap := upd_leaf j (addCreature is_player c) m, place := (place w)(c \<mapsto> p)\<rparr>"
      by (auto simp: move_creature_def old getQTNode_leaf [OF ok] i m(1) Let_def split: option.splits)
    have "pos_leaf m p = Some j" using j(1) m(3) by simp
    from registered_add [OF m(2), of c p j] this show ?thesis by (simp add: j(2))
  qed
qed

lemma registered_step:
  assumes "registered is_player w" "map_step is_player w w'"
  shows "registered is_player w'"
  using assms(2)
proof cases
  case (step_tile merge p t)
  then show ?thesis using registered_setTile [OF assms(1)] by simp
next
  case (step_register c p)
  then show ?thesis
    using registered_add [OF assms(1), of c p]
    by (auto simp: register_creature_def getQTNode_leaf [OF registered_map_ok [OF assms(1)]] split: option.splits)
next
  case (step_unregister c)
  then obtain p where p: "place w c = Some p" by (auto simp: unregister_creature_def split: option.splits)
  obtain i where i: "pos_leaf (gmap w) p = Some i" using registered_place [OF assms(1) p] .
  obtain m where m: "take_from_leaf is_player c i (gmap w) = Some m"
    "registered is_player (w\<lparr>gmap := m, place := (place w)(c := None)\<rparr>)"
    by (rule registered_remove [OF assms(1) p i])
  then show ?thesis using step_unregister p i
    by (auto simp: unregister_creature_def getQTNode_leaf [OF registered_map_ok [OF assms(1)]])
next
  case (step_move c p)
  then show ?thesis using registered_move [OF assms(1)] by simp
qed

interpretation register: invariant_system "(=) new_world" "map_step is_player" "registered is_player"
  by unfold_locales (use registered_new registered_step in blast)+

text \<open>
C4.
  Creatures are always taken from the leaf they are in: after any sequence of tile changes, placements,
  removals and moves, a creature on the map can be removed, and it can be moved to every position that
  has a leaf; the C++ asserts that the creature is found in the lists of the leaf (\<open>map.cpp:931\<close>,
  \<open>map.cpp:937\<close>) and would write through the end iterator when it was not.
\<close>

theorem creatures_are_found:
  assumes reach: "reach ((=) new_world) (map_step is_player) w" and on: "place w c = Some p"
  shows "unregister_creature is_player c w \<noteq> None \<and>
    (getQTNode (gmap w) p' = None \<or> move_creature is_player c p' w \<noteq> None)"
proof -
  note reg = register.reach_inv [OF reach]
  note ok = registered_map_ok [OF reg]
  obtain i where i: "pos_leaf (gmap w) p = Some i" using registered_place [OF reg on] .
  obtain m where "take_from_leaf is_player c i (gmap w) = Some m" by (rule registered_remove [OF reg on i])
  then show ?thesis
    using on i by (auto simp: unregister_creature_def move_creature_def getQTNode_leaf [OF ok] Let_def split: option.split)
qed

section \<open>The scan is exact\<close>

definition scan_hits :: "'tile world \<Rightarrow> scan_query \<Rightarrow> int \<Rightarrow> int \<Rightarrow> creature_id set" where
  "scan_hits w q x y = {c. \<exists>i p. leaf_at (gmap w) (word_of_int x) (word_of_int y) = Some i \<and>
     c \<in> set (if sq_players q then player_list (leaves (gmap w) ! i) else creature_list (leaves (gmap w) ! i)) \<and>
     place w c = Some p \<and> in_window q p}"

lemma scan_leaf_set:
  "scan_leaf pos q l acc = acc \<union> {c \<in> set (if sq_players q then player_list l else creature_list l).
     \<exists>p. pos c = Some p \<and> in_window q p}"
proof -
  have "fold (\<lambda>c s. case pos c of Some p \<Rightarrow> if in_window q p then insert c s else s | None \<Rightarrow> s) cs acc =
      acc \<union> {c \<in> set cs. \<exists>p. pos c = Some p \<and> in_window q p}" for cs
    by (induction cs arbitrary: acc) (auto split: option.split)
  then show ?thesis by (simp add: scan_leaf_def)
qed

lemma word_of_int_plus8: "(word_of_int (n + 8) :: u32) = word_of_int n + 8"
  by simp

lemma leaf_links:
  "map_ok m \<Longrightarrow> leaf_at m x y = Some i \<Longrightarrow> leafE (leaves m ! i) = leaf_at m (x + 8) y"
  "map_ok m \<Longrightarrow> leaf_at m x y = Some i \<Longrightarrow> leafS (leaves m ! i) = leaf_at m x (y + 8)"
  by (auto simp: map_ok_def links_ok_def)

lemma grid_step: "(\<exists>k :: nat. n + 8 * int k \<le> e \<and> P (n + 8 * int k)) \<longleftrightarrow>
    (n \<le> e \<and> P n) \<or> (\<exists>k :: nat. (n + 8) + 8 * int k \<le> e \<and> P ((n + 8) + 8 * int k))" (is "?L \<longleftrightarrow> ?R")
proof
  assume ?L
  then obtain k :: nat where k: "n + 8 * int k \<le> e" "P (n + 8 * int k)" by blast
  show ?R
  proof (cases k)
    case (Suc j)
    then have "n + 8 * int k = (n + 8) + 8 * int j" by simp
    with k show ?thesis by metis
  qed (use k in simp)
next
  assume ?R
  then consider "n \<le> e" "P n" | k :: nat where "(n + 8) + 8 * int k \<le> e" "P ((n + 8) + 8 * int k)" by blast
  then show ?L
  proof cases
    case (2 k)
    moreover have "n + 8 * int (Suc k) = (n + 8) + 8 * int k" by simp
    ultimately show ?thesis by metis
  qed (auto intro: exI [of _ 0])
qed

lemma scan_row_set:
  assumes ok: "map_ok (gmap w)"
  shows "leaf = leaf_at (gmap w) (word_of_int nx) (word_of_int ny) \<Longrightarrow>
    scan_row w q ny endx nx leaf acc = acc \<union> {c. \<exists>k :: nat. nx + 8 * int k \<le> endx \<and> c \<in> scan_hits w q (nx + 8 * int k) ny}"
proof (induction "nat (endx + 8 - nx)" arbitrary: nx leaf acc rule: less_induct)
  case less
  show ?case
  proof (cases "nx > endx")
    case True
    then show ?thesis by (subst scan_row.simps) auto
  next
    case False
    define acc' where "acc' = acc \<union> scan_hits w q nx ny"
    have "scan_row w q ny endx nx leaf acc =
        scan_row w q ny endx (nx + 8) (leaf_at (gmap w) (word_of_int (nx + 8)) (word_of_int ny)) acc'"
    proof (cases leaf)
      case None
      then have "scan_hits w q nx ny = {}" using less.prems by (simp add: scan_hits_def)
      with None False ok show ?thesis
        by (subst scan_row.simps) (simp add: acc'_def leaf_at_static map_ok_def)
    next
      case (Some i)
      with less.prems have i: "leaf_at (gmap w) (word_of_int nx) (word_of_int ny) = Some i" by simp
      have "scan_leaf (place w) q (leaves (gmap w) ! i) acc = acc'"
        by (auto simp: scan_leaf_set acc'_def scan_hits_def i)
      with Some False leaf_links(1) [OF ok i] show ?thesis
        by (subst scan_row.simps) (simp del: of_int_add add: word_of_int_plus8)
    qed
    also have "\<dots> = acc' \<union> {c. \<exists>k :: nat. (nx + 8) + 8 * int k \<le> endx \<and> c \<in> scan_hits w q ((nx + 8) + 8 * int k) ny}"
      using False by (intro less.hyps) auto
    finally show ?thesis
      using False grid_step [of nx endx "\<lambda>x. _ \<in> scan_hits w q x ny"] by (auto simp: acc'_def)
  qed
qed

lemma scan_rows_set:
  assumes ok: "map_ok (gmap w)"
  shows "leaf = leaf_at (gmap w) (word_of_int startx) (word_of_int ny) \<Longrightarrow>
    scan_rows w q startx endx endy ny leaf acc = acc \<union> {c. \<exists>l :: nat. ny + 8 * int l \<le> endy \<and>
      (\<exists>k :: nat. startx + 8 * int k \<le> endx \<and> c \<in> scan_hits w q (startx + 8 * int k) (ny + 8 * int l))}"
proof (induction "nat (endy + 8 - ny)" arbitrary: ny leaf acc rule: less_induct)
  case less
  define row where "row y = {c. \<exists>k :: nat. startx + 8 * int k \<le> endx \<and> c \<in> scan_hits w q (startx + 8 * int k) y}" for y
  show ?case
  proof (cases "ny > endy")
    case True
    then show ?thesis by (subst scan_rows.simps) auto
  next
    case False
    let ?next = "leaf_at (gmap w) (word_of_int startx) (word_of_int (ny + 8))"
    have "(case leaf of Some i \<Rightarrow> leafS (leaves (gmap w) ! i)
        | None \<Rightarrow> getLeafStatic (root (gmap w)) (word_of_int startx) (word_of_int (ny + 8))) = ?next"
      using less.prems [symmetric] leaf_links(2) [OF ok, of "word_of_int startx" "word_of_int ny"] ok
      by (cases leaf) (simp_all del: of_int_add add: word_of_int_plus8 leaf_at_static map_ok_def)
    then have "scan_rows w q startx endx endy ny leaf acc =
        scan_rows w q startx endx endy (ny + 8) ?next (scan_row w q ny endx startx leaf acc)"
      using False by (subst scan_rows.simps) simp
    also have "scan_row w q ny endx startx leaf acc = acc \<union> row ny"
      using scan_row_set [OF ok less.prems] by (simp add: row_def)
    also have "scan_rows w q startx endx endy (ny + 8) ?next (acc \<union> row ny) =
        (acc \<union> row ny) \<union> {c. \<exists>l :: nat. (ny + 8) + 8 * int l \<le> endy \<and> c \<in> row ((ny + 8) + 8 * int l)}"
      using False less.hyps [of "ny + 8", OF _ refl] by (simp add: row_def)
    finally show ?thesis
      using False grid_step [of ny endy "\<lambda>y. _ \<in> row y"] by (auto simp: row_def)
  qed
qed

text \<open>The grid of blocks covers every position of the window.\<close>

lemma block_start_le: "block_start a \<le> a" "a < block_start a + 8" "8 dvd block_start a"
  by (auto simp: block_start_def minus_mod_eq_mult_div)

lemma block_start_mono: "a \<le> b \<Longrightarrow> block_start a \<le> block_start b"
  unfolding block_start_def by presburger

lemma clip_bounds: "0 \<le> clip v" "clip v \<le> 65535"
  by (auto simp: clip_def)

lemma clip_cover: "0 \<le> x \<Longrightarrow> x \<le> 65535 \<Longrightarrow> a \<le> x \<Longrightarrow> x \<le> b \<Longrightarrow> clip a \<le> x \<and> x \<le> clip b"
  by (auto simp: clip_def)

lemma block_of_start:
  assumes "0 \<le> n" "n \<le> 65535"
  shows "block (word_of_int (block_start n)) = nat (n div 8)"
proof -
  have b: "block_start n = 8 * (n div 8)" by (simp add: block_start_def minus_mod_eq_mult_div)
  have "unat (word_of_int (block_start n) :: u32) = nat (8 * (n div 8))"
  proof -
    have "take_bit 32 (8 * (n div 8)) = 8 * (n div 8)" using assms by (intro take_bit_int_eq_self) simp_all
    then have "uint (word_of_int (8 * (n div 8)) :: u32) = 8 * (n div 8)" by (simp only: uint_word_of_int_eq) simp
    then show ?thesis unfolding b unat_eq_nat_uint by simp
  qed
  moreover have "nat (8 * (n div 8)) < 65536" using assms by simp
  moreover have "nat (8 * (n div 8)) div 8 = nat (n div 8)" using assms by (simp add: nat_mult_distrib)
  ultimately show ?thesis by (simp add: block_def)
qed

lemma block_u16: "block (ucast (a :: u16)) = nat (uint a div 8)"
proof -
  have "unat (ucast a :: u32) = unat a" using unat_less_u16 [of a] by (simp add: unsigned_ucast_eq take_bit_eq_mod del: unat_less_u16)
  moreover have "unat a < 65536" by simp
  moreover have "nat (uint a div 8) = unat a div 8" by (simp add: nat_div_distrib)
  ultimately show ?thesis by (simp add: block_def del: unat_less_u16)
qed

lemma grid_cover:
  assumes "clip a \<le> x" "x \<le> clip b"
  obtains k :: nat where "block_start (clip a) + 8 * int k \<le> block_start (clip b)"
    "block_start (clip a) + 8 * int k = block_start x"
proof -
  have "block_start (clip a) \<le> block_start x" "block_start x \<le> block_start (clip b)"
    using assms by (auto intro: block_start_mono)
  moreover have "8 dvd block_start x - block_start (clip a)" using block_start_le(3) by simp
  ultimately obtain j where "block_start x - block_start (clip a) = 8 * j" "0 \<le> j"
    by (auto elim!: dvdE)
  then show thesis
    using \<open>block_start x \<le> block_start (clip b)\<close> by (intro that [of "nat j"]) auto
qed

lemma scan_hits_iff:
  assumes "registered is_player w"
  shows "c \<in> scan_hits w q x y \<longleftrightarrow> (\<exists>p. place w c = Some p \<and> in_window q p \<and>
    same_block p (word_of_int x) (word_of_int y) \<and> (sq_players q \<longrightarrow> is_player c))"
proof -
  note ok = registered_map_ok [OF assms]
  have exact: "leaf_exact is_player (place w) (word_of_int x) (word_of_int y) (leaves (gmap w) ! i)"
    if "leaf_at (gmap w) (word_of_int x) (word_of_int y) = Some i" for i
    using assms that by (simp add: registered_def)
  have "\<exists>i. leaf_at (gmap w) (word_of_int x) (word_of_int y) = Some i"
    if "place w c = Some p" "same_block p (word_of_int x) (word_of_int y)" for p
    using registered_place [OF assms that(1)] same_block_leaf [OF ok that(2)] by metis
  with exact show ?thesis
    unfolding scan_hits_def leaf_exact_def by (cases "sq_players q") fastforce+
qed

lemma in_window_bounds:
  assumes "in_window q p"
  defines "z \<equiv> uint (pos_z (sq_center q))"
  shows "min_x q + (z - sq_maxZ q) \<le> uint (pos_x p)" "uint (pos_x p) \<le> max_x q + (z - sq_minZ q)"
    "min_y q + (z - sq_maxZ q) \<le> uint (pos_y p)" "uint (pos_y p) \<le> max_y q + (z - sq_minZ q)"
  using assms by (auto simp: in_window_def getOffsetZ_def Let_def split: if_splits)

lemma getSpectatorsInternal_exact:
  assumes reg: "registered is_player w"
  shows "getSpectatorsInternal w q acc = acc \<union> {c. \<exists>p. place w c = Some p \<and> in_window q p \<and> (sq_players q \<longrightarrow> is_player c)}"
proof -
  note ok = registered_map_ok [OF reg]
  define z where "z = uint (pos_z (sq_center q))"
  define x1 where "x1 = min_x q + (z - sq_maxZ q)"
  define y1 where "y1 = min_y q + (z - sq_maxZ q)"
  define x2 where "x2 = max_x q + (z - sq_minZ q)"
  define y2 where "y2 = max_y q + (z - sq_minZ q)"
  let ?bs = "\<lambda>v. block_start (clip v)"
  have "getSpectatorsInternal w q acc = scan_rows w q (?bs x1) (?bs x2) (?bs y2) (?bs y1)
      (leaf_at (gmap w) (word_of_int (?bs x1)) (word_of_int (?bs y1))) acc"
    using ok by (simp add: getSpectatorsInternal_def Let_def x1_def y1_def x2_def y2_def z_def leaf_at_static map_ok_def)
  also have "\<dots> = acc \<union> {c. \<exists>l :: nat. ?bs y1 + 8 * int l \<le> ?bs y2 \<and>
      (\<exists>k :: nat. ?bs x1 + 8 * int k \<le> ?bs x2 \<and> c \<in> scan_hits w q (?bs x1 + 8 * int k) (?bs y1 + 8 * int l))}"
    by (rule scan_rows_set [OF ok refl])
  also have "\<dots> = acc \<union> {c. \<exists>p. place w c = Some p \<and> in_window q p \<and> (sq_players q \<longrightarrow> is_player c)}"
  proof -
    have "\<exists>l :: nat. ?bs y1 + 8 * int l \<le> ?bs y2 \<and> (\<exists>k :: nat. ?bs x1 + 8 * int k \<le> ?bs x2 \<and>
        same_block p (word_of_int (?bs x1 + 8 * int k)) (word_of_int (?bs y1 + 8 * int l)))" if "in_window q p" for p
    proof -
      let ?px = "uint (pos_x p)" and ?py = "uint (pos_y p)"
      have r: "0 \<le> ?px" "?px \<le> 65535" "0 \<le> ?py" "?py \<le> 65535"
        using uint_less_u16 [of "pos_x p"] uint_less_u16 [of "pos_y p"] by (simp_all del: uint_less_u16)
      note b = in_window_bounds [OF that, folded z_def, folded x1_def x2_def y1_def y2_def]
      obtain k :: nat where k: "?bs x1 + 8 * int k \<le> ?bs x2" "?bs x1 + 8 * int k = block_start ?px"
        using grid_cover clip_cover [OF r(1,2) b(1,2)] by metis
      obtain l :: nat where l: "?bs y1 + 8 * int l \<le> ?bs y2" "?bs y1 + 8 * int l = block_start ?py"
        using grid_cover clip_cover [OF r(3,4) b(3,4)] by metis
      have "same_block p (word_of_int (block_start ?px)) (word_of_int (block_start ?py))"
        unfolding same_block_def by (simp only: block_of_start [OF r(1,2)] block_of_start [OF r(3,4)] block_u16)
      with k l show ?thesis by metis
    qed
    then show ?thesis unfolding scan_hits_iff [OF reg] by blast
  qed
  finally show ?thesis .
qed

section \<open>The queries and their cache\<close>

definition spectator_query :: "position \<Rightarrow> bool \<Rightarrow> bool \<Rightarrow> int \<Rightarrow> int \<Rightarrow> int \<Rightarrow> int \<Rightarrow> scan_query" where
  "spectator_query p multifloor onlyPlayers minRangeX maxRangeX minRangeY maxRangeY =
     \<lparr>sq_center = p, sq_minX = - default_range maxViewportX minRangeX, sq_maxX = default_range maxViewportX maxRangeX,
      sq_minY = - default_range maxViewportY minRangeY, sq_maxY = default_range maxViewportY maxRangeY,
      sq_minZ = fst (floor_range multifloor p), sq_maxZ = snd (floor_range multifloor p), sq_players = onlyPlayers\<rparr>"

definition in_view :: "(creature_id \<Rightarrow> bool) \<Rightarrow> (creature_id \<rightharpoonup> position) \<Rightarrow> scan_query \<Rightarrow> creature_id set" where
  "in_view is_player pos q = {c. \<exists>p. pos c = Some p \<and> in_window q p \<and> (sq_players q \<longrightarrow> is_player c)}"

abbreviation full_view :: "(creature_id \<Rightarrow> bool) \<Rightarrow> (creature_id \<rightharpoonup> position) \<Rightarrow> position \<Rightarrow> bool \<Rightarrow> creature_id set" where
  "full_view is_player pos p onlyPlayers \<equiv> in_view is_player pos (spectator_query p True onlyPlayers 0 0 0 0)"

definition caches_exact :: "(creature_id \<Rightarrow> bool) \<Rightarrow> (creature_id \<rightharpoonup> position) \<Rightarrow> caches \<Rightarrow> bool" where
  "caches_exact is_player pos cs \<longleftrightarrow>
     (\<forall>p s. spectatorCache cs p = Some s \<longrightarrow> s = full_view is_player pos p False) \<and>
     (\<forall>p s. playersSpectatorCache cs p = Some s \<longrightarrow> s = full_view is_player pos p True)"

lemma caches_exact_clear: "caches_exact is_player pos clearSpectatorCache"
  by (simp add: caches_exact_def clearSpectatorCache_def)

lemma players_in_view:
  "Set.filter is_player (full_view is_player pos p False) = full_view is_player pos p True"
proof -
  have "in_window (spectator_query p True False 0 0 0 0) = in_window (spectator_query p True True 0 0 0 0)"
    by (intro ext) (simp add: in_window_def spectator_query_def min_x_def max_x_def min_y_def max_y_def)
  then show ?thesis by (auto simp: in_view_def spectator_query_def)
qed

lemma cached_exact:
  "caches_exact is_player pos cs \<Longrightarrow> cached is_player cs p onlyPlayers = Some s \<Longrightarrow> s = full_view is_player pos p onlyPlayers"
  using players_in_view [of is_player pos p]
  by (auto simp: caches_exact_def cached_def split: option.splits if_splits)

definition full_range :: "bool \<Rightarrow> int \<Rightarrow> int \<Rightarrow> int \<Rightarrow> int \<Rightarrow> bool" where
  "full_range multifloor minRangeX maxRangeX minRangeY maxRangeY \<longleftrightarrow> multifloor \<and>
     minRangeX \<in> {0, 11} \<and> maxRangeX \<in> {0, 11} \<and> minRangeY \<in> {0, 11} \<and> maxRangeY \<in> {0, 11}"

lemma full_range_query:
  "full_range multifloor a b c d \<Longrightarrow> spectator_query p multifloor onlyPlayers a b c d = spectator_query p True onlyPlayers 0 0 0 0"
  by (auto simp: full_range_def spectator_query_def default_range_def)

text \<open>The three ways a query goes: a cached set, a scan that is stored, a scan that is not.\<close>

lemma getSpectators_cases:
  fixes multifloor onlyPlayers :: bool and a b c d :: int
  assumes reg: "registered is_player w" and z: "uint (pos_z p) < 16"
  defines "found \<equiv> in_view is_player (place w) (spectator_query p multifloor onlyPlayers a b c d)"
  obtains (hit) s where "full_range multifloor a b c d" "cached is_player cs p onlyPlayers = Some s"
      "getSpectators is_player w p multifloor onlyPlayers a b c d (S, cs) = (S \<union> s, cs)"
    | (miss) "full_range multifloor a b c d" "cached is_player cs p onlyPlayers = None"
      "getSpectators is_player w p multifloor onlyPlayers a b c d (S, cs) = (S \<union> found,
         if onlyPlayers then cs\<lparr>playersSpectatorCache := (playersSpectatorCache cs)(p \<mapsto> S \<union> found)\<rparr>
         else cs\<lparr>spectatorCache := (spectatorCache cs)(p \<mapsto> S \<union> found)\<rparr>)"
    | (partial) "\<not> full_range multifloor a b c d"
      "getSpectators is_player w p multifloor onlyPlayers a b c d (S, cs) = (S \<union> found, cs)"
proof -
  have full: "(- default_range 11 a = - 11 \<and> default_range 11 b = 11 \<and> - default_range 11 c = - 11 \<and>
      default_range 11 d = 11 \<and> multifloor) \<longleftrightarrow> full_range multifloor a b c d"
    by (auto simp: full_range_def default_range_def)
  have scan: "getSpectatorsInternal w (spectator_query p multifloor onlyPlayers a b c d) S = S \<union> found"
    by (simp add: getSpectatorsInternal_exact [OF reg] found_def in_view_def)
  have get: "getSpectators is_player w p multifloor onlyPlayers a b c d (S, cs) =
      (case (if full_range multifloor a b c d then cached is_player cs p onlyPlayers else None) of
         Some s \<Rightarrow> (S \<union> s, cs)
       | None \<Rightarrow> (S \<union> found, if full_range multifloor a b c d then
           (if onlyPlayers then cs\<lparr>playersSpectatorCache := (playersSpectatorCache cs)(p \<mapsto> S \<union> found)\<rparr>
            else cs\<lparr>spectatorCache := (spectatorCache cs)(p \<mapsto> S \<union> found)\<rparr>) else cs))"
  proof -
    obtain lo hi where fr: "floor_range multifloor p = (lo, hi)" by fastforce
    show ?thesis
      using z scan unfolding getSpectators_def Let_def full prod.case fr
      by (cases "full_range multifloor a b c d"; cases "cached is_player cs p onlyPlayers"; cases onlyPlayers)
        (simp_all add: spectator_query_def fr)
  qed
  show thesis
    by (cases "full_range multifloor a b c d"; cases "cached is_player cs p onlyPlayers")
      (auto simp: get intro: hit miss partial)
qed


text \<open>A small world: a tile at (100, 100, 7), and a player on it.\<close>

definition small_world :: "unit world" where
  "small_world = \<lparr>gmap = setTile (\<lambda>a b. b) (Position 100 100 7) () empty_map, place = Map.empty\<rparr>"

lemma small_world_leaf: "getQTNode (gmap small_world) (Position 100 100 7) \<noteq> None"
proof -
  obtain i m1 where m1: "gmap (small_world :: unit world) = upd_leaf i (put_tile (\<lambda>a b. b) (Position 100 100 7) ()) m1"
    "ready (empty_map :: unit game_map) (ucast (100 :: u16)) (ucast (100 :: u16)) i m1"
    using setTile_ready [OF map_ok_empty, of "Position 100 100 7" "\<lambda>a b. b" "()"] by (auto simp: small_world_def)
  have "map_ok (gmap (small_world :: unit world))" by (simp add: small_world_def map_ok_setTile map_ok_empty)
  then have "getQTNode (gmap small_world) (Position 100 100 7) = pos_leaf (gmap small_world) (Position 100 100 7)"
    by (rule getQTNode_leaf)
  with m1 show ?thesis by (simp add: ready_def)
qed

lemma small_world_reach:
  obtains w where "register_creature (\<lambda>_. True) 1 (Position 100 100 7) small_world = Some w"
    "reach ((=) new_world) (map_step (\<lambda>_. True)) w" "place w = [1 \<mapsto> Position 100 100 7]"
    "getQTNode (gmap w) (Position 100 100 7) \<noteq> None"
proof -
  obtain w where w: "register_creature (\<lambda>_. True) 1 (Position 100 100 7) small_world = Some w"
    using small_world_leaf by (auto simp: register_creature_def)
  have "map_step (\<lambda>_. True) new_world small_world"
    using step_tile [of "\<lambda>_. True" new_world "\<lambda>a b. b" "Position 100 100 7" "()"]
    by (simp add: small_world_def new_world_def)
  moreover have "map_step (\<lambda>_. True) small_world w"
    using w by (rule step_register [rotated]) (simp add: small_world_def)
  ultimately have "reach ((=) new_world) (map_step (\<lambda>_. True)) w"
    by (blast intro: reach_init reach_step)
  moreover have "place w = [1 \<mapsto> Position 100 100 7]" "getQTNode (gmap w) (Position 100 100 7) \<noteq> None"
    using w small_world_leaf by (auto simp: register_creature_def small_world_def getQTNode_def)
  ultimately show thesis using w by (intro that [of w])
qed

theorem creatures_are_found_witness:
  "\<exists>w :: unit world. place w 1 = Some (Position 100 100 7) \<and> unregister_creature (\<lambda>_. True) 1 w \<noteq> None \<and>
     move_creature (\<lambda>_. True) 1 (Position 100 100 7) w \<noteq> None"
proof -
  obtain w :: "unit world" where w: "reach ((=) new_world) (map_step (\<lambda>_. True)) w" "place w = [1 \<mapsto> Position 100 100 7]"
    "getQTNode (gmap w) (Position 100 100 7) \<noteq> None" by (rule small_world_reach)
  then show ?thesis using creatures_are_found [OF w(1), of 1 "Position 100 100 7" "Position 100 100 7"]
    by (intro exI [of _ w]) auto
qed


text \<open>
  Asked with a set that is not empty, \<open>getSpectators\<close> stores the creatures of that set too: the cache stays
  exact exactly when the given creatures are in the window anyway. \<open>Monster::convinceCreature\<close> asks twice
  for one set (\<open>monster.cpp:1991\<close>), so that the cached spectators of the second position include those of
  the first until the cache is cleared.
\<close>

theorem getSpectators_cache_keeps_given:
  assumes reach: "reach ((=) new_world) (map_step is_player) w"
    and exact: "caches_exact is_player (place w) cs" and z: "uint (pos_z p) < 16"
    and miss: "spectatorCache cs p = None"
  shows "caches_exact is_player (place w) (snd (getSpectators is_player w p True False 0 0 0 0 (S, cs))) \<longleftrightarrow>
    S \<subseteq> full_view is_player (place w) p False"
proof -
  have full: "full_range True 0 0 0 0" by (simp add: full_range_def)
  have none: "cached is_player cs p False = None" using miss by (simp add: cached_def)
  show ?thesis
  proof (cases rule: getSpectators_cases [OF register.reach_inv [OF reach] z, of True 0 0 0 0 cs False S, case_names hit miss partial])
    case miss
    then show ?thesis using exact by (auto simp: caches_exact_def)
  qed (use full none in simp_all)
qed

theorem getSpectators_cache_keeps_given_witness:
  "\<exists>w :: unit world. \<not> caches_exact (\<lambda>_. True) (place w)
     (snd (getSpectators (\<lambda>_. True) w (Position 500 500 7) True False 0 0 0 0 ({1}, clearSpectatorCache)))"
proof -
  obtain w :: "unit world" where w: "reach ((=) new_world) (map_step (\<lambda>_. True)) w" "place w = [1 \<mapsto> Position 100 100 7]"
    by (rule small_world_reach)
  have "\<not> in_window (spectator_query (Position 500 500 7) True False 0 0 0 0) (Position 100 100 7)"
    by code_simp
  then have "\<not> {1} \<subseteq> full_view (\<lambda>_. True) (place w) (Position 500 500 7) False"
    by (auto simp: in_view_def w(2))
  with getSpectators_cache_keeps_given [OF w(1) caches_exact_clear, of "Position 500 500 7" "{1}"] show ?thesis
    by (auto simp: clearSpectatorCache_def)
qed

end
