(* ===== verification/Access_List.thy ===== *)
theory Access_List imports Text_Tools Tfs_Prelude begin

text \<open>
  The access lists of houses and doors, from \<open>src/src/house.cpp\<close>: the text of a list is parsed into
  players, guilds and name expressions, and a player is looked up in them. An expression is compiled
  into a regular expression; the ones that can arise are modelled with their matching. The look-up of a
  player or a guild by name is a parameter.
\<close>

section \<open>Regular expressions\<close>

text \<open>
  The part of \<open>std::regex\<close> that \<open>addExpression\<close> uses: characters, escaped characters, any character, and
  any character with a star or a question mark. \<open>None\<close> stands for a pattern outside of this part.
\<close>

datatype rx = RChar char | RAny | RAnyStar | RAnyOpt

abbreviation "metachars \<equiv> ''.[{}()'' @ [CHR 0x5C] @ ''+|^$''"

fun regex :: "string \<Rightarrow> rx list option" where
  "regex [] = Some []"
| "regex (c # cs) =
     (if c = CHR 0x5C then
        (case cs of
           d # ds \<Rightarrow> if d \<in> set metachars then map_option (Cons (RChar d)) (regex ds) else None
         | [] \<Rightarrow> None)
      else if c = CHR ''.'' then
        (case cs of
           d # ds \<Rightarrow>
             if d = CHR ''*'' then map_option (Cons RAnyStar) (regex ds)
             else if d = CHR ''?'' then map_option (Cons RAnyOpt) (regex ds)
             else map_option (Cons RAny) (regex cs)
         | [] \<Rightarrow> Some [RAny])
      else if c \<in> set metachars \<or> c = CHR ''*'' \<or> c = CHR ''?'' then None
      else map_option (Cons (RChar c)) (regex cs))"

text \<open>The dot does not match a line terminator.\<close>

definition any_char :: "char \<Rightarrow> bool" where
  "any_char c \<longleftrightarrow> c \<noteq> CHR 0x0A \<and> c \<noteq> CHR 0x0D"

function rx_match :: "rx list \<Rightarrow> string \<Rightarrow> bool" where
  "rx_match [] s = (s = [])"
| "rx_match (RChar c # r) s = (case s of [] \<Rightarrow> False | d # ds \<Rightarrow> d = c \<and> rx_match r ds)"
| "rx_match (RAny # r) s = (case s of [] \<Rightarrow> False | d # ds \<Rightarrow> any_char d \<and> rx_match r ds)"
| "rx_match (RAnyStar # r) s =
     (rx_match r s \<or> (case s of [] \<Rightarrow> False | d # ds \<Rightarrow> any_char d \<and> rx_match (RAnyStar # r) ds))"
| "rx_match (RAnyOpt # r) s =
     (rx_match r s \<or> (case s of [] \<Rightarrow> False | d # ds \<Rightarrow> any_char d \<and> rx_match r ds))"
  by pat_completeness auto
termination by (relation "measure (\<lambda>(r, s). length r + length s)") auto

text \<open>\<open>regex_match\<close> on a C string.\<close>

definition regex_match :: "string \<Rightarrow> rx list \<Rightarrow> bool" where
  "regex_match s r = rx_match r (takeWhile (\<lambda>c. c \<noteq> CHR 0x00) s)"

section \<open>Lists\<close>

record directory =
  online_guid :: "string \<Rightarrow> u32 option"
  guid_by_name :: "string \<Rightarrow> u32"
  guild_by_name :: "string \<Rightarrow> u32"

record person =
  person_name :: string
  person_guid :: u32
  person_guild :: "u32 option"
  can_edit_houses :: bool

record access_list =
  list_text :: string
  playerList :: "u32 set"
  guildList :: "u32 set"
  expressionList :: "string list"
  regExList :: "(rx list \<times> bool) list"

definition new_access_list :: access_list where
  "new_access_list = \<lparr>list_text = [], playerList = {}, guildList = {}, expressionList = [], regExList = []\<rparr>"

definition al_addPlayer :: "directory \<Rightarrow> string \<Rightarrow> access_list \<Rightarrow> access_list" where
  "al_addPlayer dir name al =
     (case online_guid dir name of
        Some guid \<Rightarrow> al\<lparr>playerList := insert guid (playerList al)\<rparr>
      | None \<Rightarrow>
          let guid = guid_by_name dir name in
          if guid \<noteq> 0 then al\<lparr>playerList := insert guid (playerList al)\<rparr> else al)"

definition al_addGuild :: "directory \<Rightarrow> string \<Rightarrow> access_list \<Rightarrow> access_list" where
  "al_addGuild dir name al =
     (let guildId = guild_by_name dir name in
      if guildId \<noteq> 0 then al\<lparr>guildList := insert guildId (guildList al)\<rparr> else al)"

definition escape_expression :: "string \<Rightarrow> string" where
  "escape_expression expression =
     (let outExp0 = concat (map (\<lambda>c. if c \<in> set metachars then [CHR 0x5C, c] else [c]) expression);
          outExp1 = the (replaceString outExp0 ''*'' ''.*'')
      in the (replaceString outExp1 ''?'' ''.?''))"

definition addExpression :: "string \<Rightarrow> access_list \<Rightarrow> access_list" where
  "addExpression expression al =
     (if expression \<in> set (expressionList al) then al
      else
        let outExp = escape_expression expression in
        if outExp = [] then al
        else
          let al1 = al\<lparr>expressionList := expressionList al @ [outExp]\<rparr> in
          if hd outExp = CHR ''!'' then
            if length outExp > 1 then
              (case regex (tl outExp) of
                 Some r \<Rightarrow> al1\<lparr>regExList := (r, False) # regExList al1\<rparr>
               | None \<Rightarrow> al1)
            else al1
          else
            (case regex outExp of
               Some r \<Rightarrow> al1\<lparr>regExList := regExList al1 @ [(r, True)]\<rparr>
             | None \<Rightarrow> al1))"

text \<open>\<open>getline\<close> on a string stream: what follows the last line feed is a line when it is not empty.\<close>

fun getlines :: "string \<Rightarrow> string list" where
  "getlines [] = []"
| "getlines (c # cs) =
     (if c = CHR 0x0A then [] # getlines cs
      else case getlines cs of
             [] \<Rightarrow> [[c]]
           | l # ls \<Rightarrow> (c # l) # ls)"

definition trim_line :: "string \<Rightarrow> string" where
  "trim_line line = trimString (trim_right (CHR 0x09) (trim_left (CHR 0x09) (trimString line)))"

definition parse_line :: "directory \<Rightarrow> string \<Rightarrow> access_list \<Rightarrow> access_list" where
  "parse_line dir line0 al =
     (let line1 = trim_line line0 in
      if line1 = [] \<or> hd line1 = CHR ''#'' \<or> length line1 > 100 then al
      else
        let line = asLowerCaseString line1 in
        case string_find line ''@'' 0 of
          Some at_pos \<Rightarrow> al_addGuild dir (drop (at_pos + 1) line) al
        | None \<Rightarrow>
            if string_find line ''!'' 0 \<noteq> None \<or> string_find line ''*'' 0 \<noteq> None \<or> string_find line ''?'' 0 \<noteq> None
            then addExpression line al
            else al_addPlayer dir line al)"

definition parseList :: "directory \<Rightarrow> string \<Rightarrow> access_list \<Rightarrow> access_list" where
  "parseList dir text al =
     (let al0 = \<lparr>list_text = text, playerList = {}, guildList = {}, expressionList = [], regExList = []\<rparr> in
      if text = [] then al0 else fold (parse_line dir) (getlines text) al0)"

fun first_match :: "string \<Rightarrow> (rx list \<times> bool) list \<Rightarrow> bool option" where
  "first_match name [] = None"
| "first_match name ((r, b) # rs) = (if regex_match name r then Some b else first_match name rs)"

definition isInList :: "access_list \<Rightarrow> person \<Rightarrow> bool" where
  "isInList al player =
     (case first_match (asLowerCaseString (person_name player)) (regExList al) of
        Some b \<Rightarrow> b
      | None \<Rightarrow>
          if person_guid player \<in> playerList al then True
          else (case person_guild player of None \<Rightarrow> False | Some g \<Rightarrow> g \<in> guildList al))"

section \<open>Expressions are glob patterns\<close>

text \<open>What a pattern stands for: a star any text, a question mark at most one character.\<close>

definition glob_piece :: "char \<Rightarrow> string \<Rightarrow> bool" where
  "glob_piece c w \<longleftrightarrow>
     (if c = CHR ''*'' then list_all any_char w
      else if c = CHR ''?'' then list_all any_char w \<and> length w \<le> 1
      else w = [c])"

definition glob :: "string \<Rightarrow> string \<Rightarrow> bool" where
  "glob p s \<longleftrightarrow> (\<exists>ws. list_all2 glob_piece p ws \<and> s = concat ws)"

definition glob_rx :: "char \<Rightarrow> rx" where
  "glob_rx c = (if c = CHR ''*'' then RAnyStar else if c = CHR ''?'' then RAnyOpt else RChar c)"

lemma glob_Nil [simp]: "glob [] s \<longleftrightarrow> s = []"
  by (auto simp: glob_def)

lemma glob_Cons: "glob (c # p) s \<longleftrightarrow> (\<exists>w s'. glob_piece c w \<and> glob p s' \<and> s = w @ s')"
proof
  assume "glob (c # p) s"
  then obtain w ws where "glob_piece c w" "list_all2 glob_piece p ws" "s = w @ concat ws"
    by (auto simp: glob_def list_all2_Cons1)
  then show "\<exists>w s'. glob_piece c w \<and> glob p s' \<and> s = w @ s'" unfolding glob_def by blast
next
  assume "\<exists>w s'. glob_piece c w \<and> glob p s' \<and> s = w @ s'"
  then obtain w ws where "glob_piece c w" "list_all2 glob_piece p ws" "s = concat (w # ws)"
    by (auto simp: glob_def)
  then show "glob (c # p) s" unfolding glob_def by (intro exI [of _ "w # ws"]) simp
qed

lemma glob_star: "glob (CHR ''*'' # p) s \<longleftrightarrow>
    glob p s \<or> (case s of [] \<Rightarrow> False | d # ds \<Rightarrow> any_char d \<and> glob (CHR ''*'' # p) ds)" (is "?L \<longleftrightarrow> ?R")
proof
  assume ?L
  then obtain w s' where w: "list_all any_char w" "glob p s'" "s = w @ s'" by (auto simp: glob_Cons glob_piece_def)
  then show ?R by (cases w) (auto simp: glob_Cons glob_piece_def)
next
  have piece: "glob_piece (CHR ''*'') [] \<and> (any_char d \<longrightarrow> glob_piece (CHR ''*'') w \<longrightarrow> glob_piece (CHR ''*'') (d # w))" for d w
    by (simp add: glob_piece_def)
  assume ?R
  then consider "glob p s" | d w s' where "any_char d" "glob_piece (CHR ''*'') w" "glob p s'" "s = d # w @ s'"
    by (auto simp: glob_Cons split: list.splits)
  then show ?L
  proof cases
    case 1
    then show ?thesis using piece unfolding glob_Cons by (metis append_Nil)
  next
    case 2
    then show ?thesis using piece unfolding glob_Cons by (metis append_Cons)
  qed
qed

lemma glob_opt: "glob (CHR ''?'' # p) s \<longleftrightarrow> glob p s \<or> (case s of [] \<Rightarrow> False | d # ds \<Rightarrow> any_char d \<and> glob p ds)"
proof -
  have piece: "glob_piece (CHR ''?'') w \<longleftrightarrow> w = [] \<or> (\<exists>d. w = [d] \<and> any_char d)" for w
    by (cases w) (auto simp: glob_piece_def)
  show ?thesis unfolding glob_Cons piece
    by (cases s) (auto simp add: conj_disj_distribR ex_disj_distrib)
qed

lemma glob_char: "c \<noteq> CHR ''*'' \<Longrightarrow> c \<noteq> CHR ''?'' \<Longrightarrow>
    glob (c # p) s \<longleftrightarrow> (case s of [] \<Rightarrow> False | d # ds \<Rightarrow> d = c \<and> glob p ds)"
  by (auto simp: glob_Cons glob_piece_def split: list.split)

lemma rx_match_glob: "rx_match (map glob_rx p) s \<longleftrightarrow> glob p s"
proof (induction p arbitrary: s)
  case (Cons c p)
  consider (star) "c = CHR ''*''" | (opt) "c = CHR ''?''" | (other) "c \<noteq> CHR ''*''" "c \<noteq> CHR ''?''" by blast
  then show ?case
  proof cases
    case star
    have "rx_match (RAnyStar # map glob_rx p) s \<longleftrightarrow> glob (CHR ''*'' # p) s"
    proof (induction s)
      case (Cons d s)
      then show ?case using \<open>\<And>s. rx_match (map glob_rx p) s = glob p s\<close> by (simp add: glob_star [of p "d # s"])
    qed (simp add: \<open>\<And>s. rx_match (map glob_rx p) s = glob p s\<close> glob_star)
    moreover have "map glob_rx (c # p) = RAnyStar # map glob_rx p" by (simp add: star glob_rx_def)
    ultimately show ?thesis by (simp only: star)
  next
    case opt
    then show ?thesis using Cons.IH by (auto simp: glob_rx_def glob_opt split: list.split)
  next
    case other
    then show ?thesis using Cons.IH by (auto simp: glob_rx_def glob_char split: list.split)
  qed
qed simp

definition escape_char :: "char \<Rightarrow> string" where
  "escape_char c = (if c \<in> set metachars then [CHR 0x5C, c] else if c = CHR ''*'' then ''.*''
     else if c = CHR ''?'' then ''.?'' else [c])"

lemma escape_expression_chars: "escape_expression e = concat (map escape_char e)"
proof -
  have "replaceString (concat (map f e)) [a] r = Some (concat (map (\<lambda>c. concat (map (\<lambda>x. if x = a then r else [x]) (f c))) e))"
    for f a r
    unfolding replaceString_char by (induction e) auto
  then show ?thesis
    by (simp add: escape_expression_def escape_char_def Let_def if_distrib cong: if_cong)
       (rule arg_cong [where f = concat], auto simp: escape_char_def)
qed

lemma regex_escape: "regex (concat (map escape_char e)) = Some (map glob_rx e)"
proof (induction e)
  case (Cons c e)
  then show ?case by (auto simp: escape_char_def glob_rx_def)
qed simp


section \<open>What a list admits\<close>

text \<open>
  The reading of a list without the parsed state: each line that counts excludes the players of a
  pattern, or admits those of a pattern, a guild or one player by name; excluding comes first.
\<close>

definition counted_lines :: "string \<Rightarrow> string list" where
  "counted_lines text = map asLowerCaseString
     (filter (\<lambda>l. l \<noteq> [] \<and> hd l \<noteq> CHR ''#'' \<and> length l \<le> 100) (map trim_line (getlines text)))"

definition is_guild_line :: "string \<Rightarrow> bool" where
  "is_guild_line l \<longleftrightarrow> CHR ''@'' \<in> set l"

definition is_pattern_line :: "string \<Rightarrow> bool" where
  "is_pattern_line l \<longleftrightarrow> \<not> is_guild_line l \<and> (CHR ''!'' \<in> set l \<or> CHR ''*'' \<in> set l \<or> CHR ''?'' \<in> set l)"

definition guild_of_line :: "string \<Rightarrow> string" where
  "guild_of_line l = tl (dropWhile (\<lambda>c. c \<noteq> CHR ''@'') l)"

definition guid_of_name :: "directory \<Rightarrow> string \<Rightarrow> u32 option" where
  "guid_of_name dir name =
     (case online_guid dir name of Some guid \<Rightarrow> Some guid
      | None \<Rightarrow> if guid_by_name dir name \<noteq> 0 then Some (guid_by_name dir name) else None)"

definition c_str_name :: "person \<Rightarrow> string" where
  "c_str_name player = takeWhile (\<lambda>c. c \<noteq> CHR 0x00) (asLowerCaseString (person_name player))"

definition line_excludes :: "person \<Rightarrow> string \<Rightarrow> bool" where
  "line_excludes player l \<longleftrightarrow> is_pattern_line l \<and> hd l = CHR ''!'' \<and> length l > 1 \<and> glob (tl l) (c_str_name player)"

definition line_admits :: "directory \<Rightarrow> person \<Rightarrow> string \<Rightarrow> bool" where
  "line_admits dir player l \<longleftrightarrow>
     (if is_guild_line l then
        (\<exists>g. person_guild player = Some g \<and> g = guild_by_name dir (guild_of_line l) \<and> g \<noteq> 0)
      else if is_pattern_line l then hd l \<noteq> CHR ''!'' \<and> glob l (c_str_name player)
      else guid_of_name dir l = Some (person_guid player))"

definition list_admits :: "directory \<Rightarrow> string \<Rightarrow> person \<Rightarrow> bool" where
  "list_admits dir text player \<longleftrightarrow>
     (\<forall>l \<in> set (counted_lines text). \<not> line_excludes player l) \<and>
     (\<exists>l \<in> set (counted_lines text). line_admits dir player l)"

text \<open>The parsed state of a list of lines: exclusions stand before the other expressions.\<close>

definition exclusions :: "string list \<Rightarrow> string set" where
  "exclusions ls = {tl l | l. l \<in> set ls \<and> is_pattern_line l \<and> hd l = CHR ''!'' \<and> length l > 1}"

definition inclusions :: "string list \<Rightarrow> string set" where
  "inclusions ls = {l \<in> set ls. is_pattern_line l \<and> hd l \<noteq> CHR ''!''}"

definition parsed :: "directory \<Rightarrow> string list \<Rightarrow> access_list \<Rightarrow> bool" where
  "parsed dir ls al \<longleftrightarrow>
     playerList al = {g. \<exists>l \<in> set ls. \<not> is_guild_line l \<and> \<not> is_pattern_line l \<and> guid_of_name dir l = Some g} \<and>
     guildList al = {g. g \<noteq> 0 \<and> (\<exists>l \<in> set ls. is_guild_line l \<and> g = guild_by_name dir (guild_of_line l))} \<and>
     (\<exists>ex inc. regExList al = map (\<lambda>r. (r, False)) ex @ map (\<lambda>r. (r, True)) inc \<and>
        set ex = map glob_rx ` exclusions ls \<and> set inc = map glob_rx ` inclusions ls) \<and>
     (\<forall>e \<in> set (expressionList al). \<exists>l \<in> set ls. is_pattern_line l \<and> e = escape_expression l)"

definition use_line :: "directory \<Rightarrow> string \<Rightarrow> access_list \<Rightarrow> access_list" where
  "use_line dir l al =
     (if is_guild_line l then al_addGuild dir (guild_of_line l) al
      else if is_pattern_line l then addExpression l al
      else al_addPlayer dir l al)"

lemma string_find_char: "string_find s [c] 0 = (if c \<in> set s then Some (length (takeWhile (\<lambda>x. x \<noteq> c) s)) else None)"
  by (simp add: string_find_def find_from_char option.map_ident)

lemma parse_line_use:
  "parse_line dir l0 al =
     (let l = trim_line l0 in if l = [] \<or> hd l = CHR ''#'' \<or> length l > 100 then al else use_line dir (asLowerCaseString l) al)"
proof -
  have guild: "drop (length (takeWhile (\<lambda>c. c \<noteq> CHR ''@'') l) + 1) l = guild_of_line l" for l
    by (simp add: guild_of_line_def dropWhile_eq_drop drop_Suc tl_drop)
  show ?thesis
    unfolding parse_line_def use_line_def Let_def string_find_char is_guild_line_def is_pattern_line_def
    by (simp add: guild del: One_nat_def)
qed

lemma fold_parse_lines: "fold (parse_line dir) (getlines text) al = fold (use_line dir) (counted_lines text) al"
proof -
  have "fold (parse_line dir) ls al = fold (use_line dir) (map asLowerCaseString
     (filter (\<lambda>l. l \<noteq> [] \<and> hd l \<noteq> CHR ''#'' \<and> length l \<le> 100) (map trim_line ls))) al" for ls
    by (induction ls arbitrary: al) (auto simp: parse_line_use Let_def)
  then show ?thesis by (simp add: counted_lines_def)
qed

text \<open>
  The test for an expression that was seen before compares it with the escaped ones; a pattern that
  reads like another one escaped would be dropped.
\<close>

definition no_clash :: "string list \<Rightarrow> bool" where
  "no_clash ls \<longleftrightarrow> (\<forall>l \<in> set ls. \<forall>k \<in> set ls. is_pattern_line l \<and> is_pattern_line k \<and> k = escape_expression l \<longrightarrow> k = l)"

lemma escape_hd:
  assumes "l \<noteq> []"
  shows "escape_expression l \<noteq> []" "hd (escape_expression l) = CHR ''!'' \<longleftrightarrow> hd l = CHR ''!''"
    "regex (escape_expression l) = Some (map glob_rx l)"
    "hd l = CHR ''!'' \<Longrightarrow> regex (tl (escape_expression l)) = Some (map glob_rx (tl l))"
    "hd l = CHR ''!'' \<Longrightarrow> length (escape_expression l) > 1 \<longleftrightarrow> length l > 1"
proof -
  obtain c cs where l: "l = c # cs" using assms by (cases l) auto
  let ?E = "concat (map escape_char cs)"
  have ne: "escape_char d \<noteq> []" for d by (simp add: escape_char_def)
  then have E: "?E = [] \<longleftrightarrow> cs = []" by (cases cs) auto
  have esc: "escape_expression l = escape_char c @ ?E" by (simp add: l escape_expression_chars)
  have hd: "hd (escape_char c) = CHR ''!'' \<longleftrightarrow> c = CHR ''!''" by (simp add: escape_char_def)
  have bang: "escape_expression l = CHR ''!'' # ?E" if "c = CHR ''!''" using that esc by (simp add: escape_char_def)
  have rx: "regex (escape_expression l) = Some (map glob_rx l)" "regex ?E = Some (map glob_rx cs)"
    using regex_escape by (simp_all add: escape_expression_chars)
  show "escape_expression l \<noteq> []" "hd (escape_expression l) = CHR ''!'' \<longleftrightarrow> hd l = CHR ''!''"
    using ne [of c] hd by (simp_all add: esc) (simp add: l)
  show "regex (escape_expression l) = Some (map glob_rx l)"
    "hd l = CHR ''!'' \<Longrightarrow> regex (tl (escape_expression l)) = Some (map glob_rx (tl l))"
    "hd l = CHR ''!'' \<Longrightarrow> length (escape_expression l) > 1 \<longleftrightarrow> length l > 1"
    using E rx bang by (simp_all add: l)
qed

lemma pattern_line_ne: "is_pattern_line l \<Longrightarrow> l \<noteq> []"
  by (auto simp: is_pattern_line_def)

lemma addExpression_new:
  assumes "is_pattern_line l" "l \<notin> set (expressionList al)"
  shows "addExpression l al = al\<lparr>expressionList := expressionList al @ [escape_expression l],
     regExList := (if hd l = CHR ''!'' then
                     if length l > 1 then (map glob_rx (tl l), False) # regExList al else regExList al
                   else regExList al @ [(map glob_rx l, True)])\<rparr>"
  using assms escape_hd [OF pattern_line_ne [OF assms(1)]] by (cases al) (simp add: addExpression_def Let_def)

lemma exclusions_snoc: "exclusions (ls @ [l]) = exclusions ls \<union>
    (if is_pattern_line l \<and> hd l = CHR ''!'' \<and> length l > 1 then {tl l} else {})"
  unfolding exclusions_def by auto

lemma inclusions_snoc: "inclusions (ls @ [l]) = inclusions ls \<union>
    (if is_pattern_line l \<and> hd l \<noteq> CHR ''!'' then {l} else {})"
  unfolding inclusions_def by auto

lemma parsed_use_line:
  assumes "parsed dir ls al" "no_clash (ls @ [l])"
  shows "parsed dir (ls @ [l]) (use_line dir l al)"
proof -
  consider (guild) "is_guild_line l" "\<not> is_pattern_line l" | (pattern) "is_pattern_line l" "\<not> is_guild_line l"
    | (player) "\<not> is_guild_line l" "\<not> is_pattern_line l" by (auto simp: is_pattern_line_def)
  then show ?thesis
  proof cases
    case guild
    with assms(1) show ?thesis
      by (auto simp: use_line_def al_addGuild_def parsed_def exclusions_snoc inclusions_snoc Let_def)
  next
    case player
    with assms(1) show ?thesis
      by (auto simp: use_line_def al_addPlayer_def parsed_def exclusions_snoc inclusions_snoc Let_def guid_of_name_def split: option.splits)
  next
    case pattern
    show ?thesis
    proof (cases "l \<in> set (expressionList al)")
      case True
      with assms(1) obtain k where "k \<in> set ls" "is_pattern_line k" "l = escape_expression k" by (auto simp: parsed_def)
      with assms(2) pattern have "l \<in> set ls" by (auto simp: no_clash_def)
      then have "set (ls @ [l]) = set ls" by auto
      then have "parsed dir (ls @ [l]) = parsed dir ls" by (intro ext) (simp only: parsed_def exclusions_def inclusions_def)
      moreover have "use_line dir l al = al" using True pattern by (simp add: use_line_def addExpression_def)
      ultimately show ?thesis using assms(1) by simp
    next
      case False
      from assms(1) obtain ex inc where rx: "regExList al = map (\<lambda>r. (r, False)) ex @ map (\<lambda>r. (r, True)) inc"
        "set ex = map glob_rx ` exclusions ls" "set inc = map glob_rx ` inclusions ls" by (auto simp: parsed_def)
      let ?ex = "if hd l = CHR ''!'' \<and> length l > 1 then map glob_rx (tl l) # ex else ex"
      let ?inc = "if hd l \<noteq> CHR ''!'' then inc @ [map glob_rx l] else inc"
      have r1: "regExList (use_line dir l al) = map (\<lambda>r. (r, False)) ?ex @ map (\<lambda>r. (r, True)) ?inc"
        using pattern False rx(1) by (simp add: use_line_def addExpression_new)
      have r2: "set ?ex = map glob_rx ` exclusions (ls @ [l])" "set ?inc = map glob_rx ` inclusions (ls @ [l])"
        using pattern rx(2,3) by (auto simp: exclusions_snoc inclusions_snoc)
      have s: "expressionList (use_line dir l al) = expressionList al @ [escape_expression l]"
        "playerList (use_line dir l al) = playerList al" "guildList (use_line dir l al) = guildList al"
        using pattern False by (simp_all add: use_line_def addExpression_new)
      have t: "playerList al = {g. \<exists>l' \<in> set (ls @ [l]). \<not> is_guild_line l' \<and> \<not> is_pattern_line l' \<and> guid_of_name dir l' = Some g}"
        "guildList al = {g. g \<noteq> 0 \<and> (\<exists>l' \<in> set (ls @ [l]). is_guild_line l' \<and> g = guild_by_name dir (guild_of_line l'))}"
        "\<forall>e \<in> set (expressionList al @ [escape_expression l]). \<exists>k \<in> set (ls @ [l]). is_pattern_line k \<and> e = escape_expression k"
        using assms(1) pattern by (auto simp: parsed_def)
      show ?thesis unfolding parsed_def s
        by (intro conjI exI [of _ ?ex] exI [of _ ?inc]) (fact r1 r2 t)+
    qed
  qed
qed

lemma parsed_lines:
  "no_clash ls \<Longrightarrow> parsed dir [] al \<Longrightarrow> parsed dir ls (fold (use_line dir) ls al)"
proof (induction ls rule: rev_induct)
  case (snoc l ls)
  then have "no_clash ls" by (auto simp: no_clash_def)
  with snoc parsed_use_line show ?case by simp
qed simp

lemma first_match_split:
  "first_match name (map (\<lambda>r. (r, False)) ex @ map (\<lambda>r. (r, True)) inc) =
     (if \<exists>r \<in> set ex. regex_match name r then Some False
      else if \<exists>r \<in> set inc. regex_match name r then Some True else None)"
proof (induction ex)
  case Nil
  then show ?case by (induction inc) auto
qed auto

text \<open>
C17.
  The parsed lists decide like the text reads: a player is in a list exactly when no line of it that
  begins with an exclamation mark excludes the name, and some line admits the name by a pattern, the
  guild, or the player. A star in a pattern stands for any text and a question mark for at most one
  character. This needs that no pattern reads like another one escaped.
\<close>

theorem parseList_isInList:
  assumes "no_clash (counted_lines text)"
  shows "isInList (parseList dir text al) player \<longleftrightarrow> list_admits dir text player"
proof -
  let ?ls = "counted_lines text"
  define al' where "al' = parseList dir text al"
  define al0 where "al0 = \<lparr>list_text = text, playerList = {}, guildList = {}, expressionList = [], regExList = []\<rparr>"
  have "parsed dir [] al0" by (auto simp: al0_def parsed_def exclusions_def inclusions_def)
  moreover have "al' = fold (use_line dir) ?ls al0"
    by (simp add: al'_def parseList_def Let_def fold_parse_lines flip: al0_def) (simp add: counted_lines_def)
  ultimately have "parsed dir ?ls al'" using parsed_lines [OF assms, of dir] by simp
  then obtain ex inc where p:
    "playerList al' = {g. \<exists>l \<in> set ?ls. \<not> is_guild_line l \<and> \<not> is_pattern_line l \<and> guid_of_name dir l = Some g}"
    "guildList al' = {g. g \<noteq> 0 \<and> (\<exists>l \<in> set ?ls. is_guild_line l \<and> g = guild_by_name dir (guild_of_line l))}"
    "regExList al' = map (\<lambda>r. (r, False)) ex @ map (\<lambda>r. (r, True)) inc"
    "set ex = map glob_rx ` exclusions ?ls" "set inc = map glob_rx ` inclusions ?ls" by (auto simp: parsed_def)
  have m: "regex_match (asLowerCaseString (person_name player)) (map glob_rx q) \<longleftrightarrow> glob q (c_str_name player)" for q
    by (simp add: regex_match_def rx_match_glob c_str_name_def)
  have ex: "(\<exists>r \<in> set ex. regex_match (asLowerCaseString (person_name player)) r) \<longleftrightarrow> (\<exists>l \<in> set ?ls. line_excludes player l)"
    unfolding p(4) by (auto simp: m exclusions_def line_excludes_def)
  have inc: "(\<exists>r \<in> set inc. regex_match (asLowerCaseString (person_name player)) r) \<longleftrightarrow>
      (\<exists>l \<in> set ?ls. is_pattern_line l \<and> hd l \<noteq> CHR ''!'' \<and> glob l (c_str_name player))"
    unfolding p(5) by (auto simp: m inclusions_def)
  have "isInList al' player \<longleftrightarrow> \<not> (\<exists>l \<in> set ?ls. line_excludes player l) \<and>
      ((\<exists>l \<in> set ?ls. is_pattern_line l \<and> hd l \<noteq> CHR ''!'' \<and> glob l (c_str_name player)) \<or>
       person_guid player \<in> playerList al' \<or> (\<exists>g. person_guild player = Some g \<and> g \<in> guildList al'))"
    unfolding isInList_def p(3) first_match_split ex inc by (auto split: option.split)
  also have "\<dots> \<longleftrightarrow> list_admits dir text player"
  proof -
    have "line_admits dir player l \<longleftrightarrow> (is_pattern_line l \<and> hd l \<noteq> CHR ''!'' \<and> glob l (c_str_name player)) \<or>
        (\<not> is_guild_line l \<and> \<not> is_pattern_line l \<and> guid_of_name dir l = Some (person_guid player)) \<or>
        (is_guild_line l \<and> (\<exists>g. person_guild player = Some g \<and> g = guild_by_name dir (guild_of_line l) \<and> g \<noteq> 0))" for l
      by (cases "is_guild_line l"; cases "is_pattern_line l") (simp_all add: line_admits_def is_pattern_line_def)
    then show ?thesis unfolding list_admits_def p(1,2) by blast
  qed
  finally show ?thesis by (simp add: al'_def)
qed

theorem parseList_isInList_witness:
  "let dir = \<lparr>online_guid = (\<lambda>_. None), guid_by_name = (\<lambda>_. 0), guild_by_name = (\<lambda>_. 0)\<rparr>;
       text = ''*o*'' @ [CHR 0x0A] @ ''!b?b'';
       p = (\<lambda>n. \<lparr>person_name = n, person_guid = 7, person_guild = None, can_edit_houses = False\<rparr>)
   in isInList (parseList dir text new_access_list) (p ''Bo'') \<and> \<not> isInList (parseList dir text new_access_list) (p ''Bob'')"
proof -
  define dir :: directory where "dir = \<lparr>online_guid = (\<lambda>_. None), guid_by_name = (\<lambda>_. 0), guild_by_name = (\<lambda>_. 0)\<rparr>"
  define p where "p n = \<lparr>person_name = n, person_guid = 7, person_guild = None, can_edit_houses = False\<rparr>" for n
  let ?text = "''*o*'' @ [CHR 0x0A] @ ''!b?b''"
  have lines: "counted_lines ?text = [''*o*'', ''!b?b'']" by code_simp
  have pat: "is_pattern_line ''*o*''" "is_pattern_line ''!b?b''" by code_simp+
  have "escape_expression ''*o*'' = ''.*o.*''" "escape_expression ''!b?b'' = ''!b.?b''" by code_simp+
  then have clash: "no_clash (counted_lines ?text)" unfolding lines no_clash_def by simp
  have name: "c_str_name (p ''Bo'') = ''bo''" "c_str_name (p ''Bob'') = ''bob''"
    unfolding p_def by code_simp+
  have g: "glob ''*o*'' ''bo''" "\<not> glob ''b?b'' ''bo''" "glob ''b?b'' ''bob''"
    unfolding rx_match_glob [symmetric] by (simp_all add: glob_rx_def any_char_def)
  have "list_admits dir ?text (p ''Bo'')" "\<not> list_admits dir ?text (p ''Bob'')"
    unfolding list_admits_def lines using g pat by (simp_all add: line_excludes_def line_admits_def name is_guild_line_def)
  with parseList_isInList [OF clash, of dir new_access_list "p ''Bo''"]
    parseList_isInList [OF clash, of dir new_access_list "p ''Bob''"]
  show ?thesis by (simp add: Let_def p_def dir_def)
qed

text \<open>Two lines of which the second is dropped, although it excludes a name that the first does not.\<close>

lemma clash_drops_exclusion:
  "let l1 = ''!?a''; l2 = ''!.?a'' in addExpression l2 (addExpression l1 new_access_list) = addExpression l1 new_access_list \<and>
     glob (tl l2) ''.xa'' \<and> \<not> glob (tl l1) ''.xa''"
proof -
  have "escape_expression ''!?a'' = ''!.?a''" by code_simp
  moreover have "glob ''.?a'' ''.xa''" "\<not> glob ''?a'' ''.xa''"
    unfolding rx_match_glob [symmetric] by (simp_all add: glob_rx_def any_char_def)
  moreover have "is_pattern_line ''!?a''" by code_simp
  ultimately show ?thesis by (simp add: addExpression_new new_access_list_def Let_def) (simp add: addExpression_def)
qed

end
