(* ===== verification/Houses.thy ===== *)
theory Houses imports Access_List Positions begin

text \<open>
  Houses, their doors and beds, from \<open>src/src/house.cpp\<close>, \<open>src/src/house.h\<close> and \<open>src/src/bed.cpp\<close>:
  access levels, kicking, change of the owner, access lists, transfer documents and the collection of
  the rent. Doors and beds are objects of a store that houses refer to by number; so are creatures, which
  stand on tiles. The data base and the configuration are parameters. Calls to parts of the server
  that are not modelled (moving items to a depot, saving a player, letters) are recorded in order.
\<close>

section \<open>Data\<close>

type_synonym creature_ref = nat

datatype access_level = HOUSE_NOT_INVITED | HOUSE_GUEST | HOUSE_SUBOWNER | HOUSE_OWNER

primrec level_value :: "access_level \<Rightarrow> nat" where
  "level_value HOUSE_NOT_INVITED = 0"
| "level_value HOUSE_GUEST = 1"
| "level_value HOUSE_SUBOWNER = 2"
| "level_value HOUSE_OWNER = 3"

instantiation access_level :: linorder
begin

definition less_eq_access_level :: "access_level \<Rightarrow> access_level \<Rightarrow> bool" where
  "less_eq_access_level a b \<longleftrightarrow> level_value a \<le> level_value b"

definition less_access_level :: "access_level \<Rightarrow> access_level \<Rightarrow> bool" where
  "less_access_level a b \<longleftrightarrow> level_value a < level_value b"

lemma level_value_inj: "level_value a = level_value b \<longleftrightarrow> a = b"
  by (cases a; cases b) simp_all

instance
  by standard (auto simp: less_eq_access_level_def less_access_level_def level_value_inj)

end

abbreviation "GUEST_LIST \<equiv> (0x100 :: u32)"
abbreviation "SUBOWNER_LIST \<equiv> (0x101 :: u32)"

record door =
  door_house :: "u32 option"
  doorId :: u32
  door_pos :: position
  door_list :: "access_list option"
  door_description :: string

record bed =
  bed_house :: bool
  sleeperGUID :: u32
  sleepStart :: u64
  bed_description :: string

record house_item =
  item_ref :: nat
  pickupable :: bool
  contents :: "nat list option"

record house =
  hid :: u32
  house_owner :: u32
  ownerName :: string
  houseName :: string
  paidUntil :: int
  rentWarnings :: u32
  rent :: u32
  townId :: u32
  posEntry :: position
  isLoaded :: bool
  guestList :: access_list
  subOwnerList :: access_list
  houseTiles :: "position list"
  doorList :: "nat list"
  bedsList :: "nat list"
  transferItem :: "nat option"

datatype house_call =
    UpdateOwner u32 u32
  | MoveToInbox u32 nat
  | SavePlayer u32
  | Regenerate u32
  | Letter u32 string

record estate =
  doors :: "nat \<Rightarrow> door"
  beds :: "nat \<Rightarrow> bed"
  tile_creatures :: "position \<Rightarrow> creature_ref list"
  creature_pos :: "creature_ref \<Rightarrow> position"
  tile_items :: "position \<Rightarrow> house_item list"
  calls :: "house_call list"

record surroundings =
  dir :: directory
  player_of :: "creature_ref \<Rightarrow> person option"
  tile_house :: "position \<Rightarrow> u32 option"
  lets_in :: "position \<Rightarrow> creature_ref \<Rightarrow> bool"
  bed_partner :: "nat \<Rightarrow> nat option"
  name_by_guid :: "u32 \<Rightarrow> string"
  house_price :: int
  player_online :: "u32 \<Rightarrow> bool"
  player_stored :: "u32 \<Rightarrow> bool"
  town_exists :: "u32 \<Rightarrow> bool"

definition new_house :: "u32 \<Rightarrow> house" where
  "new_house houseId = \<lparr>hid = houseId, house_owner = 0, ownerName = [], houseName = [], paidUntil = 0, rentWarnings = 0,
     rent = 0, townId = 0, posEntry = Position 0 0 0, isLoaded = False, guestList = new_access_list,
     subOwnerList = new_access_list, houseTiles = [], doorList = [], bedsList = [], transferItem = None\<rparr>"

definition add_call :: "house_call \<Rightarrow> estate \<Rightarrow> estate" where
  "add_call c w = w\<lparr>calls := calls w @ [c]\<rparr>"

section \<open>Access\<close>

definition getHouseAccessLevel :: "house \<Rightarrow> person option \<Rightarrow> access_level" where
  "getHouseAccessLevel h player =
     (case player of
        None \<Rightarrow> HOUSE_OWNER
      | Some p \<Rightarrow>
          if can_edit_houses p then HOUSE_OWNER
          else if person_guid p = house_owner h then HOUSE_OWNER
          else if isInList (subOwnerList h) p then HOUSE_SUBOWNER
          else if isInList (guestList h) p then HOUSE_GUEST
          else HOUSE_NOT_INVITED)"

definition isInvited :: "house \<Rightarrow> person option \<Rightarrow> bool" where
  "isInvited h player \<longleftrightarrow> getHouseAccessLevel h player \<noteq> HOUSE_NOT_INVITED"

definition canEditAccessList :: "house \<Rightarrow> u32 \<Rightarrow> person option \<Rightarrow> bool" where
  "canEditAccessList h listId player =
     (case getHouseAccessLevel h player of
        HOUSE_OWNER \<Rightarrow> True
      | HOUSE_SUBOWNER \<Rightarrow> listId = GUEST_LIST
      | _ \<Rightarrow> False)"

text \<open>\<open>Game::internalTeleport\<close> for a creature; \<open>moveCreature\<close> puts it in front of the others.\<close>

definition internalTeleport :: "surroundings \<Rightarrow> creature_ref \<Rightarrow> position \<Rightarrow> estate \<Rightarrow> bool \<times> estate" where
  "internalTeleport env c newPos w =
     (if newPos = creature_pos w c then (True, w)
      else if \<not> lets_in env newPos c then (False, w)
      else
        let old = creature_pos w c;
            left = (tile_creatures w)(old := remove1 c (tile_creatures w old))
        in (True, w\<lparr>tile_creatures := left(newPos := c # left newPos), creature_pos := (creature_pos w)(c := newPos)\<rparr>))"

definition kickPlayer :: "surroundings \<Rightarrow> house \<Rightarrow> person option \<Rightarrow> creature_ref \<Rightarrow> estate \<Rightarrow> bool \<times> estate" where
  "kickPlayer env h player target w =
     (case player_of env target of
        None \<Rightarrow> (False, w)
      | Some p \<Rightarrow>
          if tile_house env (creature_pos w target) \<noteq> Some (hid h) then (False, w)
          else if getHouseAccessLevel h player < getHouseAccessLevel h (Some p) \<or> can_edit_houses p then (False, w)
          else (True, snd (internalTeleport env target (posEntry h) w)))"

text \<open>The loop over the creatures of a tile from the last to the first; each may leave the tile.\<close>

primrec creatures_down :: "(creature_ref \<Rightarrow> estate \<Rightarrow> estate) \<Rightarrow> position \<Rightarrow> nat \<Rightarrow> estate \<Rightarrow> estate" where
  "creatures_down f t 0 w = w"
| "creatures_down f t (Suc i) w = creatures_down f t i (f (tile_creatures w t ! i) w)"

definition each_creature :: "(creature_ref \<Rightarrow> estate \<Rightarrow> estate) \<Rightarrow> house \<Rightarrow> estate \<Rightarrow> estate" where
  "each_creature f h w = fold (\<lambda>t w. creatures_down f t (length (tile_creatures w t)) w) (houseTiles h) w"

definition kick_uninvited :: "surroundings \<Rightarrow> house \<Rightarrow> estate \<Rightarrow> estate" where
  "kick_uninvited env h = each_creature (\<lambda>c w.
     case player_of env c of
       None \<Rightarrow> w
     | Some p \<Rightarrow> if \<not> isInvited h (Some p) then snd (kickPlayer env h None c w) else w) h"

definition kick_all :: "surroundings \<Rightarrow> house \<Rightarrow> estate \<Rightarrow> estate" where
  "kick_all env h = each_creature (\<lambda>c w. snd (kickPlayer env h None c w)) h"

section \<open>Doors\<close>

definition getDoorByNumber :: "house \<Rightarrow> estate \<Rightarrow> u32 \<Rightarrow> nat option" where
  "getDoorByNumber h w n = find (\<lambda>d. doorId (doors w d) = n) (doorList h)"

definition getDoorByPosition :: "house \<Rightarrow> estate \<Rightarrow> position \<Rightarrow> nat option" where
  "getDoorByPosition h w p = find (\<lambda>d. door_pos (doors w d) = p) (doorList h)"

definition upd_door :: "nat \<Rightarrow> (door \<Rightarrow> door) \<Rightarrow> estate \<Rightarrow> estate" where
  "upd_door d f w = w\<lparr>doors := (doors w)(d := f (doors w d))\<rparr>"

definition door_setHouse :: "house \<Rightarrow> door \<Rightarrow> door" where
  "door_setHouse h d =
     (if door_house d \<noteq> None then d
      else d\<lparr>door_house := Some (hid h),
             door_list := (case door_list d of None \<Rightarrow> Some new_access_list | Some al \<Rightarrow> Some al)\<rparr>)"

definition door_setAccessList :: "directory \<Rightarrow> string \<Rightarrow> door \<Rightarrow> door" where
  "door_setAccessList dr textlist d =
     d\<lparr>door_list := Some (parseList dr textlist (case door_list d of None \<Rightarrow> new_access_list | Some al \<Rightarrow> al))\<rparr>"

text \<open>The house of a door is looked up by its number; \<open>None\<close> is a door that belongs to no house.\<close>

definition door_canUse :: "house option \<Rightarrow> door \<Rightarrow> person \<Rightarrow> bool" where
  "door_canUse h d player =
     (case h of
        None \<Rightarrow> True
      | Some h \<Rightarrow>
          if getHouseAccessLevel h (Some player) \<ge> HOUSE_SUBOWNER then True
          else isInList (the (door_list d)) player)"

definition door_getAccessList :: "door \<Rightarrow> string option" where
  "door_getAccessList d = (if door_house d = None then None else Some (list_text (the (door_list d))))"

function number_text :: "nat \<Rightarrow> string" where
  "number_text n = (if n < 10 then [char_of (48 + n)] else number_text (n div 10) @ [char_of (48 + n mod 10)])"
  by pat_completeness auto
termination by (relation "measure id") auto

declare number_text.simps [simp del]

definition door_text :: "surroundings \<Rightarrow> house \<Rightarrow> string" where
  "door_text env h =
     (if house_owner h \<noteq> 0 then
        ''It belongs to house '' @ [CHR 0x27] @ houseName h @ [CHR 0x27] @ ''. '' @ ownerName h @ '' owns this house.''
      else
        ''It belongs to house '' @ [CHR 0x27] @ houseName h @ [CHR 0x27] @ ''. Nobody owns this house.'' @
        (if house_price env \<noteq> -1 then
           '' It costs '' @ number_text (unat (of_nat (length (houseTiles h)) * word_of_int (house_price env) :: u64)) @ '' gold coins.''
         else ''''))"

definition updateDoorDescription :: "surroundings \<Rightarrow> house \<Rightarrow> estate \<Rightarrow> estate" where
  "updateDoorDescription env h w = fold (\<lambda>d. upd_door d (\<lambda>x. x\<lparr>door_description := door_text env h\<rparr>)) (doorList h) w"

definition addDoor :: "surroundings \<Rightarrow> nat \<Rightarrow> house \<times> estate \<Rightarrow> house \<times> estate" where
  "addDoor env d hw =
     (case hw of (h, w) \<Rightarrow>
      let h1 = h\<lparr>doorList := doorList h @ [d]\<rparr> in (h1, updateDoorDescription env h1 (upd_door d (door_setHouse h1) w)))"

definition removeDoor :: "nat \<Rightarrow> house \<Rightarrow> house" where
  "removeDoor d h = h\<lparr>doorList := remove1 d (doorList h)\<rparr>"

section \<open>Access lists of a house\<close>

definition setAccessList :: "surroundings \<Rightarrow> u32 \<Rightarrow> string \<Rightarrow> house \<times> estate \<Rightarrow> house \<times> estate" where
  "setAccessList env listId textlist hw =
     (case hw of (h, w) \<Rightarrow>
      if listId = GUEST_LIST then
        let h1 = h\<lparr>guestList := parseList (dir env) textlist (guestList h)\<rparr> in (h1, kick_uninvited env h1 w)
      else if listId = SUBOWNER_LIST then
        let h1 = h\<lparr>subOwnerList := parseList (dir env) textlist (subOwnerList h)\<rparr> in (h1, kick_uninvited env h1 w)
      else
        (case getDoorByNumber h w listId of
           None \<Rightarrow> (h, w)
         | Some d \<Rightarrow> (h, upd_door d (door_setAccessList (dir env) textlist) w)))"

definition getAccessList :: "house \<Rightarrow> estate \<Rightarrow> u32 \<Rightarrow> string option" where
  "getAccessList h w listId =
     (if listId = GUEST_LIST then Some (list_text (guestList h))
      else if listId = SUBOWNER_LIST then Some (list_text (subOwnerList h))
      else (case getDoorByNumber h w listId of
              None \<Rightarrow> None
            | Some d \<Rightarrow> door_getAccessList (doors w d)))"

section \<open>Beds\<close>

definition upd_bed :: "nat \<Rightarrow> (bed \<Rightarrow> bed) \<Rightarrow> estate \<Rightarrow> estate" where
  "upd_bed b f w = w\<lparr>beds := (beds w)(b := f (beds w b))\<rparr>"

definition internalSetSleeper :: "person \<Rightarrow> u64 \<Rightarrow> bed \<Rightarrow> bed" where
  "internalSetSleeper p now b = b\<lparr>sleeperGUID := person_guid p, sleepStart := now,
     bed_description := person_name p @ '' is sleeping there.''\<rparr>"

definition internalRemoveSleeper :: "bed \<Rightarrow> bed" where
  "internalRemoveSleeper b = b\<lparr>sleeperGUID := 0, sleepStart := 0, bed_description := ''Nobody is sleeping there.''\<rparr>"

text \<open>\<open>wakeUp(nullptr)\<close>: a sleeper who can be loaded is regenerated and saved.\<close>

definition wakeUp :: "surroundings \<Rightarrow> nat \<Rightarrow> estate \<Rightarrow> estate" where
  "wakeUp env b w =
     (if \<not> bed_house (beds w b) then w
      else
        let guid = sleeperGUID (beds w b);
            w1 = (if guid \<noteq> 0 \<and> player_stored env guid then add_call (SavePlayer guid) (add_call (Regenerate guid) w) else w);
            w2 = upd_bed b internalRemoveSleeper w1
        in (case bed_partner env b of None \<Rightarrow> w2 | Some b' \<Rightarrow> upd_bed b' internalRemoveSleeper w2))"

definition addBed :: "nat \<Rightarrow> house \<times> estate \<Rightarrow> house \<times> estate" where
  "addBed b hw = (case hw of (h, w) \<Rightarrow> (h\<lparr>bedsList := bedsList h @ [b]\<rparr>, upd_bed b (\<lambda>x. x\<lparr>bed_house := True\<rparr>) w))"

definition getBedCount :: "house \<Rightarrow> nat" where
  "getBedCount h = (length (bedsList h) + 1) div 2"

section \<open>The owner\<close>

definition moved_items :: "house \<Rightarrow> estate \<Rightarrow> nat list" where
  "moved_items h w = concat (map (\<lambda>t. concat (map (\<lambda>i.
     if pickupable i then [item_ref i] else (case contents i of None \<Rightarrow> [] | Some cs \<Rightarrow> cs)) (tile_items w t))) (houseTiles h))"

text \<open>\<open>transferToDepot\<close> to a given player, and to the owner, who is loaded when not online.\<close>

definition transferToDepot_player :: "house \<Rightarrow> u32 \<Rightarrow> estate \<Rightarrow> bool \<times> estate" where
  "transferToDepot_player h player w =
     (if townId h = 0 \<or> house_owner h = 0 then (False, w)
      else (True, fold (\<lambda>i. add_call (MoveToInbox player i)) (moved_items h w) w))"

definition transferToDepot :: "surroundings \<Rightarrow> house \<Rightarrow> estate \<Rightarrow> bool \<times> estate" where
  "transferToDepot env h w =
     (if townId h = 0 \<or> house_owner h = 0 then (False, w)
      else if player_online env (house_owner h) then (True, snd (transferToDepot_player h (house_owner h) w))
      else if \<not> player_stored env (house_owner h) then (False, w)
      else (True, add_call (SavePlayer (house_owner h)) (snd (transferToDepot_player h (house_owner h) w))))"

definition clear_doors :: "surroundings \<Rightarrow> house \<Rightarrow> estate \<Rightarrow> estate" where
  "clear_doors env h w = fold (\<lambda>d. upd_door d (door_setAccessList (dir env) [])) (doorList h) w"

definition evict :: "surroundings \<Rightarrow> u32 option \<Rightarrow> house \<times> estate \<Rightarrow> house \<times> estate" where
  "evict env player hw =
     (case hw of (h, w) \<Rightarrow>
      let w1 = (case player of Some p \<Rightarrow> snd (transferToDepot_player h p w) | None \<Rightarrow> snd (transferToDepot env h w));
          w2 = kick_all env h w1;
          w3 = fold (\<lambda>b w. if sleeperGUID (beds w b) \<noteq> 0 then wakeUp env b w else w) (bedsList h) w2
      in case setAccessList env GUEST_LIST [] (setAccessList env SUBOWNER_LIST [] (h\<lparr>house_owner := 0\<rparr>, w3)) of
           (h4, w4) \<Rightarrow> (h4\<lparr>paidUntil := 0, rentWarnings := 0\<rparr>, clear_doors env h4 w4))"

definition setOwner :: "surroundings \<Rightarrow> u32 \<Rightarrow> bool \<Rightarrow> u32 option \<Rightarrow> house \<times> estate \<Rightarrow> house \<times> estate" where
  "setOwner env guid updateDatabase player hw =
     (case hw of (h, w) \<Rightarrow>
      let w0 = (if updateDatabase \<and> house_owner h \<noteq> guid then add_call (UpdateOwner guid (hid h)) w else w) in
      if isLoaded h \<and> house_owner h = guid then (h, w0)
      else
        let h1 = h\<lparr>isLoaded := True\<rparr> in
        case (if house_owner h1 \<noteq> 0 then evict env player (h1, w0) else (h1, w0)) of
          (h2, w2) \<Rightarrow>
            let name = name_by_guid env guid;
                h3 = (if guid \<noteq> 0 \<and> name \<noteq> [] then h2\<lparr>house_owner := guid, ownerName := name\<rparr> else h2)
            in (h3, updateDoorDescription env h3 w2))"

section \<open>Transfer documents\<close>

definition getTransferItem :: "nat \<Rightarrow> house \<Rightarrow> nat option \<times> house" where
  "getTransferItem fresh h =
     (if transferItem h \<noteq> None then (None, h) else (Some fresh, h\<lparr>transferItem := Some fresh\<rparr>))"

definition resetTransferItem :: "house \<Rightarrow> house" where
  "resetTransferItem h = h\<lparr>transferItem := None\<rparr>"

definition executeTransfer :: "surroundings \<Rightarrow> nat \<Rightarrow> u32 \<Rightarrow> house \<times> estate \<Rightarrow> bool \<times> house \<times> estate" where
  "executeTransfer env item newOwner hw =
     (if transferItem (fst hw) \<noteq> Some item then (False, hw)
      else case setOwner env newOwner True None hw of (h, w) \<Rightarrow> (True, h\<lparr>transferItem := None\<rparr>, w))"

section \<open>The rent\<close>

datatype rent_period = RENTPERIOD_DAILY | RENTPERIOD_WEEKLY | RENTPERIOD_MONTHLY | RENTPERIOD_YEARLY | RENTPERIOD_NEVER

primrec period_seconds :: "rent_period \<Rightarrow> int" where
  "period_seconds RENTPERIOD_DAILY = 24 * 60 * 60"
| "period_seconds RENTPERIOD_WEEKLY = 24 * 60 * 60 * 7"
| "period_seconds RENTPERIOD_MONTHLY = 24 * 60 * 60 * 30"
| "period_seconds RENTPERIOD_YEARLY = 24 * 60 * 60 * 365"
| "period_seconds RENTPERIOD_NEVER = 0"

primrec period_name :: "rent_period \<Rightarrow> string" where
  "period_name RENTPERIOD_DAILY = ''daily''"
| "period_name RENTPERIOD_WEEKLY = ''weekly''"
| "period_name RENTPERIOD_MONTHLY = ''monthly''"
| "period_name RENTPERIOD_YEARLY = ''annual''"
| "period_name RENTPERIOD_NEVER = []"

definition rent_letter :: "rent_period \<Rightarrow> house \<Rightarrow> string" where
  "rent_letter period h =
     ''Warning! '' @ [CHR 0x0A] @ ''The '' @ period_name period @ '' rent of '' @ number_text (unat (rent h)) @
     '' gold for your house '' @ [CHR 0x22] @ houseName h @ [CHR 0x22] @ '' is payable. Have it within '' @
     number_text (7 - unat (rentWarnings h)) @ '' days or you will lose this house.''"

record register =
  estate_of :: estate
  balance :: "u32 \<Rightarrow> u64"

definition payHouse :: "surroundings \<Rightarrow> rent_period \<Rightarrow> int \<Rightarrow> house \<times> register \<Rightarrow> house \<times> register" where
  "payHouse env period currentTime hr =
     (case hr of (h, r) \<Rightarrow>
      if house_owner h = 0 then (h, r)
      else if rent h = 0 \<or> paidUntil h > currentTime then (h, r)
      else
        let ownerId = house_owner h in
        if \<not> town_exists env (townId h) then (h, r)
        else if \<not> player_stored env ownerId then
          (case setOwner env 0 True None (h, estate_of r) of (h', w') \<Rightarrow> (h', r\<lparr>estate_of := w'\<rparr>))
        else
          let save = (\<lambda>r. r\<lparr>estate_of := add_call (SavePlayer ownerId) (estate_of r)\<rparr>) in
          if balance r ownerId \<ge> ucast (rent h) then
            (h\<lparr>paidUntil := currentTime + period_seconds period\<rparr>,
             save (r\<lparr>balance := (balance r)(ownerId := balance r ownerId - ucast (rent h))\<rparr>))
          else if rentWarnings h < 7 then
            (h\<lparr>rentWarnings := rentWarnings h + 1\<rparr>,
             save (r\<lparr>estate_of := add_call (Letter ownerId (rent_letter period h)) (estate_of r)\<rparr>))
          else
            (case setOwner env 0 True (Some ownerId) (h, estate_of r) of (h', w') \<Rightarrow> (h', save (r\<lparr>estate_of := w'\<rparr>))))"

text \<open>The houses in the order of their numbers, as the map of houses keeps them.\<close>

type_synonym house_map = "(u32 \<times> house) list"

definition addHouse :: "u32 \<Rightarrow> house_map \<Rightarrow> house_map" where
  "addHouse houseId hs =
     (case map_of hs houseId of Some _ \<Rightarrow> hs | None \<Rightarrow> insort_key fst (houseId, new_house houseId) hs)"

definition getHouse :: "u32 \<Rightarrow> house_map \<Rightarrow> house option" where
  "getHouse houseId hs = map_of hs houseId"

definition getHouseByPlayerId :: "u32 \<Rightarrow> house_map \<Rightarrow> house option" where
  "getHouseByPlayerId playerId hs = find (\<lambda>h. house_owner h = playerId) (map snd hs)"

fun pay_all :: "surroundings \<Rightarrow> rent_period \<Rightarrow> int \<Rightarrow> house_map \<Rightarrow> register \<Rightarrow> house_map \<times> register" where
  "pay_all env period currentTime [] r = ([], r)"
| "pay_all env period currentTime ((i, h) # hs) r =
     (case payHouse env period currentTime (h, r) of
        (h', r') \<Rightarrow> (case pay_all env period currentTime hs r' of (hs', r'') \<Rightarrow> ((i, h') # hs', r'')))"

definition payHouses :: "surroundings \<Rightarrow> rent_period \<Rightarrow> int \<Rightarrow> house_map \<Rightarrow> register \<Rightarrow> house_map \<times> register" where
  "payHouses env period currentTime hs r =
     (if period = RENTPERIOD_NEVER then (hs, r) else pay_all env period currentTime hs r)"

section \<open>Kicking empties the tiles\<close>

text \<open>Creatures stand where they are listed, once, and the tiles of a house are tiles of that house.\<close>

definition standing :: "estate \<Rightarrow> bool" where
  "standing w \<longleftrightarrow> (\<forall>t. distinct (tile_creatures w t) \<and> (\<forall>c \<in> set (tile_creatures w t). creature_pos w c = t))"

definition tiles_ok :: "surroundings \<Rightarrow> house \<Rightarrow> bool" where
  "tiles_ok env h \<longleftrightarrow> (\<forall>t \<in> set (houseTiles h). tile_house env t = Some (hid h))"

text \<open>What one kick does to the tiles: nothing, or the creature goes to the entry.\<close>

definition sends :: "position \<Rightarrow> creature_ref \<Rightarrow> estate \<Rightarrow> estate \<Rightarrow> bool" where
  "sends entry c w w' \<longleftrightarrow> standing w' \<and>
     ((\<forall>t. tile_creatures w' t = tile_creatures w t) \<or>
      (creature_pos w c \<noteq> entry \<and> tile_creatures w' (creature_pos w c) = remove1 c (tile_creatures w (creature_pos w c)) \<and>
       (\<forall>t. t \<noteq> creature_pos w c \<longrightarrow> t \<noteq> entry \<longrightarrow> tile_creatures w' t = tile_creatures w t)))"

lemma internalTeleport_sends:
  assumes st: "standing w" and c: "c \<in> set (tile_creatures w (creature_pos w c))"
  shows "sends entry c w (snd (internalTeleport env c entry w))"
proof (cases "entry = creature_pos w c \<or> \<not> lets_in env entry c")
  case True
  then show ?thesis using st by (auto simp: internalTeleport_def sends_def)
next
  case False
  let ?old = "creature_pos w c"
  let ?w' = "snd (internalTeleport env c entry w)"
  have ne: "entry \<noteq> ?old" using False by simp
  have cr: "tile_creatures ?w' = ((tile_creatures w)(?old := remove1 c (tile_creatures w ?old)))(entry := c # tile_creatures w entry)"
    using False ne by (simp add: internalTeleport_def Let_def)
  have pos: "creature_pos ?w' = (creature_pos w)(c := entry)"
    using False ne by (simp add: internalTeleport_def Let_def)
  have notin: "c \<notin> set (tile_creatures w t)" if "t \<noteq> ?old" for t
    using st that by (auto simp: standing_def)
  have "standing ?w'"
    unfolding standing_def
  proof (intro allI conjI ballI)
    fix t
    show "distinct (tile_creatures ?w' t)"
      using st notin [OF ne] by (simp add: cr standing_def)
    fix d assume d: "d \<in> set (tile_creatures ?w' t)"
    show "creature_pos ?w' d = t"
    proof (cases "t = entry")
      case True
      then show ?thesis using d st by (auto simp: cr pos standing_def)
    next
      case False
      then have "d \<noteq> c" using d notin [of t] st by (cases "t = ?old") (auto simp: cr standing_def)
      then show ?thesis using d st False by (cases "t = ?old") (auto simp: cr pos standing_def)
    qed
  qed
  then show ?thesis using ne by (auto simp: sends_def cr)
qed

lemma remove1_nth: "distinct xs \<Longrightarrow> i < length xs \<Longrightarrow> remove1 (xs ! i) xs = take i xs @ drop (Suc i) xs"
proof (induction xs arbitrary: i)
  case (Cons x xs)
  then show ?case by (cases i) auto
qed simp

text \<open>A walk down the creatures of a tile with a step that sends each of them away or finds it settled.\<close>

definition settles :: "(creature_ref \<Rightarrow> bool) \<Rightarrow> position \<Rightarrow> (creature_ref \<Rightarrow> estate \<Rightarrow> estate) \<Rightarrow> position \<Rightarrow> bool" where
  "settles P entry f t \<longleftrightarrow> (\<forall>c w. standing w \<longrightarrow> c \<in> set (tile_creatures w t) \<longrightarrow>
     sends entry c w (f c w) \<and> (t \<noteq> entry \<longrightarrow> (tile_creatures (f c w) t = tile_creatures w t \<longleftrightarrow> P c)))"

lemma creatures_down_settled:
  assumes f: "settles P entry f t" and t: "t \<noteq> entry"
  shows "standing w \<Longrightarrow> i \<le> length (tile_creatures w t) \<Longrightarrow>
    (\<And>j. i \<le> j \<Longrightarrow> j < length (tile_creatures w t) \<Longrightarrow> P (tile_creatures w t ! j)) \<Longrightarrow>
    standing (creatures_down f t i w) \<and> set (tile_creatures (creatures_down f t i w) t) = {c \<in> set (tile_creatures w t). P c} \<and>
    (\<forall>s. s \<noteq> t \<longrightarrow> s \<noteq> entry \<longrightarrow> tile_creatures (creatures_down f t i w) s = tile_creatures w s)"
proof (induction i arbitrary: w)
  case 0
  then show ?case by (auto simp: in_set_conv_nth)
next
  case (Suc i)
  let ?xs = "tile_creatures w t"
  let ?c = "?xs ! i"
  let ?w1 = "f ?c w"
  have c: "?c \<in> set ?xs" using Suc.prems(2) by simp
  have st: "sends entry ?c w ?w1" "tile_creatures ?w1 t = ?xs \<longleftrightarrow> P ?c"
    using f Suc.prems(1) c t by (auto simp: settles_def)
  have pos: "creature_pos w ?c = t" using Suc.prems(1) c by (auto simp: standing_def)
  have st1: "standing ?w1" using st(1) by (simp add: sends_def)
  have "i \<le> length (tile_creatures ?w1 t) \<and> {x \<in> set (tile_creatures ?w1 t). P x} = {x \<in> set ?xs. P x} \<and>
      (\<forall>s. s \<noteq> t \<longrightarrow> s \<noteq> entry \<longrightarrow> tile_creatures ?w1 s = tile_creatures w s) \<and>
      (\<forall>j. i \<le> j \<longrightarrow> j < length (tile_creatures ?w1 t) \<longrightarrow> P (tile_creatures ?w1 t ! j))"
  proof (cases "tile_creatures ?w1 t = ?xs")
    case True
    have "P (?xs ! j)" if "i \<le> j" "j < length ?xs" for j
      using that Suc.prems(3) [of j] st(2) True by (cases "j = i") auto
    moreover have "tile_creatures ?w1 s = tile_creatures w s" if "s \<noteq> t" "s \<noteq> entry" for s
      using st(1) that pos by (auto simp: sends_def)
    ultimately show ?thesis using Suc.prems(2) True by simp
  next
    case False
    have d: "distinct ?xs" using Suc.prems(1) by (simp add: standing_def)
    have xs1: "tile_creatures ?w1 t = take i ?xs @ drop (Suc i) ?xs"
      using st(1) False pos remove1_nth [OF d, of i] Suc.prems(2) by (auto simp: sends_def)
    moreover have "{x \<in> set (take i ?xs @ drop (Suc i) ?xs). P x} = {x \<in> set ?xs. P x}"
    proof -
      have "set ?xs = insert ?c (set (take i ?xs @ drop (Suc i) ?xs))"
        using Suc.prems(2) id_take_nth_drop [of i ?xs] by (metis Suc_le_eq list.simps(15) set_append Un_insert_right)
      then show ?thesis using st(2) False by auto
    qed
    moreover have "P ((take i ?xs @ drop (Suc i) ?xs) ! j)" if "i \<le> j" "j < length ?xs - 1" for j
      using that Suc.prems(2) Suc.prems(3) [of "Suc j"] by (simp add: nth_append)
    moreover have "tile_creatures ?w1 s = tile_creatures w s" if "s \<noteq> t" "s \<noteq> entry" for s
      using st(1) that pos by (auto simp: sends_def)
    ultimately show ?thesis using Suc.prems(2) by simp
  qed
  with Suc.IH [OF st1] show ?case by auto
qed

lemma creatures_down_entry:
  assumes f: "settles P entry f entry"
  shows "standing w \<Longrightarrow> i \<le> length (tile_creatures w entry) \<Longrightarrow>
    standing (creatures_down f entry i w) \<and> (\<forall>s. tile_creatures (creatures_down f entry i w) s = tile_creatures w s)"
proof (induction i arbitrary: w)
  case (Suc i)
  let ?c = "tile_creatures w entry ! i"
  have c: "?c \<in> set (tile_creatures w entry)" using Suc.prems(2) by simp
  then have "sends entry ?c w (f ?c w)" using f Suc.prems(1) by (auto simp: settles_def)
  moreover have "creature_pos w ?c = entry" using Suc.prems(1) c by (auto simp: standing_def)
  ultimately have "standing (f ?c w)" "\<And>s. tile_creatures (f ?c w) s = tile_creatures w s"
    by (auto simp: sends_def)
  with Suc.IH [of "f ?c w"] Suc.prems(2) show ?case by simp
qed simp

lemma each_creature_settled:
  assumes f: "\<And>t. t \<in> set (houseTiles h) \<Longrightarrow> settles P entry f t" and st: "standing w"
  shows "standing (each_creature f h w) \<and> (\<forall>t. t \<noteq> entry \<longrightarrow> set (tile_creatures (each_creature f h w) t) =
    (if t \<in> set (houseTiles h) then {c \<in> set (tile_creatures w t). P c} else set (tile_creatures w t)))"
proof -
  let ?g = "\<lambda>t w. creatures_down f t (length (tile_creatures w t)) w"
  have one: "standing (?g t w) \<and> (\<forall>s. s \<noteq> entry \<longrightarrow> set (tile_creatures (?g t w) s) =
      (if s = t then {c \<in> set (tile_creatures w s). P c} else set (tile_creatures w s)))"
    if "settles P entry f t" "standing w" for t w
  proof (cases "t = entry")
    case True
    then show ?thesis using creatures_down_entry [of P entry f w "length (tile_creatures w entry)"] that by simp
  next
    case False
    have "standing (?g t w) \<and> set (tile_creatures (?g t w) t) = {c \<in> set (tile_creatures w t). P c} \<and>
        (\<forall>s. s \<noteq> t \<longrightarrow> s \<noteq> entry \<longrightarrow> tile_creatures (?g t w) s = tile_creatures w s)"
      by (rule creatures_down_settled [OF that(1) False that(2)]) simp_all
    then show ?thesis by simp
  qed
  have all: "standing (fold ?g ts w) \<and> (\<forall>t. t \<noteq> entry \<longrightarrow> set (tile_creatures (fold ?g ts w) t) =
      (if t \<in> set ts then {c \<in> set (tile_creatures w t). P c} else set (tile_creatures w t)))"
    if "standing w" "\<And>t. t \<in> set ts \<Longrightarrow> settles P entry f t" for ts w
    using that
  proof (induction ts arbitrary: w)
    case (Cons t ts)
    note o = one [OF Cons.prems(2) [of t] Cons.prems(1), simplified]
    have IH: "standing (fold ?g ts (?g t w)) \<and> (\<forall>s. s \<noteq> entry \<longrightarrow> set (tile_creatures (fold ?g ts (?g t w)) s) =
        (if s \<in> set ts then {c \<in> set (tile_creatures (?g t w) s). P c} else set (tile_creatures (?g t w) s)))"
      using o Cons.prems(2) by (intro Cons.IH) auto
    have "set (tile_creatures (fold ?g (t # ts) w) s) =
        (if s \<in> set (t # ts) then {c \<in> set (tile_creatures w s). P c} else set (tile_creatures w s))" if "s \<noteq> entry" for s
      using IH o that by (cases "s \<in> set ts"; cases "s = t") simp_all
    then show ?case using IH by simp
  qed simp
  show ?thesis unfolding each_creature_def by (rule all [OF st f])
qed

text \<open>A player who may stay: an editor of houses, or one whom the entry does not take.\<close>

definition may_stay :: "surroundings \<Rightarrow> house \<Rightarrow> creature_ref \<Rightarrow> bool" where
  "may_stay env h c \<longleftrightarrow> (\<forall>p. player_of env c = Some p \<longrightarrow> can_edit_houses p \<or> \<not> lets_in env (posEntry h) c)"

lemma kickPlayer_settles:
  assumes "tiles_ok env h" "t \<in> set (houseTiles h)"
  shows "settles (may_stay env h) (posEntry h) (\<lambda>c w. snd (kickPlayer env h None c w)) t"
  unfolding settles_def
proof (intro allI impI)
  fix c w assume st: "standing w" and c: "c \<in> set (tile_creatures w t)"
  have pos: "creature_pos w c = t" using st c by (auto simp: standing_def)
  have tele: "sends (posEntry h) c w (snd (internalTeleport env c (posEntry h) w))"
    using internalTeleport_sends [OF st] c pos by simp
  have stay: "sends (posEntry h) c w w" using st by (simp add: sends_def)
  have house: "tile_house env t = Some (hid h)" using assms by (auto simp: tiles_ok_def)
  have moved: "tile_creatures (snd (internalTeleport env c (posEntry h) w)) t \<noteq> tile_creatures w t"
    if "t \<noteq> posEntry h" "lets_in env (posEntry h) c"
  proof -
    have "tile_creatures (snd (internalTeleport env c (posEntry h) w)) t = remove1 c (tile_creatures w t)"
      using that pos by (auto simp: internalTeleport_def Let_def)
    moreover have "c \<notin> set (remove1 c (tile_creatures w t))" using st by (simp add: standing_def)
    ultimately show ?thesis using c by metis
  qed
  show "sends (posEntry h) c w (snd (kickPlayer env h None c w)) \<and>
     (t \<noteq> posEntry h \<longrightarrow> (tile_creatures (snd (kickPlayer env h None c w)) t = tile_creatures w t \<longleftrightarrow> may_stay env h c))"
  proof (cases "player_of env c")
    case None
    then show ?thesis using stay by (simp add: kickPlayer_def may_stay_def)
  next
    case (Some p)
    have lev: "\<not> getHouseAccessLevel h None < getHouseAccessLevel h (Some p)"
      by (cases "getHouseAccessLevel h (Some p)") (simp_all add: getHouseAccessLevel_def less_access_level_def)
    show ?thesis
    proof (cases "can_edit_houses p")
      case True
      then show ?thesis using stay Some house pos by (simp add: kickPlayer_def may_stay_def)
    next
      case False
      then have "snd (kickPlayer env h None c w) = snd (internalTeleport env c (posEntry h) w)"
        using Some house pos lev by (simp add: kickPlayer_def)
      moreover have "\<not> lets_in env (posEntry h) c \<Longrightarrow> t \<noteq> posEntry h \<Longrightarrow> snd (internalTeleport env c (posEntry h) w) = w"
        using pos by (simp add: internalTeleport_def)
      ultimately show ?thesis using tele moved Some False by (auto simp: may_stay_def)
    qed
  qed
qed

text \<open>A creature that a list leaves where it is.\<close>

definition left_alone :: "surroundings \<Rightarrow> house \<Rightarrow> creature_ref \<Rightarrow> bool" where
  "left_alone env h c \<longleftrightarrow> (\<forall>p. player_of env c = Some p \<longrightarrow> isInvited h (Some p) \<or> \<not> lets_in env (posEntry h) c)"

lemma kick_uninvited_settles:
  assumes "tiles_ok env h" "t \<in> set (houseTiles h)"
  shows "settles (left_alone env h) (posEntry h) (\<lambda>c w. case player_of env c of None \<Rightarrow> w
     | Some p \<Rightarrow> if \<not> isInvited h (Some p) then snd (kickPlayer env h None c w) else w) t"
  unfolding settles_def
proof (intro allI impI)
  fix c w assume st: "standing w" and c: "c \<in> set (tile_creatures w t)"
  have stay: "sends (posEntry h) c w w" using st by (simp add: sends_def)
  show "sends (posEntry h) c w (case player_of env c of None \<Rightarrow> w
       | Some p \<Rightarrow> if \<not> isInvited h (Some p) then snd (kickPlayer env h None c w) else w) \<and>
     (t \<noteq> posEntry h \<longrightarrow> (tile_creatures (case player_of env c of None \<Rightarrow> w
       | Some p \<Rightarrow> if \<not> isInvited h (Some p) then snd (kickPlayer env h None c w) else w) t = tile_creatures w t \<longleftrightarrow> left_alone env h c))"
  proof (cases "player_of env c")
    case None
    then show ?thesis using stay by (simp add: left_alone_def)
  next
    case (Some p)
    show ?thesis
    proof (cases "isInvited h (Some p)")
      case True
      then show ?thesis using stay Some by (simp add: left_alone_def)
    next
      case False
      then have "\<not> can_edit_houses p" by (auto simp: isInvited_def getHouseAccessLevel_def)
      then have "left_alone env h c \<longleftrightarrow> may_stay env h c" using Some False by (simp add: left_alone_def may_stay_def)
      then show ?thesis using kickPlayer_settles [OF assms] st c Some False by (simp add: settles_def)
    qed
  qed
qed

lemma kick_uninvited_tiles:
  assumes "standing w" "tiles_ok env h"
  shows "standing (kick_uninvited env h w)"
    "t \<noteq> posEntry h \<Longrightarrow> set (tile_creatures (kick_uninvited env h w) t) =
      (if t \<in> set (houseTiles h) then {c \<in> set (tile_creatures w t). left_alone env h c} else set (tile_creatures w t))"
  unfolding kick_uninvited_def
  using each_creature_settled [OF kick_uninvited_settles [OF assms(2)] assms(1)] by blast+

lemma kick_all_tiles:
  assumes "standing w" "tiles_ok env h"
  shows "standing (kick_all env h w)"
    "t \<noteq> posEntry h \<Longrightarrow> set (tile_creatures (kick_all env h w) t) =
      (if t \<in> set (houseTiles h) then {c \<in> set (tile_creatures w t). may_stay env h c} else set (tile_creatures w t))"
  unfolding kick_all_def
  using each_creature_settled [OF kickPlayer_settles [OF assms(2)] assms(1)] by blast+

text \<open>
C16.
  Setting the guest or the sub-owner list of a house sends exactly those players away from its tiles
  whom the new lists do not invite and whom the entry takes; everyone else stays where he is, and no
  other tile changes but the entry.
\<close>

theorem setAccessList_kicks:
  assumes "standing w" "tiles_ok env h" "listId = GUEST_LIST \<or> listId = SUBOWNER_LIST"
    and set: "setAccessList env listId textlist (h, w) = (h', w')" and t: "t \<noteq> posEntry h"
  shows "set (tile_creatures w' t) =
    (if t \<in> set (houseTiles h) then {c \<in> set (tile_creatures w t). left_alone env h' c} else set (tile_creatures w t))"
proof -
  have "w' = kick_uninvited env h' w \<and> posEntry h' = posEntry h \<and> houseTiles h' = houseTiles h \<and> tiles_ok env h'"
    using set assms(2,3) by (auto simp: setAccessList_def Let_def tiles_ok_def)
  then show ?thesis using kick_uninvited_tiles(2) [OF assms(1), of env h' t] t by simp
qed

section \<open>A new owner starts afresh\<close>

lemma fold_add_call [simp]:
  "doors (fold (\<lambda>i. add_call (k i)) xs w) = doors w" "beds (fold (\<lambda>i. add_call (k i)) xs w) = beds w"
  "tile_creatures (fold (\<lambda>i. add_call (k i)) xs w) = tile_creatures w"
  "creature_pos (fold (\<lambda>i. add_call (k i)) xs w) = creature_pos w"
  by (induction xs arbitrary: w) (simp_all add: add_call_def)

lemma add_call_frame [simp]:
  "doors (add_call c w) = doors w" "beds (add_call c w) = beds w"
  "tile_creatures (add_call c w) = tile_creatures w" "creature_pos (add_call c w) = creature_pos w"
  by (simp_all add: add_call_def)

lemma transfer_frame [simp]:
  "doors (snd (transferToDepot_player h p w)) = doors w" "beds (snd (transferToDepot_player h p w)) = beds w"
  "tile_creatures (snd (transferToDepot_player h p w)) = tile_creatures w"
  "creature_pos (snd (transferToDepot_player h p w)) = creature_pos w"
  "doors (snd (transferToDepot env h w)) = doors w" "beds (snd (transferToDepot env h w)) = beds w"
  "tile_creatures (snd (transferToDepot env h w)) = tile_creatures w"
  "creature_pos (snd (transferToDepot env h w)) = creature_pos w"
  by (simp_all add: transferToDepot_player_def transferToDepot_def)

lemma each_creature_frame:
  assumes "\<And>c w. g (f c w) = g w"
  shows "g (each_creature f h w) = g w"
proof -
  have "g (creatures_down f t i w) = g w" for t i w
    by (induction i arbitrary: w) (simp_all add: assms)
  then have "g (fold (\<lambda>t w. creatures_down f t (length (tile_creatures w t)) w) ts w) = g w" for ts
    by (induction ts arbitrary: w) simp_all
  then show ?thesis by (simp add: each_creature_def)
qed

lemma kickPlayer_frame [simp]:
  "doors (snd (kickPlayer env h p c w)) = doors w" "beds (snd (kickPlayer env h p c w)) = beds w"
  by (simp_all add: kickPlayer_def internalTeleport_def Let_def split: option.split)

lemma kick_frame [simp]:
  "doors (kick_all env h w) = doors w" "beds (kick_all env h w) = beds w"
  "doors (kick_uninvited env h w) = doors w" "beds (kick_uninvited env h w) = beds w"
  unfolding kick_all_def kick_uninvited_def
  by (rule each_creature_frame, simp split: option.split)+

lemma wakeUp_frame [simp]:
  "doors (wakeUp env b w) = doors w" "tile_creatures (wakeUp env b w) = tile_creatures w"
  "creature_pos (wakeUp env b w) = creature_pos w" "bed_house (beds (wakeUp env b w) b') = bed_house (beds w b')"
  by (simp_all add: wakeUp_def Let_def upd_bed_def internalRemoveSleeper_def split: option.split)

lemma wakeUp_sleeper:
  "bed_house (beds w b) \<Longrightarrow> sleeperGUID (beds (wakeUp env b w) b) = 0"
  "sleeperGUID (beds w b') = 0 \<Longrightarrow> sleeperGUID (beds (wakeUp env b w) b') = 0"
  by (auto simp: wakeUp_def Let_def upd_bed_def internalRemoveSleeper_def split: option.split)

definition wake_all :: "surroundings \<Rightarrow> nat list \<Rightarrow> estate \<Rightarrow> estate" where
  "wake_all env bs w = fold (\<lambda>b w. if sleeperGUID (beds w b) \<noteq> 0 then wakeUp env b w else w) bs w"

lemma wake_all_spec:
  "doors (wake_all env bs w) = doors w \<and> tile_creatures (wake_all env bs w) = tile_creatures w \<and>
   creature_pos (wake_all env bs w) = creature_pos w \<and>
   (\<forall>b. sleeperGUID (beds w b) = 0 \<longrightarrow> sleeperGUID (beds (wake_all env bs w) b) = 0) \<and>
   (\<forall>b \<in> set bs. bed_house (beds w b) \<longrightarrow> sleeperGUID (beds (wake_all env bs w) b) = 0)"
proof (induction bs arbitrary: w)
  case (Cons b bs)
  define w1 where "w1 = (if sleeperGUID (beds w b) \<noteq> 0 then wakeUp env b w else w)"
  have "wake_all env (b # bs) w = wake_all env bs w1" by (simp add: wake_all_def w1_def)
  moreover have "doors w1 = doors w" "tile_creatures w1 = tile_creatures w" "creature_pos w1 = creature_pos w"
    "bed_house (beds w1 b') = bed_house (beds w b')" for b' by (simp_all add: w1_def)
  moreover have "sleeperGUID (beds w b') = 0 \<Longrightarrow> sleeperGUID (beds w1 b') = 0" for b'
    by (simp add: w1_def wakeUp_sleeper)
  moreover have "bed_house (beds w b) \<Longrightarrow> sleeperGUID (beds w1 b) = 0" by (simp add: w1_def wakeUp_sleeper)
  ultimately show ?case using Cons.IH [of w1] by auto
qed (simp add: wake_all_def)

lemma isInList_empty [simp]: "\<not> isInList (parseList dr [] al) p"
  by (simp add: parseList_def isInList_def split: option.split)

lemma clear_doors_spec:
  "tile_creatures (clear_doors env h w) = tile_creatures w" "beds (clear_doors env h w) = beds w"
  "d \<in> set (doorList h) \<Longrightarrow> \<exists>al. door_list (doors (clear_doors env h w) d) = Some (parseList (dir env) [] al)"
proof -
  have "tile_creatures (fold (\<lambda>d. upd_door d f) ds w) = tile_creatures w \<and> beds (fold (\<lambda>d. upd_door d f) ds w) = beds w"
    for f ds w by (induction ds arbitrary: w) (simp_all add: upd_door_def)
  then show "tile_creatures (clear_doors env h w) = tile_creatures w" "beds (clear_doors env h w) = beds w"
    by (simp_all add: clear_doors_def)
  define cl :: "nat \<Rightarrow> estate \<Rightarrow> bool" where "cl d w \<longleftrightarrow> (\<exists>al. door_list (doors w d) = Some (parseList (dir env) [] al))" for d and w :: estate
  have keep: "cl d w \<Longrightarrow> cl d (upd_door d' (door_setAccessList (dir env) []) w)" for d d' and w :: estate
    by (auto simp: cl_def upd_door_def door_setAccessList_def)
  have "cl d (upd_door d (door_setAccessList (dir env) []) w)" for d w
    by (auto simp: cl_def upd_door_def door_setAccessList_def)
  moreover have "cl d w \<Longrightarrow> cl d (fold (\<lambda>d. upd_door d (door_setAccessList (dir env) [])) ds w)" for d ds w
    by (induction ds arbitrary: w) (simp_all add: keep)
  ultimately have "d \<in> set ds \<Longrightarrow> cl d (fold (\<lambda>d. upd_door d (door_setAccessList (dir env) [])) ds w)" for d ds w
    by (induction ds arbitrary: w) auto
  then show "d \<in> set (doorList h) \<Longrightarrow> \<exists>al. door_list (doors (clear_doors env h w) d) = Some (parseList (dir env) [] al)"
    by (simp add: cl_def clear_doors_def)
qed

lemma updateDoorDescription_frame [simp]:
  "tile_creatures (updateDoorDescription env h w) = tile_creatures w" "beds (updateDoorDescription env h w) = beds w"
  "door_list (doors (updateDoorDescription env h w) d) = door_list (doors w d)"
proof -
  have "tile_creatures (fold (\<lambda>d. upd_door d (\<lambda>x. x\<lparr>door_description := s\<rparr>)) ds w) = tile_creatures w \<and>
      beds (fold (\<lambda>d. upd_door d (\<lambda>x. x\<lparr>door_description := s\<rparr>)) ds w) = beds w \<and>
      door_list (doors (fold (\<lambda>d. upd_door d (\<lambda>x. x\<lparr>door_description := s\<rparr>)) ds w) d) = door_list (doors w d)" for s ds
    by (induction ds arbitrary: w) (simp_all add: upd_door_def)
  then show "tile_creatures (updateDoorDescription env h w) = tile_creatures w" "beds (updateDoorDescription env h w) = beds w"
    "door_list (doors (updateDoorDescription env h w) d) = door_list (doors w d)"
    by (simp_all add: updateDoorDescription_def)
qed

lemma evict_unfold:
  "evict env player (h, w) =
     (let w1 = (case player of Some p \<Rightarrow> snd (transferToDepot_player h p w) | None \<Rightarrow> snd (transferToDepot env h w));
          w3 = wake_all env (bedsList h) (kick_all env h w1);
          h4 = h\<lparr>house_owner := 0, subOwnerList := parseList (dir env) [] (subOwnerList h)\<rparr>;
          w4 = kick_uninvited env h4 w3;
          h5 = h4\<lparr>guestList := parseList (dir env) [] (guestList h)\<rparr>;
          w5 = kick_uninvited env h5 w4
      in (h5\<lparr>paidUntil := 0, rentWarnings := 0\<rparr>, clear_doors env h5 w5))"
  by (simp add: evict_def setAccessList_def Let_def wake_all_def)

definition evicted :: "surroundings \<Rightarrow> house \<Rightarrow> house" where
  "evicted env h = h\<lparr>house_owner := 0, subOwnerList := parseList (dir env) [] (subOwnerList h),
     guestList := parseList (dir env) [] (guestList h), paidUntil := 0, rentWarnings := 0\<rparr>"

lemma evict_house: "fst (evict env player (h, w)) = evicted env h"
  by (simp add: evict_unfold Let_def evicted_def)

lemma evict_estate:
  fixes player :: "u32 option"
  assumes "standing w" "tiles_ok env h"
  defines "w' \<equiv> snd (evict env player (h, w))"
  shows "t \<in> set (houseTiles h) \<Longrightarrow> t \<noteq> posEntry h \<Longrightarrow> c \<in> set (tile_creatures w' t) \<Longrightarrow> may_stay env h c"
    "d \<in> set (doorList h) \<Longrightarrow> \<exists>al. door_list (doors w' d) = Some (parseList (dir env) [] al)"
    "b \<in> set (bedsList h) \<Longrightarrow> bed_house (beds w b) \<Longrightarrow> sleeperGUID (beds w' b) = 0"
proof -
  define w1 where "w1 = (case player of Some p \<Rightarrow> snd (transferToDepot_player h p w) | None \<Rightarrow> snd (transferToDepot env h w))"
  define w2 where "w2 = kick_all env h w1"
  define w3 where "w3 = wake_all env (bedsList h) w2"
  define h4 where "h4 = h\<lparr>house_owner := 0, subOwnerList := parseList (dir env) [] (subOwnerList h)\<rparr>"
  define w4 where "w4 = kick_uninvited env h4 w3"
  define h5 where "h5 = h4\<lparr>guestList := parseList (dir env) [] (guestList h)\<rparr>"
  define w5 where "w5 = kick_uninvited env h5 w4"
  have w': "w' = clear_doors env h5 w5"
    by (simp add: w'_def evict_unfold Let_def w1_def w2_def w3_def h4_def w4_def h5_def w5_def)
  have hh: "houseTiles h4 = houseTiles h" "posEntry h4 = posEntry h" "houseTiles h5 = houseTiles h" "posEntry h5 = posEntry h"
    "doorList h5 = doorList h" "hid h4 = hid h" "hid h5 = hid h" by (simp_all add: h4_def h5_def)
  have ok: "tiles_ok env h4" "tiles_ok env h5" using assms(2) by (simp_all add: tiles_ok_def hh)
  have st1: "standing w1" using assms(1) by (simp add: standing_def w1_def split: option.split)
  note st2 = kick_all_tiles(1) [OF st1 assms(2), folded w2_def]
  have st3: "standing w3" using st2 wake_all_spec [of env "bedsList h" w2] by (simp add: standing_def w3_def)
  note st4 = kick_uninvited_tiles(1) [OF st3 ok(1), folded w4_def]
  show "may_stay env h c" if "t \<in> set (houseTiles h)" "t \<noteq> posEntry h" "c \<in> set (tile_creatures w' t)"
  proof -
    have "c \<in> set (tile_creatures w5 t)" using that(3) by (simp add: w' clear_doors_spec)
    then have "c \<in> set (tile_creatures w4 t)"
      using kick_uninvited_tiles(2) [OF st4 ok(2), folded w5_def, of t] that(1,2) by (simp add: hh)
    then have "c \<in> set (tile_creatures w3 t)"
      using kick_uninvited_tiles(2) [OF st3 ok(1), folded w4_def, of t] that(1,2) by (simp add: hh)
    then have "c \<in> set (tile_creatures w2 t)" using wake_all_spec [of env "bedsList h" w2] by (simp add: w3_def)
    then show ?thesis using kick_all_tiles(2) [OF st1 assms(2), folded w2_def, of t] that(1,2) by simp
  qed
  show "\<exists>al. door_list (doors w' d) = Some (parseList (dir env) [] al)" if "d \<in> set (doorList h)"
    using clear_doors_spec(3) [of d h5] that by (simp add: w' hh)
  show "sleeperGUID (beds w' b) = 0" if "b \<in> set (bedsList h)" "bed_house (beds w b)"
  proof -
    have "beds w2 = beds w" by (simp add: w2_def w1_def split: option.split)
    then have "sleeperGUID (beds w3 b) = 0"
      using wake_all_spec [of env "bedsList h" w2] that by (simp add: w3_def)
    then show ?thesis by (simp add: w' clear_doors_spec w5_def w4_def)
  qed
qed

lemma setOwner_unfold:
  assumes "house_owner h \<noteq> 0" "house_owner h \<noteq> guid"
  obtains w0 h1 where "h1 = evicted env (h\<lparr>isLoaded := True\<rparr>)"
    "tile_creatures w0 = tile_creatures w" "creature_pos w0 = creature_pos w" "beds w0 = beds w"
    "setOwner env guid upd player (h, w) =
      (let h3 = (if guid \<noteq> 0 \<and> name_by_guid env guid \<noteq> [] then h1\<lparr>house_owner := guid, ownerName := name_by_guid env guid\<rparr> else h1)
       in (h3, updateDoorDescription env h3 (snd (evict env player (h\<lparr>isLoaded := True\<rparr>, w0)))))"
proof -
  let ?w0 = "if upd \<and> house_owner h \<noteq> guid then add_call (UpdateOwner guid (hid h)) w else w"
  have "setOwner env guid upd player (h, w) =
      (case evict env player (h\<lparr>isLoaded := True\<rparr>, ?w0) of (h2, w2) \<Rightarrow>
        let h3 = (if guid \<noteq> 0 \<and> name_by_guid env guid \<noteq> [] then h2\<lparr>house_owner := guid, ownerName := name_by_guid env guid\<rparr> else h2)
        in (h3, updateDoorDescription env h3 w2))"
    using assms by (simp add: setOwner_def Let_def)
  also have "evict env player (h\<lparr>isLoaded := True\<rparr>, ?w0) =
      (evicted env (h\<lparr>isLoaded := True\<rparr>), snd (evict env player (h\<lparr>isLoaded := True\<rparr>, ?w0)))"
    using evict_house [of env player "h\<lparr>isLoaded := True\<rparr>" ?w0] by (metis prod.collapse)
  finally show thesis
    by (intro that [of "evicted env (h\<lparr>isLoaded := True\<rparr>)" ?w0]) simp_all
qed


section \<open>The rent is paid, or warned for, or the house is lost\<close>

definition rent_due :: "surroundings \<Rightarrow> int \<Rightarrow> house \<Rightarrow> bool" where
  "rent_due env currentTime h \<longleftrightarrow> house_owner h \<noteq> 0 \<and> rent h \<noteq> 0 \<and> paidUntil h \<le> currentTime \<and> town_exists env (townId h)"

text \<open>The balance is the one before the collection or, for the right hand sides, after it.\<close>

definition rent_outcome :: "surroundings \<Rightarrow> rent_period \<Rightarrow> int \<Rightarrow> (u32 \<Rightarrow> u64) \<Rightarrow> (u32 \<Rightarrow> u64) \<Rightarrow> house \<Rightarrow> house \<Rightarrow> bool" where
  "rent_outcome env period currentTime bal bal' h h' \<longleftrightarrow>
     (if \<not> rent_due env currentTime h then h' = h
      else if \<not> player_stored env (house_owner h) then h' = evicted env (h\<lparr>isLoaded := True\<rparr>)
      else (h' = h\<lparr>paidUntil := currentTime + period_seconds period\<rparr> \<and> uint (rent h) \<le> uint (bal (house_owner h))) \<or>
        (uint (bal' (house_owner h)) < uint (rent h) \<and>
         h' = (if rentWarnings h < 7 then h\<lparr>rentWarnings := rentWarnings h + 1\<rparr> else evicted env (h\<lparr>isLoaded := True\<rparr>))))"

definition rent_taken :: "u32 \<Rightarrow> house \<times> house \<Rightarrow> int" where
  "rent_taken g hh = (case hh of (h, h') \<Rightarrow>
     if house_owner h = g \<and> g \<noteq> 0 \<and> house_owner h' = g \<and> paidUntil h' \<noteq> paidUntil h then uint (rent h) else 0)"

lemma setOwner_zero:
  "house_owner h \<noteq> 0 \<Longrightarrow> fst (setOwner env 0 upd player (h, w)) = evicted env (h\<lparr>isLoaded := True\<rparr>)"
  by (rule setOwner_unfold [of h 0 env w upd player]) (simp_all add: Let_def)

lemma uint_u32_u64 [simp]: "uint (ucast (x :: u32) :: u64) = uint x"
proof -
  have "uint x < 2 ^ 32" using uint_lt2p [of x] by simp
  then show ?thesis by (simp add: unsigned_ucast_eq take_bit_int_eq_self)
qed

lemma uint_balance_minus:
  "ucast (x :: u32) \<le> (b :: u64) \<Longrightarrow> uint (b - ucast x) = uint b - uint x"
  using uint_sub_lem [of "ucast x" b] by (simp add: word_le_def)

lemma period_pos: "period \<noteq> RENTPERIOD_NEVER \<Longrightarrow> 0 < period_seconds period"
  by (cases period) simp_all

lemma payHouse_spec:
  assumes "period \<noteq> RENTPERIOD_NEVER" and pay: "payHouse env period now (h, r) = (h', r')"
  shows "rent_outcome env period now (balance r) (balance r') h h' \<and>
    (\<forall>g. uint (balance r g) = uint (balance r' g) + rent_taken g (h, h'))"
proof (cases "rent_due env now h")
  case False
  then have "h' = h \<and> r' = r" using pay by (auto simp: payHouse_def rent_due_def Let_def split: if_splits)
  then show ?thesis using False by (simp add: rent_outcome_def rent_taken_def)
next
  case True
  let ?o = "house_owner h"
  have due: "?o \<noteq> 0" "rent h \<noteq> 0" "\<not> now < paidUntil h" "town_exists env (townId h)" using True by (simp_all add: rent_due_def)
  have lost: "house_owner (evicted env x) = 0" for x by (simp add: evicted_def)
  show ?thesis
  proof (cases "player_stored env ?o")
    case False
    obtain h1 w1 where s: "setOwner env 0 True None (h, estate_of r) = (h1, w1)" by fastforce
    then have "h1 = evicted env (h\<lparr>isLoaded := True\<rparr>)" using setOwner_zero [OF due(1)] by (metis fst_conv)
    moreover have "h' = h1" "balance r' = balance r" using pay due False s by (auto simp: payHouse_def Let_def)
    ultimately show ?thesis using True False by (auto simp: rent_outcome_def rent_taken_def lost)
  next
    case stored: True
    show ?thesis
    proof (cases "ucast (rent h) \<le> balance r ?o")
      case True
      then have h': "h' = h\<lparr>paidUntil := now + period_seconds period\<rparr>"
        and b: "balance r' = (balance r)(?o := balance r ?o - ucast (rent h))"
        using pay due stored by (auto simp: payHouse_def Let_def add_call_def)
      have "uint (rent h) \<le> uint (balance r ?o)" using True by (simp add: word_le_def)
      moreover have "paidUntil h' \<noteq> paidUntil h" using due(3) period_pos [OF assms(1)] by (simp add: h')
      ultimately show ?thesis
        using \<open>rent_due env now h\<close> stored due(1) uint_balance_minus [OF True]
        by (auto simp: rent_outcome_def rent_taken_def h' b)
    next
      case False
      then have less: "uint (balance r ?o) < uint (rent h)" by (simp add: word_le_def)
      show ?thesis
      proof (cases "rentWarnings h < 7")
        case True
        then have "h' = h\<lparr>rentWarnings := rentWarnings h + 1\<rparr>" "balance r' = balance r"
          using pay due stored False by (auto simp: payHouse_def Let_def add_call_def)
        then show ?thesis using less \<open>rent_due env now h\<close> stored True by (simp add: rent_outcome_def rent_taken_def)
      next
        case many: False
        obtain h1 w1 where s: "setOwner env 0 True (Some ?o) (h, estate_of r) = (h1, w1)" by fastforce
        then have "h1 = evicted env (h\<lparr>isLoaded := True\<rparr>)" using setOwner_zero [OF due(1)] by (metis fst_conv)
        moreover have "h' = h1" "balance r' = balance r"
          using pay due stored False many s by (auto simp: payHouse_def Let_def add_call_def)
        ultimately show ?thesis using less \<open>rent_due env now h\<close> stored many
          by (auto simp: rent_outcome_def rent_taken_def lost)
      qed
    qed
  qed
qed

lemma rent_taken_nonneg: "0 \<le> rent_taken g hh"
  by (simp add: rent_taken_def split: prod.split)

lemma rent_outcome_mono:
  assumes "rent_outcome env period now bal bal' h h'" "\<And>g. uint (bal g) \<le> uint (bal0 g)" "\<And>g. uint (bal1 g) \<le> uint (bal' g)"
  shows "rent_outcome env period now bal0 bal1 h h'"
  using assms(1) assms(2) [of "house_owner h"] assms(3) [of "house_owner h"]
  unfolding rent_outcome_def by (auto split: if_splits)

lemma pay_all_spec:
  assumes "period \<noteq> RENTPERIOD_NEVER"
  shows "pay_all env period now hs r = (hs', r') \<Longrightarrow>
    list_all2 (\<lambda>(i, h) (j, h'). i = j \<and> rent_outcome env period now (balance r) (balance r') h h') hs hs' \<and>
    (\<forall>g. uint (balance r g) = uint (balance r' g) + (\<Sum>hh \<leftarrow> zip (map snd hs) (map snd hs'). rent_taken g hh))"
proof (induction hs arbitrary: r hs')
  case (Cons ih hs)
  obtain i h where ih: "ih = (i, h)" by fastforce
  obtain h1 r1 where p: "payHouse env period now (h, r) = (h1, r1)" by fastforce
  obtain hs1 r2 where ps: "pay_all env period now hs r1 = (hs1, r2)" by fastforce
  from Cons.prems have res: "hs' = (i, h1) # hs1" "r' = r2" by (simp_all add: ih p ps)
  note one = payHouse_spec [OF assms p]
  note IH = Cons.IH [OF ps [folded res(2)]]
  have b1: "uint (balance r1 g) \<le> uint (balance r g)" for g using one rent_taken_nonneg [of g "(h, h1)"] by simp
  have "0 \<le> (\<Sum>hh \<leftarrow> xs. rent_taken g hh)" for g xs by (induction xs) (simp_all add: rent_taken_nonneg)
  then have b2: "uint (balance r' g) \<le> uint (balance r1 g)" for g using IH by simp
  have "rent_outcome env period now (balance r) (balance r') h h1"
    by (rule rent_outcome_mono [OF conjunct1 [OF one] order_refl b2])
  moreover have "list_all2 (\<lambda>(i, h) (j, h'). i = j \<and> rent_outcome env period now (balance r) (balance r') h h') hs hs1"
    by (rule list_all2_mono [OF conjunct1 [OF IH]]) (auto intro: rent_outcome_mono [OF _ b1 order_refl])
  ultimately show ?case using one IH by (simp add: res ih)
qed simp

text \<open>
C18.
  A collection of the rent leaves each house whose rent is not due as it was. Of the others, those whose
  owner can pay are paid until one period from now, and nothing else of them changes: not the number of
  warnings given before. Those whose owner cannot pay get one more warning, or lose the owner when they had
  seven; those whose owner is unknown lose him at once. Every account is charged with exactly the rents of
  the houses that were paid from it.
\<close>

theorem payHouses_outcomes:
  assumes "period \<noteq> RENTPERIOD_NEVER" and "payHouses env period now hs r = (hs', r')"
  shows "list_all2 (\<lambda>(i, h) (j, h'). i = j \<and> rent_outcome env period now (balance r) (balance r') h h') hs hs' \<and>
    (\<forall>g. uint (balance r g) = uint (balance r' g) + (\<Sum>hh \<leftarrow> zip (map snd hs) (map snd hs'). rent_taken g hh))"
  using pay_all_spec [OF assms(1)] assms by (simp add: payHouses_def)

section \<open>Concrete instances\<close>

definition sample_env :: surroundings where
  "sample_env = \<lparr>dir = \<lparr>online_guid = (\<lambda>_. None), guid_by_name = (\<lambda>n. if n = ''bob'' then 7 else 0), guild_by_name = (\<lambda>_. 0)\<rparr>,
     player_of = (\<lambda>c. if c = 1 then Some \<lparr>person_name = ''Bob'', person_guid = 7, person_guild = None, can_edit_houses = False\<rparr>
       else if c = 2 then Some \<lparr>person_name = ''Eve'', person_guid = 8, person_guild = None, can_edit_houses = False\<rparr> else None),
     tile_house = (\<lambda>p. if p = Position 5 5 7 then Some 3 else None), lets_in = (\<lambda>p c. True),
     bed_partner = (\<lambda>_. None), name_by_guid = (\<lambda>g. if g = 9 then ''Ann'' else []), house_price = -1,
     player_online = (\<lambda>_. False), player_stored = (\<lambda>_. True), town_exists = (\<lambda>_. True)\<rparr>"

definition sample_house :: house where
  "sample_house = (new_house 3)\<lparr>house_owner := 5, rent := 100, houseTiles := [Position 5 5 7], posEntry := Position 4 5 7\<rparr>"

definition sample_estate :: estate where
  "sample_estate = \<lparr>doors = (\<lambda>_. \<lparr>door_house = None, doorId = 0, door_pos = Position 0 0 0, door_list = None, door_description = []\<rparr>),
     beds = (\<lambda>_. \<lparr>bed_house = True, sleeperGUID = 0, sleepStart = 0, bed_description = []\<rparr>),
     tile_creatures = (\<lambda>t. if t = Position 5 5 7 then [1, 2, 3] else []), creature_pos = (\<lambda>_. Position 5 5 7),
     tile_items = (\<lambda>_. []), calls = []\<rparr>"

lemma sample_ok: "standing sample_estate" "tiles_ok sample_env sample_house"
  by (simp_all add: standing_def sample_estate_def tiles_ok_def sample_env_def sample_house_def new_house_def)

theorem setAccessList_kicks_witness:
  "\<exists>h w. setAccessList sample_env GUEST_LIST ''Bob'' (sample_house, sample_estate) = (h, w) \<and>
     set (tile_creatures w (Position 5 5 7)) = {1, 3}"
proof -
  obtain h w where s: "setAccessList sample_env GUEST_LIST ''Bob'' (sample_house, sample_estate) = (h, w)" by fastforce
  have h: "h = sample_house\<lparr>guestList := parseList (dir sample_env) ''Bob'' (guestList sample_house)\<rparr>"
    using s by (simp add: setAccessList_def Let_def)
  have "isInvited h (player_of sample_env 1)" "\<not> isInvited h (player_of sample_env 2)"
    unfolding h by code_simp+
  then have "left_alone sample_env h 1" "\<not> left_alone sample_env h 2" "left_alone sample_env h 3"
    by (auto simp: left_alone_def sample_env_def)
  then have "{c \<in> set (tile_creatures sample_estate (Position 5 5 7)). left_alone sample_env h c} = {1, 3}"
    by (auto simp: sample_estate_def)
  with setAccessList_kicks [OF sample_ok _ s, of "Position 5 5 7"]
  have "set (tile_creatures w (Position 5 5 7)) = {1, 3}" by (simp add: sample_house_def)
  with s show ?thesis by blast
qed


theorem payHouses_outcomes_witness:
  "\<exists>hs r. payHouses sample_env RENTPERIOD_WEEKLY 1000 [(3, sample_house)] \<lparr>estate_of = sample_estate, balance = (\<lambda>_. 250)\<rparr> = (hs, r) \<and>
     rent_outcome sample_env RENTPERIOD_WEEKLY 1000 (\<lambda>_. 250) (balance r) sample_house (snd (hd hs))"
proof -
  obtain hs r where p: "payHouses sample_env RENTPERIOD_WEEKLY 1000 [(3, sample_house)] \<lparr>estate_of = sample_estate, balance = (\<lambda>_. 250)\<rparr> = (hs, r)"
    by fastforce
  from payHouses_outcomes [OF _ p]
  have "rent_outcome sample_env RENTPERIOD_WEEKLY 1000 (\<lambda>_. 250) (balance r) sample_house (snd (hd hs))"
    by (auto simp: list_all2_Cons1)
  with p show ?thesis by blast
qed

end
