(* ===== verification/Item_Attributes.thy ===== *)
theory Item_Attributes imports Prop_Stream begin

text \<open>
  The attributes of an item, from \<open>src/src/item.h\<close> and \<open>src/src/item.cpp\<close>: a list of typed values
  together with a word of bits that says which are there, and the comparison of items that decides what
  stacks. The values are those of the union: an integer of 64 bits or a string.
\<close>

section \<open>Types of attributes\<close>

datatype item_attr =
    ITEM_ATTRIBUTE_ACTIONID | ITEM_ATTRIBUTE_UNIQUEID | ITEM_ATTRIBUTE_DESCRIPTION | ITEM_ATTRIBUTE_TEXT
  | ITEM_ATTRIBUTE_DATE | ITEM_ATTRIBUTE_WRITER | ITEM_ATTRIBUTE_NAME | ITEM_ATTRIBUTE_ARTICLE
  | ITEM_ATTRIBUTE_PLURALNAME | ITEM_ATTRIBUTE_WEIGHT | ITEM_ATTRIBUTE_ATTACK | ITEM_ATTRIBUTE_DEFENSE
  | ITEM_ATTRIBUTE_EXTRADEFENSE | ITEM_ATTRIBUTE_ARMOR | ITEM_ATTRIBUTE_HITCHANCE | ITEM_ATTRIBUTE_SHOOTRANGE
  | ITEM_ATTRIBUTE_OWNER | ITEM_ATTRIBUTE_DURATION | ITEM_ATTRIBUTE_DECAYSTATE | ITEM_ATTRIBUTE_CORPSEOWNER
  | ITEM_ATTRIBUTE_CHARGES | ITEM_ATTRIBUTE_FLUIDTYPE | ITEM_ATTRIBUTE_DOORID | ITEM_ATTRIBUTE_SPECIAL
  | ITEM_ATTRIBUTE_IMBUINGSLOTS

text \<open>The enumerator of a type is \<open>1 << n\<close> for its number \<open>n\<close>.\<close>

primrec attr_number :: "item_attr \<Rightarrow> nat" where
  "attr_number ITEM_ATTRIBUTE_ACTIONID = 0"
| "attr_number ITEM_ATTRIBUTE_UNIQUEID = 1"
| "attr_number ITEM_ATTRIBUTE_DESCRIPTION = 2"
| "attr_number ITEM_ATTRIBUTE_TEXT = 3"
| "attr_number ITEM_ATTRIBUTE_DATE = 4"
| "attr_number ITEM_ATTRIBUTE_WRITER = 5"
| "attr_number ITEM_ATTRIBUTE_NAME = 6"
| "attr_number ITEM_ATTRIBUTE_ARTICLE = 7"
| "attr_number ITEM_ATTRIBUTE_PLURALNAME = 8"
| "attr_number ITEM_ATTRIBUTE_WEIGHT = 9"
| "attr_number ITEM_ATTRIBUTE_ATTACK = 10"
| "attr_number ITEM_ATTRIBUTE_DEFENSE = 11"
| "attr_number ITEM_ATTRIBUTE_EXTRADEFENSE = 12"
| "attr_number ITEM_ATTRIBUTE_ARMOR = 13"
| "attr_number ITEM_ATTRIBUTE_HITCHANCE = 14"
| "attr_number ITEM_ATTRIBUTE_SHOOTRANGE = 15"
| "attr_number ITEM_ATTRIBUTE_OWNER = 16"
| "attr_number ITEM_ATTRIBUTE_DURATION = 17"
| "attr_number ITEM_ATTRIBUTE_DECAYSTATE = 18"
| "attr_number ITEM_ATTRIBUTE_CORPSEOWNER = 19"
| "attr_number ITEM_ATTRIBUTE_CHARGES = 20"
| "attr_number ITEM_ATTRIBUTE_FLUIDTYPE = 21"
| "attr_number ITEM_ATTRIBUTE_DOORID = 22"
| "attr_number ITEM_ATTRIBUTE_SPECIAL = 23"
| "attr_number ITEM_ATTRIBUTE_IMBUINGSLOTS = 24"

definition attr_bit :: "item_attr \<Rightarrow> u32" where
  "attr_bit t = push_bit (attr_number t) 1"

definition isIntAttrType :: "item_attr \<Rightarrow> bool" where
  "isIntAttrType t \<longleftrightarrow> attr_bit t AND 0x7FFE13 \<noteq> 0"

definition isStrAttrType :: "item_attr \<Rightarrow> bool" where
  "isStrAttrType t \<longleftrightarrow> attr_bit t AND 0x8001EC \<noteq> 0"

section \<open>The list of attributes\<close>

datatype attr_value = IntValue int | StrValue string

record item_attributes =
  attr_list :: "(item_attr \<times> attr_value) list"
  attributeBits :: u32

definition no_attributes :: item_attributes where
  "no_attributes = \<lparr>attr_list = [], attributeBits = 0\<rparr>"

definition ia_hasAttribute :: "item_attributes \<Rightarrow> item_attr \<Rightarrow> bool" where
  "ia_hasAttribute a t \<longleftrightarrow> attr_bit t AND attributeBits a \<noteq> 0"

definition getExistingAttr :: "item_attributes \<Rightarrow> item_attr \<Rightarrow> attr_value option" where
  "getExistingAttr a t =
     (if ia_hasAttribute a t then map_option snd (find (\<lambda>(s, v). s = t) (attr_list a)) else None)"

text \<open>\<open>getAttr\<close> gives a reference, which its callers write: it is an update of the value of a type.\<close>

fun upd_first :: "item_attr \<Rightarrow> (attr_value \<Rightarrow> attr_value) \<Rightarrow> (item_attr \<times> attr_value) list \<Rightarrow> (item_attr \<times> attr_value) list option" where
  "upd_first t f [] = None"
| "upd_first t f ((s, v) # xs) = (if s = t then Some ((s, f v) # xs) else map_option (Cons (s, v)) (upd_first t f xs))"

definition upd_attr :: "item_attr \<Rightarrow> (attr_value \<Rightarrow> attr_value) \<Rightarrow> item_attributes \<Rightarrow> item_attributes" where
  "upd_attr t f a =
     (case (if ia_hasAttribute a t then upd_first t f (attr_list a) else None) of
        Some xs \<Rightarrow> a\<lparr>attr_list := xs\<rparr>
      | None \<Rightarrow> a\<lparr>attributeBits := attributeBits a OR attr_bit t, attr_list := (t, f (IntValue 0)) # attr_list a\<rparr>)"

definition ia_getStrAttr :: "item_attributes \<Rightarrow> item_attr \<Rightarrow> string" where
  "ia_getStrAttr a t =
     (if \<not> isStrAttrType t then []
      else (case getExistingAttr a t of Some (StrValue s) \<Rightarrow> s | _ \<Rightarrow> []))"

definition ia_setStrAttr :: "item_attr \<Rightarrow> string \<Rightarrow> item_attributes \<Rightarrow> item_attributes" where
  "ia_setStrAttr t value a =
     (if \<not> isStrAttrType t then a
      else if value = [] then a
      else upd_attr t (\<lambda>_. StrValue value) a)"

definition ia_getIntAttr :: "item_attributes \<Rightarrow> item_attr \<Rightarrow> int" where
  "ia_getIntAttr a t =
     (if \<not> isIntAttrType t then 0
      else (case getExistingAttr a t of Some (IntValue n) \<Rightarrow> n | _ \<Rightarrow> 0))"

definition ia_setIntAttr :: "item_attr \<Rightarrow> int \<Rightarrow> item_attributes \<Rightarrow> item_attributes" where
  "ia_setIntAttr t value a = (if \<not> isIntAttrType t then a else upd_attr t (\<lambda>_. IntValue value) a)"

definition ia_increaseIntAttr :: "item_attr \<Rightarrow> int \<Rightarrow> item_attributes \<Rightarrow> item_attributes" where
  "ia_increaseIntAttr t value a =
     (if \<not> isIntAttrType t then a
      else upd_attr t (\<lambda>v. case v of IntValue n \<Rightarrow> IntValue (n + value) | StrValue s \<Rightarrow> StrValue s) a)"

fun remove_first :: "item_attr \<Rightarrow> (item_attr \<times> attr_value) list \<Rightarrow> (item_attr \<times> attr_value) list" where
  "remove_first t [] = []"
| "remove_first t ((s, v) # xs) = (if s = t then xs else (s, v) # remove_first t xs)"

definition ia_removeAttribute :: "item_attr \<Rightarrow> item_attributes \<Rightarrow> item_attributes" where
  "ia_removeAttribute t a =
     (if \<not> ia_hasAttribute a t then a
      else a\<lparr>attr_list := remove_first t (attr_list a), attributeBits := attributeBits a AND NOT (attr_bit t)\<rparr>)"

section \<open>Items\<close>

record item =
  item_id :: u16
  item_count :: u8
  attributes :: "item_attributes option"

text \<open>\<open>getAttributes\<close> allocates the attributes when there are none.\<close>

definition on_attributes :: "(item_attributes \<Rightarrow> item_attributes) \<Rightarrow> item \<Rightarrow> item" where
  "on_attributes f i = i\<lparr>attributes := Some (f (case attributes i of None \<Rightarrow> no_attributes | Some a \<Rightarrow> a))\<rparr>"

definition hasAttribute :: "item \<Rightarrow> item_attr \<Rightarrow> bool" where
  "hasAttribute i t = (case attributes i of None \<Rightarrow> False | Some a \<Rightarrow> ia_hasAttribute a t)"

definition getStrAttr :: "item \<Rightarrow> item_attr \<Rightarrow> string" where
  "getStrAttr i t = (case attributes i of None \<Rightarrow> [] | Some a \<Rightarrow> ia_getStrAttr a t)"

definition setStrAttr :: "item_attr \<Rightarrow> string \<Rightarrow> item \<Rightarrow> item" where
  "setStrAttr t value = on_attributes (ia_setStrAttr t value)"

definition getIntAttr :: "item \<Rightarrow> item_attr \<Rightarrow> u32" where
  "getIntAttr i t = (case attributes i of None \<Rightarrow> 0 | Some a \<Rightarrow> word_of_int (ia_getIntAttr a t))"

definition setIntAttr :: "item_attr \<Rightarrow> u32 \<Rightarrow> item \<Rightarrow> item" where
  "setIntAttr t value = on_attributes (ia_setIntAttr t (sint value))"

definition increaseIntAttr :: "item_attr \<Rightarrow> u32 \<Rightarrow> item \<Rightarrow> item" where
  "increaseIntAttr t value = on_attributes (ia_increaseIntAttr t (sint value))"

definition removeAttribute :: "item_attr \<Rightarrow> item \<Rightarrow> item" where
  "removeAttribute t i = i\<lparr>attributes := map_option (ia_removeAttribute t) (attributes i)\<rparr>"

definition equals :: "item \<Rightarrow> item option \<Rightarrow> bool" where
  "equals i otherItem =
     (case otherItem of
        None \<Rightarrow> False
      | Some j \<Rightarrow>
          if item_id i \<noteq> item_id j then False
          else (case attributes i of
             None \<Rightarrow> attributes j = None
           | Some a \<Rightarrow>
               (case attributes j of
                  None \<Rightarrow> False
                | Some b \<Rightarrow>
                    if attributeBits a \<noteq> attributeBits b then False
                    else list_all (\<lambda>(t, v). list_all (\<lambda>(s, u). \<not> (s = t \<and> v \<noteq> u)) (attr_list b)) (attr_list a))))"

section \<open>The attributes are a map\<close>

definition all_attrs :: "item_attr list" where
  "all_attrs = [ITEM_ATTRIBUTE_ACTIONID, ITEM_ATTRIBUTE_UNIQUEID, ITEM_ATTRIBUTE_DESCRIPTION, ITEM_ATTRIBUTE_TEXT,
     ITEM_ATTRIBUTE_DATE, ITEM_ATTRIBUTE_WRITER, ITEM_ATTRIBUTE_NAME, ITEM_ATTRIBUTE_ARTICLE,
     ITEM_ATTRIBUTE_PLURALNAME, ITEM_ATTRIBUTE_WEIGHT, ITEM_ATTRIBUTE_ATTACK, ITEM_ATTRIBUTE_DEFENSE,
     ITEM_ATTRIBUTE_EXTRADEFENSE, ITEM_ATTRIBUTE_ARMOR, ITEM_ATTRIBUTE_HITCHANCE, ITEM_ATTRIBUTE_SHOOTRANGE,
     ITEM_ATTRIBUTE_OWNER, ITEM_ATTRIBUTE_DURATION, ITEM_ATTRIBUTE_DECAYSTATE, ITEM_ATTRIBUTE_CORPSEOWNER,
     ITEM_ATTRIBUTE_CHARGES, ITEM_ATTRIBUTE_FLUIDTYPE, ITEM_ATTRIBUTE_DOORID, ITEM_ATTRIBUTE_SPECIAL,
     ITEM_ATTRIBUTE_IMBUINGSLOTS]"

lemma attr_number_inj [simp]: "attr_number s = attr_number t \<longleftrightarrow> s = t"
proof -
  have "all_attrs ! attr_number t = t" for t by (cases t) (simp_all add: all_attrs_def)
  then show ?thesis by metis
qed

lemma attr_number_less [simp]: "attr_number t < 32"
  by (cases t) simp_all

lemma bit_attr_bit [simp]: "bit (attr_bit t) n \<longleftrightarrow> n = attr_number t"
proof -
  have "attr_number t < LENGTH(32)" by simp
  then show ?thesis unfolding attr_bit_def by (auto simp only: bit_push_bit_iff bit_1_iff) auto
qed

lemma attr_bit_and: "attr_bit t AND w \<noteq> 0 \<longleftrightarrow> bit w (attr_number t)"
proof
  assume "bit w (attr_number t)"
  then have "bit (attr_bit t AND w) (attr_number t)" by (simp add: bit_and_iff)
  then show "attr_bit t AND w \<noteq> 0" by (metis bit_0_eq bot_apply bot_bool_def)
next
  assume "attr_bit t AND w \<noteq> 0"
  then obtain n where "bit (attr_bit t AND w) n" by (auto simp: bit_eq_iff)
  then show "bit w (attr_number t)" by (auto simp: bit_and_iff)
qed

lemma isIntAttrType_iff: "isIntAttrType t \<longleftrightarrow> t \<in> {ITEM_ATTRIBUTE_ACTIONID, ITEM_ATTRIBUTE_UNIQUEID, ITEM_ATTRIBUTE_DATE,
    ITEM_ATTRIBUTE_WEIGHT, ITEM_ATTRIBUTE_ATTACK, ITEM_ATTRIBUTE_DEFENSE, ITEM_ATTRIBUTE_EXTRADEFENSE, ITEM_ATTRIBUTE_ARMOR,
    ITEM_ATTRIBUTE_HITCHANCE, ITEM_ATTRIBUTE_SHOOTRANGE, ITEM_ATTRIBUTE_OWNER, ITEM_ATTRIBUTE_DURATION, ITEM_ATTRIBUTE_DECAYSTATE,
    ITEM_ATTRIBUTE_CORPSEOWNER, ITEM_ATTRIBUTE_CHARGES, ITEM_ATTRIBUTE_FLUIDTYPE, ITEM_ATTRIBUTE_DOORID}"
  by (cases t) (simp_all add: isIntAttrType_def attr_bit_def)

lemma isStrAttrType_iff: "isStrAttrType t \<longleftrightarrow> t \<in> {ITEM_ATTRIBUTE_DESCRIPTION, ITEM_ATTRIBUTE_TEXT, ITEM_ATTRIBUTE_WRITER,
    ITEM_ATTRIBUTE_NAME, ITEM_ATTRIBUTE_ARTICLE, ITEM_ATTRIBUTE_PLURALNAME, ITEM_ATTRIBUTE_SPECIAL}"
  by (cases t) (simp_all add: isStrAttrType_def attr_bit_def)

text \<open>The number of imbuing slots has a type that counts neither as integer nor as string: it is not stored.\<close>

lemma imbuing_slots_lost: "getIntAttr (setIntAttr ITEM_ATTRIBUTE_IMBUINGSLOTS n i) ITEM_ATTRIBUTE_IMBUINGSLOTS = 0 \<and>
    hasAttribute (setIntAttr ITEM_ATTRIBUTE_IMBUINGSLOTS n i) t = hasAttribute i t"
  by (auto simp: getIntAttr_def setIntAttr_def on_attributes_def ia_getIntAttr_def ia_setIntAttr_def isIntAttrType_iff
      hasAttribute_def ia_hasAttribute_def no_attributes_def split: option.split)

text \<open>
  The bits say which types are in the list, no type is there twice, and each value has the kind of its
  type; an empty string is never stored.
\<close>

definition value_ok :: "item_attr \<Rightarrow> attr_value \<Rightarrow> bool" where
  "value_ok t v = (case v of IntValue n \<Rightarrow> isIntAttrType t | StrValue s \<Rightarrow> isStrAttrType t \<and> s \<noteq> [])"

definition attrs_ok :: "item_attributes \<Rightarrow> bool" where
  "attrs_ok a \<longleftrightarrow> distinct (map fst (attr_list a)) \<and>
     (\<forall>t. bit (attributeBits a) (attr_number t) \<longleftrightarrow> t \<in> fst ` set (attr_list a)) \<and>
     (\<forall>n. bit (attributeBits a) n \<longrightarrow> n < 25) \<and>
     (\<forall>(t, v) \<in> set (attr_list a). value_ok t v)"

definition value_at :: "item_attributes \<Rightarrow> item_attr \<Rightarrow> attr_value option" where
  "value_at a = map_of (attr_list a)"

lemma attrs_ok_none [simp]: "attrs_ok no_attributes" "value_at no_attributes t = None"
  by (simp_all add: attrs_ok_def no_attributes_def value_at_def)

lemma has_value: "attrs_ok a \<Longrightarrow> ia_hasAttribute a t \<longleftrightarrow> value_at a t \<noteq> None"
  by (simp add: ia_hasAttribute_def attr_bit_and attrs_ok_def value_at_def map_of_eq_None_iff)

lemma find_map_of: "map_option snd (find (\<lambda>(s, v). s = t) xs) = map_of xs t"
  by (induction xs) auto

lemma existing_value: "attrs_ok a \<Longrightarrow> getExistingAttr a t = value_at a t"
  using has_value [of a t] by (auto simp: getExistingAttr_def find_map_of value_at_def)

lemma value_ok_at: "attrs_ok a \<Longrightarrow> value_at a t = Some v \<Longrightarrow> value_ok t v"
  by (auto simp: attrs_ok_def value_at_def dest: map_of_SomeD)

lemma attr_number_25: "attr_number t < 25"
  by (cases t) simp_all

lemma upd_first_spec:
  "t \<in> fst ` set xs \<Longrightarrow> \<exists>ys. upd_first t f xs = Some ys \<and> map fst ys = map fst xs \<and>
     map_of ys = (map_of xs)(t \<mapsto> f (the (map_of xs t)))"
proof (induction xs)
  case (Cons x xs)
  obtain s v where x: "x = (s, v)" by fastforce
  show ?case
  proof (cases "s = t")
    case False
    with Cons.prems have "t \<in> fst ` set xs" by (auto simp: x)
    with Cons.IH obtain ys where ys: "upd_first t f xs = Some ys" "map fst ys = map fst xs"
      "map_of ys = (map_of xs)(t \<mapsto> f (the (map_of xs t)))" by blast
    then show ?thesis using False by (intro exI [of _ "(s, v) # ys"]) (auto simp: x fun_eq_iff)
  qed (auto simp: x fun_eq_iff)
qed simp

lemma attrs_ok_map:
  "attrs_ok a \<longleftrightarrow> distinct (map fst (attr_list a)) \<and>
     (\<forall>t. bit (attributeBits a) (attr_number t) \<longleftrightarrow> value_at a t \<noteq> None) \<and>
     (\<forall>n. bit (attributeBits a) n \<longrightarrow> n < 25) \<and> (\<forall>t v. value_at a t = Some v \<longrightarrow> value_ok t v)"
proof -
  have "(\<forall>(t, v) \<in> set xs. value_ok t v) \<longleftrightarrow> (\<forall>t v. map_of xs t = Some v \<longrightarrow> value_ok t v)" if "distinct (map fst xs)" for xs
    using that by (auto simp: map_of_eq_Some_iff)
  then show ?thesis by (auto simp: attrs_ok_def value_at_def map_of_eq_None_iff)
qed

lemma upd_attr_spec:
  assumes ok: "attrs_ok a" and f: "value_ok t (f (case value_at a t of None \<Rightarrow> IntValue 0 | Some v \<Rightarrow> v))"
  shows "attrs_ok (upd_attr t f a)"
    "value_at (upd_attr t f a) = (value_at a)(t \<mapsto> f (case value_at a t of None \<Rightarrow> IntValue 0 | Some v \<Rightarrow> v))"
proof -
  have "attrs_ok (upd_attr t f a) \<and>
    value_at (upd_attr t f a) = (value_at a)(t \<mapsto> f (case value_at a t of None \<Rightarrow> IntValue 0 | Some v \<Rightarrow> v))"
  proof (cases "value_at a t")
    case None
    then have u: "upd_attr t f a = a\<lparr>attributeBits := attributeBits a OR attr_bit t, attr_list := (t, f (IntValue 0)) # attr_list a\<rparr>"
      using has_value [OF ok, of t] by (simp add: upd_attr_def)
    have v: "value_at (upd_attr t f a) = (value_at a)(t \<mapsto> f (IntValue 0))" by (simp add: u value_at_def)
    have "attrs_ok (upd_attr t f a)"
    proof -
      have "t \<notin> fst ` set (attr_list a)" using None by (simp add: value_at_def map_of_eq_None_iff)
      moreover have "value_ok t (f (IntValue 0))" using f None by simp
      ultimately show ?thesis
        using ok attr_number_25 [of t] unfolding attrs_ok_map v by (auto simp: u bit_or_iff)
    qed
    with v None show ?thesis by simp
  next
    case (Some v)
    then have t: "t \<in> fst ` set (attr_list a)" unfolding value_at_def by (force dest: map_of_SomeD)
    obtain ys where ys: "upd_first t f (attr_list a) = Some ys" "map fst ys = map fst (attr_list a)"
      "map_of ys = (map_of (attr_list a))(t \<mapsto> f (the (map_of (attr_list a) t)))"
      using upd_first_spec [OF t] by blast
    have u: "upd_attr t f a = a\<lparr>attr_list := ys\<rparr>" using has_value [OF ok, of t] Some ys(1) by (simp add: upd_attr_def)
    have v: "value_at (upd_attr t f a) = (value_at a)(t \<mapsto> f v)" using ys(3) Some by (simp add: u value_at_def)
    have "attrs_ok (upd_attr t f a)"
      using ok f Some unfolding attrs_ok_map v by (auto simp: u ys(2) split: if_splits)
    with v Some show ?thesis by simp
  qed
  then show "attrs_ok (upd_attr t f a)"
    "value_at (upd_attr t f a) = (value_at a)(t \<mapsto> f (case value_at a t of None \<Rightarrow> IntValue 0 | Some v \<Rightarrow> v))" by simp_all
qed

lemma setInt_spec:
  "attrs_ok a \<Longrightarrow> attrs_ok (ia_setIntAttr t n a)"
  "attrs_ok a \<Longrightarrow> value_at (ia_setIntAttr t n a) = (if isIntAttrType t then (value_at a)(t \<mapsto> IntValue n) else value_at a)"
  using upd_attr_spec [of a t "\<lambda>_. IntValue n"] by (auto simp: ia_setIntAttr_def value_ok_def)

lemma setStr_spec:
  "attrs_ok a \<Longrightarrow> attrs_ok (ia_setStrAttr t s a)"
  "attrs_ok a \<Longrightarrow> value_at (ia_setStrAttr t s a) = (if isStrAttrType t \<and> s \<noteq> [] then (value_at a)(t \<mapsto> StrValue s) else value_at a)"
  using upd_attr_spec [of a t "\<lambda>_. StrValue s"] by (auto simp: ia_setStrAttr_def value_ok_def)

lemma increase_spec:
  assumes "attrs_ok a" "isIntAttrType t"
  shows "attrs_ok (ia_increaseIntAttr t n a)"
    "value_at (ia_increaseIntAttr t n a) = (value_at a)(t \<mapsto> IntValue (ia_getIntAttr a t + n))"
proof -
  let ?f = "\<lambda>v. case v of IntValue m \<Rightarrow> IntValue (m + n) | StrValue s \<Rightarrow> StrValue s"
  have not_str: "\<not> isStrAttrType t" using assms(2) by (auto simp: isIntAttrType_iff isStrAttrType_iff)
  then have v: "?f (case value_at a t of None \<Rightarrow> IntValue 0 | Some v \<Rightarrow> v) = IntValue (ia_getIntAttr a t + n)"
    using value_ok_at [OF assms(1), of t] assms(2)
    by (auto simp: ia_getIntAttr_def existing_value [OF assms(1)] value_ok_def split: option.split attr_value.splits)
  show "attrs_ok (ia_increaseIntAttr t n a)"
    "value_at (ia_increaseIntAttr t n a) = (value_at a)(t \<mapsto> IntValue (ia_getIntAttr a t + n))"
    using upd_attr_spec [OF assms(1), of t ?f] assms(2) unfolding v by (simp_all add: ia_increaseIntAttr_def value_ok_def)
qed

lemma remove_first_spec:
  "distinct (map fst xs) \<Longrightarrow> distinct (map fst (remove_first t xs)) \<and> set (remove_first t xs) \<subseteq> set xs \<and>
   map_of (remove_first t xs) = (map_of xs)(t := None)"
proof (induction xs)
  case (Cons x xs)
  obtain s v where x: "x = (s, v)" by fastforce
  show ?case
  proof (cases "s = t")
    case True
    then have "map_of xs t = None" using Cons.prems by (auto simp: x map_of_eq_None_iff)
    then show ?thesis using Cons.prems True by (auto simp: x fun_eq_iff)
  next
    case False
    have "set (map fst (remove_first t xs)) \<subseteq> set (map fst xs)" using Cons by (auto simp: x)
    then show ?thesis using Cons False by (auto simp: x fun_eq_iff)
  qed
qed simp

lemma remove_spec:
  assumes "attrs_ok a"
  shows "attrs_ok (ia_removeAttribute t a)" "value_at (ia_removeAttribute t a) = (value_at a)(t := None)"
proof -
  have "attrs_ok (ia_removeAttribute t a) \<and> value_at (ia_removeAttribute t a) = (value_at a)(t := None)"
  proof (cases "value_at a t")
    case None
    then show ?thesis using assms has_value [OF assms, of t] by (auto simp: ia_removeAttribute_def)
  next
    case (Some v)
    then have r: "ia_removeAttribute t a = a\<lparr>attr_list := remove_first t (attr_list a), attributeBits := attributeBits a AND NOT (attr_bit t)\<rparr>"
      using has_value [OF assms, of t] by (simp add: ia_removeAttribute_def)
    have d: "distinct (map fst (attr_list a))" using assms by (simp add: attrs_ok_def)
    have v: "value_at (ia_removeAttribute t a) = (value_at a)(t := None)"
      using remove_first_spec [OF d, of t] by (simp add: r value_at_def)
    have "attrs_ok (ia_removeAttribute t a)"
      using assms remove_first_spec [OF d, of t] unfolding attrs_ok_map v
      by (auto simp: r bit_and_iff bit_not_iff dest: bit_imp_le_length split: if_splits)
    with v show ?thesis by simp
  qed
  then show "attrs_ok (ia_removeAttribute t a)" "value_at (ia_removeAttribute t a) = (value_at a)(t := None)" by simp_all
qed

section \<open>Items as maps of attributes\<close>

definition item_ok :: "item \<Rightarrow> bool" where
  "item_ok i \<longleftrightarrow> (case attributes i of None \<Rightarrow> True | Some a \<Rightarrow> attrs_ok a)"

definition item_value :: "item \<Rightarrow> item_attr \<Rightarrow> attr_value option" where
  "item_value i t = (case attributes i of None \<Rightarrow> None | Some a \<Rightarrow> value_at a t)"

lemma item_value_ok: "item_ok i \<Longrightarrow> item_value i t = Some v \<Longrightarrow> value_ok t v"
  by (auto simp: item_ok_def item_value_def value_ok_at split: option.splits)

lemma hasAttribute_value: "item_ok i \<Longrightarrow> hasAttribute i t \<longleftrightarrow> item_value i t \<noteq> None"
  by (auto simp: item_ok_def item_value_def hasAttribute_def has_value split: option.splits)

lemma getIntAttr_value:
  "item_ok i \<Longrightarrow> getIntAttr i t = (case item_value i t of Some (IntValue n) \<Rightarrow> word_of_int n | _ \<Rightarrow> 0)"
  using item_value_ok [of i t]
  by (auto simp: item_ok_def item_value_def getIntAttr_def ia_getIntAttr_def existing_value value_ok_def
      split: option.splits attr_value.splits)

lemma getStrAttr_value:
  "item_ok i \<Longrightarrow> getStrAttr i t = (case item_value i t of Some (StrValue s) \<Rightarrow> s | _ \<Rightarrow> [])"
  using item_value_ok [of i t]
  by (auto simp: item_ok_def item_value_def getStrAttr_def ia_getStrAttr_def existing_value value_ok_def
      split: option.splits attr_value.splits)

lemma on_attributes_ok:
  assumes "item_ok i" "\<And>a. attrs_ok a \<Longrightarrow> attrs_ok (f a)" "\<And>a. attrs_ok a \<Longrightarrow> value_at (f a) = g (value_at a)"
  shows "item_ok (on_attributes f i)" "item_value (on_attributes f i) = g (item_value i)"
proof -
  have "value_at no_attributes = (\<lambda>_. None)" by (intro ext) simp
  then show "item_ok (on_attributes f i)" "item_value (on_attributes f i) = g (item_value i)"
    using assms by (auto simp: item_ok_def item_value_def [abs_def] on_attributes_def split: option.splits)
qed

lemma setIntAttr_ok [simp]: "item_ok i \<Longrightarrow> item_ok (setIntAttr t n i)"
  unfolding setIntAttr_def by (rule on_attributes_ok(1)) (simp_all add: setInt_spec)

lemma item_value_setInt [simp]:
  "item_ok i \<Longrightarrow> item_value (setIntAttr t n i) = (if isIntAttrType t then (item_value i)(t \<mapsto> IntValue (sint n)) else item_value i)"
  unfolding setIntAttr_def
  by (rule on_attributes_ok(2) [where g = "\<lambda>m. if isIntAttrType t then m(t \<mapsto> IntValue (sint n)) else m"]) (simp_all add: setInt_spec)

lemma setStrAttr_ok [simp]: "item_ok i \<Longrightarrow> item_ok (setStrAttr t s i)"
  unfolding setStrAttr_def by (rule on_attributes_ok(1)) (simp_all add: setStr_spec)

lemma item_value_setStr [simp]:
  "item_ok i \<Longrightarrow> item_value (setStrAttr t s i) = (if isStrAttrType t \<and> s \<noteq> [] then (item_value i)(t \<mapsto> StrValue s) else item_value i)"
  unfolding setStrAttr_def
  by (rule on_attributes_ok(2) [where g = "\<lambda>m. if isStrAttrType t \<and> s \<noteq> [] then m(t \<mapsto> StrValue s) else m"]) (simp_all add: setStr_spec)

lemma increaseIntAttr_ok: "item_ok i \<Longrightarrow> isIntAttrType t \<Longrightarrow> item_ok (increaseIntAttr t n i)"
  by (auto simp: item_ok_def increaseIntAttr_def on_attributes_def increase_spec split: option.splits)

lemma removeAttribute_ok [simp]: "item_ok i \<Longrightarrow> item_ok (removeAttribute t i)"
  by (auto simp: item_ok_def removeAttribute_def remove_spec split: option.splits)

lemma item_value_remove [simp]: "item_ok i \<Longrightarrow> item_value (removeAttribute t i) = (item_value i)(t := None)"
  by (auto simp: item_ok_def item_value_def [abs_def] removeAttribute_def remove_spec split: option.splits)

lemma attr_of_number: "n < 25 \<Longrightarrow> \<exists>t. attr_number t = n"
proof -
  have "\<forall>n < 25. attr_number (all_attrs ! n) = n" by code_simp
  then show "n < 25 \<Longrightarrow> \<exists>t. attr_number t = n" by blast
qed

lemma same_bits:
  assumes "attrs_ok a" "attrs_ok b"
  shows "attributeBits a = attributeBits b \<longleftrightarrow> dom (value_at a) = dom (value_at b)"
proof
  assume "attributeBits a = attributeBits b"
  then show "dom (value_at a) = dom (value_at b)" using assms by (auto simp: attrs_ok_map)
next
  assume d: "dom (value_at a) = dom (value_at b)"
  have "bit (attributeBits a) n = bit (attributeBits b) n" for n
  proof (cases "n < 25")
    case True
    then obtain t where "attr_number t = n" using attr_of_number by blast
    moreover have "value_at a t = None \<longleftrightarrow> value_at b t = None" using d by (metis domIff)
    ultimately show ?thesis using assms by (auto simp: attrs_ok_map)
  next
    case False
    then show ?thesis using assms by (auto simp: attrs_ok_map)
  qed
  then show "attributeBits a = attributeBits b" by (simp add: bit_eq_iff)
qed

text \<open>
  \<open>Item::equals\<close>, which decides what is stacked, holds of two items exactly when they have the same id and
  the same attributes with the same values, in whatever order these were set, and moreover both have or both
  lack the attribute object: an item whose last attribute was removed equals no item that never had one.
\<close>

theorem equals_attributes:
  assumes "item_ok i" "item_ok j"
  shows "equals i (Some j) \<longleftrightarrow> item_id i = item_id j \<and> item_value i = item_value j \<and>
    (attributes i = None \<longleftrightarrow> attributes j = None)"
proof (cases "\<exists>a b. attributes i = Some a \<and> attributes j = Some b")
  case False
  then show ?thesis by (auto simp: equals_def item_value_def [abs_def] split: option.splits)
next
  case True
  then obtain a b where ab: "attributes i = Some a" "attributes j = Some b" by blast
  then have ok: "attrs_ok a" "attrs_ok b" using assms by (simp_all add: item_ok_def)
  have d: "distinct (map fst (attr_list a))" "distinct (map fst (attr_list b))" using ok by (simp_all add: attrs_ok_def)
  have "list_all (\<lambda>(t, v). list_all (\<lambda>(s, u). \<not> (s = t \<and> v \<noteq> u)) (attr_list b)) (attr_list a) \<longleftrightarrow>
      (\<forall>t v u. value_at a t = Some v \<longrightarrow> value_at b t = Some u \<longrightarrow> v = u)"
    unfolding list_all_iff value_at_def map_of_eq_Some_iff [OF d(1)] map_of_eq_Some_iff [OF d(2)] by auto
  moreover have "dom (value_at a) = dom (value_at b) \<and> (\<forall>t v u. value_at a t = Some v \<longrightarrow> value_at b t = Some u \<longrightarrow> v = u)
      \<longleftrightarrow> value_at a = value_at b"
  proof
    assume h: "dom (value_at a) = dom (value_at b) \<and> (\<forall>t v u. value_at a t = Some v \<longrightarrow> value_at b t = Some u \<longrightarrow> v = u)"
    show "value_at a = value_at b"
    proof
      fix t
      have "value_at a t = None \<longleftrightarrow> value_at b t = None" using h by (metis domIff)
      then show "value_at a t = value_at b t" using h by (cases "value_at a t"; cases "value_at b t") auto
    qed
  qed auto
  moreover have "item_value i = value_at a" "item_value j = value_at b" by (auto simp: item_value_def ab)
  ultimately show ?thesis using same_bits [OF ok] by (auto simp: equals_def ab)
qed

definition plain_item :: "u16 \<Rightarrow> item" where
  "plain_item n = \<lparr>item_id = n, item_count = 1, attributes = None\<rparr>"

theorem equals_attributes_witness:
  "equals (setIntAttr ITEM_ATTRIBUTE_ATTACK 5 (setStrAttr ITEM_ATTRIBUTE_NAME ''a'' (plain_item 7)))
      (Some (setStrAttr ITEM_ATTRIBUTE_NAME ''a'' (setIntAttr ITEM_ATTRIBUTE_ATTACK 5 (plain_item 7)))) \<and>
   \<not> equals (removeAttribute ITEM_ATTRIBUTE_ATTACK (setIntAttr ITEM_ATTRIBUTE_ATTACK 5 (plain_item 7))) (Some (plain_item 7))"
proof -
  have ok: "item_ok (plain_item 7)" by (simp add: item_ok_def plain_item_def)
  let ?i = "setIntAttr ITEM_ATTRIBUTE_ATTACK 5 (setStrAttr ITEM_ATTRIBUTE_NAME ''a'' (plain_item 7))"
  let ?j = "setStrAttr ITEM_ATTRIBUTE_NAME ''a'' (setIntAttr ITEM_ATTRIBUTE_ATTACK 5 (plain_item 7))"
  let ?r = "removeAttribute ITEM_ATTRIBUTE_ATTACK (setIntAttr ITEM_ATTRIBUTE_ATTACK 5 (plain_item 7))"
  have v: "item_value ?i = item_value ?j" using ok by (simp add: fun_upd_twist)
  have a: "item_id ?i = item_id ?j" "attributes ?i \<noteq> None" "attributes ?j \<noteq> None"
    by (simp_all add: setIntAttr_def setStrAttr_def on_attributes_def)
  have r: "attributes ?r \<noteq> None" "attributes (plain_item 7) = None"
    by (simp_all add: setIntAttr_def on_attributes_def removeAttribute_def plain_item_def)
  have o: "item_ok ?i" "item_ok ?j" "item_ok ?r" using ok by simp_all
  have "equals ?i (Some ?j)" unfolding equals_attributes [OF o(1,2)] using v a by blast
  moreover have "\<not> equals ?r (Some (plain_item 7))" unfolding equals_attributes [OF o(3) ok] using r by blast
  ultimately show ?thesis by (rule conjI)
qed

end
