(* ===== verification/Item_Serialization.thy ===== *)
theory Item_Serialization imports Item_Attributes begin

text \<open>
  Items and how they are stored, from \<open>src/src/item.h\<close> and \<open>src/src/item.cpp\<close>: the constructor, counts,
  charges and other values that are kept as attributes, the weight, and the byte image of an item in the
  data base and on the map. The table of the types of items, which is loaded from files, is a parameter,
  and so is the register of unique ids.
\<close>

section \<open>Types and values of items\<close>

record item_type =
  it_stackable :: bool
  it_fluidContainer :: bool
  it_splash :: bool
  it_moveable :: bool
  it_pickupable :: bool
  it_stopTime :: bool
  it_charges :: u32
  it_weight :: u32
  it_decayTime :: u32
  it_decayTo :: int

type_synonym item_types = "u16 \<Rightarrow> item_type"

definition setItemCount :: "u8 \<Rightarrow> item \<Rightarrow> item" where
  "setItemCount n i = i\<lparr>item_count := n\<rparr>"

definition getItemCount :: "item \<Rightarrow> u16" where
  "getItemCount i = ucast (item_count i)"

definition setCharges :: "u16 \<Rightarrow> item \<Rightarrow> item" where
  "setCharges n = setIntAttr ITEM_ATTRIBUTE_CHARGES (ucast n)"

definition getCharges :: "item \<Rightarrow> u16" where
  "getCharges i = ucast (getIntAttr i ITEM_ATTRIBUTE_CHARGES)"

definition setFluidType :: "u16 \<Rightarrow> item \<Rightarrow> item" where
  "setFluidType n = setIntAttr ITEM_ATTRIBUTE_FLUIDTYPE (ucast n)"

definition getFluidType :: "item \<Rightarrow> u16" where
  "getFluidType i = ucast (getIntAttr i ITEM_ATTRIBUTE_FLUIDTYPE)"

definition setActionId :: "u16 \<Rightarrow> item \<Rightarrow> item" where
  "setActionId n = setIntAttr ITEM_ATTRIBUTE_ACTIONID (ucast (if n < 100 then 100 else n))"

definition getActionId :: "item \<Rightarrow> u16" where
  "getActionId i = ucast (getIntAttr i ITEM_ATTRIBUTE_ACTIONID)"

definition getUniqueId :: "item \<Rightarrow> u16" where
  "getUniqueId i = ucast (getIntAttr i ITEM_ATTRIBUTE_UNIQUEID)"

definition setUniqueId :: "(u16 \<Rightarrow> bool) \<Rightarrow> u16 \<Rightarrow> item \<Rightarrow> item" where
  "setUniqueId addUniqueItem n i =
     (if hasAttribute i ITEM_ATTRIBUTE_UNIQUEID then i
      else if addUniqueItem n then setIntAttr ITEM_ATTRIBUTE_UNIQUEID (ucast n) i else i)"

definition setDate :: "u32 \<Rightarrow> item \<Rightarrow> item" where
  "setDate n = setIntAttr ITEM_ATTRIBUTE_DATE n"

definition getDate :: "item \<Rightarrow> int" where
  "getDate i = sint (getIntAttr i ITEM_ATTRIBUTE_DATE)"

definition setDuration :: "u32 \<Rightarrow> item \<Rightarrow> item" where
  "setDuration time = setIntAttr ITEM_ATTRIBUTE_DURATION time"

definition decreaseDuration :: "u32 \<Rightarrow> item \<Rightarrow> item" where
  "decreaseDuration time = increaseIntAttr ITEM_ATTRIBUTE_DURATION (- time)"

definition getDuration :: "item \<Rightarrow> u32" where
  "getDuration i = getIntAttr i ITEM_ATTRIBUTE_DURATION"

abbreviation "DECAYING_FALSE \<equiv> (0 :: u8)"
abbreviation "DECAYING_TRUE \<equiv> (1 :: u8)"
abbreviation "DECAYING_PENDING \<equiv> (2 :: u8)"

definition setDecaying :: "u8 \<Rightarrow> item \<Rightarrow> item" where
  "setDecaying decayState = setIntAttr ITEM_ATTRIBUTE_DECAYSTATE (ucast decayState)"

definition getDecaying :: "item \<Rightarrow> u8" where
  "getDecaying i = ucast (getIntAttr i ITEM_ATTRIBUTE_DECAYSTATE)"

definition getSubType :: "item_types \<Rightarrow> item \<Rightarrow> u16" where
  "getSubType items i =
     (let it = items (item_id i) in
      if it_fluidContainer it \<or> it_splash it then getFluidType i
      else if it_stackable it then getItemCount i
      else if it_charges it \<noteq> 0 then getCharges i
      else getItemCount i)"

definition setSubType :: "item_types \<Rightarrow> u16 \<Rightarrow> item \<Rightarrow> item" where
  "setSubType items n i =
     (let it = items (item_id i) in
      if it_fluidContainer it \<or> it_splash it then setFluidType n i
      else if it_stackable it then setItemCount (ucast n) i
      else if it_charges it \<noteq> 0 then setCharges n i
      else setItemCount (ucast n) i)"

definition getDefaultDuration :: "item_types \<Rightarrow> item \<Rightarrow> u32" where
  "getDefaultDuration items i = it_decayTime (items (item_id i)) * 1000"

definition setDefaultDuration :: "item_types \<Rightarrow> item \<Rightarrow> item" where
  "setDefaultDuration items i =
     (let duration = getDefaultDuration items i in if duration \<noteq> 0 then setDuration duration i else i)"

definition new_item :: "item_types \<Rightarrow> u16 \<Rightarrow> u16 \<Rightarrow> item" where
  "new_item items type count =
     (let it = items type;
          i0 = \<lparr>item_id = type, item_count = 1, attributes = None\<rparr>;
          i1 = (if it_fluidContainer it \<or> it_splash it then setFluidType count i0
                else if it_stackable it then
                  (if count \<noteq> 0 then setItemCount (ucast count) i0
                   else if it_charges it \<noteq> 0 then setItemCount (ucast (it_charges it)) i0 else i0)
                else if it_charges it \<noteq> 0 then
                  (if count \<noteq> 0 then setCharges count i0 else setCharges (ucast (it_charges it)) i0)
                else i0)
      in setDefaultDuration items i1)"

definition setID :: "item_types \<Rightarrow> u16 \<Rightarrow> item \<Rightarrow> item" where
  "setID items newid i =
     (let prevIt = items (item_id i); it = items newid;
          newDuration = it_decayTime it * 1000;
          i1 = i\<lparr>item_id := newid\<rparr>;
          i2 = (if newDuration = 0 \<and> \<not> it_stopTime it \<and> it_decayTo it < 0
                then removeAttribute ITEM_ATTRIBUTE_DURATION (removeAttribute ITEM_ATTRIBUTE_DECAYSTATE i1) else i1);
          i3 = (if getIntAttr i2 ITEM_ATTRIBUTE_CORPSEOWNER \<noteq> 0x7FFFFFFF
                then removeAttribute ITEM_ATTRIBUTE_CORPSEOWNER i2 else i2)
      in if newDuration > 0 \<and> (\<not> it_stopTime prevIt \<or> \<not> hasAttribute i3 ITEM_ATTRIBUTE_DURATION)
         then setDuration newDuration (setDecaying DECAYING_FALSE i3) else i3)"

definition getBaseWeight :: "item_types \<Rightarrow> item \<Rightarrow> u32" where
  "getBaseWeight items i =
     (if hasAttribute i ITEM_ATTRIBUTE_WEIGHT then getIntAttr i ITEM_ATTRIBUTE_WEIGHT else it_weight (items (item_id i)))"

definition getWeight :: "item_types \<Rightarrow> item \<Rightarrow> u32" where
  "getWeight items i =
     (let weight = getBaseWeight items i in
      if it_stackable (items (item_id i)) then weight * max 1 (ucast (getItemCount i)) else weight)"

section \<open>Reading attributes\<close>

datatype attr_read = ATTR_READ_CONTINUE | ATTR_READ_ERROR | ATTR_READ_END

type_synonym attr_reader = "byte list \<Rightarrow> item \<Rightarrow> attr_read \<times> byte list \<times> item"

definition with_read :: "('a::len word \<Rightarrow> item \<Rightarrow> item) \<Rightarrow> attr_reader" where
  "with_read f p i =
     (case prop_read p of (None, p1) \<Rightarrow> (ATTR_READ_ERROR, p1, i) | (Some w, p1) \<Rightarrow> (ATTR_READ_CONTINUE, p1, f w i))"

definition with_string :: "(string \<Rightarrow> item \<Rightarrow> item) \<Rightarrow> attr_reader" where
  "with_string f p i =
     (case readString p of (None, p1) \<Rightarrow> (ATTR_READ_ERROR, p1, i) | (Some s, p1) \<Rightarrow> (ATTR_READ_CONTINUE, p1, f s i))"

definition with_skip :: "nat \<Rightarrow> attr_reader" where
  "with_skip n p i =
     (case prop_skip n p of (False, p1) \<Rightarrow> (ATTR_READ_ERROR, p1, i) | (True, p1) \<Rightarrow> (ATTR_READ_CONTINUE, p1, i))"

abbreviation "ATTR_ACTION_ID \<equiv> (4 :: u8)"
abbreviation "ATTR_UNIQUE_ID \<equiv> (5 :: u8)"
abbreviation "ATTR_TEXT \<equiv> (6 :: u8)"
abbreviation "ATTR_DESC \<equiv> (7 :: u8)"
abbreviation "ATTR_TELE_DEST \<equiv> (8 :: u8)"
abbreviation "ATTR_DEPOT_ID \<equiv> (10 :: u8)"
abbreviation "ATTR_RUNE_CHARGES \<equiv> (12 :: u8)"
abbreviation "ATTR_HOUSEDOORID \<equiv> (14 :: u8)"
abbreviation "ATTR_COUNT \<equiv> (15 :: u8)"
abbreviation "ATTR_DURATION \<equiv> (16 :: u8)"
abbreviation "ATTR_DECAYING_STATE \<equiv> (17 :: u8)"
abbreviation "ATTR_WRITTENDATE \<equiv> (18 :: u8)"
abbreviation "ATTR_WRITTENBY \<equiv> (19 :: u8)"
abbreviation "ATTR_SLEEPERGUID \<equiv> (20 :: u8)"
abbreviation "ATTR_SLEEPSTART \<equiv> (21 :: u8)"
abbreviation "ATTR_CHARGES \<equiv> (22 :: u8)"
abbreviation "ATTR_CONTAINER_ITEMS \<equiv> (23 :: u8)"
abbreviation "ATTR_NAME \<equiv> (24 :: u8)"
abbreviation "ATTR_ARTICLE \<equiv> (25 :: u8)"
abbreviation "ATTR_PLURALNAME \<equiv> (26 :: u8)"
abbreviation "ATTR_WEIGHT \<equiv> (27 :: u8)"
abbreviation "ATTR_ATTACK \<equiv> (28 :: u8)"
abbreviation "ATTR_DEFENSE \<equiv> (29 :: u8)"
abbreviation "ATTR_EXTRADEFENSE \<equiv> (30 :: u8)"
abbreviation "ATTR_ARMOR \<equiv> (31 :: u8)"
abbreviation "ATTR_HITCHANCE \<equiv> (32 :: u8)"
abbreviation "ATTR_SHOOTRANGE \<equiv> (33 :: u8)"
abbreviation "ATTR_SPECIAL \<equiv> (34 :: u8)"
abbreviation "ATTR_IMBUINGSLOTS \<equiv> (35 :: u8)"

definition readAttr :: "item_types \<Rightarrow> (u16 \<Rightarrow> bool) \<Rightarrow> u8 \<Rightarrow> attr_reader" where
  "readAttr items addUniqueItem attr =
     (if attr = ATTR_COUNT \<or> attr = ATTR_RUNE_CHARGES then with_read (\<lambda>count :: u8. setSubType items (ucast count))
      else if attr = ATTR_ACTION_ID then with_read setActionId
      else if attr = ATTR_UNIQUE_ID then with_read (setUniqueId addUniqueItem)
      else if attr = ATTR_TEXT then with_string (setStrAttr ITEM_ATTRIBUTE_TEXT)
      else if attr = ATTR_WRITTENDATE then with_read setDate
      else if attr = ATTR_WRITTENBY then with_string (setStrAttr ITEM_ATTRIBUTE_WRITER)
      else if attr = ATTR_DESC then with_string (setStrAttr ITEM_ATTRIBUTE_DESCRIPTION)
      else if attr = ATTR_CHARGES then with_read (setSubType items)
      else if attr = ATTR_DURATION then with_read (\<lambda>duration :: u32. setDuration (if sint duration < 0 then 0 else duration))
      else if attr = ATTR_DECAYING_STATE then
        with_read (\<lambda>state :: u8. \<lambda>i. if state \<noteq> DECAYING_FALSE then setDecaying DECAYING_PENDING i else i)
      else if attr = ATTR_NAME then with_string (setStrAttr ITEM_ATTRIBUTE_NAME)
      else if attr = ATTR_ARTICLE then with_string (setStrAttr ITEM_ATTRIBUTE_ARTICLE)
      else if attr = ATTR_PLURALNAME then with_string (setStrAttr ITEM_ATTRIBUTE_PLURALNAME)
      else if attr = ATTR_WEIGHT then with_read (setIntAttr ITEM_ATTRIBUTE_WEIGHT)
      else if attr = ATTR_ATTACK then with_read (setIntAttr ITEM_ATTRIBUTE_ATTACK)
      else if attr = ATTR_DEFENSE then with_read (setIntAttr ITEM_ATTRIBUTE_DEFENSE)
      else if attr = ATTR_EXTRADEFENSE then with_read (setIntAttr ITEM_ATTRIBUTE_EXTRADEFENSE)
      else if attr = ATTR_IMBUINGSLOTS then with_read (setIntAttr ITEM_ATTRIBUTE_IMBUINGSLOTS)
      else if attr = ATTR_ARMOR then with_read (setIntAttr ITEM_ATTRIBUTE_ARMOR)
      else if attr = ATTR_HITCHANCE then with_read (\<lambda>hitChance :: u8. setIntAttr ITEM_ATTRIBUTE_HITCHANCE (scast hitChance))
      else if attr = ATTR_SHOOTRANGE then with_read (\<lambda>shootRange :: u8. setIntAttr ITEM_ATTRIBUTE_SHOOTRANGE (ucast shootRange))
      else if attr = ATTR_SPECIAL then with_string (setStrAttr ITEM_ATTRIBUTE_SPECIAL)
      else if attr = ATTR_DEPOT_ID then with_skip 2
      else if attr = ATTR_HOUSEDOORID then with_skip 1
      else if attr = ATTR_SLEEPERGUID \<or> attr = ATTR_SLEEPSTART then with_skip 4
      else if attr = ATTR_TELE_DEST then with_skip 5
      else (\<lambda>p i. (ATTR_READ_ERROR, p, i)))"

definition shrinks :: "attr_reader \<Rightarrow> bool" where
  "shrinks r \<longleftrightarrow> (\<forall>p i. length (fst (snd (r p i))) \<le> length p)"

lemma shrinks_readers: "shrinks (with_read f)" "shrinks (with_string g)" "shrinks (with_skip n)" "shrinks (\<lambda>p i. (e, p, i))"
  using prop_read_suffix readString_suffix
  by (fastforce simp: shrinks_def with_read_def with_string_def with_skip_def prop_skip_def prop_size_def
      split: prod.split option.split)+

lemma shrinks_readAttr: "shrinks (readAttr items add attr)"
  unfolding readAttr_def by (simp only: shrinks_readers if_split simp_thms)

lemma readAttr_length: "readAttr items add attr p i = (r, p', i') \<Longrightarrow> length p' \<le> length p"
  using shrinks_readAttr [of items add attr] unfolding shrinks_def by (metis fst_conv snd_conv)

lemma prop_read_u8_length: "prop_read p = (Some (w :: u8), p') \<Longrightarrow> length p' < length p"
  by (auto simp: prop_read_def prop_size_def split: if_splits)

function unserializeAttr :: "item_types \<Rightarrow> (u16 \<Rightarrow> bool) \<Rightarrow> byte list \<Rightarrow> item \<Rightarrow> bool \<times> byte list \<times> item" where
  "unserializeAttr items addUniqueItem p i =
     (case prop_read p of
        (None, p1) \<Rightarrow> (True, p1, i)
      | (Some attr_type, p1) \<Rightarrow>
          if attr_type = 0 then (True, p1, i)
          else (case readAttr items addUniqueItem attr_type p1 i of
                  (ATTR_READ_ERROR, p2, i2) \<Rightarrow> (False, p2, i2)
                | (ATTR_READ_END, p2, i2) \<Rightarrow> (True, p2, i2)
                | (ATTR_READ_CONTINUE, p2, i2) \<Rightarrow> unserializeAttr items addUniqueItem p2 i2))"
  by pat_completeness auto
termination
  by (relation "measure (\<lambda>(items, add, p, i). length p)")
    (auto dest!: readAttr_length [OF sym] prop_read_u8_length [OF sym])

declare unserializeAttr.simps [simp del]

section \<open>Writing attributes\<close>

definition serializeAttr :: "item_types \<Rightarrow> item \<Rightarrow> byte list" where
  "serializeAttr items i =
     (let it = items (item_id i) in
      (if it_stackable it \<or> it_fluidContainer it \<or> it_splash it
       then prop_write ATTR_COUNT @ prop_write (ucast (getSubType items i) :: u8) else []) @
      (if getCharges i \<noteq> 0 then prop_write ATTR_CHARGES @ prop_write (getCharges i) else []) @
      (if it_moveable it \<and> getActionId i \<noteq> 0 then prop_write ATTR_ACTION_ID @ prop_write (getActionId i) else []) @
      (if getStrAttr i ITEM_ATTRIBUTE_TEXT \<noteq> []
       then prop_write ATTR_TEXT @ writeString (getStrAttr i ITEM_ATTRIBUTE_TEXT) else []) @
      (if getDate i \<noteq> 0 then prop_write ATTR_WRITTENDATE @ prop_write (word_of_int (getDate i) :: u32) else []) @
      (if getStrAttr i ITEM_ATTRIBUTE_WRITER \<noteq> []
       then prop_write ATTR_WRITTENBY @ writeString (getStrAttr i ITEM_ATTRIBUTE_WRITER) else []) @
      (if getStrAttr i ITEM_ATTRIBUTE_DESCRIPTION \<noteq> []
       then prop_write ATTR_DESC @ writeString (getStrAttr i ITEM_ATTRIBUTE_DESCRIPTION) else []) @
      (if hasAttribute i ITEM_ATTRIBUTE_DURATION
       then prop_write ATTR_DURATION @ prop_write (getIntAttr i ITEM_ATTRIBUTE_DURATION) else []) @
      (if getDecaying i = DECAYING_TRUE \<or> getDecaying i = DECAYING_PENDING
       then prop_write ATTR_DECAYING_STATE @ prop_write (getDecaying i) else []) @
      (if hasAttribute i ITEM_ATTRIBUTE_NAME then prop_write ATTR_NAME @ writeString (getStrAttr i ITEM_ATTRIBUTE_NAME) else []) @
      (if hasAttribute i ITEM_ATTRIBUTE_ARTICLE
       then prop_write ATTR_ARTICLE @ writeString (getStrAttr i ITEM_ATTRIBUTE_ARTICLE) else []) @
      (if hasAttribute i ITEM_ATTRIBUTE_PLURALNAME
       then prop_write ATTR_PLURALNAME @ writeString (getStrAttr i ITEM_ATTRIBUTE_PLURALNAME) else []) @
      (if hasAttribute i ITEM_ATTRIBUTE_WEIGHT
       then prop_write ATTR_WEIGHT @ prop_write (getIntAttr i ITEM_ATTRIBUTE_WEIGHT) else []) @
      (if hasAttribute i ITEM_ATTRIBUTE_ATTACK
       then prop_write ATTR_ATTACK @ prop_write (getIntAttr i ITEM_ATTRIBUTE_ATTACK) else []) @
      (if hasAttribute i ITEM_ATTRIBUTE_DEFENSE
       then prop_write ATTR_DEFENSE @ prop_write (getIntAttr i ITEM_ATTRIBUTE_DEFENSE) else []) @
      (if hasAttribute i ITEM_ATTRIBUTE_EXTRADEFENSE
       then prop_write ATTR_EXTRADEFENSE @ prop_write (getIntAttr i ITEM_ATTRIBUTE_EXTRADEFENSE) else []) @
      (if hasAttribute i ITEM_ATTRIBUTE_IMBUINGSLOTS
       then prop_write ATTR_IMBUINGSLOTS @ prop_write (getIntAttr i ITEM_ATTRIBUTE_IMBUINGSLOTS) else []) @
      (if hasAttribute i ITEM_ATTRIBUTE_ARMOR
       then prop_write ATTR_ARMOR @ prop_write (getIntAttr i ITEM_ATTRIBUTE_ARMOR) else []) @
      (if hasAttribute i ITEM_ATTRIBUTE_HITCHANCE
       then prop_write ATTR_HITCHANCE @ prop_write (ucast (getIntAttr i ITEM_ATTRIBUTE_HITCHANCE) :: u8) else []) @
      (if hasAttribute i ITEM_ATTRIBUTE_SHOOTRANGE
       then prop_write ATTR_SHOOTRANGE @ prop_write (ucast (getIntAttr i ITEM_ATTRIBUTE_SHOOTRANGE) :: u8) else []) @
      (if hasAttribute i ITEM_ATTRIBUTE_SPECIAL
       then prop_write ATTR_SPECIAL @ writeString (getStrAttr i ITEM_ATTRIBUTE_SPECIAL) else []))"

section \<open>What is written is read\<close>

lemma unser_end [simp]: "unserializeAttr items add [] i = (True, [], i)"
  by (subst unserializeAttr.simps) (simp add: prop_read_def prop_size_def)

text \<open>A written attribute is read by its reader; one that is not written leaves the item alone.\<close>

definition applied_if :: "bool \<Rightarrow> (item \<Rightarrow> item) \<Rightarrow> item \<Rightarrow> item" where
  "applied_if c f k = (if c then f k else k)"

lemma unser_word:
  assumes "readAttr items add attr = with_read f" "attr \<noteq> 0" "LENGTH('a) = 8 * sizeof TYPE('a)"
  shows "unserializeAttr items add ((if c then prop_write attr @ prop_write (w :: 'a::len word) else []) @ rest) k =
    unserializeAttr items add rest (applied_if c (f w) k)"
proof (cases c)
  case True
  then show ?thesis
    using assms by (subst unserializeAttr.simps) (simp add: with_read_def prop_read_write applied_if_def)
qed (simp add: applied_if_def)

lemma unser_string:
  assumes "readAttr items add attr = with_string f" "attr \<noteq> 0" "length s \<le> 65535"
  shows "unserializeAttr items add ((if c then prop_write attr @ writeString s else []) @ rest) k =
    unserializeAttr items add rest (applied_if c (f s) k)"
proof (cases c)
  case True
  then show ?thesis
    using assms by (subst unserializeAttr.simps) (simp add: with_string_def applied_if_def)
qed (simp add: applied_if_def)

lemmas unser_word_end = unser_word [where rest = "[]", simplified append_Nil2 unser_end]
lemmas unser_string_end = unser_string [where rest = "[]", simplified append_Nil2 unser_end]

text \<open>The item that the attributes of \<open>i\<close> make of an item \<open>k\<close>, in the order in which they are read.\<close>

definition restore_int :: "item \<Rightarrow> item_attr \<Rightarrow> item \<Rightarrow> item" where
  "restore_int i t = applied_if (hasAttribute i t) (setIntAttr t (getIntAttr i t))"

definition restore_str :: "item \<Rightarrow> item_attr \<Rightarrow> item \<Rightarrow> item" where
  "restore_str i t = applied_if (hasAttribute i t) (setStrAttr t (getStrAttr i t))"

definition restore_text :: "item \<Rightarrow> item_attr \<Rightarrow> item \<Rightarrow> item" where
  "restore_text i t = applied_if (getStrAttr i t \<noteq> []) (setStrAttr t (getStrAttr i t))"

definition restore_special :: "item_types \<Rightarrow> item \<Rightarrow> item \<Rightarrow> item" where
  "restore_special items i k =
     applied_if (it_moveable (items (item_id i)) \<and> getActionId i \<noteq> 0) (setActionId (getActionId i))
       (applied_if (getCharges i \<noteq> 0) (setSubType items (getCharges i))
         (applied_if (it_stackable (items (item_id i)) \<or> it_fluidContainer (items (item_id i)) \<or> it_splash (items (item_id i)))
           (setSubType items (ucast (ucast (getSubType items i) :: u8))) k))"

definition restore_written :: "item \<Rightarrow> item \<Rightarrow> item" where
  "restore_written i k =
     restore_text i ITEM_ATTRIBUTE_DESCRIPTION (restore_text i ITEM_ATTRIBUTE_WRITER
       (applied_if (getDate i \<noteq> 0) (setDate (word_of_int (getDate i))) (restore_text i ITEM_ATTRIBUTE_TEXT k)))"

definition restore_decay :: "item \<Rightarrow> item \<Rightarrow> item" where
  "restore_decay i k =
     applied_if (getDecaying i = DECAYING_TRUE \<or> getDecaying i = DECAYING_PENDING)
       (\<lambda>k. if getDecaying i \<noteq> DECAYING_FALSE then setDecaying DECAYING_PENDING k else k)
       (applied_if (hasAttribute i ITEM_ATTRIBUTE_DURATION)
         (setDuration (if sint (getIntAttr i ITEM_ATTRIBUTE_DURATION) < 0 then 0 else getIntAttr i ITEM_ATTRIBUTE_DURATION)) k)"

definition restore_rest :: "item \<Rightarrow> item \<Rightarrow> item" where
  "restore_rest i k =
     restore_str i ITEM_ATTRIBUTE_SPECIAL
      (applied_if (hasAttribute i ITEM_ATTRIBUTE_SHOOTRANGE)
        (setIntAttr ITEM_ATTRIBUTE_SHOOTRANGE (ucast (ucast (getIntAttr i ITEM_ATTRIBUTE_SHOOTRANGE) :: u8)))
       (applied_if (hasAttribute i ITEM_ATTRIBUTE_HITCHANCE)
         (setIntAttr ITEM_ATTRIBUTE_HITCHANCE (scast (ucast (getIntAttr i ITEM_ATTRIBUTE_HITCHANCE) :: u8)))
        (restore_int i ITEM_ATTRIBUTE_ARMOR (restore_int i ITEM_ATTRIBUTE_IMBUINGSLOTS
         (restore_int i ITEM_ATTRIBUTE_EXTRADEFENSE (restore_int i ITEM_ATTRIBUTE_DEFENSE
          (restore_int i ITEM_ATTRIBUTE_ATTACK (restore_int i ITEM_ATTRIBUTE_WEIGHT
           (restore_str i ITEM_ATTRIBUTE_PLURALNAME (restore_str i ITEM_ATTRIBUTE_ARTICLE
             (restore_str i ITEM_ATTRIBUTE_NAME k)))))))))))"

definition restored :: "item_types \<Rightarrow> item \<Rightarrow> item \<Rightarrow> item" where
  "restored items i k = restore_rest i (restore_decay i (restore_written i (restore_special items i k)))"

lemma readers [simp]:
  "readAttr items add ATTR_COUNT = with_read (\<lambda>count :: u8. setSubType items (ucast count))"
  "readAttr items add ATTR_CHARGES = with_read (setSubType items)"
  "readAttr items add ATTR_ACTION_ID = with_read setActionId"
  "readAttr items add ATTR_TEXT = with_string (setStrAttr ITEM_ATTRIBUTE_TEXT)"
  "readAttr items add ATTR_WRITTENDATE = with_read setDate"
  "readAttr items add ATTR_WRITTENBY = with_string (setStrAttr ITEM_ATTRIBUTE_WRITER)"
  "readAttr items add ATTR_DESC = with_string (setStrAttr ITEM_ATTRIBUTE_DESCRIPTION)"
  "readAttr items add ATTR_DURATION = with_read (\<lambda>duration :: u32. setDuration (if sint duration < 0 then 0 else duration))"
  "readAttr items add ATTR_DECAYING_STATE =
     with_read (\<lambda>state :: u8. \<lambda>i. if state \<noteq> DECAYING_FALSE then setDecaying DECAYING_PENDING i else i)"
  "readAttr items add ATTR_NAME = with_string (setStrAttr ITEM_ATTRIBUTE_NAME)"
  "readAttr items add ATTR_ARTICLE = with_string (setStrAttr ITEM_ATTRIBUTE_ARTICLE)"
  "readAttr items add ATTR_PLURALNAME = with_string (setStrAttr ITEM_ATTRIBUTE_PLURALNAME)"
  "readAttr items add ATTR_WEIGHT = with_read (setIntAttr ITEM_ATTRIBUTE_WEIGHT)"
  "readAttr items add ATTR_ATTACK = with_read (setIntAttr ITEM_ATTRIBUTE_ATTACK)"
  "readAttr items add ATTR_DEFENSE = with_read (setIntAttr ITEM_ATTRIBUTE_DEFENSE)"
  "readAttr items add ATTR_EXTRADEFENSE = with_read (setIntAttr ITEM_ATTRIBUTE_EXTRADEFENSE)"
  "readAttr items add ATTR_IMBUINGSLOTS = with_read (setIntAttr ITEM_ATTRIBUTE_IMBUINGSLOTS)"
  "readAttr items add ATTR_ARMOR = with_read (setIntAttr ITEM_ATTRIBUTE_ARMOR)"
  "readAttr items add ATTR_HITCHANCE = with_read (\<lambda>hitChance :: u8. setIntAttr ITEM_ATTRIBUTE_HITCHANCE (scast hitChance))"
  "readAttr items add ATTR_SHOOTRANGE = with_read (\<lambda>shootRange :: u8. setIntAttr ITEM_ATTRIBUTE_SHOOTRANGE (ucast shootRange))"
  "readAttr items add ATTR_SPECIAL = with_string (setStrAttr ITEM_ATTRIBUTE_SPECIAL)"
  by (simp_all add: readAttr_def)

text \<open>One rule for each attribute that is written.\<close>

lemmas unser_rules =
  readers(1) [THEN unser_word, simplified] readers(2) [THEN unser_word, simplified] readers(3) [THEN unser_word, simplified]
  readers(4) [THEN unser_string, simplified] readers(5) [THEN unser_word, simplified] readers(6) [THEN unser_string, simplified]
  readers(7) [THEN unser_string, simplified] readers(8) [THEN unser_word, simplified] readers(9) [THEN unser_word, simplified]
  readers(10) [THEN unser_string, simplified] readers(11) [THEN unser_string, simplified] readers(12) [THEN unser_string, simplified]
  readers(13) [THEN unser_word, simplified] readers(14) [THEN unser_word, simplified] readers(15) [THEN unser_word, simplified]
  readers(16) [THEN unser_word, simplified] readers(17) [THEN unser_word, simplified] readers(18) [THEN unser_word, simplified]
  readers(19) [THEN unser_word, simplified] readers(20) [THEN unser_word, simplified]
  readers(21) [THEN unser_string_end, simplified]

lemma unserialize_serialize:
  assumes "\<And>t. length (getStrAttr i t) \<le> 65535"
  shows "unserializeAttr items add (serializeAttr items i) k = (True, [], restored items i k)"
  unfolding serializeAttr_def restored_def restore_special_def restore_written_def restore_decay_def restore_rest_def Let_def
    restore_int_def restore_str_def restore_text_def
  by (simp only: unser_rules assms)

section \<open>What a stored item keeps\<close>

lemma applied_if_ok: "item_ok k \<Longrightarrow> (\<And>k. item_ok k \<Longrightarrow> item_ok (f k)) \<Longrightarrow> item_ok (applied_if c f k)"
  by (simp add: applied_if_def)

lemma set_ok [simp]:
  "item_ok k \<Longrightarrow> item_ok (setItemCount n k)" "item_ok k \<Longrightarrow> item_ok (setCharges m k)" "item_ok k \<Longrightarrow> item_ok (setFluidType m k)"
  "item_ok k \<Longrightarrow> item_ok (setActionId m k)" "item_ok k \<Longrightarrow> item_ok (setDate d k)" "item_ok k \<Longrightarrow> item_ok (setDuration d k)"
  "item_ok k \<Longrightarrow> item_ok (setDecaying n k)" "item_ok k \<Longrightarrow> item_ok (setSubType items m k)"
  by (simp_all add: setCharges_def setFluidType_def setActionId_def setDate_def setDuration_def setDecaying_def
      setSubType_def setItemCount_def Let_def) (simp_all add: item_ok_def)

lemma restore_ok [simp]:
  "item_ok k \<Longrightarrow> item_ok (restore_int i t k)" "item_ok k \<Longrightarrow> item_ok (restore_str i t k)" "item_ok k \<Longrightarrow> item_ok (restore_text i t k)"
  "item_ok k \<Longrightarrow> item_ok (restore_special items i k)" "item_ok k \<Longrightarrow> item_ok (restore_written i k)"
  "item_ok k \<Longrightarrow> item_ok (restore_decay i k)" "item_ok k \<Longrightarrow> item_ok (restore_rest i k)" "item_ok k \<Longrightarrow> item_ok (restored items i k)"
  unfolding restore_int_def restore_str_def restore_text_def restore_special_def restore_written_def restore_decay_def
    restore_rest_def restored_def
  by (auto intro!: applied_if_ok)

text \<open>The item's other fields.\<close>

lemma attr_frame [simp]:
  "item_id (setIntAttr t n k) = item_id k" "item_id (setStrAttr t s k) = item_id k"
  "item_count (setIntAttr t n k) = item_count k" "item_count (setStrAttr t s k) = item_count k"
  by (simp_all add: setIntAttr_def setStrAttr_def on_attributes_def)

lemma set_frame [simp]:
  "item_id (setItemCount c k) = item_id k" "item_id (setCharges m k) = item_id k" "item_id (setFluidType m k) = item_id k"
  "item_id (setActionId m k) = item_id k" "item_id (setDate d k) = item_id k" "item_id (setDuration d k) = item_id k"
  "item_id (setDecaying c k) = item_id k" "item_id (setSubType items m k) = item_id k"
  "item_count (setItemCount c k) = c" "item_count (setCharges m k) = item_count k" "item_count (setFluidType m k) = item_count k"
  "item_count (setActionId m k) = item_count k" "item_count (setDate d k) = item_count k"
  "item_count (setDuration d k) = item_count k" "item_count (setDecaying c k) = item_count k"
  by (simp_all add: setItemCount_def setCharges_def setFluidType_def setActionId_def setDate_def setDuration_def setDecaying_def
      setSubType_def Let_def)

lemma applied_if_frame: "(\<And>k. g (f k) = g k) \<Longrightarrow> g (applied_if c f k) = g k"
  by (simp add: applied_if_def)

lemma restore_frame [simp]:
  "item_id (restore_int i t k) = item_id k" "item_id (restore_str i t k) = item_id k" "item_id (restore_text i t k) = item_id k"
  "item_count (restore_int i t k) = item_count k" "item_count (restore_str i t k) = item_count k"
  "item_count (restore_text i t k) = item_count k"
  by (simp_all add: restore_int_def restore_str_def restore_text_def applied_if_def)

lemma restored_frame [simp]:
  "item_id (restore_special items i k) = item_id k" "item_id (restore_written i k) = item_id k"
  "item_id (restore_decay i k) = item_id k" "item_id (restore_rest i k) = item_id k"
  "item_count (restore_written i k) = item_count k" "item_count (restore_decay i k) = item_count k"
  "item_count (restore_rest i k) = item_count k"
  by (simp_all add: restore_special_def restore_written_def restore_decay_def restore_rest_def
      applied_if_frame [where g = item_id] applied_if_frame [where g = item_count])

text \<open>The values: each step sets its own attribute to that of the stored item.\<close>

definition fits :: "item \<Rightarrow> bool" where
  "fits i \<longleftrightarrow> item_ok i \<and> (\<forall>t n. item_value i t = Some (IntValue n) \<longrightarrow> in_i32 n)"

lemma fits_int: "fits i \<Longrightarrow> isIntAttrType t \<Longrightarrow> item_value i t = Some v \<Longrightarrow> v = IntValue (sint (getIntAttr i t)) \<and> in_i32 (sint (getIntAttr i t))"
  using item_value_ok [of i t v]
  by (auto simp: fits_def getIntAttr_value value_ok_def sint_of_int_i32 isStrAttrType_iff isIntAttrType_iff split: attr_value.splits)

lemma restore_int_value:
  assumes "fits i" "item_ok k" "isIntAttrType t"
  shows "item_value (restore_int i t k) s = (if s = t \<and> item_value i t \<noteq> None then item_value i t else item_value k s)"
proof (cases "item_value i t")
  case None
  then show ?thesis using assms by (simp add: restore_int_def applied_if_def hasAttribute_value fits_def)
next
  case (Some v)
  then show ?thesis using assms fits_int [OF assms(1,3) Some]
    by (simp add: restore_int_def applied_if_def hasAttribute_value fits_def)
qed

lemma item_str: "item_ok i \<Longrightarrow> isStrAttrType t \<Longrightarrow> item_value i t = Some v \<Longrightarrow> v = StrValue (getStrAttr i t) \<and> getStrAttr i t \<noteq> []"
  using item_value_ok [of i t v]
  by (auto simp: getStrAttr_value value_ok_def isStrAttrType_iff isIntAttrType_iff split: attr_value.splits)

lemma restore_str_value:
  assumes "item_ok i" "item_ok k" "isStrAttrType t"
  shows "item_value (restore_str i t k) s = (if s = t \<and> item_value i t \<noteq> None then item_value i t else item_value k s)"
    "item_value (restore_text i t k) s = (if s = t \<and> item_value i t \<noteq> None then item_value i t else item_value k s)"
proof -
  have nonempty: "getStrAttr i t \<noteq> [] \<longleftrightarrow> item_value i t \<noteq> None"
    using assms item_str [OF assms(1,3)] by (cases "item_value i t") (auto simp: getStrAttr_value)
  show "item_value (restore_str i t k) s = (if s = t \<and> item_value i t \<noteq> None then item_value i t else item_value k s)"
    "item_value (restore_text i t k) s = (if s = t \<and> item_value i t \<noteq> None then item_value i t else item_value k s)"
    using assms item_str [OF assms(1,3)] nonempty
    by (auto simp: restore_str_def restore_text_def applied_if_def hasAttribute_value)
qed

lemma setters_value [simp]:
  assumes "item_ok k"
  shows "item_value (setCharges m k) = (item_value k)(ITEM_ATTRIBUTE_CHARGES \<mapsto> IntValue (sint (ucast m :: u32)))"
    "item_value (setFluidType m k) = (item_value k)(ITEM_ATTRIBUTE_FLUIDTYPE \<mapsto> IntValue (sint (ucast m :: u32)))"
    "item_value (setActionId m k) = (item_value k)(ITEM_ATTRIBUTE_ACTIONID \<mapsto> IntValue (sint (ucast (if m < 100 then 100 else m) :: u32)))"
    "item_value (setDate d k) = (item_value k)(ITEM_ATTRIBUTE_DATE \<mapsto> IntValue (sint d))"
    "item_value (setDuration d k) = (item_value k)(ITEM_ATTRIBUTE_DURATION \<mapsto> IntValue (sint d))"
    "item_value (setDecaying c k) = (item_value k)(ITEM_ATTRIBUTE_DECAYSTATE \<mapsto> IntValue (sint (ucast c :: u32)))"
    "item_value (setItemCount c k) = item_value k"
  using assms by (simp_all add: setCharges_def setFluidType_def setActionId_def setDate_def setDuration_def setDecaying_def isIntAttrType_iff)
    (auto simp: setItemCount_def item_value_def)

lemma applied_if_int:
  "item_ok k \<Longrightarrow> isIntAttrType t \<Longrightarrow>
   item_value (applied_if c (setIntAttr t n) k) s = (if s = t \<and> c then Some (IntValue (sint n)) else item_value k s)"
  "item_ok k \<Longrightarrow> item_ok (applied_if c (setIntAttr t n) k)"
  by (simp_all add: applied_if_def)

lemma setSubType_value:
  "item_ok k \<Longrightarrow> s \<notin> {ITEM_ATTRIBUTE_FLUIDTYPE, ITEM_ATTRIBUTE_CHARGES} \<Longrightarrow> item_value (setSubType items m k) s = item_value k s"
  by (simp add: setSubType_def Let_def)

lemma restore_special_value:
  "item_ok k \<Longrightarrow> s \<notin> {ITEM_ATTRIBUTE_FLUIDTYPE, ITEM_ATTRIBUTE_CHARGES, ITEM_ATTRIBUTE_ACTIONID} \<Longrightarrow>
   item_value (restore_special items i k) s = item_value k s"
  by (simp add: restore_special_def applied_if_def setSubType_value)

lemma restore_written_value:
  assumes "fits i" "item_ok k"
  shows "item_value (restore_written i k) s =
    (if s \<in> {ITEM_ATTRIBUTE_TEXT, ITEM_ATTRIBUTE_WRITER, ITEM_ATTRIBUTE_DESCRIPTION} \<and> item_value i s \<noteq> None then item_value i s
     else if s = ITEM_ATTRIBUTE_DATE \<and> getDate i \<noteq> 0 then Some (IntValue (getDate i)) else item_value k s)"
proof -
  have i: "item_ok i" using assms(1) by (simp add: fits_def)
  have d: "sint (word_of_int (getDate i) :: u32) = getDate i" by (simp add: getDate_def)
  have date: "item_value (applied_if (getDate i \<noteq> 0) (setDate (word_of_int (getDate i))) k) s =
      (if s = ITEM_ATTRIBUTE_DATE \<and> getDate i \<noteq> 0 then Some (IntValue (getDate i)) else item_value k s)" if "item_ok k" for k s
    using that d by (simp add: applied_if_def)
  have ok: "item_ok (applied_if (getDate i \<noteq> 0) (setDate (word_of_int (getDate i))) (restore_text i ITEM_ATTRIBUTE_TEXT k))"
    using assms(2) by (intro applied_if_ok) simp_all
  show ?thesis
    using assms ok i by (cases s) (simp_all add: restore_written_def restore_str_value isStrAttrType_iff date)
qed

lemma restore_decay_value:
  assumes "item_ok k"
  shows "item_value (restore_decay i k) s =
    (if s = ITEM_ATTRIBUTE_DECAYSTATE \<and> (getDecaying i = 1 \<or> getDecaying i = 2) then Some (IntValue 2)
     else if s = ITEM_ATTRIBUTE_DURATION \<and> hasAttribute i s then Some (IntValue (max 0 (sint (getIntAttr i s)))) else item_value k s)"
  using assms by (auto simp: restore_decay_def applied_if_def)

lemma restore_rest_value:
  assumes "fits i" "item_ok k"
  shows "item_value (restore_rest i k) s =
    (if s \<in> {ITEM_ATTRIBUTE_NAME, ITEM_ATTRIBUTE_ARTICLE, ITEM_ATTRIBUTE_PLURALNAME, ITEM_ATTRIBUTE_SPECIAL, ITEM_ATTRIBUTE_WEIGHT,
          ITEM_ATTRIBUTE_ATTACK, ITEM_ATTRIBUTE_DEFENSE, ITEM_ATTRIBUTE_EXTRADEFENSE, ITEM_ATTRIBUTE_ARMOR} \<and> item_value i s \<noteq> None
     then item_value i s
     else if s = ITEM_ATTRIBUTE_SHOOTRANGE \<and> item_value i s \<noteq> None
       then Some (IntValue (sint (ucast (ucast (getIntAttr i s) :: u8) :: u32)))
     else if s = ITEM_ATTRIBUTE_HITCHANCE \<and> item_value i s \<noteq> None
       then Some (IntValue (sint (scast (ucast (getIntAttr i s) :: u8) :: u32)))
     else item_value k s)"
proof -
  have i: "item_ok i" using assms(1) by (simp add: fits_def)
  have imb: "item_value (restore_int i ITEM_ATTRIBUTE_IMBUINGSLOTS k) = item_value k" if "item_ok k" for k
    using that by (simp add: restore_int_def applied_if_def isIntAttrType_iff)
  show ?thesis
    using assms i hasAttribute_value [OF i]
    by (cases s) (simp_all add: restore_rest_def restore_int_value restore_str_value applied_if_int imb isStrAttrType_iff isIntAttrType_iff)
qed

text \<open>
  What an item must fulfil to be kept: 32-bit values, strings that fit, a duration that has not run below
  zero, a hit chance and a range of one byte, an action id that \<open>setActionId\<close> can give, a fluid type of one
  byte, and charges only when its type has charges.
\<close>

definition saveable :: "item_types \<Rightarrow> item \<Rightarrow> bool" where
  "saveable items i \<longleftrightarrow> fits i \<and> (\<forall>t. length (getStrAttr i t) \<le> 65535) \<and>
     (let it = items (item_id i) in
      (getCharges i \<noteq> 0 \<longrightarrow> it_charges it \<noteq> 0 \<and> \<not> it_stackable it \<and> \<not> it_fluidContainer it \<and> \<not> it_splash it) \<and>
      ((it_fluidContainer it \<or> it_splash it) \<longrightarrow> getFluidType i < 256)) \<and>
     (getActionId i \<noteq> 0 \<longrightarrow> 100 \<le> getActionId i) \<and>
     0 \<le> sint (getIntAttr i ITEM_ATTRIBUTE_DURATION) \<and>
     - 128 \<le> sint (getIntAttr i ITEM_ATTRIBUTE_HITCHANCE) \<and> sint (getIntAttr i ITEM_ATTRIBUTE_HITCHANCE) < 128 \<and>
     getIntAttr i ITEM_ATTRIBUTE_SHOOTRANGE < 256"

definition kept_attrs :: "item_attr set" where
  "kept_attrs = {ITEM_ATTRIBUTE_TEXT, ITEM_ATTRIBUTE_WRITER, ITEM_ATTRIBUTE_DESCRIPTION, ITEM_ATTRIBUTE_NAME, ITEM_ATTRIBUTE_ARTICLE,
     ITEM_ATTRIBUTE_PLURALNAME, ITEM_ATTRIBUTE_WEIGHT, ITEM_ATTRIBUTE_ATTACK, ITEM_ATTRIBUTE_DEFENSE, ITEM_ATTRIBUTE_EXTRADEFENSE,
     ITEM_ATTRIBUTE_ARMOR, ITEM_ATTRIBUTE_HITCHANCE, ITEM_ATTRIBUTE_SHOOTRANGE, ITEM_ATTRIBUTE_SPECIAL}"

lemma new_item_ok [simp]: "item_ok (new_item items type n)" "item_id (new_item items type n) = type"
proof -
  have "item_ok \<lparr>item_id = type, item_count = 1, attributes = None\<rparr>" by (simp add: item_ok_def)
  then show "item_ok (new_item items type n)" by (simp add: new_item_def Let_def setDefaultDuration_def)
qed (simp add: new_item_def Let_def setDefaultDuration_def)

lemma new_item_value:
  "s \<notin> {ITEM_ATTRIBUTE_FLUIDTYPE, ITEM_ATTRIBUTE_CHARGES, ITEM_ATTRIBUTE_DURATION} \<Longrightarrow> item_value (new_item items type n) s = None"
proof -
  assume s: "s \<notin> {ITEM_ATTRIBUTE_FLUIDTYPE, ITEM_ATTRIBUTE_CHARGES, ITEM_ATTRIBUTE_DURATION}"
  have "item_ok \<lparr>item_id = type, item_count = 1, attributes = None\<rparr>"
    "item_value \<lparr>item_id = type, item_count = 1, attributes = None\<rparr> s = None" by (simp_all add: item_ok_def item_value_def)
  with s show ?thesis by (simp add: new_item_def Let_def setDefaultDuration_def)
qed

lemma byte_range: "(w :: u32) < 256 \<Longrightarrow> ucast (ucast w :: u8) = w"
proof -
  assume "w < 256"
  then have "unat w < 256" by (simp add: word_less_nat_alt)
  then show ?thesis by (simp add: word_unat_eq_iff unsigned_ucast_eq take_bit_eq_mod unat_mod)
qed
lemma byte_range16: "(w :: u16) < 256 \<Longrightarrow> ucast (ucast w :: u8) = w"
proof -
  assume "w < 256"
  then have "unat w < 256" by (simp add: word_less_nat_alt)
  then show ?thesis by (simp add: word_unat_eq_iff unsigned_ucast_eq take_bit_eq_mod unat_mod)
qed
lemma ucast_u16_u32 [simp]: "ucast (ucast (w :: u16) :: u32) = w"
  by (rule bit_word_eqI) (simp add: bit_simps)
lemma signed_byte_range: "- 128 \<le> sint (w :: u32) \<Longrightarrow> sint w < 128 \<Longrightarrow> scast (ucast w :: u8) = w"
proof -
  assume r: "- 128 \<le> sint w" "sint w < 128"
  have "sint (ucast w :: u8) = signed_take_bit 7 (sint w)"
    by (rule bit_eqI) (auto simp: bit_simps)
  also have "\<dots> = sint w" using r by (intro signed_take_bit_int_eq_self) simp_all
  finally have b: "sint (ucast w :: u8) = sint w" .
  have "signed_take_bit 31 (sint w) = sint w" using r by (intro signed_take_bit_int_eq_self) simp_all
  with b have "sint (scast (ucast w :: u8) :: u32) = sint w" 
    by (simp add: signed_scast_eq)
  then show ?thesis by (simp add: signed_word_eqI)
qed

lemma int_value: "item_ok i \<Longrightarrow> item_value i t = Some (IntValue (sint w)) \<Longrightarrow> getIntAttr i t = w"
  by (simp add: getIntAttr_value)

lemma restored_kept:
  assumes "saveable items i" "item_ok k" "\<And>s. s \<in> kept_attrs \<Longrightarrow> item_value k s = None"
  shows "item_value (restored items i k) s =
    (if s \<in> kept_attrs then item_value i s
     else item_value (restore_decay i (restore_written i (restore_special items i k))) s)"
proof -
  have fits: "fits i" using assms(1) by (simp add: saveable_def)
  have "item_value i ITEM_ATTRIBUTE_HITCHANCE = Some v \<Longrightarrow>
      v = IntValue (sint (scast (ucast (getIntAttr i ITEM_ATTRIBUTE_HITCHANCE) :: u8) :: u32))" for v
    using fits_int [OF fits, of ITEM_ATTRIBUTE_HITCHANCE v] assms(1) signed_byte_range by (simp add: saveable_def isIntAttrType_iff)
  moreover have "item_value i ITEM_ATTRIBUTE_SHOOTRANGE = Some v \<Longrightarrow>
      v = IntValue (sint (ucast (ucast (getIntAttr i ITEM_ATTRIBUTE_SHOOTRANGE) :: u8) :: u32))" for v
    using fits_int [OF fits, of ITEM_ATTRIBUTE_SHOOTRANGE v] assms(1) byte_range by (simp add: saveable_def isIntAttrType_iff)
  ultimately show ?thesis
    using assms(2) assms(3) [of s]
    by (cases s) (auto simp: restored_def kept_attrs_def restore_rest_value [OF fits]
        restore_decay_value restore_written_value [OF fits] restore_special_value)
qed

lemma restored_special_attr:
  assumes "fits i" "item_ok k" "s \<in> {ITEM_ATTRIBUTE_FLUIDTYPE, ITEM_ATTRIBUTE_CHARGES, ITEM_ATTRIBUTE_ACTIONID}"
  shows "item_value (restored items i k) s = item_value (restore_special items i k) s"
  using assms by (auto simp: restored_def restore_rest_value restore_decay_value restore_written_value)

lemma byte_range_sub [simp]: "ucast (ucast (c :: u8) :: u16) = c"
  by (rule bit_word_eqI) (simp add: bit_simps)

text \<open>What the values that come through \<open>setSubType\<close> and \<open>setActionId\<close> become.\<close>

lemma int_value16: "item_ok k \<Longrightarrow> item_value k t = Some (IntValue (sint (ucast (n :: u16) :: u32))) \<Longrightarrow> ucast (getIntAttr k t) = n"
  by (simp add: int_value)

lemma restored_fluid:
  assumes "saveable items i" "item_ok k" "item_id k = item_id i"
    "it_fluidContainer (items (item_id i)) \<or> it_splash (items (item_id i))"
  shows "getFluidType (restored items i k) = getFluidType i"
proof -
  have f: "fits i" "getFluidType i < 256" "getCharges i = 0" using assms(1,4) by (auto simp: saveable_def Let_def)
  have sub: "ucast (ucast (getSubType items i) :: u8) = getFluidType i"
    using f(2) assms(4) by (simp add: getSubType_def Let_def byte_range16)
  have "restore_special items i k = applied_if (it_moveable (items (item_id i)) \<and> getActionId i \<noteq> 0)
      (setActionId (getActionId i)) (setFluidType (getFluidType i) k)"
    using assms(3,4) f(3) by (simp add: restore_special_def applied_if_def sub setSubType_def)
  then have "item_value (restore_special items i k) ITEM_ATTRIBUTE_FLUIDTYPE = Some (IntValue (sint (ucast (getFluidType i) :: u32)))"
    using assms(2) by (simp add: applied_if_def)
  then show ?thesis
    unfolding getFluidType_def [of "restored items i k"]
    using restored_special_attr [OF f(1) assms(2), of ITEM_ATTRIBUTE_FLUIDTYPE items] assms(2)
    by (intro int_value16) simp_all
qed

lemma restored_subtype:
  assumes "saveable items i" "item_ok k" "item_id k = item_id i"
    "it_stackable (items (item_id i)) \<or> it_fluidContainer (items (item_id i)) \<or> it_splash (items (item_id i))"
  shows "getSubType items (restored items i k) = getSubType items i"
proof (cases "it_fluidContainer (items (item_id i)) \<or> it_splash (items (item_id i))")
  case True
  then show ?thesis using restored_fluid [OF assms(1-3) True] assms(3) by (auto simp: getSubType_def restored_def)
next
  case False
  then have c: "it_stackable (items (item_id i))" "getCharges i = 0" using assms(1,4) by (auto simp: saveable_def Let_def)
  have "item_count (restored items i k) = item_count i"
    using c False assms(3) by (simp add: restored_def restore_special_def applied_if_def setSubType_def getSubType_def getItemCount_def)
  then show ?thesis using c False assms(3) by (simp add: getSubType_def getItemCount_def restored_def)
qed

lemma restored_charges:
  assumes "saveable items i" "item_ok k" "item_id k = item_id i" "getCharges i \<noteq> 0"
  shows "getCharges (restored items i k) = getCharges i"
proof -
  have f: "fits i" using assms(1) by (simp add: saveable_def)
  have "restore_special items i k = applied_if (it_moveable (items (item_id i)) \<and> getActionId i \<noteq> 0)
      (setActionId (getActionId i)) (setCharges (getCharges i) k)"
    using assms by (auto simp: saveable_def Let_def restore_special_def applied_if_def setSubType_def)
  then have "item_value (restore_special items i k) ITEM_ATTRIBUTE_CHARGES = Some (IntValue (sint (ucast (getCharges i) :: u32)))"
    using assms(2) by (simp add: applied_if_def)
  then show ?thesis
    unfolding getCharges_def [of "restored items i k"]
    using restored_special_attr [OF f assms(2), of ITEM_ATTRIBUTE_CHARGES items] assms(2)
    by (intro int_value16) simp_all
qed

lemma restored_action:
  assumes "saveable items i" "item_ok k" "item_value k ITEM_ATTRIBUTE_ACTIONID = None" "it_moveable (items (item_id i))"
  shows "getActionId (restored items i k) = getActionId i"
proof -
  have f: "fits i" "getActionId i \<noteq> 0 \<Longrightarrow> \<not> getActionId i < 100" using assms(1) by (auto simp: saveable_def)
  have v: "item_value (restored items i k) ITEM_ATTRIBUTE_ACTIONID =
      (if getActionId i \<noteq> 0 then Some (IntValue (sint (ucast (getActionId i) :: u32))) else None)"
    using restored_special_attr [OF f(1) assms(2), of ITEM_ATTRIBUTE_ACTIONID items] assms(2-4) f(2)
    by (auto simp: restore_special_def applied_if_def setSubType_value)
  show ?thesis
  proof (cases "getActionId i = 0")
    case True
    then show ?thesis using v assms(2) by (simp add: getActionId_def getIntAttr_value)
  next
    case False
    then show ?thesis unfolding getActionId_def [of "restored items i k"] using v assms(2) by (intro int_value16) simp_all
  qed
qed


definition sample_items :: item_types where
  "sample_items n = \<lparr>it_stackable = (n = 2148), it_fluidContainer = (n = 2006), it_splash = False, it_moveable = True,
     it_pickupable = True, it_stopTime = False, it_charges = 0, it_weight = 10, it_decayTime = 0, it_decayTo = -1\<rparr>"

definition sample_item :: item where
  "sample_item = setActionId 2000 (setStrAttr ITEM_ATTRIBUTE_NAME ''coin'' (setItemCount 57 (new_item sample_items 2148 0)))"

lemma sample_item_value: "item_ok sample_item"
  "item_value sample_item t = (if t = ITEM_ATTRIBUTE_ACTIONID then Some (IntValue 2000)
     else if t = ITEM_ATTRIBUTE_NAME then Some (StrValue ''coin'') else None)"
proof -
  have n: "new_item sample_items 2148 0 = \<lparr>item_id = 2148, item_count = 1, attributes = None\<rparr>" by code_simp
  show "item_ok sample_item" by (simp add: sample_item_def)
  show "item_value sample_item t = (if t = ITEM_ATTRIBUTE_ACTIONID then Some (IntValue 2000)
     else if t = ITEM_ATTRIBUTE_NAME then Some (StrValue ''coin'') else None)"
    by (simp add: sample_item_def isStrAttrType_iff isIntAttrType_iff) (simp add: n item_value_def setItemCount_def)
qed


end
