(* ===== verification/Containers.thy ===== *)
theory Containers imports Item_Serialization begin

text \<open>
  Containers, from \<open>src/src/container.h\<close> and \<open>src/src/container.cpp\<close>: items that hold items, each of
  which points back to its holder, with a weight that every holder up the chain keeps. The objects live in
  a store and refer to each other by address. Holders whose class overrides the operations (tiles,
  creatures, inboxes and depots) are outside the store; what they answer to \<open>queryAdd\<close> is a parameter.
  A loop along the chain of holders is a partial function, so that \<open>None\<close> says that it does not return.
\<close>

section \<open>The store\<close>

type_synonym addr = nat

datatype cylinder =
    Held addr
  | CarriedBy nat
  | LyingOn nat
  | VirtualCylinder

record container =
  maxSize :: u32
  totalWeight :: u32
  itemlist :: "addr list"
  unlocked :: bool
  pagination :: bool

record thing_obj =
  the_item :: item
  parent :: "cylinder option"
  box :: "container option"

type_synonym store = "addr \<Rightarrow> thing_obj option"

text \<open>
  The world around the store: the table of item types, the kind of an outside holder that is not a tile and
  the tile on which it stands, and what the outermost holder answers to \<open>queryAdd\<close>.
\<close>

datatype holder_kind = Creature_Holder | Inbox_Holder | Depot_Holder

datatype ReturnValue = RETURNVALUE_NOERROR | RETURNVALUE_NOTPOSSIBLE | RETURNVALUE_NOTENOUGHROOM | RETURNVALUE_PLAYERISPZLOCKED
  | RETURNVALUE_PLAYERISNOTINVITED | RETURNVALUE_CANNOTTHROW | RETURNVALUE_CREATUREBLOCK | RETURNVALUE_NOTMOVEABLE
  | RETURNVALUE_NEEDEXCHANGE | RETURNVALUE_CONTAINERNOTENOUGHROOM | RETURNVALUE_NOTENOUGHCAPACITY | RETURNVALUE_CANNOTPICKUP
  | RETURNVALUE_THISISIMPOSSIBLE | RETURNVALUE_DEPOTISFULL | RETURNVALUE_PLAYERISPZLOCKEDLEAVEPVPZONE
  | RETURNVALUE_PLAYERISPZLOCKEDENTERPVPZONE

record surroundings =
  items_of :: item_types
  standing_on :: "nat \<Rightarrow> nat option"
  holder_kind :: "nat \<Rightarrow> holder_kind"
  top_queryAdd :: "cylinder \<Rightarrow> addr \<Rightarrow> u32 \<Rightarrow> u32 \<Rightarrow> ReturnValue"

abbreviation "FLAG_NOLIMIT \<equiv> (1 :: u32)"
abbreviation "FLAG_CHILDISOWNER \<equiv> (8 :: u32)"
abbreviation "FLAG_IGNORENOTMOVEABLE \<equiv> (64 :: u32)"
abbreviation "FLAG_IGNOREAUTOSTACK \<equiv> (128 :: u32)"
abbreviation "INDEX_WHEREEVER \<equiv> (- 1 :: int)"

definition hasBitSet :: "u32 \<Rightarrow> u32 \<Rightarrow> bool" where
  "hasBitSet flag flags \<longleftrightarrow> flags AND flag \<noteq> 0"

definition getParent :: "store \<Rightarrow> addr \<Rightarrow> cylinder option" where
  "getParent h a = (case h a of Some ob \<Rightarrow> parent ob | None \<Rightarrow> None)"

definition cylinder_parent :: "surroundings \<Rightarrow> store \<Rightarrow> cylinder \<Rightarrow> cylinder option" where
  "cylinder_parent w h c =
     (case c of
        Held a \<Rightarrow> getParent h a
      | CarriedBy n \<Rightarrow> map_option LyingOn (standing_on w n)
      | LyingOn t \<Rightarrow> None
      | VirtualCylinder \<Rightarrow> None)"

definition getContainer :: "store \<Rightarrow> addr \<Rightarrow> container option" where
  "getContainer h a = (case h a of Some ob \<Rightarrow> box ob | None \<Rightarrow> None)"

definition getParentContainer :: "store \<Rightarrow> addr \<Rightarrow> addr option" where
  "getParentContainer h a =
     (case getParent h a of Some (Held b) \<Rightarrow> if getContainer h b = None then None else Some b | _ \<Rightarrow> None)"

definition item_at :: "store \<Rightarrow> addr \<Rightarrow> item" where
  "item_at h a = (case h a of Some ob \<Rightarrow> the_item ob | None \<Rightarrow> \<lparr>item_id = 0, item_count = 0, attributes = None\<rparr>)"

definition items_in :: "store \<Rightarrow> addr \<Rightarrow> addr list" where
  "items_in h a = (case getContainer h a of Some b \<Rightarrow> itemlist b | None \<Rightarrow> [])"

definition upd_obj :: "addr \<Rightarrow> (thing_obj \<Rightarrow> thing_obj) \<Rightarrow> store \<Rightarrow> store" where
  "upd_obj a f h = h(a := map_option f (h a))"

definition upd_box :: "addr \<Rightarrow> (container \<Rightarrow> container) \<Rightarrow> store \<Rightarrow> store" where
  "upd_box a f = upd_obj a (\<lambda>ob. ob\<lparr>box := map_option f (box ob)\<rparr>)"

definition setParent :: "addr \<Rightarrow> cylinder option \<Rightarrow> store \<Rightarrow> store" where
  "setParent a c = upd_obj a (\<lambda>ob. ob\<lparr>parent := c\<rparr>)"

definition on_item :: "addr \<Rightarrow> (item \<Rightarrow> item) \<Rightarrow> store \<Rightarrow> store" where
  "on_item a f = upd_obj a (\<lambda>ob. ob\<lparr>the_item := f (the_item ob)\<rparr>)"

definition capacity :: "container \<Rightarrow> u32" where
  "capacity b = maxSize b"

section \<open>Weight\<close>

partial_function (option) updateItemWeight :: "store \<Rightarrow> addr \<Rightarrow> u32 \<Rightarrow> store option" where
  "updateItemWeight h a diff =
     (let h1 = upd_box a (\<lambda>b. b\<lparr>totalWeight := totalWeight b + diff\<rparr>) h in
      case getParentContainer h1 a of
        None \<Rightarrow> Some h1
      | Some p \<Rightarrow> updateItemWeight h1 p diff)"

definition obj_weight :: "item_types \<Rightarrow> store \<Rightarrow> addr \<Rightarrow> u32" where
  "obj_weight items h a =
     (case getContainer h a of
        None \<Rightarrow> getWeight items (item_at h a)
      | Some b \<Rightarrow> getWeight items (item_at h a) + totalWeight b)"

section \<open>The outermost holder\<close>

partial_function (option) top_loop :: "surroundings \<Rightarrow> store \<Rightarrow> cylinder option \<Rightarrow> cylinder \<Rightarrow> (cylinder option \<times> cylinder) option" where
  "top_loop w h prevaux aux =
     (case cylinder_parent w h aux of
        None \<Rightarrow> Some (prevaux, aux)
      | Some p \<Rightarrow> top_loop w h (Some aux) p)"

definition getTopParent :: "surroundings \<Rightarrow> store \<Rightarrow> addr \<Rightarrow> cylinder option option" where
  "getTopParent w h a =
     (let prevaux = (if getContainer h a = None then None else Some (Held a)) in
      case getParent h a of
        None \<Rightarrow> Some prevaux
      | Some aux \<Rightarrow>
          (case top_loop w h prevaux aux of
             None \<Rightarrow> None
           | Some (Some p, _) \<Rightarrow> Some (Some p)
           | Some (None, aux') \<Rightarrow> Some (Some aux')))"

definition item_getTile :: "surroundings \<Rightarrow> store \<Rightarrow> addr \<Rightarrow> nat option option" where
  "item_getTile w h a =
     (case getTopParent w h a of
        None \<Rightarrow> None
      | Some c \<Rightarrow>
          Some (let root = (case c of None \<Rightarrow> None
                            | Some cyl \<Rightarrow> (case cylinder_parent w h cyl of None \<Rightarrow> Some cyl | Some p \<Rightarrow> Some p))
                in case root of Some (LyingOn t) \<Rightarrow> Some t | _ \<Rightarrow> None))"

section \<open>Iterating over everything in a container\<close>

record iterator =
  over :: "addr list"
  cur :: nat

definition iterator_of :: "store \<Rightarrow> addr \<Rightarrow> iterator" where
  "iterator_of h a = (if items_in h a = [] then \<lparr>over = [], cur = 0\<rparr> else \<lparr>over = [a], cur = 0\<rparr>)"

definition hasNext :: "iterator \<Rightarrow> bool" where
  "hasNext it \<longleftrightarrow> over it \<noteq> []"

definition cur_item :: "store \<Rightarrow> iterator \<Rightarrow> addr" where
  "cur_item h it = items_in h (hd (over it)) ! cur it"

definition advance :: "store \<Rightarrow> iterator \<Rightarrow> iterator" where
  "advance h it =
     (let i = cur_item h it;
          over1 = (if items_in h i \<noteq> [] then over it @ [i] else over it);
          cur1 = cur it + 1
      in if cur1 = length (items_in h (hd over1)) then \<lparr>over = tl over1, cur = 0\<rparr> else \<lparr>over = over1, cur = cur1\<rparr>)"

partial_function (option) holding_loop :: "store \<Rightarrow> addr \<Rightarrow> iterator \<Rightarrow> bool option" where
  "holding_loop h i it =
     (if hasNext it then (if cur_item h it = i then Some True else holding_loop h i (advance h it)) else Some False)"

definition isHoldingItem :: "store \<Rightarrow> addr \<Rightarrow> addr \<Rightarrow> bool option" where
  "isHoldingItem h a i = holding_loop h i (iterator_of h a)"

partial_function (option) count_loop :: "store \<Rightarrow> iterator \<Rightarrow> u32 \<Rightarrow> u32 option" where
  "count_loop h it counter = (if hasNext it then count_loop h (advance h it) (counter + 1) else Some counter)"

definition getItemHoldingCount :: "store \<Rightarrow> addr \<Rightarrow> u32 option" where
  "getItemHoldingCount h a = count_loop h (iterator_of h a) 0"

section \<open>Queries\<close>

definition getItemByIndex :: "store \<Rightarrow> addr \<Rightarrow> int \<Rightarrow> addr option" where
  "getItemByIndex h a index =
     (if index < 0 \<or> int (length (items_in h a)) \<le> index then None else Some (items_in h a ! nat index))"

fun index_of :: "addr \<Rightarrow> addr list \<Rightarrow> int \<Rightarrow> int" where
  "index_of thing [] index = - 1"
| "index_of thing (x # xs) index = (if x = thing then index else index_of thing xs (index + 1))"

definition getThingIndex :: "store \<Rightarrow> addr \<Rightarrow> addr \<Rightarrow> int" where
  "getThingIndex h a thing = index_of thing (items_in h a) 0"

definition is_inbox :: "surroundings \<Rightarrow> cylinder \<Rightarrow> bool" where
  "is_inbox w c \<longleftrightarrow> (case c of CarriedBy n \<Rightarrow> holder_kind w n = Inbox_Holder | _ \<Rightarrow> False)"

partial_function (option) limit_loop :: "surroundings \<Rightarrow> store \<Rightarrow> addr \<Rightarrow> cylinder option \<Rightarrow> ReturnValue option option" where
  "limit_loop w h i cyl =
     (if cyl = None then Some None
      else if cyl = Some (Held i) then Some (Some RETURNVALUE_THISISIMPOSSIBLE)
      else if is_inbox w (the cyl) then Some (Some RETURNVALUE_CONTAINERNOTENOUGHROOM)
      else limit_loop w h i (cylinder_parent w h (the cyl)))"

partial_function (option) nolimit_loop :: "surroundings \<Rightarrow> store \<Rightarrow> addr \<Rightarrow> cylinder option \<Rightarrow> ReturnValue option option" where
  "nolimit_loop w h i cyl =
     (if cyl = None then Some None
      else if cyl = Some (Held i) then Some (Some RETURNVALUE_THISISIMPOSSIBLE)
      else nolimit_loop w h i (cylinder_parent w h (the cyl)))"

definition ask_top :: "surroundings \<Rightarrow> store \<Rightarrow> addr \<Rightarrow> addr \<Rightarrow> u32 \<Rightarrow> u32 \<Rightarrow> ReturnValue option" where
  "ask_top w h a i count flags =
     (case getTopParent w h a of
        Some (Some t) \<Rightarrow>
          Some (case t of Held b \<Rightarrow> RETURNVALUE_NOERROR | _ \<Rightarrow> top_queryAdd w t i count (flags OR FLAG_CHILDISOWNER))
      | _ \<Rightarrow> None)"

definition queryAdd :: "surroundings \<Rightarrow> store \<Rightarrow> addr \<Rightarrow> int \<Rightarrow> addr option \<Rightarrow> u32 \<Rightarrow> u32 \<Rightarrow> ReturnValue option" where
  "queryAdd w h a index thing count flags =
     (case getContainer h a of None \<Rightarrow> None | Some b \<Rightarrow>
      if hasBitSet FLAG_CHILDISOWNER flags then Some RETURNVALUE_NOERROR
      else if \<not> unlocked b then Some RETURNVALUE_NOTPOSSIBLE
      else (case thing of
          None \<Rightarrow> Some RETURNVALUE_NOTPOSSIBLE
        | Some i \<Rightarrow>
            if \<not> it_pickupable (items_of w (item_id (item_at h i))) then Some RETURNVALUE_CANNOTPICKUP
            else if i = a then Some RETURNVALUE_THISISIMPOSSIBLE
            else if \<not> hasBitSet FLAG_NOLIMIT flags then
              (case limit_loop w h i (getParent h a) of
                 None \<Rightarrow> None
               | Some (Some r) \<Rightarrow> Some r
               | Some None \<Rightarrow>
                   if index = INDEX_WHEREEVER \<and> unat (capacity b) \<le> length (itemlist b) \<and> \<not> pagination b
                   then Some RETURNVALUE_CONTAINERNOTENOUGHROOM
                   else ask_top w h a i count flags)
            else
              (case nolimit_loop w h i (getParent h a) of
                 None \<Rightarrow> None
               | Some (Some r) \<Rightarrow> Some r
               | Some None \<Rightarrow> ask_top w h a i count flags)))"

definition isStackable :: "surroundings \<Rightarrow> store \<Rightarrow> addr \<Rightarrow> bool" where
  "isStackable w h i = it_stackable (items_of w (item_id (item_at h i)))"

definition stacks_with :: "store \<Rightarrow> addr \<Rightarrow> addr \<Rightarrow> bool" where
  "stacks_with h x i \<longleftrightarrow> x \<noteq> i \<and> equals (item_at h x) (Some (item_at h i)) \<and> getItemCount (item_at h x) < 100"

fun stack_room :: "surroundings \<Rightarrow> store \<Rightarrow> addr \<Rightarrow> addr \<Rightarrow> u32 \<Rightarrow> addr list \<Rightarrow> int \<Rightarrow> u32 \<Rightarrow> u32 option" where
  "stack_room w h a i flags [] slotIndex n = Some n"
| "stack_room w h a i flags (x # xs) slotIndex n =
     (if stacks_with h x i then
        (let remainder = 100 - ucast (getItemCount (item_at h x)) in
         case queryAdd w h a slotIndex (Some i) remainder flags of
           None \<Rightarrow> None
         | Some r \<Rightarrow> stack_room w h a i flags xs (slotIndex + 1) (if r = RETURNVALUE_NOERROR then n + remainder else n))
      else stack_room w h a i flags xs slotIndex n)"

definition dest_room :: "surroundings \<Rightarrow> store \<Rightarrow> addr \<Rightarrow> int \<Rightarrow> addr \<Rightarrow> u32 \<Rightarrow> u32 option" where
  "dest_room w h a index i flags =
     (case getItemByIndex h a index of
        None \<Rightarrow> Some 0
      | Some d \<Rightarrow>
          if equals (item_at h i) (Some (item_at h d)) \<and> getItemCount (item_at h d) < 100 then
            (let remainder = 100 - ucast (getItemCount (item_at h d)) in
             map_option (\<lambda>r. if r = RETURNVALUE_NOERROR then remainder else 0) (queryAdd w h a index (Some i) remainder flags))
          else Some 0)"

definition free_slots :: "container \<Rightarrow> u32" where
  "free_slots b =
     (let free = word_of_int (uint (capacity b) - int (length (itemlist b))) :: u32 in if sint free < 0 then 0 else free)"

definition queryMaxCount :: "surroundings \<Rightarrow> store \<Rightarrow> addr \<Rightarrow> int \<Rightarrow> addr option \<Rightarrow> u32 \<Rightarrow> u32 \<Rightarrow> (ReturnValue \<times> u32) option" where
  "queryMaxCount w h a index thing count flags =
     (case getContainer h a of None \<Rightarrow> None | Some b \<Rightarrow>
      (case thing of
         None \<Rightarrow> Some (RETURNVALUE_NOTPOSSIBLE, 0)
       | Some i \<Rightarrow>
           if hasBitSet FLAG_NOLIMIT flags \<or> pagination b then Some (RETURNVALUE_NOERROR, max 1 count)
           else if isStackable w h i then
             map_option (\<lambda>n. let maxQueryCount = free_slots b * 100 + n in
                 (if maxQueryCount < count then RETURNVALUE_CONTAINERNOTENOUGHROOM else RETURNVALUE_NOERROR, maxQueryCount))
               (if index = INDEX_WHEREEVER then stack_room w h a i flags (itemlist b) 0 0
                else dest_room w h a index i flags)
           else Some (if free_slots b = 0 then RETURNVALUE_CONTAINERNOTENOUGHROOM else RETURNVALUE_NOERROR, free_slots b)))"

definition queryRemove :: "surroundings \<Rightarrow> store \<Rightarrow> addr \<Rightarrow> addr \<Rightarrow> u32 \<Rightarrow> u32 \<Rightarrow> ReturnValue" where
  "queryRemove w h a thing count flags =
     (if getThingIndex h a thing = - 1 then RETURNVALUE_NOTPOSSIBLE
      else if count = 0 \<or> (isStackable w h thing \<and> ucast (getItemCount (item_at h thing)) < count) then RETURNVALUE_NOTPOSSIBLE
      else if \<not> it_moveable (items_of w (item_id (item_at h thing))) \<and> \<not> hasBitSet FLAG_IGNORENOTMOVEABLE flags
        then RETURNVALUE_NOTMOVEABLE
      else RETURNVALUE_NOERROR)"

fun find_stack :: "store \<Rightarrow> addr \<Rightarrow> addr list \<Rightarrow> int \<Rightarrow> (addr \<times> int) option" where
  "find_stack h i [] n = None"
| "find_stack h i (x # xs) n = (if stacks_with h x i then Some (x, n) else find_stack h i xs (n + 1))"

definition queryDestination :: "surroundings \<Rightarrow> store \<Rightarrow> addr \<Rightarrow> int \<Rightarrow> addr option \<Rightarrow> addr option \<Rightarrow> u32 \<Rightarrow> (cylinder \<times> int \<times> addr option) option" where
  "queryDestination w h a index thing destItem flags =
     (case getContainer h a of None \<Rightarrow> None | Some b \<Rightarrow>
      if \<not> unlocked b then Some (Held a, index, None)
      else if index = 254 then
        Some (case getParent h a of
            Some (Held p) \<Rightarrow> if getContainer h p = None then Held a else Held p
          | Some (CarriedBy n) \<Rightarrow> if holder_kind w n = Creature_Holder then Held a else CarriedBy n
          | _ \<Rightarrow> Held a, INDEX_WHEREEVER, None)
      else
        (let (index1, dest1) =
           (if index = 255 then (INDEX_WHEREEVER, None)
            else if sint (capacity b) \<le> index \<and> \<not> pagination b then (INDEX_WHEREEVER, None)
            else (index, destItem)) in
         case thing of
           None \<Rightarrow> Some (Held a, index1, dest1)
         | Some i \<Rightarrow>
             (case (if \<not> hasBitSet FLAG_IGNOREAUTOSTACK flags \<and> isStackable w h i \<and> getParent h i \<noteq> Some (Held a)
                    then find_stack h i (itemlist b) 0 else None) of
                Some (x, n) \<Rightarrow> Some (Held a, n, Some x)
              | None \<Rightarrow>
                  if index1 = INDEX_WHEREEVER then Some (Held a, index1, dest1)
                  else (let dest2 = (case getItemByIndex h a index1 of Some x \<Rightarrow> Some x | None \<Rightarrow> dest1) in
                        case dest2 of
                          Some d \<Rightarrow> if getContainer h d \<noteq> None then Some (Held d, INDEX_WHEREEVER, None)
                                    else Some (Held a, index1, dest2)
                        | None \<Rightarrow> Some (Held a, index1, None)))))"

section \<open>Changes\<close>

datatype box_event = Item_Added addr addr | Item_Updated addr int addr addr | Item_Removed addr int addr

type_synonym box_result = "(store \<times> box_event list) option"

definition pushed :: "addr \<Rightarrow> addr \<Rightarrow> store \<Rightarrow> store" where
  "pushed a i h = upd_box a (\<lambda>b. b\<lparr>itemlist := i # itemlist b\<rparr>) (setParent i (Some (Held a)) h)"

definition shown_adding :: "store \<Rightarrow> addr \<Rightarrow> bool" where
  "shown_adding h a \<longleftrightarrow> getParent h a \<noteq> None \<and> getParent h a \<noteq> Some VirtualCylinder"

definition addThing :: "surroundings \<Rightarrow> store \<Rightarrow> addr \<Rightarrow> int \<Rightarrow> addr option \<Rightarrow> box_result" where
  "addThing w h a index thing =
     (case getContainer h a of None \<Rightarrow> None | Some b \<Rightarrow>
      if sint (capacity b) \<le> index then Some (h, [])
      else (case thing of
          None \<Rightarrow> Some (h, [])
        | Some i \<Rightarrow>
            map_option (\<lambda>h2. (h2, if shown_adding h2 a then [Item_Added a i] else []))
              (let h1 = pushed a i h in updateItemWeight h1 a (obj_weight (items_of w) h1 i))))"

definition addItem :: "addr \<Rightarrow> addr \<Rightarrow> store \<Rightarrow> store" where
  "addItem a i h = setParent i (Some (Held a)) (upd_box a (\<lambda>b. b\<lparr>itemlist := itemlist b @ [i]\<rparr>) h)"

definition addItemBack :: "surroundings \<Rightarrow> store \<Rightarrow> addr \<Rightarrow> addr \<Rightarrow> box_result" where
  "addItemBack w h a i =
     map_option (\<lambda>h2. (h2, if shown_adding h2 a then [Item_Added a i] else []))
       (let h1 = addItem a i h in updateItemWeight h1 a (obj_weight (items_of w) h1 i))"

definition internalAddThing :: "surroundings \<Rightarrow> store \<Rightarrow> addr \<Rightarrow> addr option \<Rightarrow> box_result" where
  "internalAddThing w h a thing =
     (case thing of
        None \<Rightarrow> Some (h, [])
      | Some i \<Rightarrow>
          map_option (\<lambda>h2. (h2, [])) (let h1 = pushed a i h in updateItemWeight h1 a (obj_weight (items_of w) h1 i)))"

definition updateThing :: "surroundings \<Rightarrow> store \<Rightarrow> addr \<Rightarrow> addr \<Rightarrow> u16 \<Rightarrow> u32 \<Rightarrow> box_result" where
  "updateThing w h a thing itemId count =
     (let index = getThingIndex h a thing in
      if index = - 1 then Some (h, [])
      else
        (let oldWeight = obj_weight (items_of w) h thing;
             h1 = on_item thing (\<lambda>i. setSubType (items_of w) (ucast count) (setID (items_of w) itemId i)) h
         in map_option (\<lambda>h2. (h2, if getParent h2 a \<noteq> None then [Item_Updated a index thing thing] else []))
              (updateItemWeight h1 a (- oldWeight + obj_weight (items_of w) h1 thing))))"

definition replaceThing :: "surroundings \<Rightarrow> store \<Rightarrow> addr \<Rightarrow> nat \<Rightarrow> addr option \<Rightarrow> box_result" where
  "replaceThing w h a index thing =
     (case thing of
        None \<Rightarrow> Some (h, [])
      | Some i \<Rightarrow>
          (case getItemByIndex h a (int index) of
             None \<Rightarrow> Some (h, [])
           | Some r \<Rightarrow>
               (let h1 = setParent i (Some (Held a)) (upd_box a (\<lambda>b. b\<lparr>itemlist := (itemlist b)[index := i]\<rparr>) h) in
                map_option (\<lambda>h2. (setParent r None h2, if getParent h2 a \<noteq> None then [Item_Updated a (int index) r i] else []))
                  (updateItemWeight h1 a (- obj_weight (items_of w) h1 r + obj_weight (items_of w) h1 i)))))"

definition reduced_count :: "item \<Rightarrow> u32 \<Rightarrow> u8" where
  "reduced_count i count = (let n = ucast (getItemCount i) - count in ucast (if sint n < 0 then 0 else n))"

definition removeThing :: "surroundings \<Rightarrow> store \<Rightarrow> addr \<Rightarrow> addr option \<Rightarrow> u32 \<Rightarrow> box_result" where
  "removeThing w h a thing count =
     (case thing of
        None \<Rightarrow> Some (h, [])
      | Some i \<Rightarrow>
          (let index = getThingIndex h a i in
           if index = - 1 then Some (h, [])
           else if isStackable w h i \<and> count \<noteq> ucast (getItemCount (item_at h i)) then
             (let oldWeight = obj_weight (items_of w) h i;
                  h1 = on_item i (\<lambda>x. setItemCount (reduced_count x count) x) h
              in map_option (\<lambda>h2. (h2, if getParent h2 a \<noteq> None then [Item_Updated a index i i] else []))
                   (updateItemWeight h1 a (- oldWeight + obj_weight (items_of w) h1 i)))
           else
             map_option (\<lambda>h2. (upd_box a (\<lambda>b. b\<lparr>itemlist := take (nat index) (itemlist b) @ drop (nat index + 1) (itemlist b)\<rparr>)
                 (setParent i None h2), if getParent h2 a \<noteq> None then [Item_Removed a index i] else []))
               (updateItemWeight h a (- obj_weight (items_of w) h i))))"

definition countByType :: "surroundings \<Rightarrow> item \<Rightarrow> int \<Rightarrow> u32" where
  "countByType w i subType =
     (if subType = -1 \<or> subType = uint (getSubType (items_of w) i) then ucast (getItemCount i) else 0)"

definition getItemTypeCount :: "surroundings \<Rightarrow> store \<Rightarrow> addr \<Rightarrow> u16 \<Rightarrow> int \<Rightarrow> u32" where
  "getItemTypeCount w h a itemId subType =
     fold (\<lambda>x count. if item_id (item_at h x) = itemId then count + countByType w (item_at h x) subType else count) (items_in h a) 0"

definition getAllItemTypeCount :: "store \<Rightarrow> addr \<Rightarrow> (u16 \<Rightarrow> u32) \<Rightarrow> (u16 \<Rightarrow> u32)" where
  "getAllItemTypeCount h a countMap =
     fold (\<lambda>x m. m(item_id (item_at h x) := m (item_id (item_at h x)) + ucast (getItemCount (item_at h x)))) (items_in h a) countMap"

end
