(* ===== verification/Container_Weights.thy ===== *)
theory Container_Weights imports Containers "HOL-Library.Multiset" begin

text \<open>
  What the operations of a container keep: the two directions of the holding agree, no container is inside
  itself, and the total weight of each container is that of everything in it, at every level. The loops
  along the chain of holders and the iteration over a container return.
\<close>

section \<open>The structure of the store\<close>

text \<open>\<open>(i, a) \<in> held h\<close>: the item \<open>i\<close> is in the container \<open>a\<close>.\<close>

definition held :: "store \<Rightarrow> (addr \<times> addr) set" where
  "held h = {(i, a). getParent h i = Some (Held a)}"

definition ups :: "store \<Rightarrow> addr \<Rightarrow> addr set" where
  "ups h a = {x. (a, x) \<in> (held h)\<^sup>*}"

text \<open>
  A store in which the two directions of the holding agree, nothing holds itself, and the total weight of
  each container is that of what it holds, but for a difference \<open>d\<close> that the container \<open>a\<close> has not yet
  been told of.
\<close>

definition store_but :: "item_types \<Rightarrow> addr \<Rightarrow> u32 \<Rightarrow> store \<Rightarrow> bool" where
  "store_but items a d h \<longleftrightarrow> finite (dom h) \<and> acyclic (held h) \<and> (\<forall>i c. (i, c) \<in> held h \<longrightarrow> getContainer h c \<noteq> None) \<and>
     (\<forall>c b. getContainer h c = Some b \<longrightarrow> distinct (itemlist b) \<and> set (itemlist b) = {i. (i, c) \<in> held h} \<and>
        totalWeight b + (if c = a then d else 0) = (\<Sum>x\<leftarrow>itemlist b. obj_weight items h x))"

definition store_ok :: "item_types \<Rightarrow> store \<Rightarrow> bool" where
  "store_ok items h \<longleftrightarrow> store_but items 0 0 h"

lemma store_but_0 [simp]: "store_but items a 0 h = store_ok items h"
  by (simp add: store_but_def store_ok_def)

lemma heldD: "(i, a) \<in> held h \<Longrightarrow> getParent h i = Some (Held a)"
  by (simp add: held_def)

lemma held_single: "(i, a) \<in> held h \<Longrightarrow> (i, b) \<in> held h \<Longrightarrow> a = b"
  by (simp add: held_def)

lemma held_wf:
  assumes "store_but items a d h"
  shows "wf ((held h)\<inverse>)" "wf (held h)"
proof -
  have fin: "finite (dom h)" and ac: "acyclic (held h)"
    and cont: "\<And>i c. (i, c) \<in> held h \<Longrightarrow> getContainer h c \<noteq> None" using assms by (auto simp: store_but_def)
  have "h x \<noteq> None" if "getContainer h x \<noteq> None" for x using that by (auto simp: getContainer_def split: option.splits)
  moreover have "h i \<noteq> None" if "(i, c) \<in> held h" for i c using heldD [OF that] by (auto simp: getParent_def split: option.splits)
  ultimately have "held h \<subseteq> dom h \<times> dom h" using cont by (auto simp: dom_def)
  then have "finite (held h)" using fin by (meson finite_SigmaI finite_subset)
  then show "wf ((held h)\<inverse>)" "wf (held h)"
    using ac by (simp_all add: finite_acyclic_wf finite_acyclic_wf_converse)
qed

lemma ups_refl [simp]: "a \<in> ups h a"
  by (simp add: ups_def)

lemma ups_held: "(a, p) \<in> held h \<Longrightarrow> ups h a = insert a (ups h p)"
  unfolding ups_def by (auto simp: held_single elim: converse_rtranclE intro: converse_rtrancl_into_rtrancl dest: held_single)

lemma ups_top: "getParent h a \<noteq> Some (Held p) \<Longrightarrow> (\<And>p. getParent h a \<noteq> Some (Held p)) \<Longrightarrow> ups h a = {a}"
  unfolding ups_def by (auto elim: converse_rtranclE simp: held_def)

lemma not_ups: "acyclic (held h) \<Longrightarrow> (a, p) \<in> held h \<Longrightarrow> a \<notin> ups h p"
  unfolding ups_def acyclic_def by (auto intro: rtrancl_into_trancl2)

lemma held_not_ups: "acyclic (held h) \<Longrightarrow> (i, a) \<in> held h \<Longrightarrow> i \<notin> ups h a"
  unfolding ups_def acyclic_def by (auto dest: rtrancl_into_trancl1)

lemma ups_closed: "y \<in> ups h a \<Longrightarrow> (y, x) \<in> held h \<Longrightarrow> x \<in> ups h a"
  by (auto simp: ups_def)

lemma ups_pred: "x \<in> ups h a \<Longrightarrow> x \<noteq> a \<Longrightarrow> \<exists>y \<in> ups h a. (y, x) \<in> held h"
  unfolding ups_def by (auto elim: rtranclE)

lemma ups_pred_unique:
  assumes "acyclic (held h)" "y \<in> ups h a" "z \<in> ups h a" "(y, x) \<in> held h" "(z, x) \<in> held h"
  shows "y = z"
proof -
  have one: "y = z" if "y \<in> ups h a" "z \<in> ups h y" "(y, x) \<in> held h" "(z, x) \<in> held h" for y z
  proof (rule ccontr)
    assume "y \<noteq> z"
    then have "z \<in> ups h x" using that ups_held [OF that(3)] by auto
    then show False using not_ups [OF assms(1) that(4)] by simp
  qed
  have "single_valued (held h)" by (auto simp: single_valued_def held_single)
  then have "z \<in> ups h y \<or> y \<in> ups h z" using assms(2,3) single_valued_confluent [of "held h" a y z] unfolding ups_def mem_Collect_eq by blast
  then show ?thesis using one [of y z] one [of z y] assms by auto
qed

section \<open>Updating the weight up the chain\<close>

definition bumped :: "addr set \<Rightarrow> u32 \<Rightarrow> store \<Rightarrow> store" where
  "bumped A d h = (\<lambda>x. if x \<in> A then upd_box x (\<lambda>b. b\<lparr>totalWeight := totalWeight b + d\<rparr>) h x else h x)"

lemma bumped_getParent [simp]: "getParent (bumped A d h) x = getParent h x"
  by (simp add: getParent_def bumped_def upd_box_def upd_obj_def split: option.split)

lemma bumped_held [simp]: "held (bumped A d h) = held h" "ups (bumped A d h) = ups h"
  by (simp_all add: held_def ups_def [abs_def])

lemma bumped_dom [simp]: "dom (bumped A d h) = dom h"
  by (auto simp: bumped_def upd_box_def upd_obj_def dom_def split: if_splits)

lemma bumped_item [simp]: "item_at (bumped A d h) x = item_at h x"
  by (simp add: item_at_def bumped_def upd_box_def upd_obj_def split: option.split)

lemma bumped_container [simp]: "getContainer (bumped A d h) x =
    map_option (\<lambda>b. if x \<in> A then b\<lparr>totalWeight := totalWeight b + d\<rparr> else b) (getContainer h x)"
  by (simp add: getContainer_def bumped_def upd_box_def upd_obj_def option.map_id0 [unfolded id_def] split: option.split)

lemma bumped_weight [simp]:
  "obj_weight items (bumped A d h) x = obj_weight items h x + (if x \<in> A \<and> getContainer h x \<noteq> None then d else 0)"
  by (auto simp: obj_weight_def split: option.split)

lemma bumped_insert: "a \<notin> A \<Longrightarrow> bumped A d (upd_box a (\<lambda>b. b\<lparr>totalWeight := totalWeight b + d\<rparr>) h) = bumped (insert a A) d h"
  by (auto simp: bumped_def upd_box_def upd_obj_def fun_eq_iff)

lemma upd_box_bumped: "upd_box a (\<lambda>b. b\<lparr>totalWeight := totalWeight b + d\<rparr>) h = bumped {a} d h"
  by (auto simp: bumped_def upd_box_def upd_obj_def fun_eq_iff)

text \<open>The recursion reaches every container up the chain, once, and returns.\<close>

lemma updateItemWeight_bumps:
  assumes "wf ((held h)\<inverse>)" "acyclic (held h)" "\<And>i c. (i, c) \<in> held h \<Longrightarrow> getContainer h c \<noteq> None"
  shows "updateItemWeight h a d = Some (bumped (ups h a) d h)"
proof -
  define H where "H = held h"
  have "held h = H \<longrightarrow> (\<forall>i c. (i, c) \<in> H \<longrightarrow> getContainer h c \<noteq> None) \<longrightarrow> updateItemWeight h a d = Some (bumped (ups h a) d h)" for h
  proof (induction a arbitrary: h rule: wf_induct_rule [OF assms(1) [folded H_def]])
    case (1 a)
    show ?case
    proof (intro impI)
      assume h: "held h = H" and cont: "\<forall>i c. (i, c) \<in> H \<longrightarrow> getContainer h c \<noteq> None"
      show "updateItemWeight h a d = Some (bumped (ups h a) d h)"
      proof (cases "\<exists>p. (a, p) \<in> H")
        case True
        then obtain p where p: "(a, p) \<in> H" by blast
        then have par: "getParent h a = Some (Held p)" using h by (auto simp: held_def)
        have "updateItemWeight (bumped {a} d h) p d = Some (bumped (ups h p) d (bumped {a} d h))"
          using 1 [of p "bumped {a} d h"] p h cont by auto
        moreover have "bumped (ups h p) d (bumped {a} d h) = bumped (ups h a) d h"
          using p h not_ups [of h a p] assms(2) ups_held [of a p h]
          by (simp add: upd_box_bumped [symmetric] bumped_insert H_def)
        moreover have "getParentContainer (bumped {a} d h) a = Some p"
          using cont p by (auto simp: getParentContainer_def par)
        ultimately show ?thesis by (subst updateItemWeight.simps) (simp add: upd_box_bumped)
      next
        case False
        then have no: "getParent h a \<noteq> Some (Held p)" for p using h by (auto simp: held_def)
        then have "getParentContainer (bumped {a} d h) a = None"
          by (auto simp: getParentContainer_def split: option.split cylinder.split)
        then show ?thesis using ups_top [OF no no] by (subst updateItemWeight.simps) (simp add: upd_box_bumped)
      qed
    qed
  qed
  then show ?thesis using assms(3) by (simp add: H_def)
qed

text \<open>When the difference is that of the container's list, the store is right again.\<close>

lemma sum_list_one:
  "distinct xs \<Longrightarrow> (\<Sum>x\<leftarrow>xs. f x + (if x = y then d else 0)) = (\<Sum>x\<leftarrow>xs. f x) + (if y \<in> set xs then d else (0 :: u32))"
  by (induction xs) (auto simp: algebra_simps)

lemma sum_list_where:
  "(\<And>x. x \<in> set xs \<Longrightarrow> P x = Q x) \<Longrightarrow>
   (\<Sum>x\<leftarrow>xs. f x + (if P x then d else 0)) = (\<Sum>x\<leftarrow>xs. f x + (if Q x then d else (0 :: u32)))"
  by (intro arg_cong [where f = sum_list] map_cong) simp_all

lemma bumped_total:
  assumes ok: "store_but items a d h" and a: "getContainer h a \<noteq> None" and c: "getContainer h c = Some b"
  shows "(if c \<in> ups h a then totalWeight b + d else totalWeight b) =
      (\<Sum>x\<leftarrow>itemlist b. obj_weight items h x + (if x \<in> ups h a \<and> getContainer h x \<noteq> None then d else 0))"
proof -
  have ac: "acyclic (held h)" and cont: "\<And>i c. (i, c) \<in> held h \<Longrightarrow> getContainer h c \<noteq> None"
    using ok by (auto simp: store_but_def)
  have box: "distinct (itemlist b)" "x \<in> set (itemlist b) \<longleftrightarrow> (x, c) \<in> held h"
    "totalWeight b + (if c = a then d else 0) = (\<Sum>x\<leftarrow>itemlist b. obj_weight items h x)" for x
    using ok c by (auto simp: store_but_def)
  have is_box: "getContainer h x \<noteq> None" if "x \<in> ups h a" for x
    using that a ups_pred [OF that] cont by (cases "x = a") blast+
  consider (self) "c = a" | (up) "c \<noteq> a" "c \<in> ups h a" | (off) "c \<notin> ups h a" by blast
  then show ?thesis
  proof cases
    case self
    have "x \<notin> ups h a" if "x \<in> set (itemlist b)" for x using that self box(2) held_not_ups [OF ac] by blast
    then have "(\<Sum>x\<leftarrow>itemlist b. obj_weight items h x + (if x \<in> ups h a \<and> getContainer h x \<noteq> None then d else 0)) =
        (\<Sum>x\<leftarrow>itemlist b. obj_weight items h x + (if False then d else 0))" by (intro sum_list_where) blast
    then show ?thesis using self box(3) by simp
  next
    case up
    obtain y where y: "y \<in> ups h a" "(y, c) \<in> held h" using ups_pred [OF up(2,1)] by blast
    have "(x \<in> ups h a \<and> getContainer h x \<noteq> None) = (x = y)" if "x \<in> set (itemlist b)" for x
      using that box(2) ups_pred_unique [OF ac _ y(1) _ y(2)] y(1) is_box by blast
    then have "(\<Sum>x\<leftarrow>itemlist b. obj_weight items h x + (if x \<in> ups h a \<and> getContainer h x \<noteq> None then d else 0)) =
        (\<Sum>x\<leftarrow>itemlist b. obj_weight items h x + (if x = y then d else 0))" by (rule sum_list_where)
    also have "\<dots> = (\<Sum>x\<leftarrow>itemlist b. obj_weight items h x) + d" using sum_list_one [OF box(1)] box(2) y(2) by simp
    finally show ?thesis using up box(3) by simp
  next
    case off
    have "x \<notin> ups h a" if "x \<in> set (itemlist b)" for x using that box(2) ups_closed [of x h a c] off by blast
    then have "(\<Sum>x\<leftarrow>itemlist b. obj_weight items h x + (if x \<in> ups h a \<and> getContainer h x \<noteq> None then d else 0)) =
        (\<Sum>x\<leftarrow>itemlist b. obj_weight items h x + (if False then d else 0))" by (intro sum_list_where) blast
    moreover have "c \<noteq> a" using off by auto
    ultimately show ?thesis using off box(3) by simp
  qed
qed

lemma bumped_ok:
  assumes "store_but items a d h" "getContainer h a \<noteq> None"
  shows "store_ok items (bumped (ups h a) d h)"
  unfolding store_ok_def store_but_def
proof (intro conjI allI impI)
  show "finite (dom (bumped (ups h a) d h))" "acyclic (held (bumped (ups h a) d h))" using assms(1) by (auto simp: store_but_def)
  show "getContainer (bumped (ups h a) d h) c \<noteq> None" if "(i, c) \<in> held (bumped (ups h a) d h)" for i c
    using that assms(1) by (auto simp: store_but_def)
  fix c b'
  assume "getContainer (bumped (ups h a) d h) c = Some b'"
  then obtain b where c: "getContainer h c = Some b" and b': "b' = (if c \<in> ups h a then b\<lparr>totalWeight := totalWeight b + d\<rparr> else b)"
    by auto
  show "distinct (itemlist b')" "set (itemlist b') = {i. (i, c) \<in> held (bumped (ups h a) d h)}"
    using assms(1) c b' by (auto simp: store_but_def)
  have l: "itemlist b' = itemlist b" "totalWeight b' = (if c \<in> ups h a then totalWeight b + d else totalWeight b)"
    using b' by simp_all
  show "totalWeight b' + (if c = 0 then 0 else 0) = (\<Sum>x\<leftarrow>itemlist b'. obj_weight items (bumped (ups h a) d h) x)"
    unfolding l bumped_weight using bumped_total [OF assms c] by simp
qed

section \<open>The operations keep the store right\<close>

lemma upd_obj_frame [simp]:
  "dom (upd_obj a g h) = dom h" "upd_obj a g h i = None \<longleftrightarrow> h i = None"
  "(\<And>ob. parent (g ob) = parent ob) \<Longrightarrow> getParent (upd_obj a g h) x = getParent h x"
  "(\<And>ob. the_item (g ob) = the_item ob) \<Longrightarrow> item_at (upd_obj a g h) x = item_at h x"
  "(\<And>ob. box (g ob) = box ob) \<Longrightarrow> getContainer (upd_obj a g h) x = getContainer h x"
  "(\<And>ob. parent (g ob) = parent ob) \<Longrightarrow> held (upd_obj a g h) = held h"
  "x \<noteq> a \<Longrightarrow> item_at (upd_obj a g h) x = item_at h x"
proof -
  show parents: "getParent (upd_obj a g h) x = getParent h x" if "\<And>ob. parent (g ob) = parent ob" for x
    using that by (simp add: upd_obj_def getParent_def split: option.split)
  show "held (upd_obj a g h) = held h" if "\<And>ob. parent (g ob) = parent ob"
    using parents [OF that] by (simp add: held_def)
qed (auto simp: upd_obj_def item_at_def getContainer_def dom_def split: option.split if_splits)

lemma upd_box_frame [simp]:
  "getParent (upd_box a f h) x = getParent h x" "item_at (upd_box a f h) x = item_at h x" "dom (upd_box a f h) = dom h"
  "held (upd_box a f h) = held h" "upd_box a f h i = None \<longleftrightarrow> h i = None"
  "getContainer (upd_box a f h) x = (if x = a then map_option f (getContainer h x) else getContainer h x)"
  by (simp_all add: upd_box_def) (simp add: upd_obj_def getContainer_def split: option.split)

lemma setParent_frame [simp]:
  "getContainer (setParent i c h) x = getContainer h x" "item_at (setParent i c h) x = item_at h x"
  "dom (setParent i c h) = dom h" "setParent i c h x = None \<longleftrightarrow> h x = None"
  "getParent (setParent i c h) x = (if x = i \<and> h i \<noteq> None then c else getParent h x)"
  by (simp_all add: setParent_def) (simp add: upd_obj_def getParent_def split: option.split)

lemma setParent_weight [simp]: "obj_weight items (setParent i c h) x = obj_weight items h x"
  by (simp add: obj_weight_def split: option.split)

lemma on_item_frame [simp]:
  "getParent (on_item i f h) x = getParent h x" "getContainer (on_item i f h) x = getContainer h x" "dom (on_item i f h) = dom h"
  "held (on_item i f h) = held h" "x \<noteq> i \<Longrightarrow> item_at (on_item i f h) x = item_at h x"
  by (simp_all add: on_item_def)

lemma held_setParent:
  "h i \<noteq> None \<Longrightarrow> held (setParent i c h) = {(x, b). if x = i then c = Some (Held b) else (x, b) \<in> held h}"
  by (auto simp: held_def)

lemma weight_relist [simp]: "obj_weight items (upd_box a (\<lambda>b. b\<lparr>itemlist := f (itemlist b)\<rparr>) h) x = obj_weight items h x"
  by (auto simp: obj_weight_def split: option.split)

lemma weight_on_item: "x \<noteq> i \<Longrightarrow> obj_weight items (on_item i f h) x = obj_weight items h x"
  by (simp add: obj_weight_def split: option.split)

text \<open>One container's list is changed, and the chain above it is told the difference.\<close>

lemma relisted:
  assumes "store_ok items h" "getContainer h a = Some b" "dom h1 = dom h" "acyclic (held h1)"
    "\<And>c. getContainer h1 c = (if c = a then Some (b\<lparr>itemlist := L\<rparr>) else getContainer h c)"
    "\<And>x c. c \<noteq> a \<Longrightarrow> (x, c) \<in> held h1 \<longleftrightarrow> (x, c) \<in> held h" "\<And>x. (x, a) \<in> held h1 \<longleftrightarrow> x \<in> set L" "distinct L"
    "\<And>x c. c \<noteq> a \<Longrightarrow> (x, c) \<in> held h \<Longrightarrow> obj_weight items h1 x = obj_weight items h x"
    "(\<Sum>x\<leftarrow>L. obj_weight items h1 x) = (\<Sum>x\<leftarrow>itemlist b. obj_weight items h x) + d"
  shows "store_but items a d h1"
  unfolding store_but_def
proof (intro conjI allI impI)
  show "finite (dom h1)" using assms(1,3) by (simp add: store_ok_def store_but_def)
  show "acyclic (held h1)" by (rule assms(4))
  show "getContainer h1 c \<noteq> None" if "(i, c) \<in> held h1" for i c
  proof (cases "c = a")
    case True
    then show ?thesis using assms(5) by simp
  next
    case False
    then have "(i, c) \<in> held h" using that assms(6) by simp
    then have "getContainer h c \<noteq> None" using assms(1) unfolding store_ok_def store_but_def by blast
    then show ?thesis using False assms(5) by simp
  qed
  fix c k
  assume k: "getContainer h1 c = Some k"
  have old: "distinct (itemlist j) \<and> set (itemlist j) = {i. (i, c) \<in> held h} \<and> totalWeight j = (\<Sum>x\<leftarrow>itemlist j. obj_weight items h x)"
    if "getContainer h c = Some j" for j using that assms(1) by (simp add: store_ok_def store_but_def)
  show "distinct (itemlist k)" using k old assms(5) [of c] assms(8) by (cases "c = a") auto
  show "set (itemlist k) = {i. (i, c) \<in> held h1}" using k old assms(5) [of c] assms(6,7) by (cases "c = a") auto
  show "totalWeight k + (if c = a then d else 0) = (\<Sum>x\<leftarrow>itemlist k. obj_weight items h1 x)"
  proof (cases "c = a")
    case True
    then show ?thesis using k assms(2,5,10) old by auto
  next
    case False
    then have h: "getContainer h c = Some k" using k assms(5) by simp
    have "(\<Sum>x\<leftarrow>itemlist k. obj_weight items h1 x) = (\<Sum>x\<leftarrow>itemlist k. obj_weight items h x)"
      using old [OF h] assms(9) [OF False] by (intro arg_cong [where f = sum_list] map_cong) auto
    then show ?thesis using False old [OF h] by simp
  qed
qed

lemma tells:
  assumes "store_but items c e h"
  shows "updateItemWeight h a d = Some (bumped (ups h a) d h)"
proof (rule updateItemWeight_bumps [OF held_wf(1) [OF assms]])
  show "acyclic (held h)" using assms by (simp add: store_but_def)
  show "getContainer h c \<noteq> None" if "(i, c) \<in> held h" for i c using assms that unfolding store_but_def by blast
qed

lemma told:
  assumes "store_but items a d h" "getContainer h a \<noteq> None"
  shows "updateItemWeight h a d = Some (bumped (ups h a) d h)" "store_ok items (bumped (ups h a) d h)"
  by (rule tells [OF assms(1)], rule bumped_ok [OF assms])

text \<open>An item can be put into a container when it is in none and the container is not inside it.\<close>

definition loose :: "store \<Rightarrow> addr \<Rightarrow> addr \<Rightarrow> bool" where
  "loose h a i \<longleftrightarrow> h i \<noteq> None \<and> (\<forall>b. (i, b) \<notin> held h) \<and> i \<notin> ups h a"

lemma box_facts:
  assumes "store_ok items h" "getContainer h a = Some b"
  shows "distinct (itemlist b)" "x \<in> set (itemlist b) \<longleftrightarrow> (x, a) \<in> held h" "totalWeight b = (\<Sum>x\<leftarrow>itemlist b. obj_weight items h x)"
    "acyclic (held h)" "finite (dom h)" "(i, c) \<in> held h \<Longrightarrow> getContainer h c \<noteq> None"
  using assms by (auto simp: store_ok_def store_but_def)

lemma held_insert: "loose h a i \<Longrightarrow> held (setParent i (Some (Held a)) h) = insert (i, a) (held h)"
  by (auto simp: loose_def held_setParent)

lemma acyclic_loose: "loose h a i \<Longrightarrow> acyclic (held h) \<Longrightarrow> acyclic (insert (i, a) (held h))"
  by (simp add: loose_def ups_def)

lemma put_in:
  assumes ok: "store_ok items h" and a: "getContainer h a = Some b" and i: "loose h a i"
    and h1: "h1 = upd_box a (\<lambda>b. b\<lparr>itemlist := f (itemlist b)\<rparr>) (setParent i (Some (Held a)) h)"
    and f: "mset (f (itemlist b)) = add_mset i (mset (itemlist b))"
  shows "store_but items a (obj_weight items h1 i) h1" "ups h1 a = ups h a"
proof -
  have held: "held h1 = insert (i, a) (held h)" by (simp add: h1 held_insert [OF i])
  have set: "set (f (itemlist b)) = insert i (set (itemlist b))" using arg_cong [OF f, of set_mset] by simp
  have new: "i \<notin> set (itemlist b)" using i box_facts(2) [OF ok a] by (auto simp: loose_def)
  show "store_but items a (obj_weight items h1 i) h1"
  proof (rule relisted [OF ok a])
    show "acyclic (held h1)" using acyclic_loose [OF i] box_facts(4) [OF ok a] by (simp add: held)
    show "distinct (f (itemlist b))"
      using f new box_facts(1) [OF ok a] by (metis distinct.simps(2) mset.simps(2) mset_eq_imp_distinct_iff)
    have "(\<Sum>x\<leftarrow>f (itemlist b). obj_weight items h x) = sum_mset (image_mset (obj_weight items h) (mset (f (itemlist b))))"
      by (simp add: sum_mset_sum_list [symmetric])
    also have "\<dots> = (\<Sum>x\<leftarrow>itemlist b. obj_weight items h x) + obj_weight items h i" by (simp add: f sum_mset_sum_list [symmetric])
    finally show "(\<Sum>x\<leftarrow>f (itemlist b). obj_weight items h1 x) = (\<Sum>x\<leftarrow>itemlist b. obj_weight items h x) + obj_weight items h1 i"
      by (simp add: h1)
  qed (use i box_facts(2) [OF ok a] set in \<open>auto simp: h1 held_insert a loose_def\<close>)
  show "ups h1 a = ups h a"
  proof -
    have "(a, x) \<in> (insert (i, a) (held h))\<^sup>* \<longleftrightarrow> (a, x) \<in> (held h)\<^sup>*" for x
    proof
      assume "(a, x) \<in> (insert (i, a) (held h))\<^sup>*"
      then show "(a, x) \<in> (held h)\<^sup>*"
        using i by induction (auto simp: loose_def ups_def intro: rtrancl_into_rtrancl)
    qed (auto elim: rtrancl_mono [THEN subsetD, rotated])
    then show ?thesis by (simp add: ups_def held)
  qed
qed

text \<open>Adding, at either end.\<close>

lemma relist_setParent:
  "setParent i c (upd_box a (\<lambda>b. b\<lparr>itemlist := f (itemlist b)\<rparr>) h) = upd_box a (\<lambda>b. b\<lparr>itemlist := f (itemlist b)\<rparr>) (setParent i c h)"
  by (cases "h a") (auto simp: setParent_def upd_box_def upd_obj_def fun_eq_iff)

lemma put_in_told:
  assumes "store_ok items h" "getContainer h a \<noteq> None" "loose h a i"
    "h1 = upd_box a (\<lambda>b. b\<lparr>itemlist := f (itemlist b)\<rparr>) (setParent i (Some (Held a)) h)"
    "\<And>xs. mset (f xs) = add_mset i (mset xs)"
  shows "\<exists>h2. updateItemWeight h1 a (obj_weight items h1 i) = Some h2 \<and> store_ok items h2 \<and> held h2 = insert (i, a) (held h) \<and> dom h2 = dom h"
proof -
  obtain b where b: "getContainer h a = Some b" using assms(2) by blast
  have "getContainer h1 a \<noteq> None" by (simp add: assms(4) b)
  note t = told [OF put_in(1) [OF assms(1) b assms(3,4,5)] this]
  moreover have "held h1 = insert (i, a) (held h)" "dom h1 = dom h" by (simp_all add: assms(4) held_insert [OF assms(3)])
  ultimately show ?thesis by (intro exI [of _ "bumped (ups h1 a) (obj_weight items h1 i) h1"] conjI) simp_all
qed

lemma added:
  assumes "store_ok (items_of w) h" "getContainer h a \<noteq> None" "loose h a i"
  shows "\<exists>h' ev. addThing w h a index (Some i) = Some (h', ev) \<and> store_ok (items_of w) h'"
    "\<exists>h' ev. addItemBack w h a i = Some (h', ev) \<and> store_ok (items_of w) h' \<and> held h' = insert (i, a) (held h)"
    "\<exists>h' ev. internalAddThing w h a (Some i) = Some (h', ev) \<and> store_ok (items_of w) h' \<and> held h' = insert (i, a) (held h)"
proof -
  have front: "\<exists>h2. updateItemWeight (pushed a i h) a (obj_weight (items_of w) (pushed a i h) i) = Some h2 \<and> store_ok (items_of w) h2 \<and>
      held h2 = insert (i, a) (held h)"
    using put_in_told [OF assms, of "pushed a i h" "Cons i"] by (auto simp: pushed_def)
  have rear: "\<exists>h2. updateItemWeight (addItem a i h) a (obj_weight (items_of w) (addItem a i h) i) = Some h2 \<and> store_ok (items_of w) h2 \<and>
      held h2 = insert (i, a) (held h)"
    using put_in_told [OF assms, of "addItem a i h" "\<lambda>xs. xs @ [i]"] relist_setParent [of i "Some (Held a)" a "\<lambda>xs. xs @ [i]" h]
    by (simp add: addItem_def) blast
  show "\<exists>h' ev. addThing w h a index (Some i) = Some (h', ev) \<and> store_ok (items_of w) h'"
    using front assms(1,2) by (auto simp: addThing_def Let_def)
  show "\<exists>h' ev. addItemBack w h a i = Some (h', ev) \<and> store_ok (items_of w) h' \<and> held h' = insert (i, a) (held h)"
    using rear by (auto simp: addItemBack_def Let_def)
  show "\<exists>h' ev. internalAddThing w h a (Some i) = Some (h', ev) \<and> store_ok (items_of w) h' \<and> held h' = insert (i, a) (held h)"
    using front by (auto simp: internalAddThing_def Let_def)
qed

text \<open>Changing an item in place.\<close>

lemma sum_list_changed:
  "distinct xs \<Longrightarrow> i \<in> set xs \<Longrightarrow> (\<And>x. x \<noteq> i \<Longrightarrow> g x = f x) \<Longrightarrow>
   (\<Sum>x\<leftarrow>xs. g x) = (\<Sum>x\<leftarrow>xs. f x) + (- f i + g i :: u32)"
proof -
  assume xs: "distinct xs" "i \<in> set xs" and same: "\<And>x. x \<noteq> i \<Longrightarrow> g x = f x"
  have "(\<Sum>x\<leftarrow>xs. g x) = (\<Sum>x\<leftarrow>xs. f x + (if x = i then - f i + g i else 0))"
    using same by (intro arg_cong [where f = sum_list] map_cong) auto
  then show ?thesis using sum_list_one [OF xs(1), of f i "- f i + g i"] xs(2) by simp
qed

lemma changed_in_place:
  assumes ok: "store_ok items h" and i: "(i, a) \<in> held h"
  shows "\<exists>h2. updateItemWeight (on_item i f h) a (- obj_weight items h i + obj_weight items (on_item i f h) i) = Some h2 \<and>
    store_ok items h2 \<and> held h2 = held h \<and> dom h2 = dom h"
proof -
  have "getContainer h a \<noteq> None" using ok i unfolding store_ok_def store_but_def by blast
  then obtain b where b: "getContainer h a = Some b" by blast
  note facts = box_facts [OF ok b]
  have "store_but items a (- obj_weight items h i + obj_weight items (on_item i f h) i) (on_item i f h)"
  proof (rule relisted [OF ok b])
    show "getContainer (on_item i f h) c = (if c = a then Some (b\<lparr>itemlist := itemlist b\<rparr>) else getContainer h c)" for c using b by simp
    show "obj_weight items (on_item i f h) x = obj_weight items h x" if "c \<noteq> a" "(x, c) \<in> held h" for x c
      using that i held_single by (intro weight_on_item) blast
    show "(\<Sum>x\<leftarrow>itemlist b. obj_weight items (on_item i f h) x) =
        (\<Sum>x\<leftarrow>itemlist b. obj_weight items h x) + (- obj_weight items h i + obj_weight items (on_item i f h) i)"
      using facts i by (intro sum_list_changed weight_on_item) simp_all
  qed (use facts in simp_all)
  then show ?thesis using told [of items a _ "on_item i f h"] b by auto
qed

lemma index_of_spec:
  "k \<ge> 0 \<Longrightarrow> (index_of x xs k = - 1 \<longleftrightarrow> x \<notin> set xs) \<and>
   (x \<in> set xs \<longrightarrow> k \<le> index_of x xs k \<and> nat (index_of x xs k - k) < length xs \<and> xs ! nat (index_of x xs k - k) = x)"
proof (induction xs arbitrary: k)
  case (Cons y ys)
  have "nat (index_of x ys (k + 1) - k) = Suc (nat (index_of x ys (k + 1) - (k + 1)))" if "x \<in> set ys" "x \<noteq> y"
  proof -
    have "k + 1 \<le> index_of x ys (k + 1)" using Cons.IH [of "k + 1"] Cons.prems that by simp
    then show ?thesis by arith
  qed
  then show ?case using Cons.IH [of "k + 1"] Cons.prems by auto
qed simp

lemma getThingIndex_spec:
  assumes "store_ok items h" "getContainer h a = Some b"
  shows "getThingIndex h a x = - 1 \<longleftrightarrow> (x, a) \<notin> held h"
    "(x, a) \<in> held h \<Longrightarrow> nat (getThingIndex h a x) < length (itemlist b) \<and> itemlist b ! nat (getThingIndex h a x) = x"
  using index_of_spec [of 0 x "itemlist b"] box_facts(2) [OF assms, of x] assms(2)
  by (auto simp: getThingIndex_def items_in_def)

lemma updated:
  assumes "store_ok (items_of w) h" "getContainer h a \<noteq> None"
  shows "\<exists>h' ev. updateThing w h a i itemId n = Some (h', ev) \<and> store_ok (items_of w) h' \<and> held h' = held h"
proof -
  obtain b where b: "getContainer h a = Some b" using assms(2) by blast
  show ?thesis
  proof (cases "(i, a) \<in> held h")
    case True
    show ?thesis
      using changed_in_place [OF assms(1) True, of "\<lambda>x. setSubType (items_of w) (ucast n) (setID (items_of w) itemId x)"]
        getThingIndex_spec(1) [OF assms(1) b, of i] True by (auto simp: updateThing_def Let_def)
  next
    case False
    then show ?thesis using getThingIndex_spec(1) [OF assms(1) b, of i] assms(1) by (auto simp: updateThing_def)
  qed
qed

text \<open>Removing and replacing: the weight is told before the list changes, which makes no difference.\<close>

lemma bumped_relist:
  "upd_box a (\<lambda>b. b\<lparr>itemlist := f (itemlist b)\<rparr>) (bumped A d h) = bumped A d (upd_box a (\<lambda>b. b\<lparr>itemlist := f (itemlist b)\<rparr>) h)"
  by (rule ext, cases "h a"; cases "box (the (h a))") (auto simp: upd_box_def upd_obj_def bumped_def)

lemma bumped_setParent: "setParent i c (bumped A d h) = bumped A d (setParent i c h)"
  by (rule ext, cases "h i") (auto simp: upd_box_def upd_obj_def bumped_def setParent_def)

lemma ups_same:
  assumes "\<And>x. x \<in> ups h a \<Longrightarrow> getParent h1 x = getParent h x"
  shows "ups h1 a = ups h a"
proof -
  have "x \<in> ups h a \<Longrightarrow> (x, y) \<in> held h1 \<longleftrightarrow> (x, y) \<in> held h" for x y using assms by (simp add: held_def)
  then have step: "(a, x) \<in> (held h)\<^sup>* \<Longrightarrow> (x, y) \<in> held h1 \<longleftrightarrow> (x, y) \<in> held h" for x y by (simp add: ups_def)
  have "(a, x) \<in> (held h1)\<^sup>* \<longleftrightarrow> (a, x) \<in> (held h)\<^sup>*" for x
  proof
    assume "(a, x) \<in> (held h1)\<^sup>*"
    then show "(a, x) \<in> (held h)\<^sup>*" by induction (use step in \<open>auto intro: rtrancl_into_rtrancl\<close>)
  next
    assume "(a, x) \<in> (held h)\<^sup>*"
    then show "(a, x) \<in> (held h1)\<^sup>*" by induction (use step in \<open>auto intro: rtrancl_into_rtrancl\<close>)
  qed
  then show ?thesis by (simp add: ups_def)
qed

lemma taken_out:
  assumes ok: "store_ok items h" and i: "(i, a) \<in> held h" and k: "k = nat (getThingIndex h a i)"
  shows "\<exists>h2. updateItemWeight h a (- obj_weight items h i) = Some h2 \<and>
    store_ok items (upd_box a (\<lambda>b. b\<lparr>itemlist := take k (itemlist b) @ drop (k + 1) (itemlist b)\<rparr>) (setParent i None h2)) \<and>
    held (setParent i None h2) = held h - {(i, a)}"
proof -
  let ?f = "\<lambda>xs. take k xs @ drop (k + 1) xs"
  let ?h = "upd_box a (\<lambda>b. b\<lparr>itemlist := ?f (itemlist b)\<rparr>) (setParent i None h)"
  have "getContainer h a \<noteq> None" using ok i unfolding store_ok_def store_but_def by blast
  then obtain b where b: "getContainer h a = Some b" by blast
  note facts = box_facts [OF ok b]
  have split: "itemlist b = take k (itemlist b) @ i # drop (k + 1) (itemlist b)"
    using getThingIndex_spec(2) [OF ok b i] id_take_nth_drop [of k "itemlist b"] by (simp add: k)
  have d: "distinct (take k (itemlist b) @ i # drop (k + 1) (itemlist b))" using facts(1) split by simp
  have s: "set (?f (itemlist b)) = {x. (x, a) \<in> held h} - {i}"
  proof -
    have "{x. (x, a) \<in> held h} = set (take k (itemlist b) @ i # drop (k + 1) (itemlist b))" using facts(2) split by auto
    then show ?thesis using d by auto
  qed
  have "h i \<noteq> None" using i by (auto simp: held_def getParent_def split: option.splits)
  then have held: "held (setParent i None h) = held h - {(i, a)}" using i held_single by (auto simp: held_setParent)
  have "store_but items a (- obj_weight items h i) ?h"
  proof (rule relisted [OF ok b])
    show "acyclic (held ?h)" using facts(4) by (auto simp: held elim: acyclic_subset)
    have "(\<Sum>x\<leftarrow>itemlist b. obj_weight items h x) = (\<Sum>x\<leftarrow>take k (itemlist b) @ i # drop (k + 1) (itemlist b). obj_weight items h x)"
      by (rule arg_cong [OF split])
    moreover have "obj_weight items ?h = obj_weight items h" using weight_relist [of items a ?f] by (intro ext) simp
    ultimately show "(\<Sum>x\<leftarrow>?f (itemlist b). obj_weight items ?h x) = (\<Sum>x\<leftarrow>itemlist b. obj_weight items h x) + - obj_weight items h i"
      by simp
    show "(x, a) \<in> held ?h \<longleftrightarrow> x \<in> set (?f (itemlist b))" for x using s by (auto simp: held)
    show "distinct (?f (itemlist b))" using d by simp
    show "obj_weight items ?h x = obj_weight items h x" for x using weight_relist [of items a ?f] by simp
  qed (auto simp: b held)
  moreover have "ups ?h a = ups h a"
  proof (rule ups_same)
    show "getParent ?h x = getParent h x" if "x \<in> ups h a" for x
      using that held_not_ups [OF facts(4) i] by auto
  qed
  ultimately have "store_ok items (bumped (ups h a) (- obj_weight items h i) ?h)"
    using bumped_ok [of items a _ ?h] by (simp add: b)
  moreover have "updateItemWeight h a (- obj_weight items h i) = Some (bumped (ups h a) (- obj_weight items h i) h)"
    using tells [of items 0 0 h] ok by simp
  ultimately show ?thesis using held bumped_relist [of a ?f "ups h a" _ "setParent i None h"] by (simp add: bumped_setParent)
qed

lemma removed:
  assumes "store_ok (items_of w) h" "getContainer h a \<noteq> None"
  shows "\<exists>h' ev. removeThing w h a (Some i) n = Some (h', ev) \<and> store_ok (items_of w) h' \<and> held h' \<subseteq> held h"
proof -
  obtain b where b: "getContainer h a = Some b" using assms(2) by blast
  show ?thesis
  proof (cases "(i, a) \<in> held h")
    case True
    show ?thesis
      using changed_in_place [OF assms(1) True, of "\<lambda>x. setItemCount (reduced_count x n) x"]
        taken_out [OF assms(1) True refl] getThingIndex_spec(1) [OF assms(1) b, of i] True
      by (auto simp: removeThing_def Let_def)
  next
    case False
    then show ?thesis using getThingIndex_spec(1) [OF assms(1) b, of i] assms(1) by (auto simp: removeThing_def)
  qed
qed

lemma sum_list_replaced: "k < length ys \<Longrightarrow> sum_list (ys[k := y]) = sum_list ys + (- (ys ! k) + y :: u32)"
  by (induction ys arbitrary: k) (auto simp: algebra_simps split: nat.split)

lemma replaced:
  assumes ok: "store_ok (items_of w) h" and "getContainer h a \<noteq> None" and i: "loose h a i"
  shows "\<exists>h' ev. replaceThing w h a k (Some i) = Some (h', ev) \<and> store_ok (items_of w) h'"
proof -
  let ?items = "items_of w"
  obtain b where b: "getContainer h a = Some b" using assms(2) by blast
  note facts = box_facts [OF ok b]
  show ?thesis
  proof (cases "k < length (itemlist b)")
    case False
    then show ?thesis using b ok by (auto simp: replaceThing_def getItemByIndex_def items_in_def)
  next
    case True
    define r where "r = itemlist b ! k"
    let ?f = "\<lambda>xs. xs[k := i]"
    define h1 where "h1 = upd_box a (\<lambda>b. b\<lparr>itemlist := ?f (itemlist b)\<rparr>) (setParent i (Some (Held a)) h)"
    have h1: "setParent i (Some (Held a)) (upd_box a (\<lambda>b. b\<lparr>itemlist := ?f (itemlist b)\<rparr>) h) = h1"
      unfolding h1_def by (rule relist_setParent)
    have r: "(r, a) \<in> held h" "r \<noteq> i" "h r \<noteq> None" "h1 r \<noteq> None"
    proof -
      show ra: "(r, a) \<in> held h" using nth_mem [OF True] facts(2) unfolding r_def by blast
      then show "r \<noteq> i" using i unfolding loose_def by blast
      show "h r \<noteq> None" using ra by (auto simp: held_def getParent_def split: option.splits)
      then show "h1 r \<noteq> None" by (simp add: h1_def)
    qed
    have held1: "held h1 = insert (i, a) (held h)" by (simp add: h1_def held_insert [OF i])
    have held: "held (setParent r None h1) = insert (i, a) (held h) - {(r, a)}"
      using r(2) held_single [OF r(1)] by (auto simp: held_setParent [of h1 r] r(4) held1)
    have s: "set (itemlist b) = {x. (x, a) \<in> held h}" using facts(2) by blast
    have w1: "obj_weight ?items h1 = obj_weight ?items h" using weight_relist [of ?items a ?f] by (intro ext) (simp add: h1_def)
    have ac1: "acyclic (held h1)" using acyclic_loose [OF i facts(4)] by (simp add: held1)
    define d where "d = - obj_weight ?items h1 r + obj_weight ?items h1 i"
    have "store_but ?items a d (setParent r None h1)"
    proof (rule relisted [OF ok b])
      show "acyclic (held (setParent r None h1))" unfolding held by (rule acyclic_subset [OF ac1]) (auto simp: held1)
      show "(x, a) \<in> held (setParent r None h1) \<longleftrightarrow> x \<in> set (?f (itemlist b))" for x
        unfolding held set_update_distinct [OF facts(1) True] r_def [symmetric] s using r(2) by auto
      show "distinct (?f (itemlist b))" using facts(1) i unfolding loose_def by (intro distinct_list_update) (simp_all add: s)
      show "(\<Sum>x\<leftarrow>?f (itemlist b). obj_weight ?items (setParent r None h1) x) = (\<Sum>x\<leftarrow>itemlist b. obj_weight ?items h x) + d"
        using sum_list_replaced [of k "map (obj_weight ?items h) (itemlist b)"] True by (simp add: w1 map_update d_def r_def)
      show "dom (setParent r None h1) = dom h" by (simp add: h1_def)
      show "getContainer (setParent r None h1) c = (if c = a then Some (b\<lparr>itemlist := ?f (itemlist b)\<rparr>) else getContainer h c)" for c
        by (simp add: h1_def b)
    qed (auto simp: w1 held)
    then have "store_ok ?items (bumped (ups (setParent r None h1) a) d (setParent r None h1))" by (rule bumped_ok) (simp add: h1_def b)
    moreover have "ups (setParent r None h1) a = ups h1 a"
      using held_not_ups [OF ac1, of r a] r by (intro ups_same) (auto simp: held1)
    ultimately have "store_ok ?items (setParent r None (bumped (ups h1 a) d h1))" by (simp add: bumped_setParent)
    moreover have "updateItemWeight h1 a d = Some (bumped (ups h1 a) d h1)"
    proof (rule updateItemWeight_bumps)
      show "wf ((held h1)\<inverse>)"
      proof -
        have "wf (insert (a, i) ((held h)\<inverse>))"
          using held_wf(1) [of ?items 0 0 h] ok i by (simp add: wf_insert loose_def ups_def rtrancl_converse)
        moreover have "(held h1)\<inverse> = insert (a, i) ((held h)\<inverse>)" by (auto simp: held1)
        ultimately show ?thesis by simp
      qed
      show "getContainer h1 c \<noteq> None" if "(x, c) \<in> held h1" for x c
        using that [unfolded held1] facts(6) b by (auto simp: h1_def)
    qed (rule ac1)
    ultimately show ?thesis
      using b True by (auto simp: replaceThing_def getItemByIndex_def items_in_def Let_def r_def [symmetric] h1 d_def)
  qed
qed

section \<open>The loops along the chain return\<close>

lemma chain_end:
  assumes "wf ((held h)\<inverse>)" and step: "\<And>c p. cylinder_parent w h c = Some p \<Longrightarrow> P p \<Longrightarrow> P c"
    and "\<And>c. cylinder_parent w h c = None \<Longrightarrow> P c"
  shows "P c"
proof -
  have out: "P c" if "\<And>b. c \<noteq> Held b" for c
  proof -
    have "P (LyingOn t)" for t by (rule assms(3)) (simp add: cylinder_parent_def)
    then show ?thesis
      using that step [of c] assms(3) [of c] by (cases c; cases "cylinder_parent w h c") (auto simp: cylinder_parent_def split: option.splits)
  qed
  have "P (Held b)" for b
  proof (induction b rule: wf_induct_rule [OF assms(1)])
    case (1 b)
    show ?case
    proof (cases "getParent h b")
      case None
      then show ?thesis by (intro assms(3)) (simp add: cylinder_parent_def)
    next
      case (Some p)
      have "P p"
      proof (cases "\<exists>x. p = Held x")
        case True
        then show ?thesis using 1 Some by (auto simp: held_def)
      qed (use out in blast)
      then show ?thesis using Some by (intro step [of "Held b" p]) (simp_all add: cylinder_parent_def)
    qed
  qed
  then show ?thesis using out by (cases c) auto
qed

lemma top_loop_returns: "wf ((held h)\<inverse>) \<Longrightarrow> \<exists>r. top_loop w h prev c = Some r"
proof -
  assume wf: "wf ((held h)\<inverse>)"
  have "\<forall>prev. \<exists>r. top_loop w h prev c = Some r"
    by (rule chain_end [OF wf, where w = w]) (subst top_loop.simps, auto)+
  then show ?thesis by blast
qed

lemma limit_loop_returns: "wf ((held h)\<inverse>) \<Longrightarrow> \<exists>r. limit_loop w h i cyl = Some r"
proof (cases cyl)
  case (Some c)
  assume wf: "wf ((held h)\<inverse>)"
  have "\<exists>r. limit_loop w h i (Some c) = Some r"
  proof (rule chain_end [OF wf, where w = w])
    show "\<exists>r. limit_loop w h i (Some c) = Some r" if "cylinder_parent w h c = None" for c
      using that by (subst limit_loop.simps) (simp add: limit_loop.simps [of w h i None])
    show "\<exists>r. limit_loop w h i (Some c) = Some r" if "cylinder_parent w h c = Some p" "\<exists>r. limit_loop w h i (Some p) = Some r" for c p
      using that by (subst limit_loop.simps) simp
  qed
  with Some show ?thesis by simp
qed (simp add: limit_loop.simps)

lemma nolimit_loop_returns: "wf ((held h)\<inverse>) \<Longrightarrow> \<exists>r. nolimit_loop w h i cyl = Some r"
proof (cases cyl)
  case (Some c)
  assume wf: "wf ((held h)\<inverse>)"
  have "\<exists>r. nolimit_loop w h i (Some c) = Some r"
  proof (rule chain_end [OF wf, where w = w])
    show "\<exists>r. nolimit_loop w h i (Some c) = Some r" if "cylinder_parent w h c = None" for c
      using that by (subst nolimit_loop.simps) (simp add: nolimit_loop.simps [of w h i None])
    show "\<exists>r. nolimit_loop w h i (Some c) = Some r" if "cylinder_parent w h c = Some p" "\<exists>r. nolimit_loop w h i (Some p) = Some r" for c p
      using that by (subst nolimit_loop.simps) simp
  qed
  with Some show ?thesis by simp
qed (simp add: nolimit_loop.simps)

text \<open>With a first holder to fall back on, the outermost holder is never missing.\<close>

lemma top_loop_prev: "wf ((held h)\<inverse>) \<Longrightarrow> \<exists>p q. top_loop w h (Some c) d = Some (Some p, q)"
proof -
  assume wf: "wf ((held h)\<inverse>)"
  have "\<forall>c. \<exists>p q. top_loop w h (Some c) d = Some (Some p, q)"
    by (rule chain_end [OF wf, where w = w]) (subst top_loop.simps, auto)+
  then show ?thesis by blast
qed

lemma ask_top_returns: "wf ((held h)\<inverse>) \<Longrightarrow> getContainer h a \<noteq> None \<Longrightarrow> \<exists>r. ask_top w h a i n flags = Some r"
  using top_loop_prev [of h w "Held a" "the (getParent h a)"]
  by (cases "getParent h a") (auto simp: ask_top_def getTopParent_def Let_def)

lemma queryAdd_returns:
  assumes "store_ok items h" "getContainer h a \<noteq> None"
  shows "\<exists>r. queryAdd w h a index thing n flags = Some r"
proof -
  have wf: "wf ((held h)\<inverse>)" using held_wf(1) [of items 0 0 h] assms(1) by simp
  obtain b where b: "getContainer h a = Some b" using assms(2) by blast
  show ?thesis
    using limit_loop_returns [OF wf, of w "the thing" "getParent h a"] nolimit_loop_returns [OF wf, of w "the thing" "getParent h a"]
      ask_top_returns [OF wf assms(2), of w "the thing" n flags]
    by (auto simp: queryAdd_def b split: option.split)
qed

lemma stack_room_returns:
  "store_ok items h \<Longrightarrow> getContainer h a \<noteq> None \<Longrightarrow> \<exists>n'. stack_room w h a i flags xs k n = Some n'"
proof (induction xs arbitrary: k n)
  case (Cons x xs)
  obtain r where "queryAdd w h a k (Some i) (100 - ucast (getItemCount (item_at h x))) flags = Some r"
    using queryAdd_returns [OF Cons.prems] by blast
  then show ?case using Cons by (simp add: Let_def)
qed simp

lemma queryMaxCount_returns:
  assumes "store_ok items h" "getContainer h a \<noteq> None"
  shows "queryMaxCount w h a index thing n flags \<noteq> None"
proof -
  obtain b where b: "getContainer h a = Some b" using assms(2) by blast
  have "stack_room w h a i flags xs 0 0 \<noteq> None" for i xs using stack_room_returns [OF assms] by blast
  moreover have "dest_room w h a index i flags \<noteq> None" for i
    using queryAdd_returns [OF assms] by (auto simp: dest_room_def Let_def split: option.split)
  ultimately show ?thesis by (cases thing) (simp_all add: queryMaxCount_def b map_option_is_None del: not_None_eq)
qed

section \<open>What \<open>queryAdd\<close> rules out\<close>

lemma limit_nolimit:
  assumes "wf ((held h)\<inverse>)"
  shows "limit_loop w h i cyl = Some None \<Longrightarrow> nolimit_loop w h i cyl = Some None"
proof -
  have "limit_loop w h i (Some c) = Some None \<longrightarrow> nolimit_loop w h i (Some c) = Some None" for c
    by (rule chain_end [OF assms, where w = w])
      (auto simp: limit_loop.simps [of w h i "Some _"] nolimit_loop.simps [of w h i "Some _"] nolimit_loop.simps [of w h i None])
  then show "limit_loop w h i cyl = Some None \<Longrightarrow> nolimit_loop w h i cyl = Some None"
    by (cases cyl) (simp_all add: nolimit_loop.simps [of w h i None])
qed

lemma nolimit_loop_checks:
  "wf ((held h)\<inverse>) \<Longrightarrow> nolimit_loop w h i (Some (Held b)) = Some None \<Longrightarrow> i \<notin> ups h b"
proof -
  assume wf: "wf ((held h)\<inverse>)"
  have "\<forall>b. c = Held b \<longrightarrow> nolimit_loop w h i (Some c) = Some None \<longrightarrow> i \<notin> ups h b" for c
  proof (rule chain_end [OF wf, where w = w])
    show "\<forall>b. c = Held b \<longrightarrow> nolimit_loop w h i (Some c) = Some None \<longrightarrow> i \<notin> ups h b" if "cylinder_parent w h c = None" for c
      using that ups_top [of h] by (subst nolimit_loop.simps) (auto simp: cylinder_parent_def)
    show "\<forall>b. c = Held b \<longrightarrow> nolimit_loop w h i (Some c) = Some None \<longrightarrow> i \<notin> ups h b"
      if p: "cylinder_parent w h c = Some p" "\<forall>b. p = Held b \<longrightarrow> nolimit_loop w h i (Some p) = Some None \<longrightarrow> i \<notin> ups h b" for c p
    proof (intro allI impI)
      fix b assume c: "c = Held b" and l: "nolimit_loop w h i (Some c) = Some None"
      from l c have l': "nolimit_loop w h i (Some p) = Some None" "i \<noteq> b"
        using p(1) by (atomize (full), subst (asm) nolimit_loop.simps) (auto split: if_splits)
      show "i \<notin> ups h b"
      proof (cases "\<exists>d. p = Held d")
        case True
        then obtain d where d: "p = Held d" by blast
        then have "ups h b = insert b (ups h d)" using p(1) c by (intro ups_held) (simp add: held_def cylinder_parent_def)
        then show ?thesis using p(2) d l' by simp
      next
        case False
        then have "ups h b = {b}" using p(1) c ups_top [of h b] by (auto simp: cylinder_parent_def)
        then show ?thesis using l' by simp
      qed
    qed
  qed
  then show "nolimit_loop w h i (Some (Held b)) = Some None \<Longrightarrow> i \<notin> ups h b" by blast
qed

lemma loops_refuse:
  assumes "wf ((held h)\<inverse>)"
  shows "limit_loop w h i cyl \<noteq> Some (Some RETURNVALUE_NOERROR)" "nolimit_loop w h i cyl \<noteq> Some (Some RETURNVALUE_NOERROR)"
proof -
  have "limit_loop w h i (Some c) \<noteq> Some (Some RETURNVALUE_NOERROR)" for c
    by (rule chain_end [OF assms, where w = w]) (auto simp: limit_loop.simps [of w h i "Some _"] limit_loop.simps [of w h i None])
  moreover have "nolimit_loop w h i (Some c) \<noteq> Some (Some RETURNVALUE_NOERROR)" for c
    by (rule chain_end [OF assms, where w = w]) (auto simp: nolimit_loop.simps [of w h i "Some _"] nolimit_loop.simps [of w h i None])
  ultimately show "limit_loop w h i cyl \<noteq> Some (Some RETURNVALUE_NOERROR)" "nolimit_loop w h i cyl \<noteq> Some (Some RETURNVALUE_NOERROR)"
    by (cases cyl; simp add: limit_loop.simps [of w h i None] nolimit_loop.simps [of w h i None])+
qed

lemma queryAdd_checks:
  assumes "store_ok items h" "queryAdd w h a index (Some i) n flags = Some RETURNVALUE_NOERROR" "\<not> hasBitSet FLAG_CHILDISOWNER flags"
  shows "i \<notin> ups h a" "getContainer h a \<noteq> None"
proof -
  have wf: "wf ((held h)\<inverse>)" using held_wf(1) [of items 0 0 h] assms(1) by simp
  have "getContainer h a \<noteq> None" "i \<noteq> a" "nolimit_loop w h i (getParent h a) = Some None"
    using assms(2,3) limit_nolimit [OF wf, of w i "getParent h a"] loops_refuse [OF wf, of w i "getParent h a"]
    by (auto simp: queryAdd_def split: option.splits if_splits)
  then show "i \<notin> ups h a" "getContainer h a \<noteq> None"
    using nolimit_loop_checks [OF wf, of w i] ups_held [of a _ h] ups_top [of h a]
    by (cases "\<exists>p. getParent h a = Some (Held p)"; force simp: held_def)+
qed

section \<open>Reachable stores\<close>

text \<open>
  Items are made, are put down outside, are put into a container that accepted them, and are changed, taken
  out or exchanged there.
\<close>

inductive reachable_store :: "surroundings \<Rightarrow> store \<Rightarrow> bool" for w where
  no_things: "reachable_store w (\<lambda>_. None)"
| new_thing: "reachable_store w h \<Longrightarrow> h i = None \<Longrightarrow> reachable_store w (h(i \<mapsto> \<lparr>the_item = it, parent = None, box = None\<rparr>))"
| new_container: "reachable_store w h \<Longrightarrow> h i = None \<Longrightarrow>
    reachable_store w (h(i \<mapsto> \<lparr>the_item = it, parent = None,
      box = Some \<lparr>maxSize = slots, totalWeight = 0, itemlist = [], unlocked = u, pagination = pg\<rparr>\<rparr>))"
| put_down: "reachable_store w h \<Longrightarrow> (\<And>b. getParent h i \<noteq> Some (Held b)) \<Longrightarrow> (\<And>b. c \<noteq> Some (Held b)) \<Longrightarrow>
    reachable_store w (setParent i c h)"
| add_thing: "reachable_store w h \<Longrightarrow> h i \<noteq> None \<Longrightarrow> (\<And>b. getParent h i \<noteq> Some (Held b)) \<Longrightarrow>
    queryAdd w h a index (Some i) n flags = Some RETURNVALUE_NOERROR \<Longrightarrow> \<not> hasBitSet FLAG_CHILDISOWNER flags \<Longrightarrow>
    addThing w h a slot (Some i) = Some (h', ev) \<or> addItemBack w h a i = Some (h', ev) \<or> internalAddThing w h a (Some i) = Some (h', ev) \<or>
    replaceThing w h a k (Some i) = Some (h', ev) \<Longrightarrow> reachable_store w h'"
| change_thing: "reachable_store w h \<Longrightarrow> getContainer h a \<noteq> None \<Longrightarrow>
    updateThing w h a i itemId n = Some (h', ev) \<or> removeThing w h a (Some i) n = Some (h', ev) \<Longrightarrow> reachable_store w h'"

lemma store_ok_new:
  assumes "store_ok items h" "h i = None" "parent ob = None" "case box ob of None \<Rightarrow> True | Some b \<Rightarrow> itemlist b = [] \<and> totalWeight b = 0"
  shows "store_ok items (h(i \<mapsto> ob))"
proof -
  have no: "getParent h i = None" "getContainer h i = None" using assms(2) by (simp_all add: getParent_def getContainer_def)
  have held: "held (h(i \<mapsto> ob)) = held h"
    using no(1) assms(3) by (auto simp: held_def getParent_def split: if_splits)
  have c: "getContainer (h(i \<mapsto> ob)) c = (if c = i then box ob else getContainer h c)" for c by (simp add: getContainer_def)
  have nobody: "(x, i) \<notin> held h" for x using assms(1) no(2) unfolding store_ok_def store_but_def by blast
  have inside: "x \<noteq> i" if "(x, c) \<in> held h" for x c using that no(1) by (auto simp: held_def)
  have w: "obj_weight items (h(i \<mapsto> ob)) x = obj_weight items h x" if "x \<noteq> i" for x
    using that by (auto simp: obj_weight_def c item_at_def split: option.split)
  have sums: "(\<Sum>x\<leftarrow>itemlist b. obj_weight items (h(i \<mapsto> ob)) x) = (\<Sum>x\<leftarrow>itemlist b. obj_weight items h x)"
    if "getContainer h c = Some b" for c b
  proof -
    have "set (itemlist b) = {x. (x, c) \<in> held h}" using assms(1) that by (simp add: store_ok_def store_but_def)
    then show ?thesis using inside by (intro arg_cong [where f = sum_list] map_cong w) auto
  qed
  show ?thesis
    unfolding store_ok_def store_but_def held
  proof (intro conjI allI impI)
    show "finite (dom (h(i \<mapsto> ob)))" "acyclic (held h)" using assms(1) by (simp_all add: store_ok_def store_but_def)
    show "getContainer (h(i \<mapsto> ob)) b \<noteq> None" if "(x, b) \<in> held h" for x b
      using that nobody assms(1) unfolding store_ok_def store_but_def c by metis
    fix x b assume b: "getContainer (h(i \<mapsto> ob)) x = Some b"
    have "if x = i then box ob = Some b else getContainer h x = Some b" using b by (cases "x = i") (simp_all add: c)
    then show "distinct (itemlist b)" "set (itemlist b) = {j. (j, x) \<in> held h}"
      "totalWeight b + (if x = 0 then 0 else 0) = (\<Sum>x\<leftarrow>itemlist b. obj_weight items (h(i \<mapsto> ob)) x)"
      using assms(1,4) nobody sums [of x b] by (auto simp: store_ok_def store_but_def split: if_splits)
  qed
qed

lemma reachable_ok: "reachable_store w h \<Longrightarrow> store_ok (items_of w) h"
proof (induction rule: reachable_store.induct)
  case no_things
  then show ?case by (simp add: store_ok_def store_but_def held_def getParent_def getContainer_def acyclic_def)
next
  case (put_down h i c)
  have "(x, b) \<in> held (setParent i c h) \<longleftrightarrow> (x, b) \<in> held h" for x b
    using put_down.hyps(2) [of b] put_down.hyps(3) [of b] by (cases "x = i") (auto simp: held_def)
  then have "held (setParent i c h) = held h" by auto
  then show ?case using put_down.IH by (simp add: store_ok_def store_but_def)
next
  case (add_thing h i a index n flags slot h' ev k)
  have "loose h a i" using queryAdd_checks(1) [OF add_thing.IH add_thing.hyps(4,5)] add_thing.hyps(2,3) by (auto simp: loose_def held_def)
  moreover have "getContainer h a \<noteq> None" by (rule queryAdd_checks(2) [OF add_thing.IH add_thing.hyps(4,5)])
  ultimately show ?case
    using add_thing.hyps(6) added(1) [OF add_thing.IH, of a i slot] added(2,3) [OF add_thing.IH, of a i] replaced [OF add_thing.IH, of a i k] by auto
next
  case (change_thing h a i itemId n h' ev)
  then show ?case using updated [OF change_thing.IH, of a i itemId n] removed [OF change_thing.IH, of a i n] by auto
next
  case new_thing
  then show ?case by (intro store_ok_new) simp_all
next
  case new_container
  then show ?case by (intro store_ok_new) simp_all
qed

section \<open>The weight of everything inside\<close>

text \<open>\<open>below h a\<close>: the item \<open>a\<close> with everything in it, at every level.\<close>

definition below :: "store \<Rightarrow> addr \<Rightarrow> addr set" where
  "below h a = {x. (x, a) \<in> (held h)\<^sup>*}"

lemma below_children: "below h a = insert a (\<Union>c \<in> {c. (c, a) \<in> held h}. below h c)"
  unfolding below_def by (auto elim: rtranclE intro: rtrancl_into_rtrancl)

lemma below_parts:
  assumes "store_ok items h"
  shows "finite (below h a)" "(c, a) \<in> held h \<Longrightarrow> a \<notin> below h c"
    "(c, a) \<in> held h \<Longrightarrow> (d, a) \<in> held h \<Longrightarrow> c \<noteq> d \<Longrightarrow> below h c \<inter> below h d = {}"
proof -
  have ac: "acyclic (held h)" and fin: "finite (dom h)" using assms by (auto simp: store_ok_def store_but_def)
  have "x \<in> dom h" if "(x, y) \<in> held h" for x y using that by (auto simp: held_def getParent_def split: option.splits)
  then have "below h a \<subseteq> insert a (dom h)" unfolding below_def by (blast elim: converse_rtranclE)
  then show "finite (below h a)" using fin finite_subset by blast
  show "a \<notin> below h c" if "(c, a) \<in> held h"
    using that ac unfolding below_def acyclic_def by (auto dest: rtrancl_into_trancl2)
  show "below h c \<inter> below h d = {}" if "(c, a) \<in> held h" "(d, a) \<in> held h" "c \<noteq> d"
  proof (rule ccontr)
    assume "below h c \<inter> below h d \<noteq> {}"
    then obtain x where x: "c \<in> ups h x" "d \<in> ups h x" by (auto simp: below_def ups_def)
    show False using ups_pred_unique [OF ac x that(1,2)] that(3) by simp
  qed
qed

lemma items_in_held:
  assumes "store_ok items h"
  shows "distinct (items_in h a)" "set (items_in h a) = {c. (c, a) \<in> held h}"
proof -
  have "distinct (items_in h a) \<and> set (items_in h a) = {c. (c, a) \<in> held h}"
  proof (cases "getContainer h a")
    case None
    then have "{c. (c, a) \<in> held h} = {}" using assms unfolding store_ok_def store_but_def by blast
    then show ?thesis using None by (simp add: items_in_def)
  next
    case (Some b)
    then show ?thesis using box_facts(1,2) [OF assms Some] by (auto simp: items_in_def)
  qed
  then show "distinct (items_in h a)" "set (items_in h a) = {c. (c, a) \<in> held h}" by simp_all
qed

lemma below_sum:
  fixes f :: "addr \<Rightarrow> 'a :: comm_monoid_add"
  assumes "store_ok items h"
  shows "(\<Sum>x\<in>below h a. f x) = f a + (\<Sum>c\<leftarrow>items_in h a. \<Sum>x\<in>below h c. f x)"
proof -
  let ?C = "{c. (c, a) \<in> held h}"
  note C = items_in_held [OF assms, of a]
  have "below h a = insert a (\<Union>c \<in> ?C. below h c)" by (rule below_children)
  moreover have "finite (\<Union>c \<in> ?C. below h c)" using C below_parts(1) [OF assms] by (metis finite_UN finite_set)
  moreover have "a \<notin> (\<Union>c \<in> ?C. below h c)" using below_parts(2) [OF assms] by blast
  ultimately have "(\<Sum>x\<in>below h a. f x) = f a + (\<Sum>x\<in>(\<Union>c \<in> ?C. below h c). f x)" by (simp add: sum.insert)
  also have "(\<Sum>x\<in>(\<Union>c \<in> ?C. below h c). f x) = (\<Sum>c\<in>?C. \<Sum>x\<in>below h c. f x)"
    using C below_parts(1,3) [OF assms] by (intro sum.UNION_disjoint) (metis finite_set, auto)
  also have "\<dots> = (\<Sum>c\<leftarrow>items_in h a. \<Sum>x\<in>below h c. f x)" using C by (metis sum.distinct_set_conv_list)
  finally show ?thesis .
qed

lemma weight_below: "store_ok items h \<Longrightarrow> obj_weight items h a = (\<Sum>x\<in>below h a. getWeight items (item_at h x))"
proof -
  assume ok: "store_ok items h"
  have wf: "wf (held h)" using held_wf(2) [of items 0 0 h] ok by simp
  show ?thesis
  proof (induction a rule: wf_induct_rule [OF wf])
    case (1 a)
    have "(\<Sum>x\<in>below h a. getWeight items (item_at h x)) =
        getWeight items (item_at h a) + (\<Sum>c\<leftarrow>items_in h a. \<Sum>x\<in>below h c. getWeight items (item_at h x))"
      by (rule below_sum [OF ok])
    also have "\<dots> = getWeight items (item_at h a) + (\<Sum>c\<leftarrow>items_in h a. obj_weight items h c)"
    proof -
      have "(c, a) \<in> held h" if "c \<in> set (items_in h a)" for c
        using that box_facts(2) [OF ok] by (auto simp: items_in_def split: option.splits)
      then show ?thesis using 1 by (intro arg_cong2 [where f = plus] refl arg_cong [where f = sum_list] map_cong) auto
    qed
    also have "\<dots> = obj_weight items h a"
      using box_facts(3) [OF ok] by (auto simp: obj_weight_def items_in_def split: option.split)
    finally show ?case by simp
  qed
qed

section \<open>The iteration meets everything once\<close>

definition pending :: "store \<Rightarrow> iterator \<Rightarrow> addr list" where
  "pending h it = (case over it of [] \<Rightarrow> [] | a # rest \<Rightarrow> drop (cur it) (items_in h a) @ concat (map (items_in h) rest))"

definition iterator_ok :: "store \<Rightarrow> iterator \<Rightarrow> bool" where
  "iterator_ok h it \<longleftrightarrow> (\<forall>a \<in> set (over it). items_in h a \<noteq> []) \<and> (over it \<noteq> [] \<longrightarrow> cur it < length (items_in h (hd (over it))))"

lemma advance_pending:
  assumes "iterator_ok h it" "hasNext it"
  shows "iterator_ok h (advance h it)" "pending h it = cur_item h it # tl (pending h it)"
    "pending h (advance h it) = tl (pending h it) @ items_in h (cur_item h it)"
proof -
  obtain a rest where o: "over it = a # rest" using assms(2) by (auto simp: hasNext_def neq_Nil_conv)
  have c: "cur it < length (items_in h a)" using assms(1) o by (simp add: iterator_ok_def)
  have i: "cur_item h it = items_in h a ! cur it" by (simp add: cur_item_def o)
  have d: "drop (cur it) (items_in h a) = cur_item h it # drop (Suc (cur it)) (items_in h a)" using c i by (simp add: Cons_nth_drop_Suc)
  then show p: "pending h it = cur_item h it # tl (pending h it)" by (simp add: pending_def o)
  have t: "tl (pending h it) = drop (Suc (cur it)) (items_in h a) @ concat (map (items_in h) rest)" using d by (simp add: pending_def o)
  define over1 where "over1 = (if items_in h (cur_item h it) \<noteq> [] then over it @ [cur_item h it] else over it)"
  define rest1 where "rest1 = (if items_in h (cur_item h it) \<noteq> [] then rest @ [cur_item h it] else rest)"
  have o1: "over1 = a # rest1" by (simp add: over1_def rest1_def o)
  have r1: "concat (map (items_in h) rest1) = concat (map (items_in h) rest) @ items_in h (cur_item h it)"
    "\<forall>b \<in> set rest1. items_in h b \<noteq> []" using assms(1) by (auto simp: rest1_def iterator_ok_def o)
  have adv: "advance h it = (if Suc (cur it) = length (items_in h a) then \<lparr>over = rest1, cur = 0\<rparr> else \<lparr>over = a # rest1, cur = Suc (cur it)\<rparr>)"
    by (simp add: advance_def Let_def over1_def [symmetric] o1)
  have ne: "items_in h a \<noteq> []" using assms(1) o by (simp add: iterator_ok_def)
  show "iterator_ok h (advance h it)"
    unfolding adv using r1(2) c ne by (cases rest1) (auto simp: iterator_ok_def)
  show "pending h (advance h it) = tl (pending h it) @ items_in h (cur_item h it)"
    unfolding adv t using r1(1) by (cases rest1) (auto simp: pending_def)
qed

lemma pending_empty: "iterator_ok h it \<Longrightarrow> hasNext it \<longleftrightarrow> pending h it \<noteq> []"
  by (auto simp: hasNext_def pending_def iterator_ok_def split: list.splits)

text \<open>The number of steps that are left is the number of items below those that are pending.\<close>

definition left_over :: "store \<Rightarrow> addr list \<Rightarrow> nat" where
  "left_over h xs = (\<Sum>x\<leftarrow>xs. card (below h x))"

lemma left_over_step:
  assumes "store_ok items h"
  shows "left_over h (x # xs) = Suc (left_over h (xs @ items_in h x))"
proof -
  have "card (below h x) = Suc (\<Sum>c\<leftarrow>items_in h x. card (below h c))"
    using below_sum [OF assms, of "\<lambda>_. 1 :: nat" x] by simp
  then show ?thesis by (simp add: left_over_def)
qed

lemma below_members: "store_ok items h \<Longrightarrow> below h a = insert a (\<Union>c \<in> set (items_in h a). below h c)"
  using below_children [of h a] items_in_held(2) [of items h a] by simp

lemma loops_exact:
  assumes ok: "store_ok items h"
  shows "iterator_ok h it \<Longrightarrow> holding_loop h i it = Some (\<exists>p \<in> set (pending h it). i \<in> below h p) \<and>
    count_loop h it n = Some (n + of_nat (left_over h (pending h it)))"
proof (induction "left_over h (pending h it)" arbitrary: it n)
  case 0
  then have "\<not> hasNext it"
    using pending_empty [OF 0(2)] left_over_step [OF ok] by (cases "pending h it") auto
  then show ?case using pending_empty [OF 0(2)] by (simp add: holding_loop.simps [of h i it] count_loop.simps [of h it] left_over_def)
next
  case (Suc k)
  then have more: "hasNext it" using pending_empty [OF Suc(3)] by (auto simp: left_over_def)
  note adv = advance_pending [OF Suc(3) more]
  have step: "left_over h (pending h it) = Suc (left_over h (pending h (advance h it)))"
    unfolding adv(3) by (subst adv(2)) (rule left_over_step [OF ok])
  then have k: "k = left_over h (pending h (advance h it))" using Suc(2) by simp
  note IH = Suc(1) [OF k adv(1)]
  have mem: "(\<exists>p \<in> set (pending h it). i \<in> below h p) \<longleftrightarrow>
      cur_item h it = i \<or> (\<exists>p \<in> set (pending h (advance h it)). i \<in> below h p)"
  proof -
    have "(\<exists>p \<in> set (pending h it). i \<in> below h p) \<longleftrightarrow> i \<in> below h (cur_item h it) \<or> (\<exists>p \<in> set (tl (pending h it)). i \<in> below h p)"
      by (subst adv(2)) simp
    then show ?thesis unfolding adv(3) below_members [OF ok, of "cur_item h it"] by auto
  qed
  have "holding_loop h i it = Some (\<exists>p \<in> set (pending h it). i \<in> below h p)"
    using more IH mem by (subst holding_loop.simps) auto
  moreover have "count_loop h it n = Some (n + of_nat (left_over h (pending h it)))"
    unfolding step using more IH by (subst count_loop.simps) (simp add: algebra_simps)
  ultimately show ?case by blast
qed

declare updateItemWeight.simps [code] top_loop.simps [code] holding_loop.simps [code] count_loop.simps [code]
  limit_loop.simps [code] nolimit_loop.simps [code]

section \<open>The properties\<close>

text \<open>
C5.
  In every store that the operations of containers lead to, where an item enters a container only after
  \<open>queryAdd\<close> accepted it, no container is inside itself, at any depth, and the weight of each container is
  its own weight together with that of every item inside it, at every level, in the arithmetic of 32 bits.
\<close>

theorem container_weight_exact:
  assumes "reachable_store w h"
  shows "(a, a) \<notin> (held h)\<^sup>+ \<and>
    obj_weight (items_of w) h a = getWeight (items_of w) (item_at h a) + (\<Sum>x\<in>{x. (x, a) \<in> (held h)\<^sup>+}. getWeight (items_of w) (item_at h x))"
proof -
  note ok = reachable_ok [OF assms]
  have no: "(a, a) \<notin> (held h)\<^sup>+" using ok by (simp add: store_ok_def store_but_def acyclic_def)
  have "below h a = insert a {x. (x, a) \<in> (held h)\<^sup>+}" by (auto simp: below_def rtrancl_eq_or_trancl)
  moreover have "finite {x. (x, a) \<in> (held h)\<^sup>+}"
    using below_parts(1) [OF ok, of a] calculation by simp
  ultimately show ?thesis using no weight_below [OF ok, of a] by simp
qed

text \<open>
C13.
  \<open>isHoldingItem\<close> and \<open>getItemHoldingCount\<close> return, in every reachable store: the first says of an item
  exactly whether it is inside the container, at any depth, and the second counts every such item once.
\<close>

theorem iteration_exact:
  assumes "reachable_store w h"
  shows "isHoldingItem h a i = Some ((i, a) \<in> (held h)\<^sup>+) \<and>
    getItemHoldingCount h a = Some (of_nat (card {x. (x, a) \<in> (held h)\<^sup>+}))"
proof -
  note ok = reachable_ok [OF assms]
  have it: "iterator_ok h (iterator_of h a)" "pending h (iterator_of h a) = items_in h a"
    by (auto simp: iterator_of_def iterator_ok_def pending_def)
  have inside: "below h a = insert a {x. (x, a) \<in> (held h)\<^sup>+}" "a \<notin> {x. (x, a) \<in> (held h)\<^sup>+}"
    using ok by (auto simp: below_def rtrancl_eq_or_trancl store_ok_def store_but_def acyclic_def)
  have "(\<exists>p \<in> set (items_in h a). i \<in> below h p) \<longleftrightarrow> (i, a) \<in> (held h)\<^sup>+"
    unfolding items_in_held(2) [OF ok] below_def by (auto simp: trancl_unfold_right)
  moreover have "left_over h (items_in h a) = card {x. (x, a) \<in> (held h)\<^sup>+}"
  proof -
    have "finite {x. (x, a) \<in> (held h)\<^sup>+}" using below_parts(1) [OF ok, of a] inside(1) by simp
    then have "card (below h a) = Suc (card {x. (x, a) \<in> (held h)\<^sup>+})" using inside by simp
    then show ?thesis using left_over_step [OF ok, of a "[]"] by (simp add: left_over_def)
  qed
  ultimately show ?thesis
    using loops_exact [OF ok it(1), of i 0] by (simp add: isHoldingItem_def getItemHoldingCount_def it(2))
qed

text \<open>A bag in a bag, with 57 coins in the inner one.\<close>

definition small_world :: surroundings where
  "small_world = \<lparr>items_of = sample_items, standing_on = (\<lambda>_. None), holder_kind = (\<lambda>_. Creature_Holder),
     top_queryAdd = (\<lambda>_ _ _ _. RETURNVALUE_NOERROR)\<rparr>"

definition empty_bag :: thing_obj where
  "empty_bag = \<lparr>the_item = \<lparr>item_id = 1987, item_count = 1, attributes = None\<rparr>, parent = None,
     box = Some \<lparr>maxSize = 8, totalWeight = 0, itemlist = [], unlocked = True, pagination = False\<rparr>\<rparr>"

definition coins :: thing_obj where
  "coins = \<lparr>the_item = \<lparr>item_id = 2148, item_count = 57, attributes = None\<rparr>, parent = None, box = None\<rparr>"

definition bags1 :: store where "bags1 = (\<lambda>_. None)(1 \<mapsto> empty_bag, 2 \<mapsto> empty_bag, 3 \<mapsto> coins)"
definition bags2 :: store where "bags2 = fst (the (addThing small_world bags1 1 0 (Some 2)))"
definition bags3 :: store where "bags3 = fst (the (addThing small_world bags2 2 0 (Some 3)))"

lemma bags_reached: "reachable_store small_world bags3"
proof -
  have "reachable_store small_world ((\<lambda>_. None)(1 \<mapsto> empty_bag))" unfolding empty_bag_def by (rule new_container [OF no_things]) simp
  then have "reachable_store small_world ((\<lambda>_. None)(1 \<mapsto> empty_bag, 2 \<mapsto> empty_bag))"
    unfolding empty_bag_def by (rule new_container) simp
  then have r1: "reachable_store small_world bags1" unfolding bags1_def coins_def by (rule new_thing) simp
  have q1: "queryAdd small_world bags1 1 (-1) (Some 2) 1 0 = Some RETURNVALUE_NOERROR" by code_simp
  have "addThing small_world bags1 1 0 (Some 2) \<noteq> None" by code_simp
  then obtain e1 where a1: "addThing small_world bags1 1 0 (Some 2) = Some (bags2, e1)" by (auto simp: bags2_def)
  have p1: "getParent bags1 2 = None" "bags1 2 \<noteq> None" by code_simp+
  have r2: "reachable_store small_world bags2"
    by (rule add_thing [OF r1 p1(2) _ q1 _ disjI1 [OF a1]]) (simp_all add: p1 hasBitSet_def)
  have q2: "queryAdd small_world bags2 2 (-1) (Some 3) 57 0 = Some RETURNVALUE_NOERROR" by code_simp
  have "addThing small_world bags2 2 0 (Some 3) \<noteq> None" by code_simp
  then obtain e2 where a2: "addThing small_world bags2 2 0 (Some 3) = Some (bags3, e2)" by (auto simp: bags3_def)
  have p2: "getParent bags2 3 = None" "bags2 3 \<noteq> None" by code_simp+
  show ?thesis by (rule add_thing [OF r2 p2(2) _ q2 _ disjI1 [OF a2]]) (simp_all add: p2 hasBitSet_def)
qed

theorem container_weight_exact_witness:
  "(1, 1) \<notin> (held bags3)\<^sup>+ \<and>
   590 = getWeight sample_items (item_at bags3 1) + (\<Sum>x\<in>{x. (x, 1) \<in> (held bags3)\<^sup>+}. getWeight sample_items (item_at bags3 x))"
proof -
  have "obj_weight sample_items bags3 1 = 590" by code_simp
  then show ?thesis using container_weight_exact [OF bags_reached, of 1] by (simp add: small_world_def)
qed

theorem iteration_exact_witness:
  "isHoldingItem bags3 1 3 = Some True \<and> (3, 1) \<in> (held bags3)\<^sup>+"
proof -
  have "isHoldingItem bags3 1 3 = Some True" by code_simp
  then show ?thesis using iteration_exact [OF bags_reached, of 1 3] by simp
qed

end
