(* ===== verification/Tiles.thy ===== *)
theory Tiles imports Containers Positions begin

text \<open>
  The tiles of the map, from \<open>src/src/tile.h\<close> and \<open>src/src/tile.cpp\<close>: a ground, a list of items with the
  down items before the top items, the creatures, and a word of flags that answers without a scan what the
  things on the tile block. Items live in the store of containers. The table of item types, the class with
  which each item was made, the creatures and the players who watch are parameters; a tile that somebody
  browses as a container is not modelled.
\<close>

section \<open>Types\<close>

record tile_item_type = item_type +
  ground_tile :: bool
  alwaysOnTop :: bool
  alwaysOnTopOrder :: u8
  magicField :: bool
  replaceable :: bool
  bed_type :: bool
  container_type :: bool
  floorChange :: u8
  forceUse :: bool
  lookThrough :: bool
  hasHeight :: bool
  blockSolid :: bool
  blockProjectile :: bool
  blockPathFind :: bool
  allowPickupable :: bool
  isVertical :: bool
  isHorizontal :: bool
  isHangable :: bool
  field_combat :: nat
  field_damage :: int

datatype item_class = Common_Item | Teleport_Item | MagicField_Item | TrashHolder_Item | Mailbox_Item | Bed_Item | DepotLocker_Item

datatype item_property =
    CONST_PROP_BLOCKSOLID | CONST_PROP_HASHEIGHT | CONST_PROP_BLOCKPROJECTILE | CONST_PROP_BLOCKPATH
  | CONST_PROP_ISVERTICAL | CONST_PROP_ISHORIZONTAL | CONST_PROP_MOVEABLE | CONST_PROP_IMMOVABLEBLOCKSOLID
  | CONST_PROP_IMMOVABLEBLOCKPATH | CONST_PROP_IMMOVABLENOFIELDBLOCKPATH | CONST_PROP_NOFIELDBLOCKPATH
  | CONST_PROP_SUPPORTHANGABLE

datatype being_kind = A_Player | A_Monster | An_Npc

record being =
  being_kind :: being_kind
  moveLocked :: bool
  inGhostMode :: bool
  invisible :: bool
  pushable :: bool
  is_summon :: bool
  master_is_player :: bool
  canPushCreatures :: bool
  canPushItems :: bool
  ignoreFieldDamage :: bool
  immune_to :: "nat \<Rightarrow> bool"
  walks_on_field :: "nat \<Rightarrow> bool"
  accessPlayer :: bool
  pzLocked :: bool
  tile_flags_of :: "u32 option"

record tile_env =
  types :: "u16 \<Rightarrow> tile_item_type"
  class_of :: "addr \<Rightarrow> item_class"
  beings :: "nat \<Rightarrow> being"
  walks_through :: "nat \<Rightarrow> nat \<Rightarrow> bool"
  can_see :: "nat \<Rightarrow> nat \<Rightarrow> bool"
  watchers :: "nat list"

record tile =
  t_id :: nat
  ground :: "addr option"
  t_items :: "addr list"
  downItemCount :: u16
  t_creatures :: "nat list"
  t_flags :: u32
  t_pos :: position

datatype tile_thing = Item_Thing addr | Creature_Thing nat

section \<open>Flags\<close>

abbreviation "TILESTATE_FLOORCHANGE_DOWN \<equiv> (0x1 :: u32)"
abbreviation "TILESTATE_FLOORCHANGE_NORTH \<equiv> (0x2 :: u32)"
abbreviation "TILESTATE_FLOORCHANGE_SOUTH \<equiv> (0x4 :: u32)"
abbreviation "TILESTATE_FLOORCHANGE_EAST \<equiv> (0x8 :: u32)"
abbreviation "TILESTATE_FLOORCHANGE_WEST \<equiv> (0x10 :: u32)"
abbreviation "TILESTATE_FLOORCHANGE_SOUTH_ALT \<equiv> (0x20 :: u32)"
abbreviation "TILESTATE_FLOORCHANGE_EAST_ALT \<equiv> (0x40 :: u32)"
abbreviation "TILESTATE_FLOORCHANGE \<equiv> (0x7F :: u32)"
abbreviation "TILESTATE_PROTECTIONZONE \<equiv> (0x80 :: u32)"
abbreviation "TILESTATE_NOPVPZONE \<equiv> (0x100 :: u32)"
abbreviation "TILESTATE_NOLOGOUT \<equiv> (0x200 :: u32)"
abbreviation "TILESTATE_PVPZONE \<equiv> (0x400 :: u32)"
abbreviation "TILESTATE_TELEPORT \<equiv> (0x800 :: u32)"
abbreviation "TILESTATE_MAGICFIELD \<equiv> (0x1000 :: u32)"
abbreviation "TILESTATE_MAILBOX \<equiv> (0x2000 :: u32)"
abbreviation "TILESTATE_TRASHHOLDER \<equiv> (0x4000 :: u32)"
abbreviation "TILESTATE_BED \<equiv> (0x8000 :: u32)"
abbreviation "TILESTATE_DEPOT \<equiv> (0x10000 :: u32)"
abbreviation "TILESTATE_BLOCKSOLID \<equiv> (0x20000 :: u32)"
abbreviation "TILESTATE_BLOCKPATH \<equiv> (0x40000 :: u32)"
abbreviation "TILESTATE_IMMOVABLEBLOCKSOLID \<equiv> (0x80000 :: u32)"
abbreviation "TILESTATE_IMMOVABLEBLOCKPATH \<equiv> (0x100000 :: u32)"
abbreviation "TILESTATE_IMMOVABLENOFIELDBLOCKPATH \<equiv> (0x200000 :: u32)"
abbreviation "TILESTATE_NOFIELDBLOCKPATH \<equiv> (0x400000 :: u32)"
abbreviation "TILESTATE_SUPPORTS_HANGABLE \<equiv> (0x800000 :: u32)"

definition hasFlag :: "u32 \<Rightarrow> tile \<Rightarrow> bool" where
  "hasFlag flag t = hasBitSet flag (t_flags t)"

definition setFlag :: "u32 \<Rightarrow> tile \<Rightarrow> tile" where
  "setFlag flag t = t\<lparr>t_flags := t_flags t OR flag\<rparr>"

definition resetFlag :: "u32 \<Rightarrow> tile \<Rightarrow> tile" where
  "resetFlag flag t = t\<lparr>t_flags := t_flags t AND NOT flag\<rparr>"

section \<open>The things on a tile\<close>

definition type_at :: "tile_env \<Rightarrow> store \<Rightarrow> addr \<Rightarrow> tile_item_type" where
  "type_at w h i = types w (item_id (item_at h i))"

definition item_table :: "tile_env \<Rightarrow> item_types" where
  "item_table w n = item_type.truncate (types w n)"

definition item_hasProperty :: "tile_env \<Rightarrow> store \<Rightarrow> addr \<Rightarrow> item_property \<Rightarrow> bool" where
  "item_hasProperty w h i prop =
     (let it = type_at w h i; unique = hasAttribute (item_at h i) ITEM_ATTRIBUTE_UNIQUEID in
      case prop of
        CONST_PROP_BLOCKSOLID \<Rightarrow> blockSolid it
      | CONST_PROP_MOVEABLE \<Rightarrow> it_moveable it \<and> \<not> unique
      | CONST_PROP_HASHEIGHT \<Rightarrow> hasHeight it
      | CONST_PROP_BLOCKPROJECTILE \<Rightarrow> blockProjectile it
      | CONST_PROP_BLOCKPATH \<Rightarrow> blockPathFind it
      | CONST_PROP_ISVERTICAL \<Rightarrow> isVertical it
      | CONST_PROP_ISHORIZONTAL \<Rightarrow> isHorizontal it
      | CONST_PROP_IMMOVABLEBLOCKSOLID \<Rightarrow> blockSolid it \<and> (\<not> it_moveable it \<or> unique)
      | CONST_PROP_IMMOVABLEBLOCKPATH \<Rightarrow> blockPathFind it \<and> (\<not> it_moveable it \<or> unique)
      | CONST_PROP_IMMOVABLENOFIELDBLOCKPATH \<Rightarrow> \<not> magicField it \<and> blockPathFind it \<and> (\<not> it_moveable it \<or> unique)
      | CONST_PROP_NOFIELDBLOCKPATH \<Rightarrow> \<not> magicField it \<and> blockPathFind it
      | CONST_PROP_SUPPORTHANGABLE \<Rightarrow> isHorizontal it \<or> isVertical it)"

definition downItems :: "tile \<Rightarrow> addr list" where
  "downItems t = take (unat (downItemCount t)) (t_items t)"

definition topItems :: "tile \<Rightarrow> addr list" where
  "topItems t = drop (unat (downItemCount t)) (t_items t)"

definition getTopTopItem :: "tile \<Rightarrow> addr option" where
  "getTopTopItem t = (if topItems t = [] then None else Some (last (t_items t)))"

definition getTopDownItem :: "tile \<Rightarrow> addr option" where
  "getTopDownItem t = (if downItemCount t = 0 then None else Some (hd (t_items t)))"

definition tile_hasProperty :: "tile_env \<Rightarrow> store \<Rightarrow> tile \<Rightarrow> item_property \<Rightarrow> bool" where
  "tile_hasProperty w h t prop \<longleftrightarrow>
     (case ground t of Some g \<Rightarrow> item_hasProperty w h g prop | None \<Rightarrow> False) \<or>
     list_ex (\<lambda>i. item_hasProperty w h i prop) (t_items t)"

definition others_hasProperty :: "tile_env \<Rightarrow> store \<Rightarrow> tile \<Rightarrow> addr \<Rightarrow> item_property \<Rightarrow> bool" where
  "others_hasProperty w h t exclude prop \<longleftrightarrow>
     (case ground t of Some g \<Rightarrow> exclude \<noteq> g \<and> item_hasProperty w h g prop | None \<Rightarrow> False) \<or>
     list_ex (\<lambda>i. i \<noteq> exclude \<and> item_hasProperty w h i prop) (t_items t)"

fun height_reached :: "tile_env \<Rightarrow> store \<Rightarrow> nat \<Rightarrow> addr list \<Rightarrow> nat \<Rightarrow> bool" where
  "height_reached w h n [] height = False"
| "height_reached w h n (i # is) height =
     (let height1 = (if item_hasProperty w h i CONST_PROP_HASHEIGHT then height + 1 else height) in
      if n = height1 then True else height_reached w h n is height1)"

definition tile_hasHeight :: "tile_env \<Rightarrow> store \<Rightarrow> tile \<Rightarrow> nat \<Rightarrow> bool" where
  "tile_hasHeight w h t n = height_reached w h n ((case ground t of Some g \<Rightarrow> [g] | None \<Rightarrow> []) @ t_items t) 0"

definition find_class :: "tile_env \<Rightarrow> item_class \<Rightarrow> addr list \<Rightarrow> addr option" where
  "find_class w k is = find (\<lambda>i. class_of w i = k) is"

definition of_class :: "tile_env \<Rightarrow> tile \<Rightarrow> u32 \<Rightarrow> item_class \<Rightarrow> addr option" where
  "of_class w t flag k =
     (if \<not> hasFlag flag t then None
      else (case ground t of
              Some g \<Rightarrow> if class_of w g = k then Some g else find_class w k (rev (t_items t))
            | None \<Rightarrow> find_class w k (rev (t_items t))))"

definition getTeleportItem :: "tile_env \<Rightarrow> tile \<Rightarrow> addr option" where
  "getTeleportItem w t = (if \<not> hasFlag TILESTATE_TELEPORT t then None else find_class w Teleport_Item (rev (t_items t)))"

definition getFieldItem :: "tile_env \<Rightarrow> tile \<Rightarrow> addr option" where
  "getFieldItem w t = of_class w t TILESTATE_MAGICFIELD MagicField_Item"

definition getTrashHolder :: "tile_env \<Rightarrow> tile \<Rightarrow> addr option" where
  "getTrashHolder w t = of_class w t TILESTATE_TRASHHOLDER TrashHolder_Item"

definition getMailbox :: "tile_env \<Rightarrow> tile \<Rightarrow> addr option" where
  "getMailbox w t = of_class w t TILESTATE_MAILBOX Mailbox_Item"

definition getBedItem :: "tile_env \<Rightarrow> tile \<Rightarrow> addr option" where
  "getBedItem w t = of_class w t TILESTATE_BED Bed_Item"

definition getTopCreature :: "tile \<Rightarrow> nat option" where
  "getTopCreature t = (case t_creatures t of [] \<Rightarrow> None | c # _ \<Rightarrow> Some c)"

definition getBottomCreature :: "tile \<Rightarrow> nat option" where
  "getBottomCreature t = (if t_creatures t = [] then None else Some (last (t_creatures t)))"

definition seen_by :: "tile_env \<Rightarrow> nat option \<Rightarrow> nat \<Rightarrow> bool" where
  "seen_by w viewer c =
     (case viewer of
        Some v \<Rightarrow> can_see w v c
      | None \<Rightarrow> \<not> invisible (beings w c) \<and> (being_kind (beings w c) \<noteq> A_Player \<or> \<not> inGhostMode (beings w c)))"

definition sees_all :: "tile_env \<Rightarrow> nat option \<Rightarrow> bool" where
  "sees_all w viewer \<longleftrightarrow>
     (case viewer of Some v \<Rightarrow> being_kind (beings w v) = A_Player \<and> accessPlayer (beings w v) | None \<Rightarrow> False)"

definition getTopVisibleCreature :: "tile_env \<Rightarrow> tile \<Rightarrow> nat option \<Rightarrow> nat option" where
  "getTopVisibleCreature w t viewer =
     (if sees_all w viewer then getTopCreature t else find (seen_by w viewer) (t_creatures t))"

definition getBottomVisibleCreature :: "tile_env \<Rightarrow> tile \<Rightarrow> nat option \<Rightarrow> nat option" where
  "getBottomVisibleCreature w t viewer =
     (if sees_all w viewer then getBottomCreature t else find (seen_by w viewer) (rev (t_creatures t)))"

definition getItemByTopOrder :: "tile_env \<Rightarrow> store \<Rightarrow> tile \<Rightarrow> int \<Rightarrow> addr option" where
  "getItemByTopOrder w h t topOrder = find (\<lambda>i. uint (alwaysOnTopOrder (type_at w h i)) = topOrder) (rev (topItems t))"

definition getTopVisibleThing :: "tile_env \<Rightarrow> store \<Rightarrow> tile \<Rightarrow> nat option \<Rightarrow> tile_thing option" where
  "getTopVisibleThing w h t viewer =
     (case getTopVisibleCreature w t viewer of
        Some c \<Rightarrow> Some (Creature_Thing c)
      | None \<Rightarrow>
          (case find (\<lambda>i. \<not> lookThrough (type_at w h i)) (downItems t) of
             Some i \<Rightarrow> Some (Item_Thing i)
           | None \<Rightarrow>
               (case find (\<lambda>i. \<not> lookThrough (type_at w h i)) (rev (topItems t)) of
                  Some i \<Rightarrow> Some (Item_Thing i)
                | None \<Rightarrow> map_option Item_Thing (ground t))))"

definition getUseItem :: "tile_env \<Rightarrow> store \<Rightarrow> tile \<Rightarrow> addr option" where
  "getUseItem w h t =
     (if t_items t = [] then ground t
      else (case find (\<lambda>i. forceUse (type_at w h i) \<and> \<not> container_type (type_at w h i)) (rev (t_items t)) of
              Some i \<Rightarrow> Some i
            | None \<Rightarrow> (case getTopDownItem t of Some i \<Rightarrow> Some i | None \<Rightarrow> getTopTopItem t)))"

definition isMoveableBlocking :: "tile \<Rightarrow> bool" where
  "isMoveableBlocking t \<longleftrightarrow> ground t = None \<or> hasFlag TILESTATE_BLOCKSOLID t"

section \<open>Indices and stack positions\<close>

definition getThingCount :: "tile \<Rightarrow> nat" where
  "getThingCount t = length (t_creatures t) + length (t_items t) + (if ground t = None then 0 else 1)"

definition first_index :: "tile \<Rightarrow> int" where
  "first_index t = (if ground t = None then 0 else 1)"

definition tile_getThingIndex :: "tile_env \<Rightarrow> store \<Rightarrow> tile \<Rightarrow> tile_thing \<Rightarrow> int" where
  "tile_getThingIndex w h t thing =
     (case thing of
        Creature_Thing c \<Rightarrow> index_of c (t_creatures t) (first_index t + int (length (topItems t)))
      | Item_Thing i \<Rightarrow>
          if ground t = Some i then 0
          else if alwaysOnTop (type_at w h i) then index_of i (topItems t) (first_index t)
          else index_of i (downItems t) (first_index t + int (length (topItems t)) + int (length (t_creatures t))))"

definition tile_getThing :: "tile \<Rightarrow> nat \<Rightarrow> tile_thing option" where
  "tile_getThing t index =
     (case (ground t, index) of
        (Some g, 0) \<Rightarrow> Some (Item_Thing g)
      | _ \<Rightarrow>
          (let index1 = (if ground t = None then index else index - 1);
               tops = length (topItems t); cs = length (t_creatures t) in
           if index1 < tops then Some (Item_Thing (t_items t ! (unat (downItemCount t) + index1)))
           else if index1 - tops < cs then Some (Creature_Thing (t_creatures t ! (index1 - tops)))
           else if index1 - tops - cs < unat (downItemCount t) then Some (Item_Thing (t_items t ! (index1 - tops - cs)))
           else None))"

text \<open>A scan that gives up at the tenth place: the place that was found, or how far it got.\<close>

fun scan_items :: "addr \<Rightarrow> addr list \<Rightarrow> int \<Rightarrow> int + int" where
  "scan_items i [] n = Inr n"
| "scan_items i (x # xs) n = (if x = i then Inl n else if n + 1 \<ge> 10 then Inl (- 1) else scan_items i xs (n + 1))"

fun skip_creatures :: "(nat \<Rightarrow> bool) \<Rightarrow> nat list \<Rightarrow> int \<Rightarrow> int + int" where
  "skip_creatures sees [] n = Inr n"
| "skip_creatures sees (c # cs) n =
     (if sees c then (if n + 1 \<ge> 10 then Inl (- 1) else skip_creatures sees cs (n + 1)) else skip_creatures sees cs n)"

fun scan_creatures :: "(nat \<Rightarrow> bool) \<Rightarrow> nat \<Rightarrow> nat list \<Rightarrow> int \<Rightarrow> int" where
  "scan_creatures sees c [] n = - 1"
| "scan_creatures sees c (x # xs) n =
     (if x = c then n
      else if sees x then (if n + 1 \<ge> 10 then - 1 else scan_creatures sees c xs (n + 1))
      else scan_creatures sees c xs n)"

fun client_index :: "(nat \<Rightarrow> bool) \<Rightarrow> nat \<Rightarrow> nat list \<Rightarrow> int \<Rightarrow> int" where
  "client_index sees c [] n = - 1"
| "client_index sees c (x # xs) n =
     (if x = c then n else if sees x then client_index sees c xs (n + 1) else client_index sees c xs n)"

definition getClientIndexOfCreature :: "tile_env \<Rightarrow> tile \<Rightarrow> nat \<Rightarrow> nat \<Rightarrow> int" where
  "getClientIndexOfCreature w t player c =
     client_index (can_see w player) c (rev (t_creatures t)) (first_index t + int (length (topItems t)))"

definition getStackposOfCreature :: "tile_env \<Rightarrow> tile \<Rightarrow> nat \<Rightarrow> nat \<Rightarrow> int" where
  "getStackposOfCreature w t player c =
     (let n = first_index t + int (length (topItems t)) in
      if n \<ge> 10 then - 1 else scan_creatures (can_see w player) c (rev (t_creatures t)) n)"

definition getStackposOfItem :: "tile_env \<Rightarrow> store \<Rightarrow> tile \<Rightarrow> nat \<Rightarrow> addr \<Rightarrow> int" where
  "getStackposOfItem w h t player i =
     (if ground t = Some i then 0
      else
        let top = alwaysOnTop (type_at w h i);
            n0 = first_index t in
        case (if top then scan_items i (topItems t) n0
              else if n0 + int (length (topItems t)) \<ge> 10 then Inl (- 1) else Inr (n0 + int (length (topItems t)))) of
          Inl r \<Rightarrow> r
        | Inr n1 \<Rightarrow>
            (case skip_creatures (can_see w player) (t_creatures t) n1 of
               Inl r \<Rightarrow> r
             | Inr n2 \<Rightarrow> if top then - 1 else (case scan_items i (downItems t) n2 of Inl r \<Rightarrow> r | Inr _ \<Rightarrow> - 1)))"

section \<open>Keeping the flags\<close>

definition flag_when :: "bool \<times> u32 \<Rightarrow> tile \<Rightarrow> tile" where
  "flag_when = (\<lambda>(c, f) t. if c then setFlag f t else t)"

definition unflag_when :: "bool \<times> u32 \<Rightarrow> tile \<Rightarrow> tile" where
  "unflag_when = (\<lambda>(c, f) t. if c then resetFlag f t else t)"

definition setTileFlags :: "tile_env \<Rightarrow> store \<Rightarrow> addr \<Rightarrow> tile \<Rightarrow> tile" where
  "setTileFlags w h i t =
     fold flag_when
       [(item_hasProperty w h i CONST_PROP_IMMOVABLEBLOCKSOLID, TILESTATE_IMMOVABLEBLOCKSOLID),
        (item_hasProperty w h i CONST_PROP_BLOCKPATH, TILESTATE_BLOCKPATH),
        (item_hasProperty w h i CONST_PROP_NOFIELDBLOCKPATH, TILESTATE_NOFIELDBLOCKPATH),
        (item_hasProperty w h i CONST_PROP_IMMOVABLENOFIELDBLOCKPATH, TILESTATE_IMMOVABLENOFIELDBLOCKPATH),
        (class_of w i = Teleport_Item, TILESTATE_TELEPORT),
        (class_of w i = MagicField_Item, TILESTATE_MAGICFIELD),
        (class_of w i = Mailbox_Item, TILESTATE_MAILBOX),
        (class_of w i = TrashHolder_Item, TILESTATE_TRASHHOLDER),
        (item_hasProperty w h i CONST_PROP_BLOCKSOLID, TILESTATE_BLOCKSOLID),
        (class_of w i = Bed_Item, TILESTATE_BED),
        (class_of w i = DepotLocker_Item, TILESTATE_DEPOT),
        (item_hasProperty w h i CONST_PROP_SUPPORTHANGABLE, TILESTATE_SUPPORTS_HANGABLE)]
       (flag_when (\<not> hasFlag TILESTATE_FLOORCHANGE t \<and> floorChange (type_at w h i) \<noteq> 0, ucast (floorChange (type_at w h i))) t)"

definition last_with :: "tile_env \<Rightarrow> store \<Rightarrow> tile \<Rightarrow> addr \<Rightarrow> item_property \<Rightarrow> bool" where
  "last_with w h t i prop \<longleftrightarrow> item_hasProperty w h i prop \<and> \<not> others_hasProperty w h t i prop"

definition resetTileFlags :: "tile_env \<Rightarrow> store \<Rightarrow> addr \<Rightarrow> tile \<Rightarrow> tile" where
  "resetTileFlags w h i t =
     fold unflag_when
       [(floorChange (type_at w h i) \<noteq> 0, TILESTATE_FLOORCHANGE),
        (last_with w h t i CONST_PROP_BLOCKSOLID, TILESTATE_BLOCKSOLID),
        (last_with w h t i CONST_PROP_IMMOVABLEBLOCKSOLID, TILESTATE_IMMOVABLEBLOCKSOLID),
        (last_with w h t i CONST_PROP_BLOCKPATH, TILESTATE_BLOCKPATH),
        (last_with w h t i CONST_PROP_NOFIELDBLOCKPATH, TILESTATE_NOFIELDBLOCKPATH),
        (last_with w h t i CONST_PROP_IMMOVABLEBLOCKPATH, TILESTATE_IMMOVABLEBLOCKPATH),
        (last_with w h t i CONST_PROP_IMMOVABLENOFIELDBLOCKPATH, TILESTATE_IMMOVABLENOFIELDBLOCKPATH),
        (class_of w i = Teleport_Item, TILESTATE_TELEPORT),
        (class_of w i = MagicField_Item, TILESTATE_MAGICFIELD),
        (class_of w i = Mailbox_Item, TILESTATE_MAILBOX),
        (class_of w i = TrashHolder_Item, TILESTATE_TRASHHOLDER),
        (class_of w i = Bed_Item, TILESTATE_BED),
        (class_of w i = DepotLocker_Item, TILESTATE_DEPOT),
        (item_hasProperty w h i CONST_PROP_SUPPORTHANGABLE, TILESTATE_SUPPORTS_HANGABLE)] t"

section \<open>Changes\<close>

datatype tile_event =
    Tile_Item_Added addr
  | Tile_Item_Updated addr addr
  | Tile_Item_Removed addr "int list"
  | Item_Released addr
  | Removal_Notified addr
  | Spectator_Cache_Cleared
  | Creature_Entered nat

record scene =
  sc_store :: store
  sc_tile :: tile
  sc_events :: "tile_event list"

definition on_tile :: "(tile \<Rightarrow> tile) \<Rightarrow> scene \<Rightarrow> scene" where
  "on_tile f s = s\<lparr>sc_tile := f (sc_tile s)\<rparr>"

definition set_item_parent :: "addr \<Rightarrow> cylinder option \<Rightarrow> scene \<Rightarrow> scene" where
  "set_item_parent i c s = s\<lparr>sc_store := setParent i c (sc_store s)\<rparr>"

definition emit :: "tile_event \<Rightarrow> scene \<Rightarrow> scene" where
  "emit e s = s\<lparr>sc_events := sc_events s @ [e]\<rparr>"

definition flag_item :: "tile_env \<Rightarrow> addr \<Rightarrow> scene \<Rightarrow> scene" where
  "flag_item w i s = on_tile (setTileFlags w (sc_store s) i) s"

definition unflag_item :: "tile_env \<Rightarrow> addr \<Rightarrow> scene \<Rightarrow> scene" where
  "unflag_item w i s = on_tile (resetTileFlags w (sc_store s) i) s"

definition onAddTileItem :: "tile_env \<Rightarrow> addr \<Rightarrow> scene \<Rightarrow> scene" where
  "onAddTileItem w i s = emit (Tile_Item_Added i) (flag_item w i s)"

definition onRemoveTileItem :: "tile_env \<Rightarrow> int list \<Rightarrow> addr \<Rightarrow> scene \<Rightarrow> scene" where
  "onRemoveTileItem w oldStackPos i s = emit (Tile_Item_Removed i oldStackPos) (unflag_item w i s)"

definition old_places :: "tile_env \<Rightarrow> addr \<Rightarrow> scene \<Rightarrow> int list" where
  "old_places w i s = map (\<lambda>p. getStackposOfItem w (sc_store s) (sc_tile s) p i) (watchers w)"

definition tile_removeThing :: "tile_env \<Rightarrow> tile_thing \<Rightarrow> u32 \<Rightarrow> scene \<Rightarrow> scene" where
  "tile_removeThing w thing n s =
     (let t = sc_tile s; h = sc_store s in
      case thing of
        Creature_Thing c \<Rightarrow>
          if c \<in> set (t_creatures t)
          then on_tile (\<lambda>t. t\<lparr>t_creatures := remove1 c (t_creatures t)\<rparr>) (emit Spectator_Cache_Cleared s) else s
      | Item_Thing i \<Rightarrow>
          if tile_getThingIndex w h t thing = - 1 then s
          else if ground t = Some i then
            onRemoveTileItem w (map (\<lambda>_. 0) (watchers w)) i
              (on_tile (\<lambda>t. t\<lparr>ground := None\<rparr>) (set_item_parent i None s))
          else if alwaysOnTop (type_at w h i) then
            (if i \<notin> set (topItems t) then s
             else onRemoveTileItem w (old_places w i s) i
               (on_tile (\<lambda>t. t\<lparr>t_items := downItems t @ remove1 i (topItems t)\<rparr>) (set_item_parent i None s)))
          else
            (if i \<notin> set (downItems t) then s
             else if it_stackable (type_at w h i) \<and> n \<noteq> ucast (getItemCount (item_at h i)) then
               emit (Tile_Item_Updated i i)
                 (s\<lparr>sc_store := on_item i (\<lambda>x. setItemCount (reduced_count x n) x) h\<rparr>)
             else onRemoveTileItem w (old_places w i s) i
               (on_tile (\<lambda>t. t\<lparr>t_items := remove1 i (downItems t) @ topItems t, downItemCount := downItemCount t - 1\<rparr>)
                 (set_item_parent i None s))))"

text \<open>The place of a top item: before the first that a test accepts, or at the end.\<close>

definition put_before :: "(addr \<Rightarrow> bool) \<Rightarrow> addr \<Rightarrow> addr list \<Rightarrow> addr list" where
  "put_before P i xs = takeWhile (\<lambda>x. \<not> P x) xs @ i # dropWhile (\<lambda>x. \<not> P x) xs"

definition put_top :: "(addr \<Rightarrow> bool) \<Rightarrow> addr \<Rightarrow> tile \<Rightarrow> tile" where
  "put_top P i t = t\<lparr>t_items := downItems t @ put_before P i (topItems t)\<rparr>"

definition put_down_item :: "addr \<Rightarrow> tile \<Rightarrow> tile" where
  "put_down_item i t = t\<lparr>t_items := i # t_items t, downItemCount := downItemCount t + 1\<rparr>"

text \<open>An item of the tile that gives way to a new one.\<close>

definition discard :: "tile_env \<Rightarrow> addr \<Rightarrow> scene \<Rightarrow> scene" where
  "discard w i s = emit (Removal_Notified i) (emit (Item_Released i) (set_item_parent i None (tile_removeThing w (Item_Thing i) 1 s)))"

definition tile_addThing :: "tile_env \<Rightarrow> tile_thing \<Rightarrow> scene \<Rightarrow> scene" where
  "tile_addThing w thing s0 =
     (case thing of
        Creature_Thing c \<Rightarrow>
          on_tile (\<lambda>t. t\<lparr>t_creatures := c # t_creatures t\<rparr>) (emit (Creature_Entered c) (emit Spectator_Cache_Cleared s0))
      | Item_Thing i \<Rightarrow>
          if length (t_items (sc_tile s0)) \<ge> 0xFFFF then s0
          else
            let s = set_item_parent i (Some (LyingOn (t_id (sc_tile s0)))) s0; t = sc_tile s; h = sc_store s; it = type_at w h i in
            if ground_tile it then
              (case ground t of
                 None \<Rightarrow> onAddTileItem w i (on_tile (\<lambda>t. t\<lparr>ground := Some i\<rparr>) s)
               | Some old \<Rightarrow>
                   emit (Removal_Notified old) (emit (Tile_Item_Updated old i)
                     (flag_item w i (unflag_item w old (on_tile (\<lambda>t. t\<lparr>ground := Some i\<rparr>)
                       (emit (Item_Released old) (set_item_parent old None s)))))))
            else if alwaysOnTop it then
              (let s1 = (if it_splash it
                         then (case find (\<lambda>x. it_splash (type_at w h x)) (topItems t) of Some old \<Rightarrow> discard w old s | None \<Rightarrow> s)
                         else s)
               in onAddTileItem w i (on_tile (put_top (\<lambda>x. alwaysOnTopOrder it \<le> alwaysOnTopOrder (type_at w h x)) i) s1))
            else if magicField it then
              (case find (\<lambda>x. class_of w x = MagicField_Item) (downItems t) of
                 None \<Rightarrow> onAddTileItem w i (on_tile (put_down_item i) s)
               | Some old \<Rightarrow>
                   if replaceable (type_at w h old)
                   then onAddTileItem w i (on_tile (put_down_item i) (discard w old s))
                   else emit (Item_Released i) (set_item_parent i None s))
            else onAddTileItem w i (on_tile (put_down_item i) s))"

definition tile_internalAddThing :: "tile_env \<Rightarrow> tile_thing \<Rightarrow> scene \<Rightarrow> scene" where
  "tile_internalAddThing w thing s0 =
     (case thing of
        Creature_Thing c \<Rightarrow>
          on_tile (\<lambda>t. t\<lparr>t_creatures := c # t_creatures t\<rparr>) (emit Spectator_Cache_Cleared (emit (Creature_Entered c) s0))
      | Item_Thing i \<Rightarrow>
          let s = set_item_parent i (Some (LyingOn (t_id (sc_tile s0)))) s0; t = sc_tile s; h = sc_store s; it = type_at w h i in
          if ground_tile it then
            (if ground t = None then flag_item w i (on_tile (\<lambda>t. t\<lparr>ground := Some i\<rparr>) s) else s)
          else if length (t_items t) \<ge> 0xFFFF then s
          else if alwaysOnTop it then
            flag_item w i (on_tile (put_top (\<lambda>x. alwaysOnTopOrder (type_at w h x) > alwaysOnTopOrder it) i) s)
          else flag_item w i (on_tile (put_down_item i) s))"

definition tile_updateThing :: "tile_env \<Rightarrow> addr \<Rightarrow> u16 \<Rightarrow> u32 \<Rightarrow> scene \<Rightarrow> scene" where
  "tile_updateThing w i itemId n s =
     (if tile_getThingIndex w (sc_store s) (sc_tile s) (Item_Thing i) = - 1 then s
      else
        let s1 = unflag_item w i s;
            s2 = s1\<lparr>sc_store := on_item i (\<lambda>x. setSubType (item_table w) (ucast n) (setID (item_table w) itemId x)) (sc_store s1)\<rparr>
        in emit (Tile_Item_Updated i i) (flag_item w i s2))"

text \<open>The place that \<open>replaceThing\<close> fills, with the item that was there.\<close>

definition replaced_tile :: "nat \<Rightarrow> addr \<Rightarrow> tile \<Rightarrow> (addr \<times> tile) option" where
  "replaced_tile index i t =
     (case (ground t, index) of
        (Some g, 0) \<Rightarrow> Some (g, t\<lparr>ground := Some i\<rparr>)
      | _ \<Rightarrow>
          (let pos = (if ground t = None then index else index - 1); d = unat (downItemCount t);
               tops = length (topItems t); cs = length (t_creatures t) in
           if pos < tops then Some (t_items t ! (d + pos), t\<lparr>t_items := (t_items t)[d + pos := i]\<rparr>)
           else if pos - tops < cs then None
           else if pos - tops - cs < d then Some (t_items t ! (pos - tops - cs), t\<lparr>t_items := (t_items t)[pos - tops - cs := i]\<rparr>)
           else None))"

definition tile_replaceThing :: "tile_env \<Rightarrow> nat \<Rightarrow> addr \<Rightarrow> scene \<Rightarrow> scene" where
  "tile_replaceThing w index i s =
     (case replaced_tile index i (sc_tile s) of
        None \<Rightarrow> s
      | Some (old, t1) \<Rightarrow>
          set_item_parent old None (emit (Tile_Item_Updated old i) (flag_item w i (unflag_item w old
            (set_item_parent i (Some (LyingOn (t_id t1))) (on_tile (\<lambda>_. t1) s))))))"

section \<open>Queries\<close>

abbreviation "FLAG_IGNOREBLOCKITEM \<equiv> (2 :: u32)"
abbreviation "FLAG_IGNOREBLOCKCREATURE \<equiv> (4 :: u32)"
abbreviation "FLAG_PATHFINDING \<equiv> (16 :: u32)"
abbreviation "FLAG_IGNOREFIELDDAMAGE \<equiv> (32 :: u32)"

definition is_player :: "tile_env \<Rightarrow> nat \<Rightarrow> bool" where
  "is_player w c \<longleftrightarrow> being_kind (beings w c) = A_Player"

definition pushed_away :: "tile_env \<Rightarrow> nat \<Rightarrow> bool" where
  "pushed_away w c =
     (if is_player w c \<and> inGhostMode (beings w c) then True
      else being_kind (beings w c) = A_Monster \<and> pushable (beings w c) \<and>
        \<not> (is_summon (beings w c) \<and> master_is_player (beings w c)))"

definition field_allows :: "tile_env \<Rightarrow> store \<Rightarrow> tile \<Rightarrow> being \<Rightarrow> u32 \<Rightarrow> bool" where
  "field_allows w h t m flags =
     (case getFieldItem w t of
        None \<Rightarrow> True
      | Some f \<Rightarrow>
          let it = type_at w h f in
          if \<not> blockSolid it \<and> field_damage it \<noteq> 0 then
            (if immune_to m (field_combat it) then True
             else if hasBitSet FLAG_IGNOREFIELDDAMAGE flags then walks_on_field m (field_combat it) \<or> ignoreFieldDamage m
             else False)
          else True)"

definition monster_queryAdd :: "tile_env \<Rightarrow> store \<Rightarrow> tile \<Rightarrow> being \<Rightarrow> u32 \<Rightarrow> ReturnValue" where
  "monster_queryAdd w h t m flags =
     (if hasFlag (TILESTATE_PROTECTIONZONE OR TILESTATE_FLOORCHANGE OR TILESTATE_TELEPORT) t then RETURNVALUE_NOTPOSSIBLE
      else if canPushCreatures m \<and> \<not> is_summon m \<and> \<not> list_all (pushed_away w) (t_creatures t) then RETURNVALUE_NOTPOSSIBLE
      else if \<not> (canPushCreatures m \<and> \<not> is_summon m) \<and> list_ex (\<lambda>c. \<not> inGhostMode (beings w c)) (t_creatures t)
        then RETURNVALUE_NOTENOUGHROOM
      else if hasFlag TILESTATE_IMMOVABLEBLOCKSOLID t then RETURNVALUE_NOTPOSSIBLE
      else if hasBitSet FLAG_PATHFINDING flags \<and> hasFlag TILESTATE_IMMOVABLENOFIELDBLOCKPATH t then RETURNVALUE_NOTPOSSIBLE
      else if (hasFlag TILESTATE_BLOCKSOLID t \<or> (hasBitSet FLAG_PATHFINDING flags \<and> hasFlag TILESTATE_NOFIELDBLOCKPATH t)) \<and>
          \<not> (canPushItems m \<or> hasBitSet FLAG_IGNOREBLOCKITEM flags) then RETURNVALUE_NOTPOSSIBLE
      else if \<not> field_allows w h t m flags then RETURNVALUE_NOTPOSSIBLE
      else RETURNVALUE_NOERROR)"

text \<open>What keeps a player out of the zone of a tile.\<close>

definition zone_refuses :: "tile \<Rightarrow> being \<Rightarrow> ReturnValue option" where
  "zone_refuses t p =
     (if tile_flags_of p = None \<and> hasFlag TILESTATE_NOLOGOUT t then Some RETURNVALUE_NOTPOSSIBLE
      else (case tile_flags_of p of
          None \<Rightarrow> None
        | Some mine \<Rightarrow>
            if \<not> pzLocked p then None
            else if \<not> hasBitSet TILESTATE_PVPZONE mine \<and> hasFlag TILESTATE_PVPZONE t
              then Some RETURNVALUE_PLAYERISPZLOCKEDENTERPVPZONE
            else if hasBitSet TILESTATE_PVPZONE mine \<and> \<not> hasFlag TILESTATE_PVPZONE t
              then Some RETURNVALUE_PLAYERISPZLOCKEDLEAVEPVPZONE
            else if (\<not> hasBitSet TILESTATE_NOPVPZONE mine \<and> hasFlag TILESTATE_NOPVPZONE t) \<or>
                (\<not> hasBitSet TILESTATE_PROTECTIONZONE mine \<and> hasFlag TILESTATE_PROTECTIONZONE t)
              then Some RETURNVALUE_PLAYERISPZLOCKED
            else None))"

definition solid_refuses :: "tile_env \<Rightarrow> store \<Rightarrow> tile \<Rightarrow> u32 \<Rightarrow> ReturnValue" where
  "solid_refuses w h t flags =
     (let fixed = (\<lambda>i. blockSolid (type_at w h i) \<and>
            (\<not> it_moveable (type_at w h i) \<or> hasAttribute (item_at h i) ITEM_ATTRIBUTE_UNIQUEID)) in
      if \<not> hasBitSet FLAG_IGNOREBLOCKITEM flags
      then (if hasFlag TILESTATE_BLOCKSOLID t then RETURNVALUE_NOTENOUGHROOM else RETURNVALUE_NOERROR)
      else if (case ground t of Some g \<Rightarrow> fixed g | None \<Rightarrow> False) then RETURNVALUE_NOTPOSSIBLE
      else if list_ex fixed (t_items t) then RETURNVALUE_NOTPOSSIBLE
      else RETURNVALUE_NOERROR)"

definition creature_queryAdd :: "tile_env \<Rightarrow> store \<Rightarrow> tile \<Rightarrow> nat \<Rightarrow> u32 \<Rightarrow> ReturnValue" where
  "creature_queryAdd w h t c flags =
     (let b = beings w c in
      if hasBitSet FLAG_NOLIMIT flags then RETURNVALUE_NOERROR
      else if hasBitSet FLAG_PATHFINDING flags \<and> hasFlag (TILESTATE_FLOORCHANGE OR TILESTATE_TELEPORT) t then RETURNVALUE_NOTPOSSIBLE
      else if moveLocked b \<or> ground t = None then RETURNVALUE_NOTPOSSIBLE
      else (case being_kind b of
          A_Monster \<Rightarrow> monster_queryAdd w h t b flags
        | A_Player \<Rightarrow>
            if t_creatures t \<noteq> [] \<and> \<not> hasBitSet FLAG_IGNOREBLOCKCREATURE flags \<and> \<not> accessPlayer b \<and>
                \<not> list_all (walks_through w c) (t_creatures t) then RETURNVALUE_NOTPOSSIBLE
            else (case zone_refuses t b of Some r \<Rightarrow> r | None \<Rightarrow> solid_refuses w h t flags)
        | An_Npc \<Rightarrow>
            if \<not> hasBitSet FLAG_IGNOREBLOCKCREATURE flags \<and> list_ex (\<lambda>x. \<not> inGhostMode (beings w x)) (t_creatures t)
            then RETURNVALUE_NOTENOUGHROOM
            else solid_refuses w h t flags))"

text \<open>Whether a thing on the tile keeps an item off; the ground and the other items are asked alike.\<close>

definition keeps_off :: "tile_env \<Rightarrow> store \<Rightarrow> addr \<Rightarrow> addr \<Rightarrow> bool" where
  "keeps_off w h i x =
     (let it = type_at w h x; new = type_at w h i in
      blockSolid it \<and> (\<not> allowPickupable it \<or> magicField new \<or> blockSolid new) \<and>
      (\<not> it_pickupable new \<or> \<not> hasHeight it \<or> it_pickupable it \<or> bed_type it))"

definition item_queryAdd :: "tile_env \<Rightarrow> store \<Rightarrow> tile \<Rightarrow> addr \<Rightarrow> u32 \<Rightarrow> ReturnValue" where
  "item_queryAdd w h t i flags =
     (let new = type_at w h i in
      if length (t_items t) \<ge> 0x3E8 then RETURNVALUE_NOTPOSSIBLE
      else if hasBitSet FLAG_NOLIMIT flags then RETURNVALUE_NOERROR
      else if ground t = None \<and> \<not> isHangable new then RETURNVALUE_NOTPOSSIBLE
      else if blockSolid new \<and> \<not> hasBitSet FLAG_IGNOREBLOCKCREATURE flags \<and>
          list_ex (\<lambda>c. \<not> inGhostMode (beings w c)) (t_creatures t) then RETURNVALUE_NOTENOUGHROOM
      else if isHangable new \<and> hasFlag TILESTATE_SUPPORTS_HANGABLE t then
        (if list_ex (\<lambda>x. isHangable (type_at w h x)) (t_items t) then RETURNVALUE_NEEDEXCHANGE else RETURNVALUE_NOERROR)
      else if (case ground t of Some g \<Rightarrow> keeps_off w h i g | None \<Rightarrow> False) then RETURNVALUE_NOTENOUGHROOM
      else if list_ex (keeps_off w h i) (t_items t) then RETURNVALUE_NOTENOUGHROOM
      else RETURNVALUE_NOERROR)"

definition tile_queryAdd :: "tile_env \<Rightarrow> store \<Rightarrow> tile \<Rightarrow> tile_thing \<Rightarrow> u32 \<Rightarrow> ReturnValue" where
  "tile_queryAdd w h t thing flags =
     (case thing of Creature_Thing c \<Rightarrow> creature_queryAdd w h t c flags | Item_Thing i \<Rightarrow> item_queryAdd w h t i flags)"

definition tile_queryMaxCount :: "u32 \<Rightarrow> ReturnValue \<times> u32" where
  "tile_queryMaxCount n = (RETURNVALUE_NOERROR, max 1 n)"

definition tile_queryRemove :: "tile_env \<Rightarrow> store \<Rightarrow> tile \<Rightarrow> tile_thing \<Rightarrow> u32 \<Rightarrow> u32 \<Rightarrow> ReturnValue" where
  "tile_queryRemove w h t thing n flags =
     (if tile_getThingIndex w h t thing = - 1 then RETURNVALUE_NOTPOSSIBLE
      else (case thing of
          Creature_Thing c \<Rightarrow> RETURNVALUE_NOTPOSSIBLE
        | Item_Thing i \<Rightarrow>
            if n = 0 \<or> (it_stackable (type_at w h i) \<and> ucast (getItemCount (item_at h i)) < n) then RETURNVALUE_NOTPOSSIBLE
            else if \<not> it_moveable (type_at w h i) \<and> \<not> hasBitSet FLAG_IGNORENOTMOVEABLE flags then RETURNVALUE_NOTMOVEABLE
            else RETURNVALUE_NOERROR))"

definition moved_when :: "bool \<Rightarrow> u16 \<Rightarrow> u16 \<Rightarrow> u16" where
  "moved_when c d v = (if c then v + d else v)"

definition floor_down_below :: "(position \<Rightarrow> tile option) \<Rightarrow> u16 \<Rightarrow> u16 \<Rightarrow> u8 \<Rightarrow> tile option" where
  "floor_down_below getTile dx dy dz =
     (case getTile (Position dx dy dz) of
        None \<Rightarrow> None
      | Some b \<Rightarrow>
          let dy1 = moved_when (hasFlag TILESTATE_FLOORCHANGE_SOUTH_ALT b) (- 2) (moved_when (hasFlag TILESTATE_FLOORCHANGE_SOUTH b) (- 1)
                (moved_when (hasFlag TILESTATE_FLOORCHANGE_NORTH b) 1 dy));
              dx1 = moved_when (hasFlag TILESTATE_FLOORCHANGE_WEST b) 1 (moved_when (hasFlag TILESTATE_FLOORCHANGE_EAST_ALT b) (- 2)
                (moved_when (hasFlag TILESTATE_FLOORCHANGE_EAST b) (- 1) dx))
          in getTile (Position dx1 dy1 dz))"

definition floor_down_dest :: "(position \<Rightarrow> tile option) \<Rightarrow> position \<Rightarrow> tile option" where
  "floor_down_dest getTile p =
     (let dx = pos_x p; dy = pos_y p; dz = pos_z p + 1;
          on_floor = (\<lambda>flag q. case getTile q of Some s \<Rightarrow> hasFlag flag s | None \<Rightarrow> False) in
      if on_floor TILESTATE_FLOORCHANGE_SOUTH_ALT (Position dx (dy - 1) dz) then getTile (Position dx (dy - 2) dz)
      else if on_floor TILESTATE_FLOORCHANGE_EAST_ALT (Position (dx - 1) dy dz) then getTile (Position (dx - 2) dy dz)
      else floor_down_below getTile dx dy dz)"

definition floor_up_dest :: "(position \<Rightarrow> tile option) \<Rightarrow> tile \<Rightarrow> tile option" where
  "floor_up_dest getTile t =
     (let p = t_pos t;
          dy = moved_when (hasFlag TILESTATE_FLOORCHANGE_SOUTH_ALT t) 2 (moved_when (hasFlag TILESTATE_FLOORCHANGE_SOUTH t) 1
            (moved_when (hasFlag TILESTATE_FLOORCHANGE_NORTH t) (- 1) (pos_y p)));
          dx = moved_when (hasFlag TILESTATE_FLOORCHANGE_EAST_ALT t) 2 (moved_when (hasFlag TILESTATE_FLOORCHANGE_WEST t) (- 1)
            (moved_when (hasFlag TILESTATE_FLOORCHANGE_EAST t) 1 (pos_x p)))
      in getTile (Position dx dy (pos_z p - 1)))"

definition tile_queryDestination :: "(position \<Rightarrow> tile option) \<Rightarrow> tile \<Rightarrow> u32 \<Rightarrow> tile \<times> addr option \<times> u32" where
  "tile_queryDestination getTile t flags =
     (let dest = (if hasFlag TILESTATE_FLOORCHANGE_DOWN t then floor_down_dest getTile (t_pos t)
                  else if hasFlag TILESTATE_FLOORCHANGE t then floor_up_dest getTile t
                  else None) in
      case dest of
        None \<Rightarrow> (t, getTopDownItem t, flags)
      | Some d \<Rightarrow> (d, getTopDownItem d, flags OR FLAG_NOLIMIT))"

definition tile_getItemTypeCount :: "tile_env \<Rightarrow> store \<Rightarrow> tile \<Rightarrow> u16 \<Rightarrow> (item \<Rightarrow> u32) \<Rightarrow> u32" where
  "tile_getItemTypeCount w h t itemId counted =
     fold (\<lambda>x n. if item_id (item_at h x) = itemId then n + counted (item_at h x) else n)
       ((case ground t of Some g \<Rightarrow> [g] | None \<Rightarrow> []) @ t_items t) 0"

end
