(* ===== verification/Tile_Order.thy ===== *)
theory Tile_Order imports Tiles begin

text \<open>
  What the changes of a tile keep: down items and top items stay apart and the top items in order, and the
  flags by which movement and path finding judge a tile say exactly what the things on it block.
\<close>

section \<open>Flags as bits\<close>

lemma hasFlag_set: "hasFlag f (setFlag g t) \<longleftrightarrow> hasFlag f t \<or> g AND f \<noteq> 0"
  by (simp add: hasFlag_def setFlag_def hasBitSet_def bit.conj_disj_distrib2 or_eq_0_iff)

lemma hasFlag_reset: "hasFlag f (resetFlag f t) = False" "g AND f = 0 \<Longrightarrow> hasFlag f (resetFlag g t) = hasFlag f t"
proof -
  show "hasFlag f (resetFlag f t) = False" by (simp add: hasFlag_def resetFlag_def hasBitSet_def and.assoc)
  assume "g AND f = 0"
  then have "\<not> (bit g n \<and> bit f n)" for n by (metis bit_and_iff bit_0_eq bot_apply bot_bool_def)
  then have "NOT g AND f = f" by (intro bit_word_eqI) (auto simp: bit_and_iff bit_not_iff)
  then show "hasFlag f (resetFlag g t) = hasFlag f t" by (simp add: hasFlag_def resetFlag_def hasBitSet_def and.assoc)
qed

lemma flag_when_flag: "hasFlag f (flag_when x t) \<longleftrightarrow> hasFlag f t \<or> fst x \<and> snd x AND f \<noteq> 0"
  by (cases x) (simp add: flag_when_def hasFlag_set)

lemma unflag_when_flag: "snd x = f \<or> snd x AND f = 0 \<Longrightarrow> hasFlag f (unflag_when x t) \<longleftrightarrow> hasFlag f t \<and> \<not> (fst x \<and> snd x = f)"
  by (cases x) (auto simp: unflag_when_def hasFlag_reset)

lemma flag_fold: "hasFlag f (fold flag_when L t) \<longleftrightarrow> hasFlag f t \<or> list_ex (\<lambda>x. fst x \<and> snd x AND f \<noteq> 0) L"
  by (induction L arbitrary: t) (simp_all add: flag_when_flag disj_assoc)

lemma unflag_fold:
  "list_all (\<lambda>x. snd x = f \<or> snd x AND f = 0) L \<Longrightarrow>
   hasFlag f (fold unflag_when L t) \<longleftrightarrow> hasFlag f t \<and> \<not> list_ex (\<lambda>x. fst x \<and> snd x = f) L"
  by (induction L arbitrary: t) (simp_all add: unflag_when_flag conj_assoc)

definition blocking_flags :: "(item_property \<times> u32) list" where
  "blocking_flags =
     [(CONST_PROP_BLOCKSOLID, TILESTATE_BLOCKSOLID), (CONST_PROP_BLOCKPATH, TILESTATE_BLOCKPATH),
      (CONST_PROP_IMMOVABLEBLOCKSOLID, TILESTATE_IMMOVABLEBLOCKSOLID),
      (CONST_PROP_IMMOVABLENOFIELDBLOCKPATH, TILESTATE_IMMOVABLENOFIELDBLOCKPATH),
      (CONST_PROP_NOFIELDBLOCKPATH, TILESTATE_NOFIELDBLOCKPATH)]"

lemma small_flag: "(ucast (b :: u8) :: u32) AND 0x20000 = 0" "(ucast b :: u32) AND 0x40000 = 0" "(ucast b :: u32) AND 0x80000 = 0"
  "(ucast b :: u32) AND 0x200000 = 0" "(ucast b :: u32) AND 0x400000 = 0"
proof -
  have "(ucast b :: u32) AND push_bit n 1 = 0" if "8 \<le> n" for n
    using that bit_imp_le_length [of b n] by (intro bit_word_eqI) (auto simp: bit_simps)
  from this [of 17] this [of 18] this [of 19] this [of 21] this [of 22]
  show "(ucast b :: u32) AND 0x20000 = 0" "(ucast b :: u32) AND 0x40000 = 0" "(ucast b :: u32) AND 0x80000 = 0"
    "(ucast b :: u32) AND 0x200000 = 0" "(ucast b :: u32) AND 0x400000 = 0" by simp_all
qed

lemma setTileFlags_flag:
  assumes "(P, f) \<in> set blocking_flags"
  shows "hasFlag f (setTileFlags w h i t) \<longleftrightarrow> hasFlag f t \<or> item_hasProperty w h i P"
proof -
  have base: "hasFlag f (flag_when (c, ucast (b :: u8)) t) = hasFlag f t" for c b
    using assms by (auto simp: flag_when_flag blocking_flags_def small_flag)
  show ?thesis
    unfolding setTileFlags_def flag_fold base using assms unfolding blocking_flags_def list.set insert_iff prod.inject empty_iff
    by (elim disjE conjE) simp_all
qed

lemma resetTileFlags_flag:
  assumes "(P, f) \<in> set blocking_flags"
  shows "hasFlag f (resetTileFlags w h i t) \<longleftrightarrow> hasFlag f t \<and> \<not> last_with w h t i P"
  unfolding resetTileFlags_def by (subst unflag_fold) (use assms in \<open>auto simp: blocking_flags_def\<close>)

lemma fold_frame: "(\<And>c t. g (f c t) = g t) \<Longrightarrow> g (fold f L t) = g t"
  by (induction L arbitrary: t) simp_all

lemma flag_when_frame: "t_items (flag_when c t) = t_items t" "ground (flag_when c t) = ground t"
  "downItemCount (flag_when c t) = downItemCount t" "t_creatures (flag_when c t) = t_creatures t" "t_id (flag_when c t) = t_id t"
  by (simp_all add: flag_when_def setFlag_def split: prod.split)

lemma unflag_when_frame: "t_items (unflag_when c t) = t_items t" "ground (unflag_when c t) = ground t"
  "downItemCount (unflag_when c t) = downItemCount t" "t_creatures (unflag_when c t) = t_creatures t" "t_id (unflag_when c t) = t_id t"
  by (simp_all add: unflag_when_def resetFlag_def split: prod.split)

lemma tile_flags_frame [simp]:
  "t_items (setTileFlags w h i t) = t_items t" "ground (setTileFlags w h i t) = ground t"
  "downItemCount (setTileFlags w h i t) = downItemCount t" "t_creatures (setTileFlags w h i t) = t_creatures t"
  "t_id (setTileFlags w h i t) = t_id t"
  "t_items (resetTileFlags w h i t) = t_items t" "ground (resetTileFlags w h i t) = ground t"
  "downItemCount (resetTileFlags w h i t) = downItemCount t" "t_creatures (resetTileFlags w h i t) = t_creatures t"
  "t_id (resetTileFlags w h i t) = t_id t"
  unfolding setTileFlags_def resetTileFlags_def
  by (simp_all only: flag_when_frame unflag_when_frame fold_frame [of t_items flag_when] fold_frame [of ground flag_when]
      fold_frame [of downItemCount flag_when] fold_frame [of t_creatures flag_when] fold_frame [of t_id flag_when]
      fold_frame [of t_items unflag_when] fold_frame [of ground unflag_when]
      fold_frame [of downItemCount unflag_when] fold_frame [of t_creatures unflag_when] fold_frame [of t_id unflag_when])

section \<open>A tile in order\<close>

definition things :: "tile \<Rightarrow> addr list" where
  "things t = (case ground t of Some g \<Rightarrow> [g] | None \<Rightarrow> []) @ t_items t"

lemma tile_has_things: "tile_hasProperty w h t P \<longleftrightarrow> (\<exists>x \<in> set (things t). item_hasProperty w h x P)"
  by (auto simp: tile_hasProperty_def things_def list_ex_iff split: option.split)

lemma others_things: "others_hasProperty w h t i P \<longleftrightarrow> (\<exists>x \<in> set (things t) - {i}. item_hasProperty w h x P)"
  by (auto simp: others_hasProperty_def things_def list_ex_iff split: option.split)

definition flags_exact :: "tile_env \<Rightarrow> store \<Rightarrow> tile \<Rightarrow> bool" where
  "flags_exact w h t \<longleftrightarrow> (\<forall>(P, f) \<in> set blocking_flags. hasFlag f t \<longleftrightarrow> tile_hasProperty w h t P)"

definition ordered :: "tile_env \<Rightarrow> store \<Rightarrow> tile \<Rightarrow> bool" where
  "ordered w h t \<longleftrightarrow> (\<forall>i \<in> set (downItems t). \<not> alwaysOnTop (type_at w h i)) \<and> (\<forall>i \<in> set (topItems t). alwaysOnTop (type_at w h i)) \<and>
     sorted (map (\<lambda>i. alwaysOnTopOrder (type_at w h i)) (topItems t))"

definition tile_ok :: "tile_env \<Rightarrow> store \<Rightarrow> tile \<Rightarrow> bool" where
  "tile_ok w h t \<longleftrightarrow> unat (downItemCount t) \<le> length (t_items t) \<and> length (t_items t) \<le> 0xFFFF \<and> distinct (things t) \<and>
     distinct (t_creatures t) \<and> ordered w h t \<and> flags_exact w h t"

lemma down_top: "t_items t = downItems t @ topItems t"
  by (simp add: downItems_def topItems_def)

lemma ordered_simps: "downItems (t\<lparr>t_flags := x\<rparr>) = downItems t" "topItems (t\<lparr>t_flags := x\<rparr>) = topItems t"
  by (simp_all add: downItems_def topItems_def)

lemma same_lists:
  assumes "t_items t' = t_items t" "downItemCount t' = downItemCount t"
  shows "downItems t' = downItems t" "topItems t' = topItems t"
  using assms by (simp_all add: downItems_def topItems_def)

lemma lists_flags [simp]:
  "downItems (setTileFlags w h i t) = downItems t" "topItems (setTileFlags w h i t) = topItems t"
  "downItems (resetTileFlags w h i t) = downItems t" "topItems (resetTileFlags w h i t) = topItems t"
  "things (setTileFlags w h i t) = things t" "things (resetTileFlags w h i t) = things t"
  "ordered w h (setTileFlags w h' i t) = ordered w h t" "ordered w h (resetTileFlags w h' i t) = ordered w h t"
  by (simp_all add: downItems_def topItems_def things_def ordered_def)

lemma flag_added:
  assumes "flags_exact w h t" "set (things t') = insert i (set (things t))" "t_flags t' = t_flags t"
  shows "flags_exact w h (setTileFlags w h i t')"
proof -
  have "hasFlag f t' = hasFlag f t" for f using assms(3) by (simp add: hasFlag_def)
  then show ?thesis
    using assms(1,2) unfolding flags_exact_def by (auto simp: setTileFlags_flag tile_has_things)
qed

lemma flag_removed:
  assumes "flags_exact w h t" "i \<in> set (things t)" "set (things t') = set (things t) - {i}" "t_flags t' = t_flags t"
  shows "flags_exact w h (resetTileFlags w h i t')"
proof -
  have f: "hasFlag f t' = hasFlag f t" for f using assms(4) by (simp add: hasFlag_def)
  show ?thesis
    unfolding flags_exact_def
  proof (intro ballI, clarify)
    fix P f assume m: "(P, f) \<in> set blocking_flags"
    have old: "hasFlag f t \<longleftrightarrow> (\<exists>x \<in> set (things t). item_hasProperty w h x P)"
      using assms(1) m unfolding flags_exact_def tile_has_things by blast
    show "hasFlag f (resetTileFlags w h i t') \<longleftrightarrow> tile_hasProperty w h (resetTileFlags w h i t') P"
      unfolding resetTileFlags_flag [OF m] f old tile_has_things last_with_def others_things lists_flags assms(3)
      using assms(2) by blast
  qed
qed

lemma flag_changed:
  assumes "flags_exact w h t" "i \<in> set (things t)" "\<And>x. x \<in> set (things t) \<Longrightarrow> x \<noteq> i \<Longrightarrow> item_at h' x = item_at h x"
    "set (things t') = insert j (set (things t) - {i})" "t_flags t' = t_flags t" "t'' = resetTileFlags w h i t'"
    "i \<noteq> j \<Longrightarrow> item_at h' j = item_at h j"
  shows "flags_exact w h' (setTileFlags w h' j t'')"
proof -
  have f: "hasFlag f t' = hasFlag f t" for f using assms(5) by (simp add: hasFlag_def)
  have p: "item_hasProperty w h' x P = item_hasProperty w h x P" if "x \<in> set (things t)" "x \<noteq> i" for x P
    using assms(3) [OF that] by (simp add: item_hasProperty_def type_at_def Let_def)
  have pj: "item_hasProperty w h' j P = item_hasProperty w h j P" if "i \<noteq> j" for P
    using assms(7) [OF that] by (simp add: item_hasProperty_def type_at_def Let_def)
  show ?thesis
    unfolding flags_exact_def
  proof safe
    fix P f assume m: "(P, f) \<in> set blocking_flags"
    have old: "hasFlag f t \<longleftrightarrow> (\<exists>x \<in> set (things t). item_hasProperty w h x P)"
      using assms(1) m unfolding flags_exact_def tile_has_things by blast
    have new: "tile_hasProperty w h' (setTileFlags w h' j t'') P \<longleftrightarrow>
        item_hasProperty w h' j P \<or> (\<exists>x \<in> set (things t) - {i}. item_hasProperty w h x P)"
      using p by (auto simp: tile_has_things assms(4,6))
    have left: "hasFlag f (setTileFlags w h' j t'') \<longleftrightarrow>
        item_hasProperty w h' j P \<or>
        (hasFlag f t \<and> \<not> (item_hasProperty w h i P \<and> \<not> (\<exists>x \<in> insert j (set (things t) - {i}) - {i}. item_hasProperty w h x P)))"
      using m by (auto simp: setTileFlags_flag assms(6) resetTileFlags_flag last_with_def others_things f assms(4))
    show "hasFlag f (setTileFlags w h' j t'') \<Longrightarrow> tile_hasProperty w h' (setTileFlags w h' j t'') P"
      unfolding left new old using pj by auto
    show "tile_hasProperty w h' (setTileFlags w h' j t'') P \<Longrightarrow> hasFlag f (setTileFlags w h' j t'')"
      unfolding left new old by auto
  qed
qed

section \<open>What a change of the store can touch\<close>

lemma item_at_setParent [simp]: "item_at (setParent a c h) x = item_at h x"
  by (simp add: item_at_def setParent_def upd_obj_def split: option.split)

lemma item_at_on_item: "x \<noteq> a \<Longrightarrow> item_at (on_item a f h) x = item_at h x"
  by (simp add: item_at_def on_item_def upd_obj_def)

lemma at_setParent [simp]: "type_at w (setParent a c h) = type_at w h" "item_hasProperty w (setParent a c h) = item_hasProperty w h"
  by (simp_all add: type_at_def item_hasProperty_def fun_eq_iff)

lemma flags_setParent [simp]: "setTileFlags w (setParent a c h) = setTileFlags w h" "resetTileFlags w (setParent a c h) = resetTileFlags w h"
proof -
  have "last_with w (setParent a c h) = last_with w h" by (simp add: fun_eq_iff last_with_def others_things)
  then show "resetTileFlags w (setParent a c h) = resetTileFlags w h" by (simp add: resetTileFlags_def fun_eq_iff)
  show "setTileFlags w (setParent a c h) = setTileFlags w h" by (simp add: setTileFlags_def fun_eq_iff)
qed

definition seen_alike :: "tile_env \<Rightarrow> store \<Rightarrow> store \<Rightarrow> addr set \<Rightarrow> bool" where
  "seen_alike w h h' A \<longleftrightarrow> (\<forall>x \<in> A. type_at w h' x = type_at w h x \<and> (\<forall>P. item_hasProperty w h' x P = item_hasProperty w h x P))"

lemma tile_ok_alike:
  assumes "seen_alike w h h' (set (things t))"
  shows "tile_ok w h' t = tile_ok w h t"
proof -
  have e: "type_at w h' x = type_at w h x" "item_hasProperty w h' x P = item_hasProperty w h x P" if "x \<in> set (things t)" for x P
    using assms that unfolding seen_alike_def by blast+
  have "flags_exact w h' t = flags_exact w h t"
    using e by (simp add: flags_exact_def tile_has_things)
  moreover have "set (downItems t) \<subseteq> set (things t)" "set (topItems t) \<subseteq> set (things t)"
    by (auto simp: things_def down_top)
  then have "ordered w h' t = ordered w h t"
    using e unfolding ordered_def by (auto simp: subset_iff cong: map_cong)
  ultimately show ?thesis unfolding tile_ok_def by simp
qed

lemma tile_ok_setParent [simp]: "tile_ok w (setParent a c h) t = tile_ok w h t"
  by (rule tile_ok_alike) (simp add: seen_alike_def)

lemma alike_same_items: "(\<And>x. x \<in> A \<Longrightarrow> item_at h' x = item_at h x) \<Longrightarrow> seen_alike w h h' A"
  by (simp add: seen_alike_def type_at_def item_hasProperty_def)

section \<open>Lists of a tile\<close>

lemma tile_shape:
  assumes "t_items t = ds @ ts" "unat (downItemCount t) = length ds"
  shows "downItems t = ds" "topItems t = ts"
  using assms by (simp_all add: downItems_def topItems_def)

lemma tile_okI:
  assumes "t_items t = ds @ ts" "unat (downItemCount t) = length ds" "length ds + length ts \<le> 0xFFFF" "distinct (things t)"
    "distinct (t_creatures t)" "\<forall>i \<in> set ds. \<not> alwaysOnTop (type_at w h i)" "\<forall>i \<in> set ts. alwaysOnTop (type_at w h i)"
    "sorted (map (\<lambda>i. alwaysOnTopOrder (type_at w h i)) ts)" "flags_exact w h t"
  shows "tile_ok w h t"
  using assms by (simp add: tile_ok_def ordered_def tile_shape [OF assms(1,2)])

lemma tile_okD:
  assumes "tile_ok w h t"
  shows "t_items t = downItems t @ topItems t" "unat (downItemCount t) = length (downItems t)"
    "length (downItems t) + length (topItems t) \<le> 0xFFFF" "distinct (things t)" "distinct (t_creatures t)"
    "\<forall>i \<in> set (downItems t). \<not> alwaysOnTop (type_at w h i)" "\<forall>i \<in> set (topItems t). alwaysOnTop (type_at w h i)"
    "sorted (map (\<lambda>i. alwaysOnTopOrder (type_at w h i)) (topItems t))" "flags_exact w h t"
    "set (t_items t) = set (downItems t) \<union> set (topItems t)" "length (t_items t) = length (downItems t) + length (topItems t)"
    "distinct (t_items t) \<longleftrightarrow> distinct (downItems t) \<and> distinct (topItems t) \<and> set (downItems t) \<inter> set (topItems t) = {}"
proof -
  have l: "length (downItems t) = unat (downItemCount t)" "length (downItems t) + length (topItems t) = length (t_items t)"
    using assms unfolding tile_ok_def by (simp_all add: downItems_def topItems_def)
  show "t_items t = downItems t @ topItems t" by (rule down_top)
  show "unat (downItemCount t) = length (downItems t)"
    "length (downItems t) + length (topItems t) \<le> 0xFFFF" "distinct (things t)" "distinct (t_creatures t)"
    "\<forall>i \<in> set (downItems t). \<not> alwaysOnTop (type_at w h i)" "\<forall>i \<in> set (topItems t). alwaysOnTop (type_at w h i)"
    "sorted (map (\<lambda>i. alwaysOnTopOrder (type_at w h i)) (topItems t))" "flags_exact w h t"
    by (use assms l in \<open>unfold tile_ok_def ordered_def, linarith | blast\<close>)+
  show "set (t_items t) = set (downItems t) \<union> set (topItems t)" "length (t_items t) = length (downItems t) + length (topItems t)"
    "distinct (t_items t) \<longleftrightarrow> distinct (downItems t) \<and> distinct (topItems t) \<and> set (downItems t) \<inter> set (topItems t) = {}"
    by (simp_all add: arg_cong [OF down_top, of set] arg_cong [OF down_top, of length] arg_cong [OF down_top, of distinct])
qed

lemma after_first:
  assumes "sorted (map f xs)" "x \<in> set (dropWhile (\<lambda>x. \<not> P x) xs)" "\<And>x. P x \<Longrightarrow> v \<le> f x"
  shows "v \<le> f x"
  using assms(1,2)
proof (induction xs)
  case (Cons y ys)
  show ?case
  proof (cases "P y")
    case True
    then have "x = y \<or> x \<in> set ys" using Cons.prems(2) by simp
    then have "f y \<le> f x" using Cons.prems(1) by auto
    then show ?thesis using assms(3) [OF True] by simp
  qed (use Cons in simp)
qed simp

lemma put_before_sorted:
  assumes "sorted (map f xs)" "\<And>x. P x \<Longrightarrow> f i \<le> f x" "\<And>x. \<not> P x \<Longrightarrow> f x \<le> f i"
  shows "sorted (map f (put_before P i xs))"
proof -
  let ?l = "takeWhile (\<lambda>x. \<not> P x) xs" and ?r = "dropWhile (\<lambda>x. \<not> P x) xs"
  have "sorted (map f (?l @ ?r))" using assms(1) by simp
  then have "sorted (map f ?l)" "sorted (map f ?r)" unfolding map_append sorted_append by blast+
  moreover have "f x \<le> f i" if "x \<in> set ?l" for x using that assms(3) by (blast dest: set_takeWhileD)
  moreover have "f i \<le> f x" if "x \<in> set ?r" for x using after_first [OF assms(1) that assms(2)] by blast
  ultimately show ?thesis by (force simp: put_before_def sorted_append)
qed

lemma put_before_set [simp]: "set (put_before P i xs) = insert i (set xs)" "length (put_before P i xs) = Suc (length xs)"
  "distinct (put_before P i xs) \<longleftrightarrow> i \<notin> set xs \<and> distinct xs"
proof -
  let ?l = "takeWhile (\<lambda>x. \<not> P x) xs" and ?r = "dropWhile (\<lambda>x. \<not> P x) xs"
  have xs: "?l @ ?r = xs" by simp
  have s: "set ?l \<union> set ?r = set xs" using xs by (metis set_append)
  then show "set (put_before P i xs) = insert i (set xs)" by (auto simp: put_before_def)
  have "length ?l + length ?r = length xs" using xs by (metis length_append)
  then show "length (put_before P i xs) = Suc (length xs)" by (simp add: put_before_def)
  have "distinct xs \<longleftrightarrow> distinct ?l \<and> distinct ?r \<and> set ?l \<inter> set ?r = {}" using xs by (metis distinct_append)
  moreover have "distinct (put_before P i xs) \<longleftrightarrow> i \<notin> set ?l \<union> set ?r \<and> distinct ?l \<and> distinct ?r \<and> set ?l \<inter> set ?r = {}"
    by (auto simp: put_before_def)
  ultimately show "distinct (put_before P i xs) \<longleftrightarrow> i \<notin> set xs \<and> distinct xs" unfolding s by blast
qed

section \<open>The changes of the lists\<close>

lemma things_simps:
  "things (t\<lparr>ground := Some i\<rparr>) = i # t_items t" "things (t\<lparr>ground := None\<rparr>) = t_items t"
  "things (t\<lparr>t_creatures := cs\<rparr>) = things t"
  by (simp_all add: things_def)

lemma things_set: "set (things t) = set_option (ground t) \<union> set (t_items t)"
  by (auto simp: things_def split: option.split)

lemma things_distinct: "distinct (things t) \<longleftrightarrow> set_option (ground t) \<inter> set (t_items t) = {} \<and> distinct (t_items t)"
  by (auto simp: things_def split: option.split)

lemma flags_exact_same: "things t' = things t \<Longrightarrow> t_flags t' = t_flags t \<Longrightarrow> flags_exact w h t' = flags_exact w h t"
  by (simp add: flags_exact_def tile_has_things hasFlag_def)

lemma creatures_ok:
  assumes "tile_ok w h t" "distinct cs"
  shows "tile_ok w h (t\<lparr>t_creatures := cs\<rparr>)"
proof -
  note a = tile_okD [OF assms(1)]
  show ?thesis
    by (rule tile_okI [of _ "downItems t" "topItems t"])
      (use a assms(2) in \<open>simp_all add: things_simps flags_exact_same [of "t\<lparr>t_creatures := cs\<rparr>" t]\<close>)
qed

lemma ground_put:
  assumes "tile_ok w h t" "i \<notin> set (things t)" "ground t = None"
  shows "tile_ok w h (setTileFlags w h i (t\<lparr>ground := Some i\<rparr>))"
proof -
  note a = tile_okD [OF assms(1)]
  have f: "flags_exact w h (setTileFlags w h i (t\<lparr>ground := Some i\<rparr>))"
    by (rule flag_added [OF a(9)]) (simp_all add: things_set assms(3))
  show ?thesis
    by (rule tile_okI [of _ "downItems t" "topItems t", OF _ _ _ _ _ a(6-8) f])
      (use a(1-5) assms in \<open>simp_all add: things_simps things_set things_distinct\<close>)
qed

lemma ground_changed:
  assumes "tile_ok w h t" "i \<notin> set (things t)" "ground t = Some old"
  shows "tile_ok w h (setTileFlags w h i (resetTileFlags w h old (t\<lparr>ground := Some i\<rparr>)))"
proof -
  note a = tile_okD [OF assms(1)]
  have f: "flags_exact w h (setTileFlags w h i (resetTileFlags w h old (t\<lparr>ground := Some i\<rparr>)))"
    by (rule flag_changed [OF a(9), of old _ "t\<lparr>ground := Some i\<rparr>"]) (use assms a(4) in \<open>auto simp: things_set things_distinct\<close>)
  show ?thesis
    by (rule tile_okI [of _ "downItems t" "topItems t", OF _ _ _ _ _ a(6-8) f])
      (use a(1-5) assms in \<open>simp_all add: things_simps things_set things_distinct\<close>)
qed

lemma top_put:
  assumes "tile_ok w h t" "i \<notin> set (things t)" "alwaysOnTop (type_at w h i)" "length (t_items t) < 0xFFFF"
    and P: "\<And>x. P x \<Longrightarrow> alwaysOnTopOrder (type_at w h i) \<le> alwaysOnTopOrder (type_at w h x)"
      "\<And>x. \<not> P x \<Longrightarrow> alwaysOnTopOrder (type_at w h x) \<le> alwaysOnTopOrder (type_at w h i)"
  shows "tile_ok w h (setTileFlags w h i (put_top P i t))"
proof -
  note a = tile_okD [OF assms(1)]
  have f: "flags_exact w h (setTileFlags w h i (put_top P i t))"
    by (rule flag_added [OF a(9)]) (auto simp: things_set put_top_def a(10))
  show ?thesis
  proof (rule tile_okI [of _ "downItems t" "put_before P i (topItems t)", OF _ _ _ _ _ a(6) _ _ f])
    show "sorted (map (\<lambda>i. alwaysOnTopOrder (type_at w h i)) (put_before P i (topItems t)))"
      by (rule put_before_sorted [OF a(8) P])
  qed (use a(2-5,7,11) assms(2-4) in \<open>auto simp: put_top_def things_set things_distinct a(10,12)\<close>)
qed

lemma down_put:
  assumes "tile_ok w h t" "i \<notin> set (things t)" "\<not> alwaysOnTop (type_at w h i)" "length (t_items t) < 0xFFFF"
  shows "tile_ok w h (setTileFlags w h i (put_down_item i t))"
proof -
  note a = tile_okD [OF assms(1)]
  have c: "unat (downItemCount t + 1) = Suc (unat (downItemCount t))"
    using assms(4) a(2,11) by (simp add: unat_word_ariths)
  have f: "flags_exact w h (setTileFlags w h i (put_down_item i t))"
    by (rule flag_added [OF a(9)]) (auto simp: things_set put_down_item_def)
  show ?thesis
    by (rule tile_okI [of _ "i # downItems t" "topItems t", OF _ _ _ _ _ _ a(7,8) f])
      (use a(1-6,11) assms(2-4) c in \<open>auto simp: put_down_item_def things_set things_distinct\<close>)
qed

definition top_key :: "tile_env \<Rightarrow> store \<Rightarrow> addr \<Rightarrow> bool \<times> u8" where
  "top_key w h i = (alwaysOnTop (type_at w h i), alwaysOnTopOrder (type_at w h i))"

lemma ordered_keys:
  "ordered w h t \<longleftrightarrow> list_all (\<lambda>p. \<not> fst p) (map (top_key w h) (downItems t)) \<and> list_all fst (map (top_key w h) (topItems t)) \<and>
     sorted (map snd (map (top_key w h) (topItems t)))"
  by (simp add: ordered_def top_key_def list_all_iff comp_def)

lemma ordered_alike:
  assumes "map (top_key w h') (t_items t') = map (top_key w h) (t_items t)" "downItemCount t' = downItemCount t"
  shows "ordered w h' t' = ordered w h t"
proof -
  have "map (top_key w h') (downItems t') = map (top_key w h) (downItems t)"
    "map (top_key w h') (topItems t') = map (top_key w h) (topItems t)"
    using assms unfolding downItems_def topItems_def take_map [symmetric] drop_map [symmetric] by simp_all
  then show ?thesis unfolding ordered_keys by simp
qed

lemma ground_taken:
  assumes "tile_ok w h t" "ground t = Some i"
  shows "tile_ok w h (resetTileFlags w h i (t\<lparr>ground := None\<rparr>))"
proof -
  note a = tile_okD [OF assms(1)]
  have f: "flags_exact w h (resetTileFlags w h i (t\<lparr>ground := None\<rparr>))"
    by (rule flag_removed [OF a(9)]) (use a(4) in \<open>auto simp: things_set things_distinct assms(2)\<close>)
  show ?thesis
    by (rule tile_okI [of _ "downItems t" "topItems t", OF _ _ _ _ _ a(6-8) f])
      (use a(1-5) in \<open>simp_all add: things_simps things_set things_distinct\<close>)
qed

lemma top_taken:
  assumes "tile_ok w h t" "i \<in> set (topItems t)"
  shows "tile_ok w h (resetTileFlags w h i (t\<lparr>t_items := downItems t @ remove1 i (topItems t)\<rparr>))"
proof -
  note a = tile_okD [OF assms(1)]
  have d: "distinct (topItems t)" "i \<notin> set (downItems t)" "i \<notin> set_option (ground t)"
    using a(4,10,12) assms(2) by (auto simp: things_distinct)
  have f: "flags_exact w h (resetTileFlags w h i (t\<lparr>t_items := downItems t @ remove1 i (topItems t)\<rparr>))"
    by (rule flag_removed [OF a(9)]) (use a(4) d assms(2) in \<open>auto simp: things_set a(10)\<close>)
  show ?thesis
  proof (rule tile_okI [of _ "downItems t" "remove1 i (topItems t)", OF _ _ _ _ _ a(6) _ _ f])
    show "sorted (map (\<lambda>i. alwaysOnTopOrder (type_at w h i)) (remove1 i (topItems t)))"
      using a(8) by (rule sorted_map_remove1)
  qed (use a(2-5,7) d assms(2) in \<open>auto simp: things_set things_distinct a(10,12) length_remove1\<close>)
qed

lemma down_taken:
  assumes "tile_ok w h t" "i \<in> set (downItems t)"
  shows "tile_ok w h (resetTileFlags w h i (t\<lparr>t_items := remove1 i (downItems t) @ topItems t, downItemCount := downItemCount t - 1\<rparr>))"
proof -
  note a = tile_okD [OF assms(1)]
  have d: "distinct (downItems t)" "i \<notin> set (topItems t)" "i \<notin> set_option (ground t)"
    using a(4,10,12) assms(2) by (auto simp: things_distinct)
  have n: "unat (downItemCount t) \<noteq> 0" using a(2) assms(2) by auto
  then have c: "unat (downItemCount t - 1) = length (downItems t) - 1" by (simp add: a(2) [symmetric] unat_eq_0 unat_minus_one)
  have f: "flags_exact w h (resetTileFlags w h i (t\<lparr>t_items := remove1 i (downItems t) @ topItems t, downItemCount := downItemCount t - 1\<rparr>))"
    by (rule flag_removed [OF a(9)]) (use a(4) d assms(2) in \<open>auto simp: things_set a(10)\<close>)
  show ?thesis
    by (rule tile_okI [of _ "remove1 i (downItems t)" "topItems t", OF _ _ _ _ _ _ a(7,8) f])
      (use a(3-6) c d assms(2) in \<open>auto simp: things_set things_distinct a(10,12) length_remove1\<close>)
qed

lemma item_changed:
  assumes "tile_ok w h t" "k < length (t_items t)" "i \<notin> set (things t)" "top_key w h i = top_key w h (t_items t ! k)"
  shows "tile_ok w h (setTileFlags w h i (resetTileFlags w h (t_items t ! k) (t\<lparr>t_items := (t_items t)[k := i]\<rparr>)))"
proof -
  note a = tile_okD [OF assms(1)]
  have d: "distinct (t_items t)" "set_option (ground t) \<inter> set (t_items t) = {}" using a(4) by (auto simp: things_distinct)
  have s: "set ((t_items t)[k := i]) = insert i (set (t_items t) - {t_items t ! k})"
    using set_update_distinct [OF d(1) assms(2)] .
  have f: "flags_exact w h (setTileFlags w h i (resetTileFlags w h (t_items t ! k) (t\<lparr>t_items := (t_items t)[k := i]\<rparr>)))"
    by (rule flag_changed [OF a(9), of "t_items t ! k" _ "t\<lparr>t_items := (t_items t)[k := i]\<rparr>"])
      (use assms(2) d(2) nth_mem [OF assms(2)] in \<open>auto simp: things_set s\<close>)
  have "ordered w h (t\<lparr>t_items := (t_items t)[k := i]\<rparr>) = ordered w h t"
    by (rule ordered_alike) (simp_all add: map_update assms(2,4) map_nth list_update_same_conv)
  then show ?thesis
    using assms(1,3) d f s unfolding tile_ok_def by (auto simp: things_distinct things_set distinct_list_update)
qed

lemma item_updated:
  assumes "tile_ok w h t" "i \<in> set (things t)" "\<And>x. x \<noteq> i \<Longrightarrow> item_at h' x = item_at h x" "top_key w h' i = top_key w h i"
  shows "tile_ok w h' (setTileFlags w h' i (resetTileFlags w h i t))"
proof -
  note a = tile_okD [OF assms(1)]
  have f: "flags_exact w h' (setTileFlags w h' i (resetTileFlags w h i t))"
    by (rule flag_changed [OF a(9) assms(2), where h' = h' and t' = t and j = i]) (use assms(2,3) in auto)
  have "top_key w h' x = top_key w h x" for x
    by (cases "x = i") (use assms(3,4) in \<open>simp_all add: top_key_def type_at_def\<close>)
  then have "ordered w h' t = ordered w h t" by (intro ordered_alike) simp_all
  then show ?thesis using assms(1) f unfolding tile_ok_def by (simp add: things_distinct)
qed

section \<open>The operations\<close>

lemma scene_simps [simp]:
  "sc_tile (on_tile f s) = f (sc_tile s)" "sc_store (on_tile f s) = sc_store s"
  "sc_tile (emit e s) = sc_tile s" "sc_store (emit e s) = sc_store s"
  "sc_tile (set_item_parent i c s) = sc_tile s" "sc_store (set_item_parent i c s) = setParent i c (sc_store s)"
  "sc_tile (flag_item w i s) = setTileFlags w (sc_store s) i (sc_tile s)" "sc_store (flag_item w i s) = sc_store s"
  "sc_tile (unflag_item w i s) = resetTileFlags w (sc_store s) i (sc_tile s)" "sc_store (unflag_item w i s) = sc_store s"
  "sc_tile (onAddTileItem w i s) = setTileFlags w (sc_store s) i (sc_tile s)" "sc_store (onAddTileItem w i s) = sc_store s"
  "sc_tile (onRemoveTileItem w l i s) = resetTileFlags w (sc_store s) i (sc_tile s)" "sc_store (onRemoveTileItem w l i s) = sc_store s"
  by (simp_all add: on_tile_def emit_def set_item_parent_def flag_item_def unflag_item_def onAddTileItem_def onRemoveTileItem_def)

definition scene_ok :: "tile_env \<Rightarrow> scene \<Rightarrow> bool" where
  "scene_ok w s \<longleftrightarrow> tile_ok w (sc_store s) (sc_tile s)"

definition things_of :: "scene \<Rightarrow> addr set" where
  "things_of s = set (things (sc_tile s))"

lemma count_at [simp]: "type_at w (on_item i (setItemCount n) h) = type_at w h"
  "item_hasProperty w (on_item i (setItemCount n) h) = item_hasProperty w h"
proof -
  have "item_id (item_at (on_item i (setItemCount n) h) x) = item_id (item_at h x)"
    "attributes (item_at (on_item i (setItemCount n) h) x) = attributes (item_at h x)" for x
    by (auto simp: item_at_def on_item_def upd_obj_def setItemCount_def split: option.split)
  then show "type_at w (on_item i (setItemCount n) h) = type_at w h"
    "item_hasProperty w (on_item i (setItemCount n) h) = item_hasProperty w h"
    by (simp_all add: type_at_def item_hasProperty_def hasAttribute_def fun_eq_iff)
qed

lemma count_by_item: "on_item i (\<lambda>x. setItemCount (reduced_count x n) x) h = on_item i (setItemCount (reduced_count (item_at h i) n)) h"
  by (auto simp: on_item_def upd_obj_def item_at_def fun_eq_iff split: option.split)

lemma removeThing_outcome:
  fixes w th n s
  defines "s' \<equiv> tile_removeThing w th n s" and "t \<equiv> sc_tile s" and "h \<equiv> sc_store s"
  obtains (same) "sc_store s' = h" "sc_tile s' = t"
  | (creature) c where "sc_store s' = h" "sc_tile s' = t\<lparr>t_creatures := remove1 c (t_creatures t)\<rparr>"
  | (count) i where "sc_store s' = on_item i (setItemCount (reduced_count (item_at h i) n)) h" "sc_tile s' = t"
  | (ground) i where "sc_store s' = setParent i None h" "ground t = Some i"
      "sc_tile s' = resetTileFlags w h i (t\<lparr>ground := None\<rparr>)"
  | (top) i where "sc_store s' = setParent i None h" "i \<in> set (topItems t)"
      "sc_tile s' = resetTileFlags w h i (t\<lparr>t_items := downItems t @ remove1 i (topItems t)\<rparr>)"
  | (down) i where "sc_store s' = setParent i None h" "i \<in> set (downItems t)"
      "sc_tile s' = resetTileFlags w h i (t\<lparr>t_items := remove1 i (downItems t) @ topItems t, downItemCount := downItemCount t - 1\<rparr>)"
proof (cases th)
  case (Creature_Thing c)
  show ?thesis by (cases "c \<in> set (t_creatures t)") (simp_all add: assms Creature_Thing tile_removeThing_def same creature [of c])
next
  case (Item_Thing i)
  let ?none = "tile_getThingIndex w h t th = - 1" and ?top = "alwaysOnTop (type_at w h i)"
    and ?part = "it_stackable (type_at w h i) \<and> n \<noteq> ucast (getItemCount (item_at h i))"
  note d = assms Item_Thing tile_removeThing_def Let_def
  consider "?none \<or> ground t \<noteq> Some i \<and> (?top \<and> i \<notin> set (topItems t) \<or> \<not> ?top \<and> i \<notin> set (downItems t))"
    | "\<not> ?none" "ground t = Some i"
    | "\<not> ?none" "ground t \<noteq> Some i" "?top" "i \<in> set (topItems t)"
    | "\<not> ?none" "ground t \<noteq> Some i" "\<not> ?top" "i \<in> set (downItems t)" "?part"
    | "\<not> ?none" "ground t \<noteq> Some i" "\<not> ?top" "i \<in> set (downItems t)" "\<not> ?part" by argo
  then show ?thesis
  proof cases
    case 1 then show ?thesis by (intro same) (auto simp: d)
  next
    case 2 then show ?thesis by (intro ground [of i]) (simp_all add: d)
  next
    case 3 then show ?thesis by (intro top [of i]) (simp_all add: d)
  next
    case 4 then show ?thesis by (intro count [of i]) (simp_all add: d count_by_item)
  next
    case 5 then show ?thesis by (intro down [of i]) (simp_all only: d scene_simps tile_thing.case if_False if_True not_True_eq_False not_False_eq_True flags_setParent)
  qed
qed

lemma removeThing_types [simp]:
  "type_at w (sc_store (tile_removeThing w th n s)) = type_at w (sc_store s)"
  "item_hasProperty w (sc_store (tile_removeThing w th n s)) = item_hasProperty w (sc_store s)"
  by (cases rule: removeThing_outcome [of w th n s]; simp)+

lemma removeThing_frame:
  "things_of (tile_removeThing w th n s) \<subseteq> things_of s" "length (t_items (sc_tile (tile_removeThing w th n s))) \<le> length (t_items (sc_tile s))"
proof -
  have u: "set (t_items t) = set (downItems t) \<union> set (topItems t)" "length (t_items t) = length (downItems t) + length (topItems t)" for t
    by (simp_all add: arg_cong [OF down_top, of set] arg_cong [OF down_top, of length])
  show "things_of (tile_removeThing w th n s) \<subseteq> things_of s"
    by (cases rule: removeThing_outcome [of w th n s])
      (auto simp: things_of_def things_set u dest: set_remove1_subset [THEN subsetD])
  show "length (t_items (sc_tile (tile_removeThing w th n s))) \<le> length (t_items (sc_tile s))"
    by (cases rule: removeThing_outcome [of w th n s]) (simp_all add: u length_remove1)
qed

lemma removeThing_ok:
  assumes "scene_ok w s"
  shows "scene_ok w (tile_removeThing w th n s)"
proof -
  note ok = assms [unfolded scene_ok_def]
  show ?thesis
  proof (cases rule: removeThing_outcome [of w th n s])
    case (creature c)
    then show ?thesis using creatures_ok [OF ok] tile_okD(5) [OF ok] by (simp add: scene_ok_def)
  next
    case (count i)
    have "tile_ok w (sc_store (tile_removeThing w th n s)) (sc_tile s) = tile_ok w (sc_store s) (sc_tile s)"
      by (rule tile_ok_alike) (simp add: seen_alike_def)
    then show ?thesis using ok count by (simp add: scene_ok_def)
  qed (use ok ground_taken [OF ok] top_taken [OF ok] down_taken [OF ok] in \<open>simp_all add: scene_ok_def\<close>)
qed

lemma discard_types [simp]:
  "type_at w (sc_store (discard w i s)) = type_at w (sc_store s)" "item_hasProperty w (sc_store (discard w i s)) = item_hasProperty w (sc_store s)"
  by (simp_all add: discard_def)

lemma discard_frame:
  "things_of (discard w i s) \<subseteq> things_of s" "length (t_items (sc_tile (discard w i s))) \<le> length (t_items (sc_tile s))"
  using removeThing_frame [of w "Item_Thing i" 1 s] by (simp_all add: discard_def things_of_def)

lemma discard_ok: "scene_ok w s \<Longrightarrow> scene_ok w (discard w i s)"
  using removeThing_ok [of w s "Item_Thing i" 1] by (simp add: discard_def scene_ok_def)

lemma down_put_ok:
  assumes "scene_ok w s" "i \<notin> things_of s" "\<not> alwaysOnTop (type_at w (sc_store s) i)" "length (t_items (sc_tile s)) < 0xFFFF"
  shows "scene_ok w (onAddTileItem w i (on_tile (put_down_item i) s))"
  using down_put [OF assms(1) [unfolded scene_ok_def] assms(2) [unfolded things_of_def] assms(3,4)] by (simp add: scene_ok_def)

lemma top_put_ok:
  assumes "scene_ok w s" "i \<notin> things_of s" "alwaysOnTop (type_at w (sc_store s) i)" "length (t_items (sc_tile s)) < 0xFFFF"
    and "h = type_at w (sc_store s)"
  shows "scene_ok w (onAddTileItem w i (on_tile (put_top (\<lambda>x. alwaysOnTopOrder (h i) \<le> alwaysOnTopOrder (h x)) i) s))"
  using top_put [OF assms(1) [unfolded scene_ok_def] assms(2) [unfolded things_of_def] assms(3,4),
      of "\<lambda>x. alwaysOnTopOrder (h i) \<le> alwaysOnTopOrder (h x)"] assms(5)
  by (simp add: scene_ok_def)

lemma set_item_parent_ok [simp]:
  "scene_ok w (set_item_parent i c s) = scene_ok w s" "things_of (set_item_parent i c s) = things_of s"
  "scene_ok w (emit e s) = scene_ok w s" "things_of (emit e s) = things_of s"
  by (simp_all add: scene_ok_def things_of_def)

lemma addItem_ok:
  assumes "scene_ok w s" "i \<notin> things_of s"
  shows "scene_ok w (tile_addThing w (Item_Thing i) s)"
proof (cases "0xFFFF \<le> length (t_items (sc_tile s))")
  case False
  let ?s = "set_item_parent i (Some (LyingOn (t_id (sc_tile s)))) s" and ?it = "type_at w (sc_store s) i"
  have ok: "scene_ok w ?s" "i \<notin> things_of ?s" "length (t_items (sc_tile ?s)) < 0xFFFF" using assms False by simp_all
  have after: "scene_ok w (discard w x ?s)" "i \<notin> things_of (discard w x ?s)" "length (t_items (sc_tile (discard w x ?s))) < 0xFFFF" for x
    using discard_ok [OF ok(1)] discard_frame [of w x ?s] ok by (auto intro: le_less_trans)
  note d = tile_addThing_def Let_def False
  consider "ground_tile ?it" | "\<not> ground_tile ?it" "alwaysOnTop ?it" | "\<not> ground_tile ?it" "\<not> alwaysOnTop ?it" by blast
  then show ?thesis
  proof cases
    case 1
    then show ?thesis
      using ground_put [OF ok(1) [unfolded scene_ok_def] ok(2) [unfolded things_of_def]]
        ground_changed [OF ok(1) [unfolded scene_ok_def] ok(2) [unfolded things_of_def]]
      by (simp add: d scene_ok_def split: option.split)
  next
    case 2
    then show ?thesis
      using ok after by (simp add: d top_put_ok split: option.split)
  next
    case 3
    then show ?thesis
      using ok after by (simp add: d down_put_ok split: option.split)
  qed
qed (simp add: tile_addThing_def assms)

lemma internalAddItem_ok:
  assumes "scene_ok w s" "i \<notin> things_of s"
  shows "scene_ok w (tile_internalAddThing w (Item_Thing i) s)"
proof -
  note ok = assms [unfolded scene_ok_def things_of_def]
  let ?h = "type_at w (sc_store s)"
  have "tile_ok w (sc_store s) (setTileFlags w (sc_store s) i (put_top (\<lambda>x. alwaysOnTopOrder (?h i) < alwaysOnTopOrder (?h x)) i (sc_tile s)))"
    if "alwaysOnTop (?h i)" "length (t_items (sc_tile s)) < 0xFFFF"
    by (rule top_put [OF ok that]) auto
  then show ?thesis
    using ok ground_put [OF ok] down_put [OF ok] by (simp add: tile_internalAddThing_def Let_def scene_ok_def)
qed

lemma addCreature_ok:
  assumes "scene_ok w s" "c \<notin> set (t_creatures (sc_tile s))"
  shows "scene_ok w (tile_addThing w (Creature_Thing c) s)" "scene_ok w (tile_internalAddThing w (Creature_Thing c) s)"
  using assms creatures_ok [OF assms(1) [unfolded scene_ok_def]] tile_okD(5) [OF assms(1) [unfolded scene_ok_def]]
  by (simp_all add: tile_addThing_def tile_internalAddThing_def scene_ok_def)

lemma updateThing_ok:
  assumes "scene_ok w s" "i \<in> things_of s"
    "top_key w (on_item i (\<lambda>x. setSubType (item_table w) (ucast n) (setID (item_table w) itemId x)) (sc_store s)) i = top_key w (sc_store s) i"
  shows "scene_ok w (tile_updateThing w i itemId n s)"
  using assms item_updated [OF assms(1) [unfolded scene_ok_def] assms(2) [unfolded things_of_def] item_at_on_item assms(3)]
  by (simp add: tile_updateThing_def scene_ok_def Let_def)

section \<open>Places\<close>

lemma ex_head: "(\<exists>k < length (x # xs). (x # xs) ! k = i \<and> n = b + int k) \<longleftrightarrow>
    x = i \<and> n = b \<or> (\<exists>k < length xs. xs ! k = i \<and> n = b + 1 + int k)" (is "?l = ?r")
proof
  assume ?l
  then obtain k where k: "k < length (x # xs)" "(x # xs) ! k = i" "n = b + int k" by blast
  then show ?r by (cases k) auto
next
  assume ?r
  then show ?l
  proof
    assume "\<exists>k < length xs. xs ! k = i \<and> n = b + 1 + int k"
    then obtain k where "k < length xs" "xs ! k = i" "n = b + 1 + int k" by blast
    then show ?l by (intro exI [of _ "Suc k"]) simp
  qed auto
qed

lemma index_of_at:
  assumes "distinct xs" "0 \<le> b"
  shows "index_of i xs b = int n \<longleftrightarrow> (\<exists>k < length xs. xs ! k = i \<and> int n = b + int k)"
  using assms
proof (induction xs arbitrary: b)
  case (Cons x xs)
  have "(\<exists>k < length (x # xs). (x # xs) ! k = i \<and> int n = b + int k) \<longleftrightarrow>
      x = i \<and> int n = b \<or> (\<exists>k < length xs. xs ! k = i \<and> int n = b + 1 + int k)"
    unfolding ex_head by auto
  moreover have "\<not> (\<exists>k < length xs. xs ! k = i \<and> int n = b + 1 + int k)" if "x = i"
    using that Cons.prems(1) nth_mem [of _ xs] by auto
  moreover have "index_of i xs (b + 1) = int n \<longleftrightarrow> (\<exists>k < length xs. xs ! k = i \<and> int n = b + 1 + int k)"
    using Cons by simp
  ultimately show ?case by auto
qed simp

lemma index_of_none: "0 \<le> b \<Longrightarrow> index_of i xs b = - 1 \<longleftrightarrow> i \<notin> set xs"
  by (induction xs arbitrary: b) auto

definition stands_at :: "'a list \<Rightarrow> nat \<Rightarrow> 'a \<Rightarrow> bool" where
  "stands_at xs n x \<longleftrightarrow> n < length xs \<and> xs ! n = x"

definition stands_from :: "int \<Rightarrow> 'a list \<Rightarrow> int \<Rightarrow> 'a \<Rightarrow> bool" where
  "stands_from b xs m x \<longleftrightarrow> (\<exists>k < length xs. xs ! k = x \<and> m = b + int k)"

lemma stands_at_from: "stands_at xs n x \<longleftrightarrow> stands_from 0 xs (int n) x"
  by (auto simp: stands_at_def stands_from_def)

lemma stands_from_append: "stands_from b (xs @ ys) m x \<longleftrightarrow> stands_from b xs m x \<or> stands_from (b + int (length xs)) ys m x"
proof
  assume "stands_from b (xs @ ys) m x"
  then obtain k where k: "k < length (xs @ ys)" "(xs @ ys) ! k = x" "m = b + int k" unfolding stands_from_def by blast
  show "stands_from b xs m x \<or> stands_from (b + int (length xs)) ys m x"
  proof (cases "k < length xs")
    case False
    with k have "k - length xs < length ys" "ys ! (k - length xs) = x" "m = b + int (length xs) + int (k - length xs)"
      by (simp_all add: nth_append)
    then show ?thesis unfolding stands_from_def by blast
  qed (use k in \<open>auto simp: stands_from_def nth_append\<close>)
next
  assume "stands_from b xs m x \<or> stands_from (b + int (length xs)) ys m x"
  then show "stands_from b (xs @ ys) m x"
  proof
    assume "stands_from (b + int (length xs)) ys m x"
    then obtain k where "k < length ys" "ys ! k = x" "m = b + int (length xs) + int k" unfolding stands_from_def by blast
    then show ?thesis unfolding stands_from_def by (intro exI [of _ "length xs + k"]) simp
  qed (auto simp: stands_from_def nth_append)
qed

lemma stands_from_map: "stands_from b (map f xs) m y \<longleftrightarrow> (\<exists>k < length xs. f (xs ! k) = y \<and> m = b + int k)"
  by (auto simp: stands_from_def)

text \<open>The stack that a client sees from below: the ground, the top items, the creatures, the down items.\<close>

definition stack :: "tile \<Rightarrow> tile_thing list" where
  "stack t = map Item_Thing (case ground t of Some g \<Rightarrow> [g] | None \<Rightarrow> []) @ map Item_Thing (topItems t) @
     map Creature_Thing (t_creatures t) @ map Item_Thing (downItems t)"

lemma getThing_stack:
  assumes "unat (downItemCount t) \<le> length (t_items t)"
  shows "tile_getThing t n = (if n < length (stack t) then Some (stack t ! n) else None)"
proof -
  have down: "t_items t ! k = downItems t ! k" "k < length (downItems t)" if "k < unat (downItemCount t)" for k
    using that assms by (simp_all add: downItems_def)
  have top: "t_items t ! (unat (downItemCount t) + k) = topItems t ! k" for k
    using assms by (simp add: topItems_def)
  note tops = top [of 0, simplified] top [of "Suc k" for k, simplified]
  have l: "length (downItems t) = unat (downItemCount t)" using assms by (simp add: downItems_def)
  show ?thesis
    by (cases "ground t"; cases n)
      (simp_all add: tile_getThing_def stack_def Let_def down top tops l nth_append less_diff_conv2 not_less)
qed

lemma count_stack:
  assumes "unat (downItemCount t) \<le> length (t_items t)"
  shows "getThingCount t = length (stack t)"
  using assms by (simp add: getThingCount_def stack_def downItems_def topItems_def split: option.split)

lemma getThingIndex_stack:
  assumes "tile_ok w h t"
  shows "tile_getThingIndex w h t th = int n \<longleftrightarrow> stands_at (stack t) n th"
proof -
  note a = tile_okD [OF assms]
  have d: "distinct (topItems t)" "distinct (downItems t)" using a(4,12) by (simp_all add: things_distinct)
  have b: "0 \<le> first_index t" "0 \<le> first_index t + int (length (topItems t))"
    "0 \<le> first_index t + int (length (topItems t)) + int (length (t_creatures t))"
    by (simp_all add: first_index_def)
  have g: "(\<exists>k < length (case ground t of Some g \<Rightarrow> [g] | None \<Rightarrow> []).
        Item_Thing ((case ground t of Some g \<Rightarrow> [g] | None \<Rightarrow> []) ! k) = th \<and> int n = int k) \<longleftrightarrow>
      n = 0 \<and> ground t \<noteq> None \<and> th = Item_Thing (the (ground t))"
    "int (length (case ground t of Some g \<Rightarrow> [g] | None \<Rightarrow> [])) = first_index t"
    by (auto simp: first_index_def split: option.split)
  have p: "stands_at (stack t) n th \<longleftrightarrow> n = 0 \<and> ground t \<noteq> None \<and> th = Item_Thing (the (ground t)) \<or>
      (\<exists>k < length (topItems t). Item_Thing (topItems t ! k) = th \<and> int n = first_index t + int k) \<or>
      (\<exists>k < length (t_creatures t). Creature_Thing (t_creatures t ! k) = th \<and> int n = first_index t + int (length (topItems t)) + int k) \<or>
      (\<exists>k < length (downItems t). Item_Thing (downItems t ! k) = th \<and>
        int n = first_index t + int (length (topItems t)) + int (length (t_creatures t)) + int k)"
    unfolding stands_at_from stack_def stands_from_append length_map g(2) add_0 stands_from_map g(1) by (rule refl)
  show ?thesis
  proof (cases th)
    case (Creature_Thing c)
    then show ?thesis unfolding p by (auto simp: tile_getThingIndex_def index_of_at [OF a(5) b(2)])
  next
    case (Item_Thing i)
    have u: "i \<notin> set (topItems t)" "i \<notin> set (downItems t)" if "ground t = Some i"
      using a(4,10) that by (auto simp: things_distinct)
    have side: "i \<in> set (topItems t) \<Longrightarrow> alwaysOnTop (type_at w h i)" "i \<in> set (downItems t) \<Longrightarrow> \<not> alwaysOnTop (type_at w h i)"
      using a(6,7) by blast+
    show ?thesis
      unfolding p using u side nth_mem [of _ "topItems t"] nth_mem [of _ "downItems t"]
      by (auto simp: tile_getThingIndex_def Item_Thing index_of_at [OF d(1) b(1)] index_of_at [OF d(2) b(3)])
  qed
qed

section \<open>Every history of a tile\<close>

lemma in_stack: "Item_Thing i \<in> set (stack t) \<longleftrightarrow> i \<in> set_option (ground t) \<union> set (topItems t) \<union> set (downItems t)"
  by (auto simp: stack_def split: option.splits)

lemma index_there:
  assumes "tile_ok w h t" "tile_getThingIndex w h t (Item_Thing i) \<noteq> - 1"
  shows "i \<in> set (things t)"
proof -
  have "0 \<le> first_index t" by (simp add: first_index_def)
  then show ?thesis
    using assms tile_okD(10) [OF assms(1)]
    by (auto simp: tile_getThingIndex_def index_of_none things_set split: if_splits)
qed

lemma replaceThing_ok:
  assumes "scene_ok w s" "i \<notin> things_of s"
    "\<And>old t1. replaced_tile n i (sc_tile s) = Some (old, t1) \<Longrightarrow> ground (sc_tile s) \<noteq> Some old \<Longrightarrow>
       top_key w (sc_store s) i = top_key w (sc_store s) old"
  shows "scene_ok w (tile_replaceThing w n i s)"
proof (cases "replaced_tile n i (sc_tile s)")
  case (Some p)
  obtain old t1 where p: "p = (old, t1)" by (cases p)
  let ?t = "sc_tile s" and ?h = "sc_store s"
  note ok = assms(1) [unfolded scene_ok_def] and new = assms(2) [unfolded things_of_def] and a = tile_okD [OF ok]
  have place: "ground ?t = Some old \<and> t1 = ?t\<lparr>ground := Some i\<rparr> \<or>
      (\<exists>k < length (t_items ?t). old = t_items ?t ! k \<and> t1 = ?t\<lparr>t_items := (t_items ?t)[k := i]\<rparr>)"
  proof -
    have n: "unat (downItemCount ?t) + k < length (t_items ?t)" if "k < length (topItems ?t)" for k
      using that by (simp add: topItems_def)
    have m: "k < length (t_items ?t)" if "k < unat (downItemCount ?t)" for k using that ok by (simp add: tile_ok_def)
    show ?thesis
      using Some n n [of 0, simplified] n [of "Suc k" for k, simplified] m unfolding p replaced_tile_def
      by (cases "ground ?t"; cases n) (auto simp: Let_def split: if_splits)
  qed
  have "tile_ok w ?h (setTileFlags w ?h i (resetTileFlags w ?h old t1))"
  proof (cases "ground ?t = Some old")
    case True
    have "old \<notin> set (t_items ?t)" using a(4) True by (auto simp: things_distinct)
    then have "t1 = ?t\<lparr>ground := Some i\<rparr>" using place by (auto simp: nth_mem)
    then show ?thesis using ground_changed [OF ok new True] by simp
  next
    case False
    then obtain k where k: "k < length (t_items ?t)" "old = t_items ?t ! k" "t1 = ?t\<lparr>t_items := (t_items ?t)[k := i]\<rparr>"
      using place by blast
    have "top_key w ?h i = top_key w ?h old" using assms(3) Some False p by simp
    then show ?thesis using item_changed [OF ok k(1) new] k by simp
  qed
  then show ?thesis by (simp add: tile_replaceThing_def Some p scene_ok_def)
qed (simp add: tile_replaceThing_def assms)

text \<open>
  The changes that the server makes of a tile: a thing that is not on it arrives, a thing leaves, an item
  turns into another or is exchanged for another of the same place, and the rest of the store changes.
\<close>

definition same_place :: "tile_env \<Rightarrow> u16 \<Rightarrow> u16 \<Rightarrow> bool" where
  "same_place w a b \<longleftrightarrow> alwaysOnTop (types w a) = alwaysOnTop (types w b) \<and> alwaysOnTopOrder (types w a) = alwaysOnTopOrder (types w b)"

inductive tile_reach :: "tile_env \<Rightarrow> scene \<Rightarrow> bool" for w where
  fresh_tile: "ground (sc_tile s) = None \<Longrightarrow> t_items (sc_tile s) = [] \<Longrightarrow> downItemCount (sc_tile s) = 0 \<Longrightarrow> t_creatures (sc_tile s) = [] \<Longrightarrow>
    \<not> list_ex (\<lambda>(P, f). hasFlag f (sc_tile s)) blocking_flags \<Longrightarrow> tile_reach w s"
| item_arrives: "tile_reach w s \<Longrightarrow> i \<notin> things_of s \<Longrightarrow> tile_reach w (tile_addThing w (Item_Thing i) s)"
| item_loaded: "tile_reach w s \<Longrightarrow> i \<notin> things_of s \<Longrightarrow> tile_reach w (tile_internalAddThing w (Item_Thing i) s)"
| creature_arrives: "tile_reach w s \<Longrightarrow> c \<notin> set (t_creatures (sc_tile s)) \<Longrightarrow> tile_reach w (tile_addThing w (Creature_Thing c) s)"
| creature_placed: "tile_reach w s \<Longrightarrow> c \<notin> set (t_creatures (sc_tile s)) \<Longrightarrow> tile_reach w (tile_internalAddThing w (Creature_Thing c) s)"
| thing_leaves: "tile_reach w s \<Longrightarrow> tile_reach w (tile_removeThing w th n s)"
| item_turns: "tile_reach w s \<Longrightarrow> sc_store s i \<noteq> None \<Longrightarrow> same_place w itemId (item_id (item_at (sc_store s) i)) \<Longrightarrow>
    tile_reach w (tile_updateThing w i itemId n s)"
| item_exchanged: "tile_reach w s \<Longrightarrow> i \<notin> things_of s \<Longrightarrow>
    (\<And>old t1. replaced_tile n i (sc_tile s) = Some (old, t1) \<Longrightarrow> ground (sc_tile s) \<noteq> Some old \<Longrightarrow>
       same_place w (item_id (item_at (sc_store s) i)) (item_id (item_at (sc_store s) old))) \<Longrightarrow>
    tile_reach w (tile_replaceThing w n i s)"
| elsewhere: "tile_reach w s \<Longrightarrow> (\<And>x. x \<in> things_of s \<Longrightarrow> item_at h x = item_at (sc_store s) x) \<Longrightarrow> tile_reach w (s\<lparr>sc_store := h\<rparr>)"

lemma same_place_key: "same_place w (item_id (item_at h i)) (item_id (item_at h' j)) \<longleftrightarrow> top_key w h i = top_key w h' j"
  by (simp add: same_place_def top_key_def type_at_def)

lemma setID_id [simp]: "item_id (setID it n x) = n" "item_id (setSubType it k x) = item_id x"
  by (simp_all add: setID_def setSubType_def Let_def setDuration_def setDecaying_def setIntAttr_def removeAttribute_def on_attributes_def
      setFluidType_def setItemCount_def setCharges_def)

lemma fresh_ok:
  assumes "ground t = None" "t_items t = []" "downItemCount t = 0" "t_creatures t = []" "\<not> list_ex (\<lambda>(P, f). hasFlag f t) blocking_flags"
  shows "tile_ok w h t"
  using assms by (auto simp: tile_ok_def ordered_def flags_exact_def things_def tile_has_things downItems_def topItems_def list_ex_iff)

lemma reach_ok: "tile_reach w s \<Longrightarrow> scene_ok w s"
proof (induction rule: tile_reach.induct)
  case (fresh_tile s)
  then show ?case by (simp add: scene_ok_def fresh_ok)
next
  case (item_turns s i itemId n)
  let ?f = "\<lambda>x. setSubType (item_table w) (ucast n) (setID (item_table w) itemId x)"
  show ?case
  proof (cases "tile_getThingIndex w (sc_store s) (sc_tile s) (Item_Thing i) = - 1")
    case False
    obtain ob where "sc_store s i = Some ob" using item_turns.hyps by blast
    then have "item_id (item_at (on_item i ?f (sc_store s)) i) = itemId"
      by (simp add: item_at_def on_item_def upd_obj_def)
    then have "top_key w (on_item i ?f (sc_store s)) i = top_key w (sc_store s) i"
      using item_turns.hyps by (metis same_place_key)
    then show ?thesis
      using updateThing_ok [OF item_turns.IH] index_there [OF item_turns.IH [unfolded scene_ok_def] False] by (simp add: things_of_def)
  qed (use item_turns.IH in \<open>simp add: tile_updateThing_def\<close>)
next
  case (item_exchanged s i n)
  then show ?case by (intro replaceThing_ok) (simp_all add: same_place_key)
next
  case (elsewhere s h)
  then have "tile_ok w h (sc_tile s) = tile_ok w (sc_store s) (sc_tile s)"
    by (intro tile_ok_alike alike_same_items) (simp add: things_of_def)
  then show ?case using elsewhere.IH by (simp add: scene_ok_def)
qed (simp_all add: addItem_ok internalAddItem_ok addCreature_ok removeThing_ok)

section \<open>What movement may rely on\<close>

lemma things_blockSolid: "tile_hasProperty w h t CONST_PROP_BLOCKSOLID \<longleftrightarrow> (\<exists>i \<in> set (things t). blockSolid (type_at w h i))"
  by (simp add: tile_has_things item_hasProperty_def)

lemma flag_of_ok:
  assumes "scene_ok w s" "(P, f) \<in> set blocking_flags"
  shows "hasFlag f (sc_tile s) \<longleftrightarrow> tile_hasProperty w (sc_store s) (sc_tile s) P"
  using tile_okD(9) [OF assms(1) [unfolded scene_ok_def]] assms(2) unfolding flags_exact_def by blast


text \<open>
C14.
  The places of the things on a tile: after any history the thing at a place is the one whose index is that
  place, in both directions, and there is one at exactly the places below the number of things.
\<close>

theorem places_roundtrip:
  assumes "tile_reach w s"
  shows "(tile_getThing (sc_tile s) n = Some thing \<longleftrightarrow> tile_getThingIndex w (sc_store s) (sc_tile s) thing = int n) \<and>
    (tile_getThing (sc_tile s) n \<noteq> None \<longleftrightarrow> n < getThingCount (sc_tile s))"
proof -
  note ok = reach_ok [OF assms, unfolded scene_ok_def]
  then have d: "unat (downItemCount (sc_tile s)) \<le> length (t_items (sc_tile s))" by (simp add: tile_ok_def)
  show ?thesis
    unfolding getThing_stack [OF d] getThingIndex_stack [OF ok] count_stack [OF d] stands_at_def by simp
qed


section \<open>A tile for the witnesses\<close>

text \<open>Types: 1 is a ground, 2 a chest that blocks, 3 and 4 top items, everything else a common item.\<close>

definition demo_types :: "u16 \<Rightarrow> tile_item_type" where
  "demo_types n = \<lparr>it_stackable = False, it_fluidContainer = False, it_splash = False, it_moveable = n \<noteq> 2, it_pickupable = True,
     it_stopTime = False, it_charges = 0, it_weight = 10, it_decayTime = 0, it_decayTo = -1,
     ground_tile = n = 1, alwaysOnTop = n = 3 \<or> n = 4, alwaysOnTopOrder = ucast n, magicField = False, replaceable = True,
     bed_type = False, container_type = False, floorChange = 0, forceUse = False, lookThrough = False, hasHeight = False,
     blockSolid = n = 2, blockProjectile = False, blockPathFind = n = 2, allowPickupable = False, isVertical = False,
     isHorizontal = False, isHangable = False, field_combat = 0, field_damage = 0\<rparr>"

definition demo_player :: being where
  "demo_player = \<lparr>being_kind = A_Player, moveLocked = False, inGhostMode = False, invisible = False, pushable = True,
     is_summon = False, master_is_player = False, canPushCreatures = False, canPushItems = False, ignoreFieldDamage = False,
     immune_to = (\<lambda>_. False), walks_on_field = (\<lambda>_. True), accessPlayer = False, pzLocked = True, tile_flags_of = Some 0\<rparr>"

definition demo_world :: tile_env where
  "demo_world = \<lparr>types = demo_types, class_of = (\<lambda>_. Common_Item), beings = (\<lambda>_. demo_player), walks_through = (\<lambda>_ _. False),
     can_see = (\<lambda>_ _. True), watchers = [7]\<rparr>"

definition demo_scene :: scene where
  "demo_scene = \<lparr>sc_store = (\<lambda>a. Some \<lparr>the_item = \<lparr>item_id = of_nat a, item_count = 1, attributes = None\<rparr>, parent = None, box = None\<rparr>),
     sc_tile = \<lparr>t_id = 0, ground = None, t_items = [], downItemCount = 0, t_creatures = [], t_flags = 0, t_pos = Position 100 100 7\<rparr>,
     sc_events = []\<rparr>"

definition demo_floor :: scene where
  "demo_floor = tile_internalAddThing demo_world (Item_Thing 1) demo_scene"

definition demo_paved :: scene where
  "demo_paved = tile_addThing demo_world (Item_Thing 3) (tile_addThing demo_world (Item_Thing 4) demo_floor)"

definition demo_blocked :: scene where
  "demo_blocked = tile_addThing demo_world (Creature_Thing 9) (tile_addThing demo_world (Item_Thing 2) demo_paved)"

lemma demo_type: "type_at demo_world (sc_store demo_scene) a = demo_types (of_nat a)"
  by (simp add: type_at_def item_at_def demo_world_def demo_scene_def)

lemma demo_plain: "type_at demo_world h i = demo_types n \<Longrightarrow> n \<noteq> 2 \<Longrightarrow> setTileFlags demo_world h i t = t"
  by (simp add: setTileFlags_def flag_when_def item_hasProperty_def demo_types_def) (simp add: demo_world_def)

lemmas demo_run = tile_internalAddThing_def tile_addThing_def Let_def demo_type demo_types_def put_top_def put_before_def
  put_down_item_def downItems_def topItems_def

lemma demo_floor_value:
  "type_at demo_world (sc_store demo_floor) a = demo_types (of_nat a)" "ground (sc_tile demo_floor) = Some 1" "t_items (sc_tile demo_floor) = []"
  "downItemCount (sc_tile demo_floor) = 0" "t_creatures (sc_tile demo_floor) = []"
  "t_flags (sc_tile demo_floor) = 0"
  by (simp_all add: demo_floor_def demo_run demo_plain [of _ _ 1]) (simp_all add: demo_scene_def)

lemma demo_paved_value:
  "type_at demo_world (sc_store demo_paved) a = demo_types (of_nat a)" "ground (sc_tile demo_paved) = Some 1" "t_items (sc_tile demo_paved) = [3, 4]"
  "downItemCount (sc_tile demo_paved) = 0" "t_creatures (sc_tile demo_paved) = []"
  "t_flags (sc_tile demo_paved) = 0"
  by (simp_all add: demo_paved_def demo_run demo_floor_value demo_plain [of _ 3 3] demo_plain [of _ 4 4])

lemma demo_blocked_value:
  "type_at demo_world (sc_store demo_blocked) a = demo_types (of_nat a)" "ground (sc_tile demo_blocked) = Some 1"
  "t_items (sc_tile demo_blocked) = [2, 3, 4]" "downItemCount (sc_tile demo_blocked) = 1" "t_creatures (sc_tile demo_blocked) = [9]"
  by (simp_all add: demo_blocked_def demo_run demo_paved_value)

lemma demo_reach: "tile_reach demo_world demo_floor" "tile_reach demo_world demo_paved" "tile_reach demo_world demo_blocked"
proof -
  have "tile_reach demo_world demo_scene"
    by (rule fresh_tile) (simp_all add: demo_scene_def blocking_flags_def hasFlag_def hasBitSet_def)
  then show floor: "tile_reach demo_world demo_floor"
    unfolding demo_floor_def by (rule item_loaded) (simp add: demo_scene_def things_of_def things_def)
  then show paved: "tile_reach demo_world demo_paved"
    unfolding demo_paved_def
    by (intro item_arrives) (simp_all add: things_of_def things_def demo_run demo_floor_value)
  then show "tile_reach demo_world demo_blocked"
    unfolding demo_blocked_def
    by (intro creature_arrives item_arrives) (simp_all add: things_of_def things_def demo_run demo_paved_value)
qed


theorem places_roundtrip_witness:
  "getThingCount (sc_tile demo_blocked) = 5 \<and>
   tile_getThingIndex demo_world (sc_store demo_blocked) (sc_tile demo_blocked) (Creature_Thing 9) = 3"
proof -
  have "getThingCount (sc_tile demo_blocked) = 5" "tile_getThing (sc_tile demo_blocked) 3 = Some (Creature_Thing 9)"
    by (simp_all add: getThingCount_def tile_getThing_def topItems_def demo_blocked_value)
  then show ?thesis using places_roundtrip [OF demo_reach(3), of 3 "Creature_Thing 9"] by simp
qed


end
