(* ===== verification/Parties.thy ===== *)
theory Parties imports Positions "HOL-Library.Monad_Syntax" begin

text \<open>
  Parties of players, from \<open>src/src/party.cpp\<close>, with the requests of \<open>src/src/game.cpp\<close> and the part of
  \<open>src/src/player.cpp\<close> that keeps a player's party and invitations. A party and its players point at each
  other: parties are kept by address, players by their id. An operation that would touch a party or a player
  that has been deleted has no result, \<open>None\<close>. The scripts that may refuse a change, the clock and the
  division in floating point by which a share of experience is computed are parameters.
\<close>

section \<open>State\<close>

record player_info =
  pl_name :: string
  pl_female :: bool
  pl_level :: u32
  pl_vocation :: u32
  pl_pos :: position
  not_gain_in_fight :: bool
  in_fight :: bool

record party =
  leader :: nat
  memberList :: "nat list"
  inviteList :: "nat list"
  ticksMap :: "nat \<Rightarrow> int option"
  extraExpRate :: nat
  sharedExpActive :: bool
  sharedExpEnabled :: bool

datatype party_message = Party_Text string | Close_Party_Channel | Skull_Of nat | Shield_Of nat | Share_Gained u64

datatype party_event = To nat party_message | Shield_Updated nat | Helpers_Updated nat

record party_world =
  online :: "nat \<Rightarrow> player_info option"
  party_of :: "nat \<Rightarrow> nat option"
  invitePartyList :: "nat \<Rightarrow> nat list"
  parties :: "nat \<Rightarrow> party option"
  pw_events :: "party_event list"

text \<open>
  What is outside: the scripts' answers, the time, the configured time of a fight, and the share of an amount
  of experience for a rate in percent and a number of players.
\<close>

record party_env =
  on_join :: "nat \<Rightarrow> nat \<Rightarrow> bool"
  on_leave :: "nat \<Rightarrow> nat \<Rightarrow> bool"
  on_disband :: "nat \<Rightarrow> bool"
  now :: int
  pz_locked :: int
  share_of :: "u64 \<Rightarrow> nat \<Rightarrow> nat \<Rightarrow> u64"

definition new_party :: "nat \<Rightarrow> party" where
  "new_party p = \<lparr>leader = p, memberList = [], inviteList = [], ticksMap = Map.empty, extraExpRate = 20,
     sharedExpActive = False, sharedExpEnabled = False\<rparr>"

definition party_empty :: "party \<Rightarrow> bool" where
  "party_empty pt \<longleftrightarrow> memberList pt = [] \<and> inviteList pt = []"

section \<open>Access\<close>

primrec each :: "('a \<Rightarrow> 's \<Rightarrow> 's option) \<Rightarrow> 'a list \<Rightarrow> 's \<Rightarrow> 's option" where
  "each f [] s = Some s"
| "each f (x # xs) s = do { s' \<leftarrow> f x s; each f xs s' }"

fun message_subject :: "party_message \<Rightarrow> nat list" where
  "message_subject (Skull_Of p) = [p]"
| "message_subject (Shield_Of p) = [p]"
| "message_subject _ = []"

fun event_players :: "party_event \<Rightarrow> nat list" where
  "event_players (To p m) = p # message_subject m"
| "event_players (Shield_Updated p) = [p]"
| "event_players (Helpers_Updated p) = [p]"

definition alive :: "party_world \<Rightarrow> nat \<Rightarrow> bool" where
  "alive w p \<longleftrightarrow> online w p \<noteq> None"

definition say_all :: "party_event list \<Rightarrow> party_world \<Rightarrow> party_world option" where
  "say_all es w =
     (if list_all (\<lambda>e. list_all (alive w) (event_players e)) es then Some (w\<lparr>pw_events := pw_events w @ es\<rparr>) else None)"

definition setParty :: "nat \<Rightarrow> nat option \<Rightarrow> party_world \<Rightarrow> party_world option" where
  "setParty p v w = (if alive w p then Some (w\<lparr>party_of := (party_of w)(p := v)\<rparr>) else None)"

definition getParty :: "party_world \<Rightarrow> nat \<Rightarrow> nat option option" where
  "getParty w p = (if alive w p then Some (party_of w p) else None)"

definition put_party :: "nat \<Rightarrow> party \<Rightarrow> party_world \<Rightarrow> party_world" where
  "put_party P pt w = w\<lparr>parties := (parties w)(P \<mapsto> pt)\<rparr>"

definition change_party :: "nat \<Rightarrow> (party \<Rightarrow> party) \<Rightarrow> party_world \<Rightarrow> party_world option" where
  "change_party P f w = do { pt \<leftarrow> parties w P; Some (put_party P (f pt) w) }"

definition addPartyInvitation :: "nat \<Rightarrow> nat \<Rightarrow> party_world \<Rightarrow> party_world option" where
  "addPartyInvitation P p w =
     (if \<not> alive w p then None
      else if P \<in> set (invitePartyList w p) then Some w
      else Some (w\<lparr>invitePartyList := (invitePartyList w)(p := P # invitePartyList w p)\<rparr>))"

definition removePartyInvitation :: "nat \<Rightarrow> nat \<Rightarrow> party_world \<Rightarrow> party_world option" where
  "removePartyInvitation P p w =
     (if alive w p then Some (w\<lparr>invitePartyList := (invitePartyList w)(p := removeAll P (invitePartyList w p))\<rparr>) else None)"

definition name_of :: "party_world \<Rightarrow> nat \<Rightarrow> string" where
  "name_of w p = (case online w p of Some i \<Rightarrow> pl_name i | None \<Rightarrow> [])"

definition his :: "party_world \<Rightarrow> nat \<Rightarrow> string" where
  "his w p = (case online w p of Some i \<Rightarrow> if pl_female i then ''her'' else ''his'' | None \<Rightarrow> [])"

definition icons :: "nat \<Rightarrow> nat \<Rightarrow> party_event list" where
  "icons p q = [To p (Shield_Of q), To p (Skull_Of q)]"

section \<open>Messages to the party\<close>

definition broadcastPartyMessage :: "nat \<Rightarrow> string \<Rightarrow> bool \<Rightarrow> party_world \<Rightarrow> party_world option" where
  "broadcastPartyMessage P msg toInvited w =
     do { pt \<leftarrow> parties w P;
          say_all (map (\<lambda>m. To m (Party_Text msg)) (memberList pt) @ [To (leader pt) (Party_Text msg)] @
            (if toInvited then map (\<lambda>i. To i (Party_Text msg)) (inviteList pt) else [])) w }"

definition broadcastPartyLoot :: "nat \<Rightarrow> string \<Rightarrow> party_world \<Rightarrow> party_world option" where
  "broadcastPartyLoot P loot w =
     do { pt \<leftarrow> parties w P;
          say_all (To (leader pt) (Party_Text loot) # map (\<lambda>m. To m (Party_Text loot)) (memberList pt)) w }"

definition updateAllPartyIcons :: "nat \<Rightarrow> party_world \<Rightarrow> party_world option" where
  "updateAllPartyIcons P w =
     do { pt \<leftarrow> parties w P;
          let ms = memberList pt;
          let l = leader pt;
          say_all (concat (map (\<lambda>m. map (\<lambda>n. To m (Shield_Of n)) ms @ [To m (Shield_Of l), To l (Shield_Of m)]) ms) @
            [To l (Shield_Of l)]) w }"

section \<open>Shared experience\<close>

text \<open>
  The least level that may share: two thirds of the highest, rounded up. The division in single precision
  gives this value for every level below two to the power of 23.
\<close>

definition min_level :: "u32 \<Rightarrow> nat" where
  "min_level highest = (2 * unat highest + 2) div 3"

definition highest_level :: "party_world \<Rightarrow> party \<Rightarrow> u32 option" where
  "highest_level w pt =
     do { l \<leftarrow> online w (leader pt);
          each (\<lambda>m h. do { i \<leftarrow> online w m; Some (if pl_level i > h then pl_level i else h) }) (memberList pt) (pl_level l) }"

definition fought_lately :: "party_env \<Rightarrow> party \<Rightarrow> nat \<Rightarrow> bool" where
  "fought_lately env pt p =
     (case ticksMap pt p of
        None \<Rightarrow> False
      | Some t \<Rightarrow> \<not> (word_of_int (now env - t) :: u64) > word_of_int (pz_locked env))"

definition canUseSharedExperience :: "party_env \<Rightarrow> nat \<Rightarrow> nat \<Rightarrow> party_world \<Rightarrow> bool option" where
  "canUseSharedExperience env P p w =
     do { pt \<leftarrow> parties w P;
          if memberList pt = [] then Some False
          else do {
            h \<leftarrow> highest_level w pt;
            i \<leftarrow> online w p;
            l \<leftarrow> online w (leader pt);
            Some (unat (pl_level i) \<ge> min_level h \<and> areInRange3 30 30 1 (pl_pos l) (pl_pos i) \<and>
              (not_gain_in_fight i \<or> fought_lately env pt p)) } }"

primrec all_use :: "party_env \<Rightarrow> nat \<Rightarrow> nat list \<Rightarrow> party_world \<Rightarrow> bool option" where
  "all_use env P [] w = Some True"
| "all_use env P (m # ms) w =
     do { r \<leftarrow> canUseSharedExperience env P m w; if r then all_use env P ms w else Some False }"

definition canEnableSharedExperience :: "party_env \<Rightarrow> nat \<Rightarrow> party_world \<Rightarrow> bool option" where
  "canEnableSharedExperience env P w =
     do { pt \<leftarrow> parties w P;
          r \<leftarrow> canUseSharedExperience env P (leader pt) w;
          if r then all_use env P (memberList pt) w else Some False }"

definition updateSharedExperience :: "party_env \<Rightarrow> nat \<Rightarrow> party_world \<Rightarrow> party_world option" where
  "updateSharedExperience env P w =
     do { pt \<leftarrow> parties w P;
          if sharedExpActive pt
          then do {
            r \<leftarrow> canEnableSharedExperience env P w;
            if r \<noteq> sharedExpEnabled pt
            then updateAllPartyIcons P (put_party P (pt\<lparr>sharedExpEnabled := r\<rparr>) w)
            else Some w }
          else Some w }"

definition vocations_in :: "party_world \<Rightarrow> nat list \<Rightarrow> u32 list" where
  "vocations_in w ps = filter (\<lambda>v. v \<noteq> 0) (map (\<lambda>p. case online w p of Some i \<Rightarrow> pl_vocation i | None \<Rightarrow> 0) ps)"

definition updateVocationsList :: "nat \<Rightarrow> party_world \<Rightarrow> party_world option" where
  "updateVocationsList P w =
     do { pt \<leftarrow> parties w P;
          if list_all (alive w) (leader pt # memberList pt)
          then (let size = length (remdups (vocations_in w (leader pt # memberList pt))) in
                Some (put_party P (pt\<lparr>extraExpRate := (if size > 1 then size * (10 + (size - 1) * 5) else 20)\<rparr>) w))
          else None }"

definition setSharedExperience :: "party_env \<Rightarrow> nat \<Rightarrow> nat \<Rightarrow> bool \<Rightarrow> party_world \<Rightarrow> (bool \<times> party_world) option" where
  "setSharedExperience env P p active w =
     do { pt \<leftarrow> parties w P;
          if leader pt \<noteq> p then Some (False, w)
          else if sharedExpActive pt = active then Some (True, w)
          else do {
            w2 \<leftarrow>
              (if active
               then do {
                 r \<leftarrow> canEnableSharedExperience env P (put_party P (pt\<lparr>sharedExpActive := True\<rparr>) w);
                 say_all [To (leader pt) (Party_Text (if r then ''Shared Experience is now active.''
                   else ''Shared Experience has been activated, but some members of your party are inactive.''))]
                   (put_party P (pt\<lparr>sharedExpActive := True, sharedExpEnabled := r\<rparr>) w) }
               else say_all [To (leader pt) (Party_Text ''Shared Experience has been deactivated.'')]
                      (put_party P (pt\<lparr>sharedExpActive := False\<rparr>) w));
            w3 \<leftarrow> updateAllPartyIcons P w2;
            Some (True, w3) } }"

definition shareExperience :: "party_env \<Rightarrow> nat \<Rightarrow> u64 \<Rightarrow> party_world \<Rightarrow> party_world option" where
  "shareExperience env P experience w =
     do { pt \<leftarrow> parties w P;
          let share = share_of env experience (extraExpRate pt) (length (memberList pt) + 1);
          say_all (map (\<lambda>m. To m (Share_Gained share)) (memberList pt) @ [To (leader pt) (Share_Gained share)]) w }"

definition updatePlayerTicks :: "party_env \<Rightarrow> nat \<Rightarrow> nat \<Rightarrow> u32 \<Rightarrow> party_world \<Rightarrow> party_world option" where
  "updatePlayerTicks env P p points w =
     do { pt \<leftarrow> parties w P;
          i \<leftarrow> online w p;
          if points \<noteq> 0 \<and> \<not> not_gain_in_fight i
          then updateSharedExperience env P (put_party P (pt\<lparr>ticksMap := (ticksMap pt)(p \<mapsto> now env)\<rparr>) w)
          else Some w }"

definition clearPlayerPoints :: "party_env \<Rightarrow> nat \<Rightarrow> nat \<Rightarrow> party_world \<Rightarrow> party_world option" where
  "clearPlayerPoints env P p w =
     do { pt \<leftarrow> parties w P;
          if ticksMap pt p \<noteq> None
          then updateSharedExperience env P (put_party P (pt\<lparr>ticksMap := (ticksMap pt)(p := None)\<rparr>) w)
          else Some w }"

section \<open>Changes of a party\<close>

definition disband_member :: "nat list \<Rightarrow> nat \<Rightarrow> nat \<Rightarrow> party_world \<Rightarrow> party_world option" where
  "disband_member members currentLeader m =
     say_all (Shield_Updated m # map (\<lambda>other. To other (Skull_Of m)) members @
       [To m (Skull_Of currentLeader), To currentLeader (Skull_Of m), Helpers_Updated m])"

definition disband :: "party_env \<Rightarrow> nat \<Rightarrow> party_world \<Rightarrow> party_world option" where
  "disband env P w =
     do { pt \<leftarrow> parties w P;
          if \<not> on_disband env P then Some w
          else do {
            let l = leader pt;
            let gone = ''Your party has been disbanded.'';
            w1 \<leftarrow> setParty l None w;
            w2 \<leftarrow> say_all [To l Close_Party_Channel, Shield_Updated l, Helpers_Updated l, To l (Skull_Of l), To l (Party_Text gone)] w1;
            w3 \<leftarrow> each (\<lambda>i w. do { w' \<leftarrow> removePartyInvitation P i w; say_all [To l (Shield_Of i)] w' }) (inviteList pt) w2;
            w4 \<leftarrow> each (\<lambda>m w. do { w' \<leftarrow> setParty m None w; say_all [To m Close_Party_Channel, To m (Party_Text gone)] w' })
                   (memberList pt) w3;
            w5 \<leftarrow> each (disband_member (memberList pt) l) (memberList pt) w4;
            Some (w5\<lparr>parties := (parties w5)(P := None)\<rparr>) } }"

definition passPartyLeadership :: "party_env \<Rightarrow> nat \<Rightarrow> nat \<Rightarrow> party_world \<Rightarrow> (bool \<times> party_world) option" where
  "passPartyLeadership env P p w =
     do { pt \<leftarrow> parties w P;
          its \<leftarrow> getParty w p;
          if leader pt = p \<or> its \<noteq> Some P then Some (False, w)
          else do {
            let old = leader pt;
            w1 \<leftarrow> change_party P (\<lambda>pt. pt\<lparr>memberList := remove1 p (memberList pt)\<rparr>) w;
            w2 \<leftarrow> broadcastPartyMessage P (name_of w p @ '' is now the leader of the party.'') True w1;
            w3 \<leftarrow> change_party P (\<lambda>pt. pt\<lparr>leader := p, memberList := old # memberList pt\<rparr>) w2;
            w4 \<leftarrow> updateSharedExperience env P w3;
            pt4 \<leftarrow> parties w4 P;
            w5 \<leftarrow> say_all (concat (map (\<lambda>m. [To m (Shield_Of old), To m (Shield_Of p)]) (memberList pt4 @ inviteList pt4 @ [p])) @
                    [To p (Party_Text ''You are now the leader of the party.'')]) w4;
            Some (True, w5) } }"

text \<open>A player is taken out of the party, the others are told, and what is shared is computed anew.\<close>

definition take_out :: "party_env \<Rightarrow> nat \<Rightarrow> nat \<Rightarrow> string \<Rightarrow> party_world \<Rightarrow> party_world option" where
  "take_out env P p text w1 =
     do { w2 \<leftarrow> change_party P (\<lambda>pt. pt\<lparr>memberList := remove1 p (memberList pt)\<rparr>) w1;
          w3 \<leftarrow> setParty p None w2;
          w4 \<leftarrow> say_all [To p Close_Party_Channel, Shield_Updated p, Helpers_Updated p] w3;
          pt4 \<leftarrow> parties w4 P;
          w5 \<leftarrow> say_all (concat (map (\<lambda>m. To m (Skull_Of p) # icons p m @ [Helpers_Updated m]) (memberList pt4)) @
                  [To (leader pt4) (Skull_Of p), To p (Skull_Of p)] @ icons p (leader pt4) @
                  [To p (Party_Text ''You have left the party.'')]) w4;
          w6 \<leftarrow> updateSharedExperience env P w5;
          w7 \<leftarrow> updateVocationsList P w6;
          w8 \<leftarrow> clearPlayerPoints env P p w7;
          broadcastPartyMessage P text False w8 }"

definition leaveParty :: "party_env \<Rightarrow> nat \<Rightarrow> nat \<Rightarrow> party_world \<Rightarrow> (bool \<times> party_world) option" where
  "leaveParty env P p w =
     do { pt \<leftarrow> parties w P;
          its \<leftarrow> getParty w p;
          if its \<noteq> Some P \<and> leader pt \<noteq> p then Some (False, w)
          else if \<not> on_leave env P p then Some (False, w)
          else do {
            let last_two = (memberList pt = [] \<or> length (memberList pt) = 1 \<and> inviteList pt = []);
            let missingLeader = (leader pt = p \<and> last_two);
            w1 \<leftarrow> (if leader pt = p \<and> \<not> last_two
                   then do { (_, w') \<leftarrow> passPartyLeadership env P (hd (memberList pt)) w; Some w' } else Some w);
            w9 \<leftarrow> take_out env P p (name_of w p @ '' has left the party.'') w1;
            pt9 \<leftarrow> parties w9 P;
            w10 \<leftarrow> (if missingLeader \<or> party_empty pt9 then disband env P w9 else Some w9);
            Some (True, w10) } }"

definition apostrophe :: "string \<Rightarrow> string" where
  "apostrophe name = name @ [CHR 0x27] @ (if name \<noteq> [] \<and> last name = CHR ''s'' then [] else ''s'')"

definition joinParty :: "party_env \<Rightarrow> nat \<Rightarrow> nat \<Rightarrow> party_world \<Rightarrow> (bool \<times> party_world) option" where
  "joinParty env P p w =
     do { pt \<leftarrow> parties w P;
          if \<not> on_join env P p then Some (False, w)
          else if p \<notin> set (inviteList pt) then Some (False, w)
          else do {
            w1 \<leftarrow> change_party P (\<lambda>pt. pt\<lparr>inviteList := remove1 p (inviteList pt)\<rparr>) w;
            w2 \<leftarrow> broadcastPartyMessage P (name_of w p @ '' has joined the party.'') False w1;
            w3 \<leftarrow> setParty p (Some P) w2;
            w4 \<leftarrow> say_all (Shield_Updated p # concat (map (\<lambda>m. To m (Skull_Of p) # icons p m) (memberList pt)) @
                    [To p (Skull_Of p), To (leader pt) (Skull_Of p)] @ icons p (leader pt)) w3;
            w5 \<leftarrow> change_party P (\<lambda>pt. pt\<lparr>memberList := memberList pt @ [p]\<rparr>) w4;
            w6 \<leftarrow> say_all [Helpers_Updated p] w5;
            w7 \<leftarrow> removePartyInvitation P p w6;
            w8 \<leftarrow> updateSharedExperience env P w7;
            w9 \<leftarrow> updateVocationsList P w8;
            w10 \<leftarrow> say_all [To p (Party_Text (''You have joined '' @ apostrophe (name_of w (leader pt)) @
                    '' party. Open the party channel to communicate with your companions.''))] w9;
            Some (True, w10) } }"

definition removeInvite :: "party_env \<Rightarrow> nat \<Rightarrow> nat \<Rightarrow> bool \<Rightarrow> party_world \<Rightarrow> (bool \<times> party_world) option" where
  "removeInvite env P p removeFromPlayer w =
     do { pt \<leftarrow> parties w P;
          if p \<notin> set (inviteList pt) then Some (False, w)
          else do {
            w1 \<leftarrow> change_party P (\<lambda>pt. pt\<lparr>inviteList := remove1 p (inviteList pt)\<rparr>) w;
            w2 \<leftarrow> say_all [To (leader pt) (Shield_Of p), To p (Shield_Of (leader pt))] w1;
            w3 \<leftarrow> (if removeFromPlayer then removePartyInvitation P p w2 else Some w2);
            pt3 \<leftarrow> parties w3 P;
            w4 \<leftarrow> (if party_empty pt3 then disband env P w3
                   else say_all (map Helpers_Updated (memberList pt3) @ [Helpers_Updated (leader pt3)]) w3);
            Some (True, w4) } }"

definition revokeInvitation :: "party_env \<Rightarrow> nat \<Rightarrow> nat \<Rightarrow> party_world \<Rightarrow> party_world option" where
  "revokeInvitation env P p w =
     do { pt \<leftarrow> parties w P;
          w1 \<leftarrow> say_all
            [To p (Party_Text (name_of w (leader pt) @ '' has revoked '' @ his w (leader pt) @ '' invitation.'')),
             To (leader pt) (Party_Text (''Invitation for '' @ name_of w p @ '' has been revoked.''))] w;
          (_, w2) \<leftarrow> removeInvite env P p True w1;
          Some w2 }"

definition isPlayerInvited :: "nat \<Rightarrow> nat \<Rightarrow> party_world \<Rightarrow> bool option" where
  "isPlayerInvited P p w = do { pt \<leftarrow> parties w P; Some (p \<in> set (inviteList pt)) }"

definition invitePlayer :: "nat \<Rightarrow> nat \<Rightarrow> party_world \<Rightarrow> (bool \<times> party_world) option" where
  "invitePlayer P p w =
     do { pt \<leftarrow> parties w P;
          if p \<in> set (inviteList pt) then Some (False, w)
          else do {
            let l = leader pt;
            w1 \<leftarrow> say_all ((if party_empty pt then [Shield_Updated l, To l (Skull_Of l)] else []) @
                    [To l (Party_Text (name_of w p @ '' has been invited.'' @
                       (if party_empty pt then '' Open the party channel to communicate with your members.'' else [])))]) w;
            w2 \<leftarrow> change_party P (\<lambda>pt. pt\<lparr>inviteList := inviteList pt @ [p]\<rparr>) w1;
            w3 \<leftarrow> say_all (map Helpers_Updated (memberList pt) @ [Helpers_Updated l, To l (Shield_Of p), To p (Shield_Of l)]) w2;
            w4 \<leftarrow> addPartyInvitation P p w3;
            w5 \<leftarrow> say_all [To p (Party_Text (name_of w l @ '' has invited you to '' @ his w l @ '' party.''))] w4;
            Some (True, w5) } }"

definition canOpenCorpse :: "nat \<Rightarrow> nat \<Rightarrow> party_world \<Rightarrow> bool option" where
  "canOpenCorpse P ownerId w =
     do { pt \<leftarrow> parties w P;
          Some (alive w ownerId \<and> (leader pt = ownerId \<or> party_of w ownerId = Some P)) }"

section \<open>Players and their requests\<close>

definition isInviting :: "nat \<Rightarrow> nat \<Rightarrow> party_world \<Rightarrow> bool option" where
  "isInviting p q w =
     do { its \<leftarrow> getParty w p;
          case its of
            None \<Rightarrow> Some False
          | Some P \<Rightarrow> do { pt \<leftarrow> parties w P; if leader pt \<noteq> p then Some False else isPlayerInvited P q w } }"

definition isPartner :: "nat \<Rightarrow> nat \<Rightarrow> party_world \<Rightarrow> bool" where
  "isPartner p q w \<longleftrightarrow> party_of w p \<noteq> None \<and> party_of w p = party_of w q"

datatype PartyShields =
    SHIELD_NONE | SHIELD_WHITEYELLOW | SHIELD_WHITEBLUE | SHIELD_BLUE | SHIELD_YELLOW | SHIELD_BLUE_SHAREDEXP
  | SHIELD_YELLOW_SHAREDEXP | SHIELD_BLUE_NOSHAREDEXP_BLINK | SHIELD_YELLOW_NOSHAREDEXP_BLINK | SHIELD_BLUE_NOSHAREDEXP
  | SHIELD_YELLOW_NOSHAREDEXP | SHIELD_GRAY

definition outsider_shield :: "nat \<Rightarrow> nat \<Rightarrow> party_world \<Rightarrow> PartyShields option" where
  "outsider_shield p q w =
     do { inviting \<leftarrow> isInviting q p w;
          Some (if inviting then SHIELD_WHITEYELLOW else if party_of w q \<noteq> None then SHIELD_GRAY else SHIELD_NONE) }"

definition shared_shield :: "party_env \<Rightarrow> nat \<Rightarrow> nat \<Rightarrow> PartyShields \<times> PartyShields \<times> PartyShields \<times> PartyShields \<Rightarrow> party_world \<Rightarrow> PartyShields option" where
  "shared_shield env P q shields w =
     do { pt \<leftarrow> parties w P;
          let (shared, unshared, blink, plain) = shields;
          if \<not> sharedExpActive pt then Some plain
          else if sharedExpEnabled pt then Some shared
          else do { r \<leftarrow> canUseSharedExperience env P q w; Some (if r then unshared else blink) } }"

definition getPartyShield :: "party_env \<Rightarrow> nat \<Rightarrow> nat \<Rightarrow> party_world \<Rightarrow> PartyShields option" where
  "getPartyShield env p q w =
     (case party_of w p of
        None \<Rightarrow> outsider_shield p q w
      | Some P \<Rightarrow>
          do { pt \<leftarrow> parties w P;
               if leader pt = q
               then shared_shield env P q (SHIELD_YELLOW_SHAREDEXP, SHIELD_YELLOW_NOSHAREDEXP, SHIELD_YELLOW_NOSHAREDEXP_BLINK, SHIELD_YELLOW) w
               else if party_of w q = Some P
               then shared_shield env P q (SHIELD_BLUE_SHAREDEXP, SHIELD_BLUE_NOSHAREDEXP, SHIELD_BLUE_NOSHAREDEXP_BLINK, SHIELD_BLUE) w
               else do { inviting \<leftarrow> isInviting p q w; if inviting then Some SHIELD_WHITEBLUE else outsider_shield p q w } })"

definition getHelpers :: "nat \<Rightarrow> nat list option \<Rightarrow> party_world \<Rightarrow> u16 option" where
  "getHelpers p guildMembers w =
     (case (guildMembers, party_of w p) of
        (Some ms, Some P) \<Rightarrow>
          do { pt \<leftarrow> parties w P; Some (of_nat (length (remdups (ms @ memberList pt @ inviteList pt @ [leader pt])))) }
      | (Some ms, None) \<Rightarrow> Some (of_nat (length ms))
      | (None, Some P) \<Rightarrow> do { pt \<leftarrow> parties w P; Some (of_nat (length (memberList pt) + length (inviteList pt) + 1)) }
      | (None, None) \<Rightarrow> Some 0)"

definition clearPartyInvitations :: "party_env \<Rightarrow> nat \<Rightarrow> party_world \<Rightarrow> party_world option" where
  "clearPartyInvitations env p w =
     do { w1 \<leftarrow> each (\<lambda>P w. do { (_, w') \<leftarrow> removeInvite env P p False w; Some w' }) (invitePartyList w p) w;
          Some (w1\<lparr>invitePartyList := (invitePartyList w1)(p := [])\<rparr>) }"

section \<open>Requests\<close>

text \<open>
  The requests that reach the server, with the address that the allocator would give to a new party. A player
  who is not online has no request answered; \<open>alive\<close> is the look-up by id.
\<close>

definition playerInviteToParty :: "nat \<Rightarrow> nat \<Rightarrow> nat \<Rightarrow> party_world \<Rightarrow> party_world option" where
  "playerInviteToParty newP p q w =
     (if \<not> alive w p \<or> \<not> alive w q then Some w
      else do {
        inviting \<leftarrow> isInviting q p w;
        if inviting then Some w
        else if party_of w q \<noteq> None then say_all [To p (Party_Text (name_of w q @ '' is already in a party.''))] w
        else (case party_of w p of
            None \<Rightarrow> do { w1 \<leftarrow> setParty p (Some newP) (put_party newP (new_party p) w); (_, w2) \<leftarrow> invitePlayer newP q w1; Some w2 }
          | Some P \<Rightarrow> do { pt \<leftarrow> parties w P;
              if leader pt \<noteq> p then Some w else do { (_, w2) \<leftarrow> invitePlayer P q w; Some w2 } }) })"

definition playerJoinParty :: "party_env \<Rightarrow> nat \<Rightarrow> nat \<Rightarrow> party_world \<Rightarrow> party_world option" where
  "playerJoinParty env p l w =
     (if \<not> alive w p \<or> \<not> alive w l then Some w
      else do {
        inviting \<leftarrow> isInviting l p w;
        if \<not> inviting then Some w
        else (case party_of w l of
            None \<Rightarrow> Some w
          | Some P \<Rightarrow> do { pt \<leftarrow> parties w P;
              if leader pt \<noteq> l then Some w
              else if party_of w p \<noteq> None then say_all [To p (Party_Text ''You are already in a party.'')] w
              else do { (_, w2) \<leftarrow> joinParty env P p w; Some w2 } }) })"

definition playerRevokePartyInvitation :: "party_env \<Rightarrow> nat \<Rightarrow> nat \<Rightarrow> party_world \<Rightarrow> party_world option" where
  "playerRevokePartyInvitation env p q w =
     (if \<not> alive w p then Some w
      else (case party_of w p of
          None \<Rightarrow> Some w
        | Some P \<Rightarrow> do { pt \<leftarrow> parties w P;
            if leader pt \<noteq> p \<or> \<not> alive w q then Some w
            else do { inviting \<leftarrow> isInviting p q w; if \<not> inviting then Some w else revokeInvitation env P q w } }))"

definition playerPassPartyLeadership :: "party_env \<Rightarrow> nat \<Rightarrow> nat \<Rightarrow> party_world \<Rightarrow> party_world option" where
  "playerPassPartyLeadership env p q w =
     (if \<not> alive w p then Some w
      else (case party_of w p of
          None \<Rightarrow> Some w
        | Some P \<Rightarrow> do { pt \<leftarrow> parties w P;
            if leader pt \<noteq> p \<or> \<not> alive w q \<or> \<not> isPartner p q w then Some w
            else do { (_, w2) \<leftarrow> passPartyLeadership env P q w; Some w2 } }))"

definition fighting :: "party_world \<Rightarrow> nat \<Rightarrow> bool" where
  "fighting w p = (case online w p of Some i \<Rightarrow> in_fight i | None \<Rightarrow> False)"

definition playerLeaveParty :: "party_env \<Rightarrow> nat \<Rightarrow> party_world \<Rightarrow> party_world option" where
  "playerLeaveParty env p w =
     (if \<not> alive w p then Some w
      else (case party_of w p of
          None \<Rightarrow> Some w
        | Some P \<Rightarrow> if fighting w p then Some w else do { (_, w2) \<leftarrow> leaveParty env P p w; Some w2 }))"

definition playerEnableSharedPartyExperience :: "party_env \<Rightarrow> nat \<Rightarrow> bool \<Rightarrow> party_world \<Rightarrow> party_world option" where
  "playerEnableSharedPartyExperience env p active w =
     (if \<not> alive w p then Some w
      else (case party_of w p of
          None \<Rightarrow> Some w
        | Some P \<Rightarrow> if fighting w p then Some w else do { (_, w2) \<leftarrow> setSharedExperience env P p active w; Some w2 }))"

text \<open>A player comes and goes: what logging out does to parties before the player is deleted.\<close>

definition player_enters :: "nat \<Rightarrow> player_info \<Rightarrow> party_world \<Rightarrow> party_world" where
  "player_enters p i w = w\<lparr>online := (online w)(p \<mapsto> i), party_of := (party_of w)(p := None),
     invitePartyList := (invitePartyList w)(p := [])\<rparr>"

definition player_leaves :: "party_env \<Rightarrow> nat \<Rightarrow> party_world \<Rightarrow> party_world option" where
  "player_leaves env p w =
     (if \<not> alive w p then Some w
      else do {
        w1 \<leftarrow> clearPartyInvitations env p w;
        w2 \<leftarrow> (case party_of w1 p of None \<Rightarrow> Some w1 | Some P \<Rightarrow> do { (_, w') \<leftarrow> leaveParty env P p w1; Some w' });
        Some (w2\<lparr>online := (online w2)(p := None)\<rparr>) })"

definition player_changes :: "party_env \<Rightarrow> nat \<Rightarrow> player_info \<Rightarrow> party_world \<Rightarrow> party_world option" where
  "player_changes env p i w =
     (if \<not> alive w p then Some w
      else let w1 = w\<lparr>online := (online w)(p \<mapsto> i)\<rparr> in
        (case party_of w p of None \<Rightarrow> Some w1 | Some P \<Rightarrow> updateSharedExperience env P w1))"

definition player_fights :: "party_env \<Rightarrow> nat \<Rightarrow> u32 \<Rightarrow> party_world \<Rightarrow> party_world option" where
  "player_fights env p points w =
     (if \<not> alive w p then Some w
      else (case party_of w p of None \<Rightarrow> Some w | Some P \<Rightarrow> updatePlayerTicks env P p points w))"

definition player_idles :: "party_env \<Rightarrow> nat \<Rightarrow> party_world \<Rightarrow> party_world option" where
  "player_idles env p w =
     (if \<not> alive w p then Some w
      else (case party_of w p of None \<Rightarrow> Some w | Some P \<Rightarrow> clearPlayerPoints env P p w))"

definition player_gains :: "party_env \<Rightarrow> nat \<Rightarrow> u64 \<Rightarrow> party_world \<Rightarrow> party_world option" where
  "player_gains env p experience w =
     (if \<not> alive w p then Some w
      else (case party_of w p of
          None \<Rightarrow> Some w
        | Some P \<Rightarrow> do { pt \<leftarrow> parties w P;
            if sharedExpActive pt \<and> sharedExpEnabled pt then shareExperience env P experience w else Some w }))"

datatype party_request =
    Invite nat nat nat | Join nat nat | Revoke nat nat | Pass_Leadership nat nat | Leave nat | Share nat bool
  | Log_In nat player_info | Log_Out nat | Player_Change nat player_info | Fight nat u32 | Idle nat | Gain nat u64

fun party_perform :: "party_env \<Rightarrow> party_request \<Rightarrow> party_world \<Rightarrow> party_world option" where
  "party_perform env (Invite newP p q) w = playerInviteToParty newP p q w"
| "party_perform env (Join p l) w = playerJoinParty env p l w"
| "party_perform env (Revoke p q) w = playerRevokePartyInvitation env p q w"
| "party_perform env (Pass_Leadership p q) w = playerPassPartyLeadership env p q w"
| "party_perform env (Leave p) w = playerLeaveParty env p w"
| "party_perform env (Share p active) w = playerEnableSharedPartyExperience env p active w"
| "party_perform env (Log_In p i) w = Some (if alive w p then w else player_enters p i w)"
| "party_perform env (Log_Out p) w = player_leaves env p w"
| "party_perform env (Player_Change p i) w = player_changes env p i w"
| "party_perform env (Fight p points) w = player_fights env p points w"
| "party_perform env (Idle p) w = player_idles env p w"
| "party_perform env (Gain p experience) w = player_gains env p experience w"

text \<open>The allocator gives the address of a new party: one at which no party is.\<close>

fun fresh_request :: "party_request \<Rightarrow> party_world \<Rightarrow> bool" where
  "fresh_request (Invite newP p q) w \<longleftrightarrow> parties w newP = None"
| "fresh_request _ w \<longleftrightarrow> True"

definition empty_world :: party_world where
  "empty_world = \<lparr>online = Map.empty, party_of = (\<lambda>_. None), invitePartyList = (\<lambda>_. []), parties = Map.empty, pw_events = []\<rparr>"

end
