(* ===== verification/Party_Rosters.thy ===== *)
theory Party_Rosters imports Parties begin

text \<open>
  Who is in which party, abstractly: the players online, the party and the invitations of each, and of each
  party its leader, members and invited players. Every operation of \<open>Parties\<close> returns and changes this view
  as the operation on rosters of the same name does; on rosters the two directions of the membership and of
  the invitations stay in agreement.
\<close>

section \<open>Rosters\<close>

type_synonym roster = "nat \<times> nat list \<times> nat list"

record rosters =
  present :: "nat \<Rightarrow> bool"
  its_party :: "nat \<Rightarrow> nat option"
  its_invitations :: "nat \<Rightarrow> nat list"
  roster_of :: "nat \<Rightarrow> roster option"

definition roster :: "party \<Rightarrow> roster" where
  "roster pt = (leader pt, memberList pt, inviteList pt)"

definition view :: "party_world \<Rightarrow> rosters" where
  "view w = \<lparr>present = alive w, its_party = party_of w, its_invitations = invitePartyList w,
     roster_of = (\<lambda>P. map_option roster (parties w P))\<rparr>"

lemma view_sel [simp]: "present (view w) = alive w" "its_party (view w) = party_of w" "its_invitations (view w) = invitePartyList w"
  "roster_of (view w) P = map_option roster (parties w P)"
  by (simp_all add: view_def)

definition r_disband :: "nat \<Rightarrow> rosters \<Rightarrow> rosters" where
  "r_disband P v =
     (case roster_of v P of
        None \<Rightarrow> v
      | Some (l, ms, is) \<Rightarrow>
          v\<lparr>its_party := (\<lambda>p. if p = l \<or> p \<in> set ms then None else its_party v p),
            its_invitations := (\<lambda>p. if p \<in> set is then removeAll P (its_invitations v p) else its_invitations v p),
            roster_of := (roster_of v)(P := None)\<rparr>)"

definition r_change :: "nat \<Rightarrow> (roster \<Rightarrow> roster) \<Rightarrow> rosters \<Rightarrow> rosters" where
  "r_change P f v = v\<lparr>roster_of := (roster_of v)(P := map_option f (roster_of v P))\<rparr>"

definition r_set_party :: "nat \<Rightarrow> nat option \<Rightarrow> rosters \<Rightarrow> rosters" where
  "r_set_party p x v = v\<lparr>its_party := (its_party v)(p := x)\<rparr>"

definition r_uninvite :: "nat \<Rightarrow> nat \<Rightarrow> rosters \<Rightarrow> rosters" where
  "r_uninvite P p v = v\<lparr>its_invitations := (its_invitations v)(p := removeAll P (its_invitations v p))\<rparr>"

definition r_pass :: "nat \<Rightarrow> nat \<Rightarrow> rosters \<Rightarrow> rosters" where
  "r_pass P p v =
     (case roster_of v P of
        None \<Rightarrow> v
      | Some (l, ms, is) \<Rightarrow>
          if l = p \<or> its_party v p \<noteq> Some P then v else r_change P (\<lambda>_. (p, l # remove1 p ms, is)) v)"

definition r_leave :: "nat \<Rightarrow> nat \<Rightarrow> rosters \<Rightarrow> rosters" where
  "r_leave P p v =
     (case roster_of v P of
        None \<Rightarrow> v
      | Some (l, ms, is) \<Rightarrow>
          if its_party v p \<noteq> Some P \<and> l \<noteq> p then v
          else if l = p \<and> (ms = [] \<or> length ms = 1 \<and> is = []) then r_disband P v
          else
            let v1 = (if l = p then r_pass P (hd ms) v else v);
                v2 = r_set_party p None (r_change P (\<lambda>(l, ms, is). (l, remove1 p ms, is)) v1)
            in (case roster_of v2 P of Some (_, ms, is) \<Rightarrow> if ms = [] \<and> is = [] then r_disband P v2 else v2 | None \<Rightarrow> v2))"

definition r_join :: "nat \<Rightarrow> nat \<Rightarrow> rosters \<Rightarrow> rosters" where
  "r_join P p v =
     (case roster_of v P of
        None \<Rightarrow> v
      | Some (l, ms, is) \<Rightarrow>
          if p \<notin> set is then v
          else r_uninvite P p (r_set_party p (Some P) (r_change P (\<lambda>_. (l, ms @ [p], remove1 p is)) v)))"

definition r_remove_invite :: "nat \<Rightarrow> nat \<Rightarrow> bool \<Rightarrow> rosters \<Rightarrow> rosters" where
  "r_remove_invite P p fromPlayer v =
     (case roster_of v P of
        None \<Rightarrow> v
      | Some (l, ms, is) \<Rightarrow>
          if p \<notin> set is then v
          else
            let v1 = r_change P (\<lambda>_. (l, ms, remove1 p is)) v;
                v2 = (if fromPlayer then r_uninvite P p v1 else v1)
            in if ms = [] \<and> remove1 p is = [] then r_disband P v2 else v2)"

definition r_invite :: "nat \<Rightarrow> nat \<Rightarrow> rosters \<Rightarrow> rosters" where
  "r_invite P p v =
     (case roster_of v P of
        None \<Rightarrow> v
      | Some (l, ms, is) \<Rightarrow>
          if p \<in> set is then v
          else let v1 = r_change P (\<lambda>_. (l, ms, is @ [p])) v in
            (if P \<in> set (its_invitations v1 p) then v1
             else v1\<lparr>its_invitations := (its_invitations v1)(p := P # its_invitations v1 p)\<rparr>))"

section \<open>Results of operations\<close>

definition gives :: "'a option \<Rightarrow> ('a \<Rightarrow> bool) \<Rightarrow> bool" where
  "gives m Q \<longleftrightarrow> (\<exists>r. m = Some r \<and> Q r)"

lemma gives_simps [simp]: "gives (Some r) Q \<longleftrightarrow> Q r" "gives None Q \<longleftrightarrow> False"
  "gives (m \<bind> k) Q \<longleftrightarrow> gives m (\<lambda>r. gives (k r) Q)"
  by (auto simp: gives_def bind_eq_Some_conv)

lemma gives_mono: "gives m Q \<Longrightarrow> (\<And>r. Q r \<Longrightarrow> R r) \<Longrightarrow> gives m R"
  by (auto simp: gives_def)

lemma gives_if: "gives (if b then m else n) Q \<longleftrightarrow> (if b then gives m Q else gives n Q)"
  by simp

text \<open>An operation whose result has a given view.\<close>

definition shows_view :: "party_world option \<Rightarrow> rosters \<Rightarrow> bool" where
  "shows_view m v \<longleftrightarrow> gives m (\<lambda>w. view w = v)"

lemma shows_view_bind:
  "shows_view m v \<Longrightarrow> (\<And>w. view w = v \<Longrightarrow> shows_view (k w) u) \<Longrightarrow> shows_view (m \<bind> k) u"
  unfolding shows_view_def gives_simps by (erule gives_mono)

lemma shows_view_Some [simp]: "shows_view (Some w) v \<longleftrightarrow> view w = v"
  by (simp add: shows_view_def)

lemma shows_each:
  assumes "\<And>x v w. x \<in> set xs \<Longrightarrow> C v \<Longrightarrow> view w = v \<Longrightarrow> shows_view (f x w) (g x v)"
    "\<And>x v. x \<in> set xs \<Longrightarrow> C v \<Longrightarrow> C (g x v)" "C (view w)"
  shows "shows_view (each f xs w) (fold g xs (view w))"
  using assms
proof (induction xs arbitrary: w)
  case (Cons x xs)
  have "shows_view (f x w) (g x (view w))" using Cons.prems(1,3) by simp
  moreover have "shows_view (each f xs w') (fold g xs (g x (view w)))" if "view w' = g x (view w)" for w'
    using Cons.IH [of w'] Cons.prems that by simp
  ultimately show ?case by (simp add: shows_view_bind)
qed simp

section \<open>Steps that the view hardly sees\<close>

definition crew :: "party_world \<Rightarrow> nat \<Rightarrow> party \<Rightarrow> bool" where
  "crew w P pt \<longleftrightarrow> parties w P = Some pt \<and> alive w (leader pt) \<and> list_all (alive w) (memberList pt) \<and> list_all (alive w) (inviteList pt)"

lemma crewD: "crew w P pt \<Longrightarrow> parties w P = Some pt" "crew w P pt \<Longrightarrow> alive w (leader pt)"
  "crew w P pt \<Longrightarrow> m \<in> set (memberList pt) \<Longrightarrow> alive w m" "crew w P pt \<Longrightarrow> i \<in> set (inviteList pt) \<Longrightarrow> alive w i"
  by (auto simp: crew_def list_all_iff)

lemma crew_view:
  assumes "crew w P pt" "view w' = view w"
  obtains pt' where "crew w' P pt'" "roster pt' = roster pt"
proof -
  have "alive w' = alive w" "map_option roster (parties w' P) = map_option roster (parties w P)"
    using view_sel(1,4) [of w'] view_sel(1,4) [of w] assms(2) by (metis, metis)
  then show ?thesis using assms(1) that unfolding crew_def by (auto simp: roster_def)
qed

lemma view_events [simp]: "view (w\<lparr>pw_events := es\<rparr>) = view w" "alive (w\<lparr>pw_events := es\<rparr>) = alive w"
  by (simp_all add: view_def alive_def fun_eq_iff)

lemma alive_put [simp]: "alive (put_party P pt w) = alive w"
  by (simp add: put_party_def alive_def fun_eq_iff)

lemma parties_put [simp]: "parties (put_party P pt w) Q = (if Q = P then Some pt else parties w Q)"
  by (simp add: put_party_def)

lemma say_all_view: "list_all (\<lambda>e. list_all (alive w) (event_players e)) es \<Longrightarrow> shows_view (say_all es w) (view w)"
  by (simp add: say_all_def)

lemma put_same_roster: "parties w P = Some pt \<Longrightarrow> roster pt' = roster pt \<Longrightarrow> view (put_party P pt' w) = view w"
  by (simp add: view_def put_party_def alive_def fun_eq_iff)

lemma crew_put: "crew w P pt \<Longrightarrow> roster pt' = roster pt \<Longrightarrow> crew (put_party P pt' w) P pt'"
  by (simp add: crew_def roster_def)

lemma broadcast_view: "crew w P pt \<Longrightarrow> shows_view (broadcastPartyMessage P msg b w) (view w)"
  by (auto simp: broadcastPartyMessage_def crew_def list_all_iff intro!: say_all_view)

lemma icons_view: "crew w P pt \<Longrightarrow> shows_view (updateAllPartyIcons P w) (view w)"
  by (auto simp: updateAllPartyIcons_def crew_def list_all_iff Let_def intro!: say_all_view)

lemma alive_online: "alive w p \<Longrightarrow> \<exists>i. online w p = Some i"
  by (auto simp: alive_def)

lemma highest_gives: "crew w P pt \<Longrightarrow> gives (highest_level w pt) (\<lambda>_. True)"
proof -
  have *: "gives (each (\<lambda>m h. do { i \<leftarrow> online w m; Some (if pl_level i > h then pl_level i else h) }) ms h) (\<lambda>_. True)"
    if "list_all (alive w) ms" for ms h
    using that by (induction ms arbitrary: h) (auto dest: alive_online)
  assume "crew w P pt"
  then show ?thesis using * by (auto simp: highest_level_def crew_def dest: alive_online)
qed

lemma canUse_gives: "crew w P pt \<Longrightarrow> alive w p \<Longrightarrow> gives (canUseSharedExperience env P p w) (\<lambda>_. True)"
  using highest_gives [of w P pt]
  by (auto simp: canUseSharedExperience_def crew_def dest!: alive_online elim!: gives_mono)

lemma canEnable_gives:
  assumes "crew w P pt"
  shows "gives (canEnableSharedExperience env P w) (\<lambda>_. True)"
proof -
  have "gives (all_use env P ms w) (\<lambda>_. True)" if "list_all (alive w) ms" for ms
    using that by (induction ms) (auto intro!: gives_mono [OF canUse_gives [OF assms]])
  then have "gives (all_use env P (memberList pt) w) (\<lambda>_. True)" using assms by (simp add: crew_def)
  then show ?thesis
    using crewD(1,2) [OF assms] by (auto simp: canEnableSharedExperience_def intro!: gives_mono [OF canUse_gives [OF assms]])
qed

lemma updateShared_view:
  assumes "crew w P pt"
  shows "shows_view (updateSharedExperience env P w) (view w)"
proof -
  have "shows_view (updateAllPartyIcons P (put_party P (pt\<lparr>sharedExpEnabled := r\<rparr>) w)) (view w)" for r
    using icons_view [OF crew_put [OF assms, of "pt\<lparr>sharedExpEnabled := r\<rparr>"]] put_same_roster [OF crewD(1) [OF assms], of "pt\<lparr>sharedExpEnabled := r\<rparr>"]
    by (simp add: roster_def)
  then show ?thesis
    using crewD(1) [OF assms] canEnable_gives [OF assms, of env]
    by (auto simp: updateSharedExperience_def shows_view_def elim!: gives_mono)
qed

lemma updateVocations_view: "crew w P pt \<Longrightarrow> shows_view (updateVocationsList P w) (view w)"
  by (auto simp: updateVocationsList_def crew_def Let_def roster_def intro!: put_same_roster)

lemma clearPoints_view:
  assumes "crew w P pt"
  shows "shows_view (clearPlayerPoints env P p w) (view w)"
proof -
  let ?pt = "pt\<lparr>ticksMap := (ticksMap pt)(p := None)\<rparr>"
  have "roster ?pt = roster pt" by (simp add: roster_def)
  then show ?thesis
    using updateShared_view [OF crew_put [OF assms, of ?pt], of env] put_same_roster [OF crewD(1) [OF assms], of ?pt] crewD(1) [OF assms]
    by (simp add: clearPlayerPoints_def)
qed

lemma updateTicks_view:
  assumes "crew w P pt" "alive w p"
  shows "shows_view (updatePlayerTicks env P p points w) (view w)"
proof -
  let ?pt = "pt\<lparr>ticksMap := (ticksMap pt)(p \<mapsto> now env)\<rparr>"
  have "roster ?pt = roster pt" by (simp add: roster_def)
  then show ?thesis
    using updateShared_view [OF crew_put [OF assms(1), of ?pt], of env] put_same_roster [OF crewD(1) [OF assms(1)], of ?pt] crewD(1) [OF assms(1)]
      alive_online [OF assms(2)]
    by (auto simp: updatePlayerTicks_def)
qed

section \<open>Operations as changes of the view\<close>

definition manned :: "rosters \<Rightarrow> nat \<Rightarrow> bool" where
  "manned v P \<longleftrightarrow> (case roster_of v P of None \<Rightarrow> False
     | Some (l, ms, is) \<Rightarrow> present v l \<and> list_all (present v) ms \<and> list_all (present v) is)"

lemma manned_crew:
  assumes "manned v P" "view w = v"
  obtains pt where "crew w P pt" "roster_of v P = Some (roster pt)"
proof -
  obtain pt where "parties w P = Some pt" using assms by (auto simp: manned_def view_def split: option.splits)
  then show ?thesis using assms that [of pt] by (auto simp: manned_def crew_def view_def roster_def)
qed

lemma view_present: "view w = v \<Longrightarrow> alive w = present v" "view w = v \<Longrightarrow> party_of w = its_party v"
  "view w = v \<Longrightarrow> invitePartyList w = its_invitations v" "view w = v \<Longrightarrow> map_option roster (parties w P) = roster_of v P"
  by auto

lemma r_sel [simp]:
  "present (r_change P f v) = present v" "its_party (r_change P f v) = its_party v" "its_invitations (r_change P f v) = its_invitations v"
  "roster_of (r_change P f v) Q = (if Q = P then map_option f (roster_of v P) else roster_of v Q)"
  "present (r_set_party p x v) = present v" "its_party (r_set_party p x v) = (its_party v)(p := x)"
  "its_invitations (r_set_party p x v) = its_invitations v" "roster_of (r_set_party p x v) = roster_of v"
  "present (r_uninvite P p v) = present v" "its_party (r_uninvite P p v) = its_party v"
  "its_invitations (r_uninvite P p v) = (its_invitations v)(p := removeAll P (its_invitations v p))"
  "roster_of (r_uninvite P p v) = roster_of v"
  by (simp_all add: r_change_def r_set_party_def r_uninvite_def)

lemma manned_kept [simp]: "manned (r_set_party p x v) P = manned v P" "manned (r_uninvite Q p v) P = manned v P"
  by (simp_all add: manned_def split: option.split)

lemma setParty_shows: "view w = v \<Longrightarrow> present v p \<Longrightarrow> shows_view (setParty p x w) (r_set_party p x v)"
  by (auto simp: setParty_def r_set_party_def view_def alive_def fun_eq_iff)

lemma removePartyInvitation_shows: "view w = v \<Longrightarrow> present v p \<Longrightarrow> shows_view (removePartyInvitation P p w) (r_uninvite P p v)"
  by (auto simp: removePartyInvitation_def r_uninvite_def view_def alive_def fun_eq_iff)

lemma change_party_shows:
  "view w = v \<Longrightarrow> manned v P \<Longrightarrow> (\<And>pt. roster (f pt) = g (roster pt)) \<Longrightarrow> shows_view (change_party P f w) (r_change P g v)"
  by (auto simp: change_party_def r_change_def manned_def view_def alive_def put_party_def fun_eq_iff split: option.splits)

lemma say_all_shows:
  "view w = v \<Longrightarrow> list_all (\<lambda>e. list_all (present v) (event_players e)) es \<Longrightarrow> shows_view (say_all es w) v"
  using say_all_view by auto

lemma broadcast_shows: "view w = v \<Longrightarrow> manned v P \<Longrightarrow> shows_view (broadcastPartyMessage P msg b w) v"
  using broadcast_view by (metis manned_crew)

lemma updateShared_shows: "view w = v \<Longrightarrow> manned v P \<Longrightarrow> shows_view (updateSharedExperience env P w) v"
  using updateShared_view by (metis manned_crew)

lemma updateVocations_shows: "view w = v \<Longrightarrow> manned v P \<Longrightarrow> shows_view (updateVocationsList P w) v"
  using updateVocations_view by (metis manned_crew)

lemma clearPoints_shows: "view w = v \<Longrightarrow> manned v P \<Longrightarrow> shows_view (clearPlayerPoints env P p w) v"
  using clearPoints_view by (metis manned_crew)

lemma shows_viewE:
  assumes "shows_view m v"
  obtains w where "m = Some w" "view w = v"
  using assms by (auto simp: shows_view_def gives_def)

lemma party_at:
  assumes "view w = v" "roster_of v P = Some (l, ms, is)"
  obtains pt where "parties w P = Some pt" "leader pt = l" "memberList pt = ms" "inviteList pt = is"
  using view_present(4) [OF assms(1), of P] assms(2) by (auto simp: roster_def)

lemma mannedE:
  assumes "manned v P"
  obtains l ms "is" where "roster_of v P = Some (l, ms, is)" "present v l" "list_all (present v) ms" "list_all (present v) is"
  using assms by (auto simp: manned_def split: option.splits)

lemma getParty_view: "view w = v \<Longrightarrow> present v p \<Longrightarrow> getParty w p = Some (its_party v p)"
  by (auto simp: getParty_def)

lemma list_all_remove1: "list_all Q xs \<Longrightarrow> list_all Q (remove1 x xs)"
  by (auto simp: list_all_iff dest: notin_set_remove1)

text \<open>Operations with an answer: the view of the world they leave.\<close>

definition leaves_view :: "(bool \<times> party_world) option \<Rightarrow> rosters \<Rightarrow> bool" where
  "leaves_view m v \<longleftrightarrow> (\<exists>b w. m = Some (b, w) \<and> view w = v)"

lemma leaves_view_simps [simp]: "leaves_view (Some (b, w)) v \<longleftrightarrow> view w = v"
  by (simp add: leaves_view_def)

lemma leaves_viewE:
  assumes "leaves_view m v"
  obtains b w where "m = Some (b, w)" "view w = v"
  using assms by (auto simp: leaves_view_def)

lemma pass_shows:
  assumes "view w = v" "manned v P" "present v p"
  shows "leaves_view (passPartyLeadership env P p w) (r_pass P p v)"
proof -
  obtain l ms "is" where r: "roster_of v P = Some (l, ms, is)" "present v l" "list_all (present v) ms" "list_all (present v) is"
    using mannedE [OF assms(2)] .
  obtain pt where pt: "parties w P = Some pt" "leader pt = l" "memberList pt = ms" "inviteList pt = is"
    using party_at [OF assms(1) r(1)] .
  note its = getParty_view [OF assms(1,3)]
  show ?thesis
  proof (cases "l = p \<or> its_party v p \<noteq> Some P")
    case True
    then show ?thesis by (simp add: passPartyLeadership_def pt its r_pass_def r assms(1))
  next
    case False
    define v1 where "v1 = r_change P (\<lambda>(l, ms, is). (l, remove1 p ms, is)) v"
    define v3 where "v3 = r_change P (\<lambda>(_, ms, is). (p, l # ms, is)) v1"
    have k1: "manned v1 P" using r by (simp add: v1_def manned_def list_all_remove1)
    have k3: "manned v3 P" "roster_of v3 P = Some (p, l # remove1 p ms, is)" "present v3 = present v"
      using r assms(3) by (simp_all add: v3_def v1_def manned_def list_all_remove1)
    obtain w1 where w1: "change_party P (\<lambda>pt. pt\<lparr>memberList := remove1 p (memberList pt)\<rparr>) w = Some w1" "view w1 = v1"
      by (rule shows_viewE [OF change_party_shows [OF assms(1,2), where g = "\<lambda>(l, ms, is). (l, remove1 p ms, is)"
            and f = "\<lambda>pt. pt\<lparr>memberList := remove1 p (memberList pt)\<rparr>"]]) (simp_all add: roster_def v1_def)
    obtain w2 where w2: "broadcastPartyMessage P (name_of w p @ '' is now the leader of the party.'') True w1 = Some w2" "view w2 = v1"
      by (rule shows_viewE [OF broadcast_shows [OF w1(2) k1]])
    obtain w3 where w3: "change_party P (\<lambda>pt. pt\<lparr>leader := p, memberList := l # memberList pt\<rparr>) w2 = Some w3" "view w3 = v3"
      by (rule shows_viewE [OF change_party_shows [OF w2(2) k1, where g = "\<lambda>(_, ms, is). (p, l # ms, is)"
            and f = "\<lambda>pt. pt\<lparr>leader := p, memberList := l # memberList pt\<rparr>"]]) (simp_all add: roster_def v3_def)
    obtain w4 where w4: "updateSharedExperience env P w3 = Some w4" "view w4 = v3"
      by (rule shows_viewE [OF updateShared_shows [OF w3(2) k3(1)]])
    obtain pt4 where pt4: "parties w4 P = Some pt4" "memberList pt4 = l # remove1 p ms" "inviteList pt4 = is"
      using party_at [OF w4(2) k3(2)] .
    let ?es = "concat (map (\<lambda>m. [To m (Shield_Of l), To m (Shield_Of p)]) ((l # remove1 p ms) @ is @ [p])) @
        [To p (Party_Text ''You are now the leader of the party.'')]"
    have "shows_view (say_all ?es w4) v3"
      by (rule say_all_shows [OF w4(2)])
        (use r list_all_remove1 [OF r(3), of p] assms(3) in \<open>auto simp: k3(3) list_all_iff\<close>)
    then obtain w5 where w5: "say_all ?es w4 = Some w5" "view w5 = v3" by (rule shows_viewE)
    have "r_pass P p v = v3" using False by (simp add: r_pass_def r(1) v3_def v1_def r_change_def)
    moreover have "passPartyLeadership env P p w = Some (True, w5)"
      unfolding passPartyLeadership_def using False w5(1) pt4(2,3) by (simp add: pt its Let_def w1(1) w2(1) w3(1) w4(1) pt4(1))
    ultimately show ?thesis using w5(2) by simp
  qed
qed

lemma each_shows:
  assumes "view w = v" "\<And>x v w. x \<in> set xs \<Longrightarrow> C v \<Longrightarrow> view w = v \<Longrightarrow> shows_view (f x w) (g x v)"
    "\<And>x v. x \<in> set xs \<Longrightarrow> C v \<Longrightarrow> C (g x v)" "C v"
  shows "shows_view (each f xs w) (fold g xs v)"
  using shows_each [of xs C f g w] assms by auto

lemma fold_uninvite:
  "fold (r_uninvite P) xs v =
     v\<lparr>its_invitations := (\<lambda>p. if p \<in> set xs then removeAll P (its_invitations v p) else its_invitations v p)\<rparr>"
  by (induction xs arbitrary: v) (auto simp: r_uninvite_def fun_eq_iff)

lemma fold_expel:
  "fold (\<lambda>m. r_set_party m None) xs v = v\<lparr>its_party := (\<lambda>p. if p \<in> set xs then None else its_party v p)\<rparr>"
  by (induction xs arbitrary: v) (auto simp: r_set_party_def fun_eq_iff)

lemma fold_same: "fold (\<lambda>_ v. v) xs v = v"
  by (induction xs) simp_all

lemma disband_shows:
  assumes "view w = v" "manned v P" "on_disband env P"
  shows "shows_view (disband env P w) (r_disband P v)"
proof -
  obtain l ms "is" where r: "roster_of v P = Some (l, ms, is)" "present v l" "list_all (present v) ms" "list_all (present v) is"
    using mannedE [OF assms(2)] .
  obtain pt where pt: "parties w P = Some pt" "leader pt = l" "memberList pt = ms" "inviteList pt = is"
    using party_at [OF assms(1) r(1)] .
  define v1 where "v1 = r_set_party l None v"
  define v3 where "v3 = fold (r_uninvite P) is v1"
  define v4 where "v4 = fold (\<lambda>m. r_set_party m None) ms v3"
  have p: "present v1 = present v" "present v3 = present v" "present v4 = present v"
    by (simp_all add: v1_def v3_def v4_def fold_uninvite fold_expel)
  obtain w1 where w1: "setParty l None w = Some w1" "view w1 = v1"
    unfolding v1_def by (rule shows_viewE [OF setParty_shows [OF assms(1) r(2)]])
  let ?es = "[To l Close_Party_Channel, Shield_Updated l, Helpers_Updated l, To l (Skull_Of l),
      To l (Party_Text ''Your party has been disbanded.'')]"
  have "shows_view (say_all ?es w1) v1" by (rule say_all_shows [OF w1(2)]) (simp add: p r)
  then obtain w2 where w2: "say_all ?es w1 = Some w2" "view w2 = v1" by (rule shows_viewE)
  obtain w3 where w3: "each (\<lambda>i w. do { w' \<leftarrow> removePartyInvitation P i w; say_all [To l (Shield_Of i)] w' }) is w2 = Some w3" "view w3 = v3"
  proof (rule shows_viewE)
    show "shows_view (each (\<lambda>i w. do { w' \<leftarrow> removePartyInvitation P i w; say_all [To l (Shield_Of i)] w' }) is w2) v3"
      unfolding v3_def
      by (rule each_shows [OF w2(2), where C = "\<lambda>u. present u = present v"])
        (use p r in \<open>auto simp: list_all_iff intro!: shows_view_bind [OF removePartyInvitation_shows] say_all_shows\<close>)
  qed
  obtain w4 where w4: "each (\<lambda>m w. do { w' \<leftarrow> setParty m None w;
      say_all [To m Close_Party_Channel, To m (Party_Text ''Your party has been disbanded.'')] w' }) ms w3 = Some w4" "view w4 = v4"
  proof (rule shows_viewE)
    show "shows_view (each (\<lambda>m w. do { w' \<leftarrow> setParty m None w;
        say_all [To m Close_Party_Channel, To m (Party_Text ''Your party has been disbanded.'')] w' }) ms w3) v4"
      unfolding v4_def
      by (rule each_shows [OF w3(2), where C = "\<lambda>u. present u = present v"])
        (use p r in \<open>auto simp: list_all_iff intro!: shows_view_bind [OF setParty_shows] say_all_shows\<close>)
  qed
  obtain w5 where w5: "each (disband_member ms l) ms w4 = Some w5" "view w5 = v4"
  proof (rule shows_viewE)
    have "shows_view (each (disband_member ms l) ms w4) (fold (\<lambda>_ v. v) ms v4)"
      by (rule each_shows [OF w4(2), where C = "\<lambda>u. present u = present v"])
        (use p r in \<open>auto simp: disband_member_def list_all_iff intro!: say_all_shows\<close>)
    then show "shows_view (each (disband_member ms l) ms w4) v4" by (simp add: fold_same)
  qed
  have "disband env P w = Some (w5\<lparr>parties := (parties w5)(P := None)\<rparr>)"
    by (simp add: disband_def pt assms(3) Let_def w1(1) w2(1) w3(1) w4(1) w5(1))
  moreover have "view (w5\<lparr>parties := (parties w5)(P := None)\<rparr>) = v4\<lparr>roster_of := (roster_of v4)(P := None)\<rparr>"
    unfolding w5(2) [symmetric] by (simp add: view_def alive_def fun_eq_iff)
  moreover have "v4\<lparr>roster_of := (roster_of v4)(P := None)\<rparr> = r_disband P v"
    unfolding v4_def v3_def v1_def fold_uninvite fold_expel by (auto simp: r_disband_def r(1) r_set_party_def fun_eq_iff)
  ultimately show ?thesis by simp
qed

lemma manned_roster:
  "roster_of v P = Some (l, ms, is) \<Longrightarrow> present v l \<Longrightarrow> list_all (present v) ms \<Longrightarrow> list_all (present v) is \<Longrightarrow> manned v P"
  by (simp add: manned_def)

lemma take_out_shows:
  assumes "view w = v" "manned v P" "present v p"
  shows "shows_view (take_out env P p text w) (r_set_party p None (r_change P (\<lambda>(l, ms, is). (l, remove1 p ms, is)) v))"
proof -
  obtain l ms "is" where r: "roster_of v P = Some (l, ms, is)" "present v l" "list_all (present v) ms" "list_all (present v) is"
    using mannedE [OF assms(2)] .
  define v2 where "v2 = r_change P (\<lambda>(l, ms, is). (l, remove1 p ms, is)) v"
  define v3 where "v3 = r_set_party p None v2"
  have k2: "manned v2 P" "present v2 = present v" using r by (simp_all add: v2_def manned_def list_all_remove1)
  have k3: "manned v3 P" "present v3 = present v" "roster_of v3 P = Some (l, remove1 p ms, is)"
    using k2 by (simp_all add: v3_def v2_def r)
  obtain w2 where w2: "change_party P (\<lambda>pt. pt\<lparr>memberList := remove1 p (memberList pt)\<rparr>) w = Some w2" "view w2 = v2"
    by (rule shows_viewE [OF change_party_shows [OF assms(1,2), where g = "\<lambda>(l, ms, is). (l, remove1 p ms, is)"
          and f = "\<lambda>pt. pt\<lparr>memberList := remove1 p (memberList pt)\<rparr>"]]) (simp_all add: roster_def v2_def)
  have "shows_view (setParty p None w2) v3" unfolding v3_def by (rule setParty_shows [OF w2(2)]) (simp add: k2 assms(3))
  then obtain w3 where w3: "setParty p None w2 = Some w3" "view w3 = v3" by (rule shows_viewE)
  let ?e4 = "[To p Close_Party_Channel, Shield_Updated p, Helpers_Updated p]"
  have "shows_view (say_all ?e4 w3) v3" by (rule say_all_shows [OF w3(2)]) (simp add: k3 assms(3))
  then obtain w4 where w4: "say_all ?e4 w3 = Some w4" "view w4 = v3" by (rule shows_viewE)
  obtain pt4 where pt4: "parties w4 P = Some pt4" "leader pt4 = l" "memberList pt4 = remove1 p ms"
    using party_at [OF w4(2) k3(3)] .
  let ?e5 = "concat (map (\<lambda>m. To m (Skull_Of p) # icons p m @ [Helpers_Updated m]) (remove1 p ms)) @
      [To l (Skull_Of p), To p (Skull_Of p)] @ icons p l @ [To p (Party_Text ''You have left the party.'')]"
  have "shows_view (say_all ?e5 w4) v3"
    by (rule say_all_shows [OF w4(2)]) (use r(2) list_all_remove1 [OF r(3), of p] assms(3) in \<open>auto simp: k3 list_all_iff icons_def\<close>)
  then obtain w5 where w5: "say_all ?e5 w4 = Some w5" "view w5 = v3" by (rule shows_viewE)
  obtain w6 where w6: "updateSharedExperience env P w5 = Some w6" "view w6 = v3"
    by (rule shows_viewE [OF updateShared_shows [OF w5(2) k3(1)]])
  obtain w7 where w7: "updateVocationsList P w6 = Some w7" "view w7 = v3"
    by (rule shows_viewE [OF updateVocations_shows [OF w6(2) k3(1)]])
  obtain w8 where w8: "clearPlayerPoints env P p w7 = Some w8" "view w8 = v3"
    by (rule shows_viewE [OF clearPoints_shows [OF w7(2) k3(1)]])
  obtain w9 where w9: "broadcastPartyMessage P text False w8 = Some w9" "view w9 = v3"
    by (rule shows_viewE [OF broadcast_shows [OF w8(2) k3(1)]])
  show ?thesis
    using w5(1) w9(2)
    by (simp add: take_out_def w2(1) w3(1) w4(1) pt4 w6(1) w7(1) w8(1) w9(1) v3_def v2_def)
qed

lemma leave_shows:
  assumes "view w = v" "manned v P" "present v p" "on_leave env P p" "on_disband env P"
    and single: "\<And>l ms is. roster_of v P = Some (l, ms, is) \<Longrightarrow> l \<notin> set ms \<and> distinct ms \<and> (\<forall>m \<in> set ms. its_party v m = Some P)"
  shows "leaves_view (leaveParty env P p w) (r_leave P p v)"
proof -
  obtain l ms "is" where r: "roster_of v P = Some (l, ms, is)" "present v l" "list_all (present v) ms" "list_all (present v) is"
    using mannedE [OF assms(2)] .
  obtain pt where pt: "parties w P = Some pt" "leader pt = l" "memberList pt = ms" "inviteList pt = is"
    using party_at [OF assms(1) r(1)] .
  note its = getParty_view [OF assms(1,3)] and s = single [OF r(1)]
  show ?thesis
  proof (cases "its_party v p \<noteq> Some P \<and> l \<noteq> p")
    case True
    then show ?thesis by (simp add: leaveParty_def pt its r_leave_def r(1) assms(1))
  next
    case False
    let ?last = "ms = [] \<or> length ms = 1 \<and> is = []"
    define v1 where "v1 = (if l = p \<and> \<not> ?last then r_pass P (hd ms) v else v)"
    define v2 where "v2 = r_set_party p None (r_change P (\<lambda>(l, ms, is). (l, remove1 p ms, is)) v1)"
    have hd: "present v (hd ms)" "l \<noteq> hd ms" "its_party v (hd ms) = Some P" if "ms \<noteq> []"
      using that r(3) s by (auto simp: list_all_iff)
    have k1: "manned v1 P" "present v1 = present v"
      using r hd by (auto simp: v1_def r_pass_def manned_def list_all_remove1)
    have "\<exists>w1. (if l = p \<and> \<not> ?last then do { (_, w') \<leftarrow> passPartyLeadership env P (hd ms) w; Some w' } else Some w) = Some w1 \<and> view w1 = v1"
    proof (cases "l = p \<and> \<not> ?last")
      case True
      then show ?thesis
        using pass_shows [OF assms(1,2) hd(1), of env] by (auto simp: v1_def leaves_view_def)
    qed (auto simp: v1_def assms(1))
    then obtain w1 where w1: "(if l = p \<and> \<not> ?last then do { (_, w') \<leftarrow> passPartyLeadership env P (hd ms) w; Some w' } else Some w) = Some w1"
      "view w1 = v1" by blast
    have p1: "present v1 p" using assms(3) k1(2) by simp
    obtain w9 where w9: "take_out env P p (name_of w p @ '' has left the party.'') w1 = Some w9" "view w9 = v2"
      unfolding v2_def by (rule shows_viewE [OF take_out_shows [OF w1(2) k1(1) p1]])
    obtain l2 ms2 is2 where r2: "roster_of v2 P = Some (l2, ms2, is2)"
      using k1(1) by (auto simp: v2_def manned_def split: option.splits)
    have k2: "manned v2 P" "present v2 = present v"
      using k1 by (auto simp: v2_def manned_def list_all_remove1 split: option.splits)
    obtain pt9 where pt9: "parties w9 P = Some pt9" "memberList pt9 = ms2" "inviteList pt9 = is2"
      using party_at [OF w9(2) r2] .
    define gone where "gone \<longleftrightarrow> l = p \<and> ?last \<or> ms2 = [] \<and> is2 = []"
    have "\<exists>w10. (if l = p \<and> ?last \<or> party_empty pt9 then disband env P w9 else Some w9) = Some w10 \<and>
        view w10 = (if gone then r_disband P v2 else v2)"
      using disband_shows [OF w9(2) k2(1) assms(5)] w9(2) pt9 by (auto simp: gone_def party_empty_def shows_view_def gives_def)
    then obtain w10 where w10: "(if l = p \<and> ?last \<or> party_empty pt9 then disband env P w9 else Some w9) = Some w10"
        "view w10 = (if gone then r_disband P v2 else v2)" by blast
    have "leaveParty env P p w =
        do { w1 \<leftarrow> (if l = p \<and> \<not> ?last then do { (_, w') \<leftarrow> passPartyLeadership env P (hd ms) w; Some w' } else Some w);
             w9 \<leftarrow> take_out env P p (name_of w p @ '' has left the party.'') w1;
             pt9 \<leftarrow> parties w9 P;
             w10 \<leftarrow> (if l = p \<and> ?last \<or> party_empty pt9 then disband env P w9 else Some w9);
             Some (True, w10) }"
      using False assms(4) by (auto simp: leaveParty_def pt its Let_def)
    then have "leaveParty env P p w = Some (True, w10)"
      unfolding w1(1) by (simp only: bind.bind_lunit w9(1) pt9(1) w10(1))
    moreover have "r_leave P p v = (if gone then r_disband P v2 else v2)"
    proof (cases "l = p \<and> ?last")
      case True
      then have "p \<notin> set ms" using s by simp
      then have "r_disband P v2 = r_disband P v"
        using True by (auto simp: v2_def v1_def r_disband_def r(1) r_change_def r_set_party_def remove1_idem fun_eq_iff)
      then show ?thesis using True False by (simp add: r_leave_def r(1) gone_def)
    next
      case False2: False
      then have e: "(if l = p then r_pass P (hd ms) v else v) = v1" by (auto simp: v1_def)
      have "r_leave P p v = (case roster_of v2 P of Some (_, ms, is) \<Rightarrow> if ms = [] \<and> is = [] then r_disband P v2 else v2 | None \<Rightarrow> v2)"
        unfolding r_leave_def r(1) option.case prod.case if_not_P [OF False] if_not_P [OF False2] Let_def e v2_def [symmetric] by (rule refl)
      then show ?thesis using False2 by (auto simp: r2 gone_def)
    qed
    ultimately show ?thesis using w10(2) by simp
  qed
qed

lemma join_shows:
  assumes "view w = v" "manned v P"
  shows "if on_join env P p then leaves_view (joinParty env P p w) (r_join P p v) else leaves_view (joinParty env P p w) v"
proof -
  obtain l ms "is" where r: "roster_of v P = Some (l, ms, is)" "present v l" "list_all (present v) ms" "list_all (present v) is"
    using mannedE [OF assms(2)] .
  obtain pt where pt: "parties w P = Some pt" "leader pt = l" "memberList pt = ms" "inviteList pt = is"
    using party_at [OF assms(1) r(1)] .
  show ?thesis
  proof (cases "on_join env P p \<and> p \<in> set is")
    case False
    then show ?thesis by (auto simp: joinParty_def pt r_join_def r(1) assms(1))
  next
    case True
    then have p: "present v p" using r(4) by (simp add: list_all_iff)
    define v1 where "v1 = r_change P (\<lambda>(l, ms, is). (l, ms, remove1 p is)) v"
    define v3 where "v3 = r_set_party p (Some P) v1"
    define v5 where "v5 = r_change P (\<lambda>(l, ms, is). (l, ms @ [p], is)) v3"
    define v7 where "v7 = r_uninvite P p v5"
    have k: "present v1 = present v" "present v3 = present v" "present v5 = present v" "present v7 = present v"
      "manned v1 P" "manned v3 P" "manned v5 P" "manned v7 P"
      using r p by (simp_all add: v1_def v3_def v5_def v7_def manned_def list_all_remove1)
    obtain w1 where w1: "change_party P (\<lambda>pt. pt\<lparr>inviteList := remove1 p (inviteList pt)\<rparr>) w = Some w1" "view w1 = v1"
      by (rule shows_viewE [OF change_party_shows [OF assms(1,2), where g = "\<lambda>(l, ms, is). (l, ms, remove1 p is)"
            and f = "\<lambda>pt. pt\<lparr>inviteList := remove1 p (inviteList pt)\<rparr>"]]) (simp_all add: roster_def v1_def)
    obtain w2 where w2: "broadcastPartyMessage P (name_of w p @ '' has joined the party.'') False w1 = Some w2" "view w2 = v1"
      by (rule shows_viewE [OF broadcast_shows [OF w1(2) k(5)]])
    have "shows_view (setParty p (Some P) w2) v3" unfolding v3_def by (rule setParty_shows [OF w2(2)]) (simp add: k p)
    then obtain w3 where w3: "setParty p (Some P) w2 = Some w3" "view w3 = v3" by (rule shows_viewE)
    let ?e4 = "Shield_Updated p # concat (map (\<lambda>m. To m (Skull_Of p) # icons p m) ms) @
        [To p (Skull_Of p), To l (Skull_Of p)] @ icons p l"
    have "shows_view (say_all ?e4 w3) v3"
      by (rule say_all_shows [OF w3(2)]) (use r p in \<open>auto simp: k list_all_iff icons_def\<close>)
    then obtain w4 where w4: "say_all ?e4 w3 = Some w4" "view w4 = v3" by (rule shows_viewE)
    obtain w5 where w5: "change_party P (\<lambda>pt. pt\<lparr>memberList := memberList pt @ [p]\<rparr>) w4 = Some w5" "view w5 = v5"
      by (rule shows_viewE [OF change_party_shows [OF w4(2) k(6), where g = "\<lambda>(l, ms, is). (l, ms @ [p], is)"
            and f = "\<lambda>pt. pt\<lparr>memberList := memberList pt @ [p]\<rparr>"]]) (simp_all add: roster_def v5_def)
    have "shows_view (say_all [Helpers_Updated p] w5) v5" by (rule say_all_shows [OF w5(2)]) (simp add: k p)
    then obtain w6 where w6: "say_all [Helpers_Updated p] w5 = Some w6" "view w6 = v5" by (rule shows_viewE)
    have "shows_view (removePartyInvitation P p w6) v7" unfolding v7_def by (rule removePartyInvitation_shows [OF w6(2)]) (simp add: k p)
    then obtain w7 where w7: "removePartyInvitation P p w6 = Some w7" "view w7 = v7" by (rule shows_viewE)
    obtain w8 where w8: "updateSharedExperience env P w7 = Some w8" "view w8 = v7"
      by (rule shows_viewE [OF updateShared_shows [OF w7(2) k(8)]])
    obtain w9 where w9: "updateVocationsList P w8 = Some w9" "view w9 = v7"
      by (rule shows_viewE [OF updateVocations_shows [OF w8(2) k(8)]])
    let ?e10 = "[To p (Party_Text (''You have joined '' @ apostrophe (name_of w l) @
        '' party. Open the party channel to communicate with your companions.''))]"
    have "shows_view (say_all ?e10 w9) v7" by (rule say_all_shows [OF w9(2)]) (simp add: k p)
    then obtain w10 where w10: "say_all ?e10 w9 = Some w10" "view w10 = v7" by (rule shows_viewE)
    have "joinParty env P p w = Some (True, w10)"
      using True w4(1) w10(1) by (simp add: joinParty_def pt w1(1) w2(1) w3(1) w5(1) w6(1) w7(1) w8(1) w9(1))
    moreover have "r_join P p v = v7"
      using True by (simp add: r_join_def r(1) v7_def v5_def v3_def v1_def r_change_def r_set_party_def)
    ultimately show ?thesis using True w10(2) by simp
  qed
qed

lemma removeInvite_shows:
  assumes "view w = v" "manned v P" "on_disband env P"
  shows "leaves_view (removeInvite env P p b w) (r_remove_invite P p b v)"
proof -
  obtain l ms "is" where r: "roster_of v P = Some (l, ms, is)" "present v l" "list_all (present v) ms" "list_all (present v) is"
    using mannedE [OF assms(2)] .
  obtain pt where pt: "parties w P = Some pt" "leader pt = l" "memberList pt = ms" "inviteList pt = is"
    using party_at [OF assms(1) r(1)] .
  show ?thesis
  proof (cases "p \<in> set is")
    case False
    then show ?thesis by (simp add: removeInvite_def pt r_remove_invite_def r(1) assms(1))
  next
    case True
    then have p: "present v p" using r(4) by (simp add: list_all_iff)
    define v1 where "v1 = r_change P (\<lambda>(l, ms, is). (l, ms, remove1 p is)) v"
    define v3 where "v3 = (if b then r_uninvite P p v1 else v1)"
    have k: "present v1 = present v" "present v3 = present v" "manned v1 P" "manned v3 P" "roster_of v3 P = Some (l, ms, remove1 p is)"
      using r p by (simp_all add: v1_def v3_def manned_def list_all_remove1)
    obtain w1 where w1: "change_party P (\<lambda>pt. pt\<lparr>inviteList := remove1 p (inviteList pt)\<rparr>) w = Some w1" "view w1 = v1"
      by (rule shows_viewE [OF change_party_shows [OF assms(1,2), where g = "\<lambda>(l, ms, is). (l, ms, remove1 p is)"
            and f = "\<lambda>pt. pt\<lparr>inviteList := remove1 p (inviteList pt)\<rparr>"]]) (simp_all add: roster_def v1_def)
    have "shows_view (say_all [To l (Shield_Of p), To p (Shield_Of l)] w1) v1"
      by (rule say_all_shows [OF w1(2)]) (simp add: k p r)
    then obtain w2 where w2: "say_all [To l (Shield_Of p), To p (Shield_Of l)] w1 = Some w2" "view w2 = v1" by (rule shows_viewE)
    have "shows_view (if b then removePartyInvitation P p w2 else Some w2) v3"
      using removePartyInvitation_shows [OF w2(2), of p P] by (simp add: v3_def k p w2(2))
    then obtain w3 where w3: "(if b then removePartyInvitation P p w2 else Some w2) = Some w3" "view w3 = v3" by (rule shows_viewE)
    obtain pt3 where pt3: "parties w3 P = Some pt3" "leader pt3 = l" "memberList pt3 = ms" "inviteList pt3 = remove1 p is"
      using party_at [OF w3(2) k(5)] .
    let ?after = "if party_empty pt3 then disband env P w3 else say_all (map Helpers_Updated ms @ [Helpers_Updated l]) w3"
    let ?v4 = "if ms = [] \<and> remove1 p is = [] then r_disband P v3 else v3"
    have "shows_view (say_all (map Helpers_Updated ms @ [Helpers_Updated l]) w3) v3"
      by (rule say_all_shows [OF w3(2)]) (use r in \<open>auto simp: k list_all_iff\<close>)
    then have "shows_view ?after ?v4"
      using disband_shows [OF w3(2) k(4) assms(3)] pt3 by (simp add: party_empty_def)
    then obtain w4 where w4: "?after = Some w4" "view w4 = ?v4" by (rule shows_viewE)
    have "removeInvite env P p b w = Some (True, w4)"
      using True w4(1) by (simp only: removeInvite_def pt w1(1) w2(1) w3(1) pt3 bind.bind_lunit if_False if_True simp_thms)
    moreover have "r_remove_invite P p b v = ?v4"
      using True unfolding r_remove_invite_def r(1) by (simp add: Let_def v3_def v1_def r_change_def r(1))
    ultimately show ?thesis using w4(2) by simp
  qed
qed

lemma addPartyInvitation_shows:
  "view w = v \<Longrightarrow> present v p \<Longrightarrow> shows_view (addPartyInvitation P p w)
     (if P \<in> set (its_invitations v p) then v else v\<lparr>its_invitations := (its_invitations v)(p := P # its_invitations v p)\<rparr>)"
  by (auto simp: addPartyInvitation_def view_def alive_def fun_eq_iff)

lemma invite_shows:
  assumes "view w = v" "manned v P" "present v p"
  shows "leaves_view (invitePlayer P p w) (r_invite P p v)"
proof -
  obtain l ms "is" where r: "roster_of v P = Some (l, ms, is)" "present v l" "list_all (present v) ms" "list_all (present v) is"
    using mannedE [OF assms(2)] .
  obtain pt where pt: "parties w P = Some pt" "leader pt = l" "memberList pt = ms" "inviteList pt = is"
    using party_at [OF assms(1) r(1)] .
  show ?thesis
  proof (cases "p \<in> set is")
    case True
    then show ?thesis by (simp add: invitePlayer_def pt r_invite_def r(1) assms(1))
  next
    case False
    define v2 where "v2 = r_change P (\<lambda>(l, ms, is). (l, ms, is @ [p])) v"
    have k: "present v2 = present v" by (simp add: v2_def)
    let ?e1 = "(if party_empty pt then [Shield_Updated l, To l (Skull_Of l)] else []) @
        [To l (Party_Text (name_of w p @ '' has been invited.'' @
           (if party_empty pt then '' Open the party channel to communicate with your members.'' else [])))]"
    have "shows_view (say_all ?e1 w) v" by (rule say_all_shows [OF assms(1)]) (simp add: r)
    then obtain w1 where w1: "say_all ?e1 w = Some w1" "view w1 = v" by (rule shows_viewE)
    obtain w2 where w2: "change_party P (\<lambda>pt. pt\<lparr>inviteList := inviteList pt @ [p]\<rparr>) w1 = Some w2" "view w2 = v2"
      by (rule shows_viewE [OF change_party_shows [OF w1(2) assms(2), where g = "\<lambda>(l, ms, is). (l, ms, is @ [p])"
            and f = "\<lambda>pt. pt\<lparr>inviteList := inviteList pt @ [p]\<rparr>"]]) (simp_all add: roster_def v2_def)
    let ?e3 = "map Helpers_Updated ms @ [Helpers_Updated l, To l (Shield_Of p), To p (Shield_Of l)]"
    have "shows_view (say_all ?e3 w2) v2"
      by (rule say_all_shows [OF w2(2)]) (use r assms(3) in \<open>auto simp: k list_all_iff\<close>)
    then obtain w3 where w3: "say_all ?e3 w2 = Some w3" "view w3 = v2" by (rule shows_viewE)
    have "present v2 p" by (simp add: k assms(3))
    from addPartyInvitation_shows [OF w3(2) this, of P] obtain w4 where w4: "addPartyInvitation P p w3 = Some w4"
      "view w4 = (if P \<in> set (its_invitations v2 p) then v2 else v2\<lparr>its_invitations := (its_invitations v2)(p := P # its_invitations v2 p)\<rparr>)"
      by (rule shows_viewE)
    let ?e5 = "[To p (Party_Text (name_of w l @ '' has invited you to '' @ his w l @ '' party.''))]"
    have "shows_view (say_all ?e5 w4) (view w4)" by (rule say_all_shows [OF refl]) (simp add: w4(2) k assms(3))
    then obtain w5 where w5: "say_all ?e5 w4 = Some w5" "view w5 = view w4" by (rule shows_viewE)
    have "invitePlayer P p w = Some (True, w5)"
      using False w1(1) w3(1) w5(1)
      by (simp only: invitePlayer_def pt w2(1) w4(1) bind.bind_lunit Let_def if_False simp_thms)
    moreover have "r_invite P p v = view w4"
      using False by (simp add: r_invite_def r(1) w4(2) v2_def r_change_def Let_def)
    ultimately show ?thesis using w5(2) by simp
  qed
qed

section \<open>Agreement\<close>

definition manned_by :: "rosters \<Rightarrow> nat \<Rightarrow> roster \<Rightarrow> bool" where
  "manned_by v P r =
     (case r of (l, ms, is) \<Rightarrow>
        present v l \<and> list_all (present v) ms \<and> list_all (present v) is \<and> l \<notin> set ms \<and> distinct ms \<and> distinct is \<and>
        (\<forall>p. its_party v p = Some P \<longleftrightarrow> p = l \<or> p \<in> set ms) \<and> (\<forall>p. P \<in> set (its_invitations v p) \<longleftrightarrow> p \<in> set is))"

definition peopled :: "roster \<Rightarrow> bool" where
  "peopled r = (case r of (l, ms, is) \<Rightarrow> ms \<noteq> [] \<or> is \<noteq> [])"

definition party_ok :: "rosters \<Rightarrow> nat \<Rightarrow> bool" where
  "party_ok v P =
     (case roster_of v P of
        None \<Rightarrow> \<forall>p. its_party v p \<noteq> Some P \<and> P \<notin> set (its_invitations v p)
      | Some r \<Rightarrow> manned_by v P r \<and> peopled r)"

definition consistent :: "rosters \<Rightarrow> bool" where
  "consistent v \<longleftrightarrow> (\<forall>P. party_ok v P) \<and> (\<forall>p. distinct (its_invitations v p))"

lemma party_ok_other:
  assumes "party_ok v Q" "roster_of v' Q = roster_of v Q" "present v' = present v"
    "\<And>p. its_party v' p = Some Q \<longleftrightarrow> its_party v p = Some Q"
    "\<And>p. Q \<in> set (its_invitations v' p) \<longleftrightarrow> Q \<in> set (its_invitations v p)"
  shows "party_ok v' Q"
  using assms by (auto simp: party_ok_def manned_by_def split: option.splits)

lemma consistentI:
  assumes "party_ok v' P" "\<And>p. distinct (its_invitations v' p)" "consistent v" "\<And>Q. Q \<noteq> P \<Longrightarrow> roster_of v' Q = roster_of v Q"
    "present v' = present v" "\<And>Q p. Q \<noteq> P \<Longrightarrow> its_party v' p = Some Q \<longleftrightarrow> its_party v p = Some Q"
    "\<And>Q p. Q \<noteq> P \<Longrightarrow> Q \<in> set (its_invitations v' p) \<longleftrightarrow> Q \<in> set (its_invitations v p)"
  shows "consistent v'"
  unfolding consistent_def
proof safe
  fix Q show "party_ok v' Q"
  proof (cases "Q = P")
    case False
    then show ?thesis
      using party_ok_other [of v Q v'] assms(3-7) by (simp add: consistent_def)
  qed (use assms(1) in simp)
qed (use assms(2) in simp)

lemma consistentE:
  assumes "consistent v" "roster_of v P = Some (l, ms, is)"
  obtains "present v l" "list_all (present v) ms" "list_all (present v) is" "l \<notin> set ms" "distinct ms" "distinct is"
    "\<And>p. its_party v p = Some P \<longleftrightarrow> p = l \<or> p \<in> set ms" "\<And>p. P \<in> set (its_invitations v p) \<longleftrightarrow> p \<in> set is"
    "ms \<noteq> [] \<or> is \<noteq> []" "manned v P"
  using assms unfolding consistent_def party_ok_def manned_by_def peopled_def manned_def by (auto dest!: spec [of _ P])

lemma consistent_distinct: "consistent v \<Longrightarrow> distinct (its_invitations v p)"
  by (simp add: consistent_def)

lemma consistent_party: "consistent v \<Longrightarrow> its_party v p = Some P \<Longrightarrow> \<exists>l ms is. roster_of v P = Some (l, ms, is)"
  "consistent v \<Longrightarrow> P \<in> set (its_invitations v p) \<Longrightarrow> \<exists>l ms is. roster_of v P = Some (l, ms, is)"
proof -
  assume "consistent v"
  then have ok: "party_ok v P" by (simp add: consistent_def)
  show "its_party v p = Some P \<Longrightarrow> \<exists>l ms is. roster_of v P = Some (l, ms, is)"
    using ok by (cases "roster_of v P") (auto simp: party_ok_def)
  show "P \<in> set (its_invitations v p) \<Longrightarrow> \<exists>l ms is. roster_of v P = Some (l, ms, is)"
    using ok by (cases "roster_of v P") (auto simp: party_ok_def)
qed

lemma consistent_present: "consistent v \<Longrightarrow> \<not> present v p \<Longrightarrow> its_party v p = None \<and> its_invitations v p = []"
proof -
  assume c: "consistent v" and n: "\<not> present v p"
  have "its_party v p \<noteq> Some P" for P
  proof
    assume "its_party v p = Some P"
    moreover from consistent_party(1) [OF c this] obtain l ms "is" where r: "roster_of v P = Some (l, ms, is)" by auto
    ultimately show False using n by (rule_tac consistentE [OF c r]) (auto simp: list_all_iff)
  qed
  moreover have "P \<notin> set (its_invitations v p)" for P
  proof
    assume "P \<in> set (its_invitations v p)"
    moreover from consistent_party(2) [OF c this] obtain l ms "is" where r: "roster_of v P = Some (l, ms, is)" by auto
    ultimately show False using n by (rule_tac consistentE [OF c r]) (auto simp: list_all_iff)
  qed
  ultimately show ?thesis by (metis list.set_intros(1) neq_Nil_conv not_None_eq)
qed

text \<open>Disbanding needs only that the two directions agree; the party may have nobody else in it.\<close>

lemma disband_manned:
  assumes "\<And>Q. Q \<noteq> P \<Longrightarrow> party_ok v Q" "\<And>p. distinct (its_invitations v p)" "roster_of v P = Some r" "manned_by v P r"
  shows "consistent (r_disband P v)"
proof -
  obtain l ms "is" where r: "r = (l, ms, is)" by (cases r)
  have q: "party_ok (r_disband P v) Q" if "Q \<noteq> P" for Q
  proof (rule party_ok_other [OF assms(1) [OF that]])
    fix p
    have "its_party v p = Some P" if "p = l \<or> p \<in> set ms" using that assms(4) unfolding manned_by_def r prod.case by blast
    then show "its_party (r_disband P v) p = Some Q \<longleftrightarrow> its_party v p = Some Q"
      using \<open>Q \<noteq> P\<close> assms(3) by (auto simp: r_disband_def r)
  qed (use that assms(3) in \<open>auto simp: r_disband_def r\<close>)
  have "party_ok (r_disband P v) P"
    using assms(3,4) by (auto simp: party_ok_def r_disband_def r manned_by_def)
  moreover have "distinct (its_invitations (r_disband P v) p)" for p
    using assms(2) [of p] by (simp add: r_disband_def assms(3) r distinct_removeAll)
  ultimately show ?thesis using q unfolding consistent_def by metis
qed

text \<open>A change of one party only, after which it may be dissolved and must be if nobody is left.\<close>

definition only_party :: "nat \<Rightarrow> rosters \<Rightarrow> rosters \<Rightarrow> bool" where
  "only_party P v v' \<longleftrightarrow> present v' = present v \<and> (\<forall>Q. Q \<noteq> P \<longrightarrow> roster_of v' Q = roster_of v Q \<and>
     (\<forall>p. (its_party v' p = Some Q \<longleftrightarrow> its_party v p = Some Q) \<and> (Q \<in> set (its_invitations v' p) \<longleftrightarrow> Q \<in> set (its_invitations v p)))) \<and>
     (\<forall>p. distinct (its_invitations v' p))"

lemma settle:
  assumes "consistent v" "only_party P v v'" "roster_of v' P = Some r" "manned_by v' P r"
  shows "peopled r \<Longrightarrow> consistent v'" "consistent (r_disband P v')"
proof -
  have o: "present v' = present v" "\<And>p. distinct (its_invitations v' p)" "\<And>Q. Q \<noteq> P \<Longrightarrow> roster_of v' Q = roster_of v Q"
    "\<And>Q p. Q \<noteq> P \<Longrightarrow> its_party v' p = Some Q \<longleftrightarrow> its_party v p = Some Q"
    "\<And>Q p. Q \<noteq> P \<Longrightarrow> Q \<in> set (its_invitations v' p) \<longleftrightarrow> Q \<in> set (its_invitations v p)"
    using assms(2) unfolding only_party_def by blast+
  show "consistent v'" if "peopled r"
  proof -
    have "party_ok v' P" using assms(3,4) that by (simp add: party_ok_def)
    then show ?thesis by (rule consistentI [OF _ o(2) assms(1) o(3,1,4,5)])
  qed
  have "party_ok v' Q" if "Q \<noteq> P" for Q
    using party_ok_other [of v Q v'] o that assms(1) by (simp add: consistent_def)
  then show "consistent (r_disband P v')"
    by (rule disband_manned [OF _ o(2) assms(3,4)])
qed

lemma pass_consistent:
  assumes "consistent v"
  shows "consistent (r_pass P p v)"
proof (cases "\<exists>l ms is. roster_of v P = Some (l, ms, is) \<and> l \<noteq> p \<and> its_party v p = Some P")
  case True
  then obtain l ms "is" where r: "roster_of v P = Some (l, ms, is)" "l \<noteq> p" "its_party v p = Some P" by blast
  show ?thesis
  proof (rule consistentE [OF assms r(1)])
    assume a: "present v l" "list_all (present v) ms" "list_all (present v) is" "l \<notin> set ms" "distinct ms" "distinct is"
      "\<And>p. its_party v p = Some P \<longleftrightarrow> p = l \<or> p \<in> set ms" "\<And>p. P \<in> set (its_invitations v p) \<longleftrightarrow> p \<in> set is"
    have p: "p \<in> set ms" "present v p" using a(2,7) r(2,3) by (auto simp: list_all_iff)
    have "manned_by (r_pass P p v) P (p, l # remove1 p ms, is)"
      using a p r by (auto simp: r_pass_def manned_by_def list_all_remove1)
    moreover have "only_party P v (r_pass P p v)"
      using consistent_distinct [OF assms] by (simp add: only_party_def r_pass_def r)
    ultimately show ?thesis
      using settle(1) [OF assms, of P "r_pass P p v"] r by (simp add: r_pass_def peopled_def)
  qed
qed (use assms in \<open>auto simp: r_pass_def split: option.split\<close>)

lemma leave_consistent:
  assumes "consistent v"
  shows "consistent (r_leave P p v)"
proof (cases "\<exists>l ms is. roster_of v P = Some (l, ms, is) \<and> its_party v p = Some P")
  case True
  then obtain l ms "is" where r: "roster_of v P = Some (l, ms, is)" and its: "its_party v p = Some P" by blast
  let ?last = "l = p \<and> (ms = [] \<or> length ms = 1 \<and> is = [])"
  show ?thesis
  proof (cases ?last)
    case True
    have "manned_by v P (l, ms, is)" using assms r unfolding consistent_def party_ok_def by (auto dest: spec [of _ P])
    then have "consistent (r_disband P v)"
      using settle(2) [OF assms, of P v] r consistent_distinct [OF assms] by (simp add: only_party_def)
    then show ?thesis using True its by (simp add: r_leave_def r)
  next
    case False
    define v1 where "v1 = (if l = p then r_pass P (hd ms) v else v)"
    have c1: "consistent v1" using assms by (simp add: v1_def pass_consistent)
    have hd: "l \<noteq> hd ms" "its_party v (hd ms) = Some P" if "l = p"
      using False that by (rule_tac [!] consistentE [OF assms r]) auto
    obtain l1 ms1 is1 where r1: "roster_of v1 P = Some (l1, ms1, is1)" "l1 \<noteq> p" "its_party v1 p = Some P"
      using hd r its by (cases "l = p") (simp_all add: v1_def r_pass_def)
    define v2 where "v2 = r_set_party p None (r_change P (\<lambda>(l, ms, is). (l, remove1 p ms, is)) v1)"
    have r2: "roster_of v2 P = Some (l1, remove1 p ms1, is1)" by (simp add: v2_def r1)
    have "r_leave P p v = (if remove1 p ms1 = [] \<and> is1 = [] then r_disband P v2 else v2)"
      using False its r2 unfolding r_leave_def r option.case prod.case if_not_P [OF False] Let_def v1_def [symmetric] v2_def [symmetric] by simp
    moreover have "manned_by v2 P (l1, remove1 p ms1, is1)"
      by (rule consistentE [OF c1 r1(1)]) (use r1(2) in \<open>auto simp: manned_by_def v2_def list_all_remove1\<close>)
    moreover have "only_party P v1 v2"
      using consistent_distinct [OF c1] r1(3) by (auto simp: only_party_def v2_def)
    ultimately show ?thesis using settle [OF c1 _ r2] by (simp add: peopled_def)
  qed
next
  case False
  have "r_leave P p v = v"
  proof (cases "roster_of v P")
    case (Some x)
    obtain l ms "is" where r: "roster_of v P = Some (l, ms, is)" using Some by (cases x) auto
    have "its_party v l = Some P" by (rule consistentE [OF assms r]) simp
    then show ?thesis using False r by (auto simp: r_leave_def)
  qed (simp add: r_leave_def)
  then show ?thesis using assms by simp
qed

lemma join_consistent:
  assumes "consistent v" "its_party v p = None"
  shows "consistent (r_join P p v)"
proof (cases "\<exists>l ms is. roster_of v P = Some (l, ms, is) \<and> p \<in> set is")
  case True
  then obtain l ms "is" where r: "roster_of v P = Some (l, ms, is)" "p \<in> set is" by blast
  show ?thesis
  proof (rule consistentE [OF assms(1) r(1)])
    assume a: "present v l" "list_all (present v) ms" "list_all (present v) is" "l \<notin> set ms" "distinct ms" "distinct is"
      "\<And>p. its_party v p = Some P \<longleftrightarrow> p = l \<or> p \<in> set ms" "\<And>p. P \<in> set (its_invitations v p) \<longleftrightarrow> p \<in> set is"
    have n: "p \<noteq> l" "p \<notin> set ms" using a(7) [of p] assms(2) by auto
    have "manned_by (r_join P p v) P (l, ms @ [p], remove1 p is)"
      using a n r by (auto simp: r_join_def manned_by_def list_all_remove1 list_all_iff)
    moreover have "only_party P v (r_join P p v)"
      using consistent_distinct [OF assms(1)] assms(2) r by (auto simp: only_party_def r_join_def distinct_removeAll)
    ultimately show ?thesis
      using settle(1) [OF assms(1), of P "r_join P p v"] r by (simp add: r_join_def peopled_def)
  qed
qed (use assms in \<open>auto simp: r_join_def split: option.split\<close>)

lemma remove_invite_consistent:
  assumes "consistent v"
  shows "consistent (r_remove_invite P p True v)"
proof (cases "\<exists>l ms is. roster_of v P = Some (l, ms, is) \<and> p \<in> set is")
  case True
  then obtain l ms "is" where r: "roster_of v P = Some (l, ms, is)" "p \<in> set is" by blast
  define v2 where "v2 = r_uninvite P p (r_change P (\<lambda>_. (l, ms, remove1 p is)) v)"
  have r2: "roster_of v2 P = Some (l, ms, remove1 p is)" by (simp add: v2_def r)
  have "manned_by v2 P (l, ms, remove1 p is)"
    by (rule consistentE [OF assms r(1)]) (auto simp: manned_by_def v2_def list_all_remove1)
  moreover have "only_party P v v2"
    using consistent_distinct [OF assms] by (auto simp: only_party_def v2_def distinct_removeAll)
  moreover have "r_remove_invite P p True v = (if ms = [] \<and> remove1 p is = [] then r_disband P v2 else v2)"
    using r by (simp add: r_remove_invite_def v2_def Let_def)
  ultimately show ?thesis using settle [OF assms _ r2] by (simp add: peopled_def)
qed (use assms in \<open>auto simp: r_remove_invite_def split: option.split\<close>)

lemma invite_consistent:
  assumes "consistent v" "present v p" "roster_of v P \<noteq> None"
  shows "consistent (r_invite P p v)"
proof -
  obtain l ms "is" where r: "roster_of v P = Some (l, ms, is)" using assms(3) by auto
  show ?thesis
  proof (cases "p \<in> set is")
    case False
    show ?thesis
    proof (rule consistentE [OF assms(1) r(1)])
      assume a: "present v l" "list_all (present v) ms" "list_all (present v) is" "l \<notin> set ms" "distinct ms" "distinct is"
        "\<And>p. its_party v p = Some P \<longleftrightarrow> p = l \<or> p \<in> set ms" "\<And>p. P \<in> set (its_invitations v p) \<longleftrightarrow> p \<in> set is"
      have "manned_by (r_invite P p v) P (l, ms, is @ [p])"
        using a False assms(2) r by (auto simp: r_invite_def manned_by_def Let_def list_all_iff)
      moreover have "only_party P v (r_invite P p v)"
        using consistent_distinct [OF assms(1)] a(8) [of p] False r by (auto simp: only_party_def r_invite_def Let_def)
      ultimately show ?thesis
        using settle(1) [OF assms(1), of P "r_invite P p v"] r a(8) [of p] False by (simp add: r_invite_def peopled_def Let_def)
    qed
  qed (use assms r in \<open>simp add: r_invite_def\<close>)
qed

lemma found_consistent:
  assumes "consistent v" "present v p" "present v q" "its_party v p = None" "roster_of v P = None"
  shows "consistent (r_invite P q (r_set_party p (Some P) (v\<lparr>roster_of := (roster_of v)(P \<mapsto> (p, [], []))\<rparr>)))"
proof -
  let ?v = "r_set_party p (Some P) (v\<lparr>roster_of := (roster_of v)(P \<mapsto> (p, [], []))\<rparr>)"
  have n: "its_party v x \<noteq> Some P" "P \<notin> set (its_invitations v x)" for x
    using assms(1,5) unfolding consistent_def party_ok_def by (auto dest!: spec [of _ P])
  have i: "r_invite P q ?v = ?v\<lparr>roster_of := (roster_of v)(P \<mapsto> (p, [], [q])), its_invitations := (its_invitations v)(q := P # its_invitations v q)\<rparr>"
    using n by (simp add: r_invite_def Let_def r_change_def r_set_party_def)
  have "manned_by (r_invite P q ?v) P (p, [], [q])"
    unfolding i using assms n by (auto simp: manned_by_def r_set_party_def)
  moreover have "only_party P v (r_invite P q ?v)"
    unfolding i using consistent_distinct [OF assms(1)] n assms(4) by (auto simp: only_party_def r_set_party_def)
  ultimately show ?thesis
    using settle(1) [OF assms(1), of P "r_invite P q ?v" "(p, [], [q])"] by (simp add: i peopled_def)
qed

section \<open>Logging out\<close>

definition differs_at :: "nat \<Rightarrow> rosters \<Rightarrow> rosters \<Rightarrow> bool" where
  "differs_at p v u \<longleftrightarrow> present u = present v \<and> its_party u = its_party v \<and> roster_of u = roster_of v \<and>
     (\<forall>q. q \<noteq> p \<longrightarrow> its_invitations u q = its_invitations v q)"

lemma differs_remove:
  assumes "differs_at p v u"
  shows "differs_at p (r_remove_invite P p False v) (r_remove_invite P p True u)"
  using assms
  by (auto simp: differs_at_def r_remove_invite_def r_disband_def Let_def r_change_def r_uninvite_def fun_eq_iff split: option.split)

lemma remove_invite_its:
  assumes "consistent u" "its_invitations u p = P # xs"
  shows "its_invitations (r_remove_invite P p True u) p = xs" "present (r_remove_invite P p True u) = present u"
proof -
  have P: "P \<in> set (its_invitations u p)" using assms(2) by simp
  obtain l ms "is" where r: "roster_of u P = Some (l, ms, is)" using consistent_party(2) [OF assms(1) P] by blast
  have i: "p \<in> set is" by (rule consistentE [OF assms(1) r]) (use P in blast)
  have "removeAll P xs = xs" using consistent_distinct [OF assms(1), of p] assms(2) by (simp add: removeAll_id)
  then show "its_invitations (r_remove_invite P p True u) p = xs" "present (r_remove_invite P p True u) = present u"
    using assms(2) i by (simp_all add: r_remove_invite_def r Let_def r_disband_def)
qed

lemma clear_each:
  assumes "consistent u" "its_invitations u p = xs" "differs_at p (view w) u" "\<And>P. on_disband env P"
  shows "\<exists>w' u'. each (\<lambda>P w. do { (_, w') \<leftarrow> removeInvite env P p False w; Some w' }) xs w = Some w' \<and>
    consistent u' \<and> its_invitations u' p = [] \<and> differs_at p (view w') u' \<and> present u' = present u"
  using assms(1-3)
proof (induction xs arbitrary: u w)
  case (Cons P xs)
  obtain l ms "is" where r: "roster_of u P = Some (l, ms, is)"
    using consistent_party(2) [OF Cons.prems(1), of P p] Cons.prems(2) by auto
  have "manned u P" by (rule consistentE [OF Cons.prems(1) r])
  then have m: "manned (view w) P" using Cons.prems(3) unfolding manned_def differs_at_def by metis
  obtain b w1 where w1: "removeInvite env P p False w = Some (b, w1)" "view w1 = r_remove_invite P p False (view w)"
    by (rule leaves_viewE [OF removeInvite_shows [OF refl m assms(4)]])
  have "differs_at p (view w1) (r_remove_invite P p True u)" unfolding w1(2) by (rule differs_remove [OF Cons.prems(3)])
  from Cons.IH [OF remove_invite_consistent [OF Cons.prems(1)] remove_invite_its(1) [OF Cons.prems(1,2)] this]
  show ?case by (simp add: w1(1) remove_invite_its(2) [OF Cons.prems(1,2)])
qed auto

lemma clear_ok:
  assumes "consistent (view w)" "\<And>P. on_disband env P"
  obtains w' where "clearPartyInvitations env p w = Some w'" "consistent (view w')" "its_invitations (view w') p = []"
    "present (view w') = present (view w)"
proof -
  have "differs_at p (view w) (view w)" by (simp add: differs_at_def)
  from clear_each [OF assms(1) refl this assms(2)] obtain w1 u where
    w1: "each (\<lambda>P w. do { (_, w') \<leftarrow> removeInvite env P p False w; Some w' }) (invitePartyList w p) w = Some w1"
      "consistent u" "its_invitations u p = []" "differs_at p (view w1) u" "present u = present (view w)" by auto
  let ?w = "w1\<lparr>invitePartyList := (invitePartyList w1)(p := [])\<rparr>"
  have v: "view ?w = (view w1)\<lparr>its_invitations := (its_invitations (view w1))(p := [])\<rparr>"
    by (simp add: view_def alive_def fun_eq_iff)
  have "view ?w = u"
    unfolding v using w1(3,4) by (cases u) (auto simp: differs_at_def view_def fun_eq_iff)
  then show ?thesis
    using that [of ?w] w1 by (simp add: clearPartyInvitations_def)
qed

lemma leave_its:
  assumes "consistent v" "its_party v p = Some P"
  shows "its_party (r_leave P p v) p = None" "its_invitations v p = [] \<Longrightarrow> its_invitations (r_leave P p v) p = []"
    "present (r_leave P p v) = present v"
proof -
  obtain l ms "is" where r: "roster_of v P = Some (l, ms, is)" using consistent_party(1) [OF assms] by blast
  let ?last = "l = p \<and> (ms = [] \<or> length ms = 1 \<and> is = [])"
  define v1 where "v1 = (if l = p then r_pass P (hd ms) v else v)"
  define v2 where "v2 = r_set_party p None (r_change P (\<lambda>(l, ms, is). (l, remove1 p ms, is)) v1)"
  have v2: "its_party v2 p = None" "its_invitations v2 p = its_invitations v p" "present v2 = present v"
    by (simp_all add: v2_def v1_def r_pass_def r)
  have d: "its_party (r_disband P v2) p = None" "its_invitations v p = [] \<Longrightarrow> its_invitations (r_disband P v2) p = []"
    "present (r_disband P v2) = present v"
    using v2 by (auto simp: r_disband_def split: option.split)
  have last: "its_party (r_disband P v) p = None" "its_invitations v p = [] \<Longrightarrow> its_invitations (r_disband P v) p = []"
    "present (r_disband P v) = present v" if "l = p"
    using that by (simp_all add: r_disband_def r)
  have e: "r_leave P p v = r_disband P v \<and> l = p \<or> r_leave P p v = r_disband P v2 \<or> r_leave P p v = v2"
  proof (cases ?last)
    case False
    have "r_leave P p v = (case roster_of v2 P of Some (_, ms, is) \<Rightarrow> if ms = [] \<and> is = [] then r_disband P v2 else v2 | None \<Rightarrow> v2)"
      using assms(2) unfolding r_leave_def r option.case prod.case if_not_P [OF False] Let_def v1_def [symmetric] v2_def [symmetric] by simp
    then show ?thesis by (auto split: option.splits)
  qed (use assms(2) in \<open>simp add: r_leave_def r\<close>)
  show "its_party (r_leave P p v) p = None" "its_invitations v p = [] \<Longrightarrow> its_invitations (r_leave P p v) p = []"
    "present (r_leave P p v) = present v"
    using e v2 d last by auto
qed

section \<open>Requests\<close>

definition answers :: "party_world option \<Rightarrow> bool" where
  "answers m \<longleftrightarrow> (\<exists>w. m = Some w \<and> consistent (view w))"

lemma answers_Some [simp]: "answers (Some w) \<longleftrightarrow> consistent (view w)"
  by (simp add: answers_def)

lemma answers_shows: "shows_view m v \<Longrightarrow> consistent v \<Longrightarrow> answers m"
  by (auto simp: answers_def shows_view_def gives_def)

lemma answers_leaves: "leaves_view m v \<Longrightarrow> consistent v \<Longrightarrow> answers (do { (_, w) \<leftarrow> m; Some w })"
  by (auto simp: answers_def leaves_view_def)

lemma its_manned:
  assumes "consistent (view w)" "party_of w p = Some P"
  obtains pt where "parties w P = Some pt" "manned (view w) P" "alive w p"
proof -
  obtain l ms "is" where r: "roster_of (view w) P = Some (l, ms, is)" using consistent_party(1) [OF assms(1), of p P] assms(2) by auto
  have "manned (view w) P" by (rule consistentE [OF assms(1) r])
  moreover have "alive w p" using consistent_present [OF assms(1), of p] assms(2) by auto
  ultimately show ?thesis using r that by auto
qed

lemma isInviting_gives:
  assumes "consistent (view w)" "alive w p"
  obtains b where "isInviting p q w = Some b"
    "b \<Longrightarrow> \<exists>P pt. party_of w p = Some P \<and> parties w P = Some pt \<and> q \<in> set (inviteList pt)"
proof (cases "party_of w p")
  case (Some P)
  obtain pt where "parties w P = Some pt" using its_manned [OF assms(1) Some] by blast
  then show ?thesis
    using that [of "leader pt = p \<and> q \<in> set (inviteList pt)"] assms(2) Some by (auto simp: isInviting_def getParty_def isPlayerInvited_def)
qed (use that [of False] assms(2) in \<open>simp add: isInviting_def getParty_def\<close>)

lemma view_say: "shows_view (say_all es w) (view w) \<Longrightarrow> consistent (view w) \<Longrightarrow> answers (say_all es w)"
  by (rule answers_shows)

lemma invite_request_ok:
  assumes "consistent (view w)" "parties w newP = None"
  shows "answers (playerInviteToParty newP p q w)"
proof (cases "alive w p \<and> alive w q")
  case True
  obtain b where b: "isInviting q p w = Some b" by (rule isInviting_gives [OF assms(1), of q p]) (use True in auto)
  have told: "answers (say_all [To p (Party_Text msg)] w)" for msg
    by (rule view_say [OF say_all_view assms(1)]) (simp add: True)
  show ?thesis
  proof (cases "party_of w p")
    case None
    let ?w = "put_party newP (new_party p) w"
    have v: "view ?w = (view w)\<lparr>roster_of := (roster_of (view w))(newP \<mapsto> (p, [], []))\<rparr>"
      by (simp add: view_def put_party_def alive_def new_party_def roster_def fun_eq_iff)
    let ?v1 = "r_set_party p (Some newP) (view ?w)"
    have "shows_view (setParty p (Some newP) ?w) ?v1" by (rule setParty_shows [OF refl]) (simp add: True)
    then obtain w1 where w1: "setParty p (Some newP) ?w = Some w1" "view w1 = ?v1" by (rule shows_viewE)
    have "manned ?v1 newP" "present ?v1 q" using True by (simp_all add: v manned_def)
    then have "leaves_view (invitePlayer newP q w1) (r_invite newP q ?v1)" by (rule invite_shows [OF w1(2)])
    moreover have "consistent (r_invite newP q ?v1)"
      unfolding v by (rule found_consistent [OF assms(1)]) (use True None assms(2) in auto)
    ultimately have "answers (do { (_, w2) \<leftarrow> invitePlayer newP q w1; Some w2 })" by (rule answers_leaves)
    then show ?thesis using True told assms(1) by (simp add: playerInviteToParty_def b None w1(1))
  next
    case (Some P)
    obtain pt where pt: "parties w P = Some pt" "manned (view w) P" using its_manned [OF assms(1) Some] by blast
    have "consistent (r_invite P q (view w))" by (rule invite_consistent [OF assms(1)]) (use True pt(1) in simp_all)
    then have "answers (do { (_, w2) \<leftarrow> invitePlayer P q w; Some w2 })"
      by (intro answers_leaves [OF invite_shows [OF refl pt(2)]]) (use True in simp_all)
    then show ?thesis using True told assms(1) by (simp add: playerInviteToParty_def b Some pt(1))
  qed
qed (use assms(1) in \<open>auto simp: playerInviteToParty_def\<close>)

lemma join_request_ok:
  assumes "consistent (view w)"
  shows "answers (playerJoinParty env p l w)"
proof (cases "alive w p \<and> alive w l")
  case True
  obtain b where b: "isInviting l p w = Some b" by (rule isInviting_gives [OF assms(1), of l p]) (use True in auto)
  have told: "answers (say_all [To p (Party_Text msg)] w)" for msg
    by (rule view_say [OF say_all_view assms(1)]) (simp add: True)
  show ?thesis
  proof (cases "party_of w l")
    case (Some P)
    obtain pt where pt: "parties w P = Some pt" "manned (view w) P" using its_manned [OF assms(1) Some] by blast
    have "answers (do { (_, w2) \<leftarrow> joinParty env P p w; Some w2 })" if "party_of w p = None"
      using join_shows [OF refl pt(2), of env p] join_consistent [OF assms(1), of p P] that assms(1)
      by (auto intro!: answers_leaves split: if_splits)
    then show ?thesis using True told assms(1) by (auto simp: playerJoinParty_def b Some pt(1))
  qed (use True assms(1) in \<open>auto simp: playerJoinParty_def b\<close>)
qed (use assms(1) in \<open>auto simp: playerJoinParty_def\<close>)

lemma revoke_request_ok:
  assumes "consistent (view w)" "\<And>P. on_disband env P"
  shows "answers (playerRevokePartyInvitation env p q w)"
proof (cases "alive w p \<and> alive w q \<and> party_of w p \<noteq> None")
  case True
  then obtain P where P: "party_of w p = Some P" by blast
  obtain pt where pt: "parties w P = Some pt" "manned (view w) P" using its_manned [OF assms(1) P] by blast
  obtain b where b: "isInviting p q w = Some b" by (rule isInviting_gives [OF assms(1), of p q]) (use True in auto)
  let ?es = "[To q (Party_Text (name_of w (leader pt) @ '' has revoked '' @ his w (leader pt) @ '' invitation.'')),
      To (leader pt) (Party_Text (''Invitation for '' @ name_of w q @ '' has been revoked.''))]"
  have "alive w (leader pt)" using pt by (simp add: manned_def roster_def)
  then have "shows_view (say_all ?es w) (view w)" by (intro say_all_view) (simp add: True)
  then obtain w1 where w1: "say_all ?es w = Some w1" "view w1 = view w" by (rule shows_viewE)
  have "answers (do { (_, w2) \<leftarrow> removeInvite env P q True w1; Some w2 })"
    by (rule answers_leaves [OF removeInvite_shows [OF w1(2) pt(2) assms(2)] remove_invite_consistent [OF assms(1)]])
  then show ?thesis
    using True assms(1) w1(1) by (cases "leader pt = p") (simp_all add: playerRevokePartyInvitation_def P pt(1) b revokeInvitation_def)
next
  case False
  show ?thesis
  proof (cases "party_of w p")
    case (Some P)
    obtain pt where "parties w P = Some pt" "alive w p" using its_manned [OF assms(1) Some] by blast
    then show ?thesis using False Some assms(1) by (simp add: playerRevokePartyInvitation_def)
  qed (simp add: playerRevokePartyInvitation_def assms(1))
qed

lemma pass_request_ok:
  assumes "consistent (view w)"
  shows "answers (playerPassPartyLeadership env p q w)"
proof (cases "alive w p \<and> party_of w p \<noteq> None")
  case True
  then obtain P where P: "party_of w p = Some P" by blast
  obtain pt where pt: "parties w P = Some pt" "manned (view w) P" using its_manned [OF assms(1) P] by blast
  have "answers (do { (_, w2) \<leftarrow> passPartyLeadership env P q w; Some w2 })" if "alive w q"
    by (rule answers_leaves [OF pass_shows [OF refl pt(2)] pass_consistent [OF assms(1)]]) (simp add: that)
  then show ?thesis using True assms(1) by (simp add: playerPassPartyLeadership_def P pt(1))
qed (use assms(1) in \<open>auto simp: playerPassPartyLeadership_def\<close>)

lemma leave_answers:
  assumes "consistent (view w)" "party_of w p = Some P" "\<And>P p. on_leave env P p" "\<And>P. on_disband env P"
  shows "leaves_view (leaveParty env P p w) (r_leave P p (view w))"
proof -
  obtain pt where pt: "manned (view w) P" "alive w p" using its_manned [OF assms(1,2)] by blast
  show ?thesis
  proof (rule leave_shows [OF refl pt(1) _ assms(3,4)])
    fix l ms "is" assume r: "roster_of (view w) P = Some (l, ms, is)"
    show "l \<notin> set ms \<and> distinct ms \<and> (\<forall>m \<in> set ms. its_party (view w) m = Some P)"
      by (rule consistentE [OF assms(1) r]) blast
  qed (simp add: pt(2))
qed

lemma leave_request_ok:
  assumes "consistent (view w)" "\<And>P p. on_leave env P p" "\<And>P. on_disband env P"
  shows "answers (playerLeaveParty env p w)"
proof (cases "party_of w p")
  case (Some P)
  have "answers (do { (_, w2) \<leftarrow> leaveParty env P p w; Some w2 })"
    by (rule answers_leaves [OF leave_answers [OF assms(1) Some assms(2,3)] leave_consistent [OF assms(1)]])
  then show ?thesis using assms(1) by (simp add: playerLeaveParty_def Some)
qed (use assms(1) in \<open>simp add: playerLeaveParty_def\<close>)

lemma view_request:
  assumes "consistent (view w)" "\<And>P pt. party_of w p = Some P \<Longrightarrow> parties w P = Some pt \<Longrightarrow> crew w P pt \<Longrightarrow> alive w p \<Longrightarrow> shows_view (m P) (view w)"
  shows "answers (if \<not> alive w p then Some w else case party_of w p of None \<Rightarrow> Some w | Some P \<Rightarrow> m P)"
proof (cases "party_of w p")
  case (Some P)
  obtain pt where pt: "parties w P = Some pt" "manned (view w) P" "alive w p" using its_manned [OF assms(1) Some] by blast
  obtain pt' where c: "crew w P pt'" using manned_crew [OF pt(2) refl] by blast
  have "shows_view (m P) (view w)" by (rule assms(2) [OF Some crewD(1) [OF c] c pt(3)])
  then show ?thesis using Some assms(1) answers_shows by simp
qed (use assms(1) in simp)

lemma setShared_view:
  assumes "crew w P pt"
  shows "leaves_view (setSharedExperience env P p active w) (view w)"
proof -
  note pt = crewD(1) [OF assms]
  have told: "leaves_view (do { w2 \<leftarrow> say_all [To (leader pt) (Party_Text msg)] (put_party P pt2 w); w3 \<leftarrow> updateAllPartyIcons P w2; Some (True, w3) }) (view w)"
    if "roster pt2 = roster pt" for pt2 msg
  proof -
    let ?w = "put_party P pt2 w"
    have c: "crew ?w P pt2" "view ?w = view w" using crew_put [OF assms that] put_same_roster [OF pt that] by auto
    have "shows_view (say_all [To (leader pt) (Party_Text msg)] ?w) (view w)"
      using say_all_view [of ?w] crewD(2) [OF assms] c(2) by simp
    then obtain w2 where w2: "say_all [To (leader pt) (Party_Text msg)] ?w = Some w2" "view w2 = view w" by (rule shows_viewE)
    obtain pt' where "crew w2 P pt'" by (rule crew_view [OF assms w2(2)])
    then obtain w3 where "updateAllPartyIcons P w2 = Some w3" "view w3 = view w"
      using shows_viewE [OF icons_view] w2(2) by metis
    then show ?thesis by (simp add: w2(1))
  qed
  have e: "gives (canEnableSharedExperience env P (put_party P (pt\<lparr>sharedExpActive := True\<rparr>) w)) (\<lambda>_. True)"
    by (rule canEnable_gives [OF crew_put [OF assms]]) (simp add: roster_def)
  then obtain r where r: "canEnableSharedExperience env P (put_party P (pt\<lparr>sharedExpActive := True\<rparr>) w) = Some r"
    by (auto simp: gives_def)
  have on: "roster (pt\<lparr>sharedExpActive := True, sharedExpEnabled := r\<rparr>) = roster pt" and off: "roster (pt\<lparr>sharedExpActive := False\<rparr>) = roster pt"
    by (simp_all add: roster_def)
  show ?thesis
    using told [OF on] told [OF off]
    by (cases "leader pt = p"; cases active; cases r; cases "sharedExpActive pt") (simp_all add: setSharedExperience_def pt r)
qed

lemma share_request_ok: "consistent (view w) \<Longrightarrow> answers (playerEnableSharedPartyExperience env p active w)"
  unfolding playerEnableSharedPartyExperience_def
proof (rule view_request)
  fix P pt assume "crew w P pt"
  then show "shows_view (if fighting w p then Some w else do { (_, w2) \<leftarrow> setSharedExperience env P p active w; Some w2 }) (view w)"
    using setShared_view [of w P pt env p active] by (auto simp: leaves_view_def)
qed

lemma gain_request_ok: "consistent (view w) \<Longrightarrow> answers (player_gains env p experience w)"
  unfolding player_gains_def
proof (rule view_request)
  fix P pt assume c: "crew w P pt"
  then have "shows_view (shareExperience env P experience w) (view w)"
    by (auto simp: shareExperience_def crew_def list_all_iff Let_def intro!: say_all_view)
  then show "shows_view (do { pt \<leftarrow> parties w P; if sharedExpActive pt \<and> sharedExpEnabled pt then shareExperience env P experience w else Some w }) (view w)"
    using crewD(1) [OF c] by simp
qed

lemma fight_request_ok: "consistent (view w) \<Longrightarrow> answers (player_fights env p points w)"
  unfolding player_fights_def by (rule view_request) (auto intro: updateTicks_view)

lemma idle_request_ok: "consistent (view w) \<Longrightarrow> answers (player_idles env p w)"
  unfolding player_idles_def by (rule view_request) (auto intro: clearPoints_view)

lemma change_request_ok:
  assumes "consistent (view w)"
  shows "answers (player_changes env p i w)"
proof (cases "alive w p")
  case True
  let ?w = "w\<lparr>online := (online w)(p \<mapsto> i)\<rparr>"
  have v: "view ?w = view w" using True by (auto simp: view_def alive_def fun_eq_iff)
  then have c: "consistent (view ?w)" using assms by simp
  have "answers (if \<not> alive ?w p then Some ?w else case party_of ?w p of None \<Rightarrow> Some ?w | Some P \<Rightarrow> updateSharedExperience env P ?w)"
    by (rule view_request [OF c]) (rule updateShared_view)
  then show ?thesis using True by (simp add: player_changes_def Let_def alive_def)
qed (use assms in \<open>simp add: player_changes_def\<close>)

lemma log_in_ok:
  assumes "consistent (view w)" "\<not> alive w p"
  shows "consistent (view (player_enters p i w))"
proof -
  have "its_party (view w) p = None \<and> its_invitations (view w) p = []"
    using consistent_present [OF assms(1), of p] assms(2) by simp
  then have v: "view (player_enters p i w) = (view w)\<lparr>present := (present (view w))(p := True)\<rparr>"
    by (auto simp: player_enters_def view_def alive_def fun_eq_iff)
  show ?thesis
    unfolding consistent_def
  proof safe
    fix P show "party_ok (view (player_enters p i w)) P"
      using assms(1) unfolding consistent_def v by (auto simp: party_ok_def manned_by_def list_all_iff split: option.split dest!: spec [of _ P])
  qed (use consistent_distinct [OF assms(1)] in \<open>simp add: v\<close>)
qed

lemma drop_present:
  assumes "consistent v" "its_party v p = None" "its_invitations v p = []"
  shows "consistent (v\<lparr>present := (present v)(p := False)\<rparr>)"
  unfolding consistent_def
proof safe
  fix P show "party_ok (v\<lparr>present := (present v)(p := False)\<rparr>) P"
  proof (cases "roster_of v P")
    case (Some r)
    obtain l ms "is" where r: "roster_of v P = Some (l, ms, is)" using Some by (cases r) auto
    show ?thesis
    proof (rule consistentE [OF assms(1) r])
      assume a: "present v l" "list_all (present v) ms" "list_all (present v) is" "l \<notin> set ms" "distinct ms" "distinct is"
        "\<And>p. its_party v p = Some P \<longleftrightarrow> p = l \<or> p \<in> set ms" "\<And>p. P \<in> set (its_invitations v p) \<longleftrightarrow> p \<in> set is"
        "ms \<noteq> [] \<or> is \<noteq> []"
      have "p \<noteq> l" "p \<notin> set ms" "p \<notin> set is" using a(7) [of p] a(8) [of p] assms(2,3) by auto
      then show ?thesis using a by (auto simp: party_ok_def manned_by_def peopled_def r list_all_iff)
    qed
  next
    case None
    then show ?thesis using assms(1) by (auto simp: party_ok_def consistent_def dest!: spec [of _ P])
  qed
qed (use consistent_distinct [OF assms(1)] in simp)

lemma log_out_ok:
  assumes "consistent (view w)" "\<And>P p. on_leave env P p" "\<And>P. on_disband env P"
  shows "answers (player_leaves env p w)"
proof (cases "alive w p")
  case True
  obtain w1 where w1: "clearPartyInvitations env p w = Some w1" "consistent (view w1)" "its_invitations (view w1) p = []"
    "present (view w1) = present (view w)" by (rule clear_ok [OF assms(1,3)])
  obtain w2 where w2: "(case party_of w1 p of None \<Rightarrow> Some w1 | Some P \<Rightarrow> do { (_, w') \<leftarrow> leaveParty env P p w1; Some w' }) = Some w2"
    "consistent (view w2)" "its_party (view w2) p = None" "its_invitations (view w2) p = []"
  proof (cases "party_of w1 p")
    case None
    then show ?thesis using that [of w1] w1 by simp
  next
    case (Some P)
    obtain b w' where w': "leaveParty env P p w1 = Some (b, w')" "view w' = r_leave P p (view w1)"
      by (rule leaves_viewE [OF leave_answers [OF w1(2) Some assms(2,3)]])
    have "its_party (view w1) p = Some P" using Some by simp
    then show ?thesis
      using that [of w'] w' leave_consistent [OF w1(2), of P p] leave_its [OF w1(2), of p P] w1(3) Some by simp
  qed
  have "view (w2\<lparr>online := (online w2)(p := None)\<rparr>) = (view w2)\<lparr>present := (present (view w2))(p := False)\<rparr>"
    by (auto simp: view_def alive_def fun_eq_iff)
  then show ?thesis using drop_present [OF w2(2-4)] w2(1) True by (simp add: player_leaves_def w1(1))
qed (use assms(1) in \<open>simp add: player_leaves_def\<close>)

definition scripts_accept :: "party_env \<Rightarrow> bool" where
  "scripts_accept env \<longleftrightarrow> (\<forall>P p. on_leave env P p) \<and> (\<forall>P. on_disband env P)"

lemma perform_ok:
  assumes "consistent (view w)" "scripts_accept env" "fresh_request r w"
  shows "answers (party_perform env r w)"
proof -
  have s: "on_leave env P p" "on_disband env P" for P p using assms(2) by (simp_all add: scripts_accept_def)
  show ?thesis
    using assms(1,3) s
    by (cases r) (simp_all add: invite_request_ok join_request_ok revoke_request_ok pass_request_ok leave_request_ok share_request_ok
        log_in_ok log_out_ok change_request_ok fight_request_ok idle_request_ok gain_request_ok)
qed

section \<open>Properties\<close>

inductive party_step :: "party_env \<Rightarrow> party_world \<Rightarrow> party_world \<Rightarrow> bool" for env where
  party_step: "fresh_request r w \<Longrightarrow> party_perform env r w = Some w' \<Longrightarrow> party_step env w w'"

inductive_cases party_stepE: "party_step env w w'"

interpretation party_machine: invariant_system "\<lambda>w. w = empty_world" "party_step env" "\<lambda>w. scripts_accept env \<longrightarrow> consistent (view w)" for env
proof
  show "scripts_accept env \<longrightarrow> consistent (view w)" if "w = empty_world" for w
    using that by (simp add: consistent_def party_ok_def view_def empty_world_def)
  show "scripts_accept env \<longrightarrow> consistent (view w')" if "scripts_accept env \<longrightarrow> consistent (view w)" "party_step env w w'" for w w'
  proof
    assume a: "scripts_accept env"
    from that(2) obtain r where "fresh_request r w" "party_perform env r w = Some w'" by (rule party_stepE)
    then show "consistent (view w')" using perform_ok [of w env r] that(1) a by (simp add: answers_def)
  qed
qed

text \<open>
C8.
  Parties never leave a dangling pointer: after any history of invitations, joins, departures, changes of
  leader, fights and logouts, with scripts that refuse no departure, the next request is answered without
  touching a deleted party or player. Afterwards each party has its leader and members and only them pointing to
  it, its invited players and only them carry its invitation, all of them are online, nobody is in two parties
  or twice in one, and no party is left with its leader alone.
\<close>

theorem party_requests_safe:
  assumes "reach (\<lambda>w. w = empty_world) (party_step env) w" "scripts_accept env" "fresh_request r w"
  shows "\<exists>w'. party_perform env r w = Some w' \<and> consistent (view w')"
  using perform_ok [OF _ assms(2,3)] party_machine.reach_inv [OF assms(1)] assms(2) by (simp add: answers_def)

definition level_of :: "party_world \<Rightarrow> nat \<Rightarrow> nat" where
  "level_of w p = unat (pl_level (the (online w p)))"

definition place_of :: "party_world \<Rightarrow> nat \<Rightarrow> position" where
  "place_of w p = pl_pos (the (online w p))"

lemma highest_level_Max:
  assumes "crew w P pt"
  obtains h where "highest_level w pt = Some h" "unat h = Max (level_of w ` set (leader pt # memberList pt))"
proof -
  have *: "\<exists>h'. each (\<lambda>m h. do { i \<leftarrow> online w m; Some (if pl_level i > h then pl_level i else h) }) ms h = Some h' \<and>
      unat h' = Max (insert (unat h) (level_of w ` set ms))" if "list_all (alive w) ms" for ms h
    using that
  proof (induction ms arbitrary: h)
    case (Cons m ms)
    obtain i where i: "online w m = Some i" using Cons.prems by (auto simp: alive_def)
    let ?h = "if pl_level i > h then pl_level i else h"
    have "list_all (alive w) ms" using Cons.prems by simp
    from Cons.IH [OF this, of ?h] obtain h' where
      h': "each (\<lambda>m h. do { i \<leftarrow> online w m; Some (if pl_level i > h then pl_level i else h) }) ms ?h = Some h'"
      "unat h' = Max (insert (unat ?h) (level_of w ` set ms))" by blast
    have "unat ?h = max (unat h) (level_of w m)" by (simp add: level_of_def i word_less_nat_alt max_def)
    then have "unat h' = Max (insert (unat h) (level_of w ` set (m # ms)))"
      using h'(2) by (cases "ms = []") (simp_all add: max.assoc)
    then show ?case using h'(1) by (simp add: i)
  qed simp
  obtain l where l: "online w (leader pt) = Some l" using crewD(2) [OF assms] by (auto simp: alive_def)
  from * [of "memberList pt" "pl_level l"] obtain h where
    "each (\<lambda>m h. do { i \<leftarrow> online w m; Some (if pl_level i > h then pl_level i else h) }) (memberList pt) (pl_level l) = Some h"
    "unat h = Max (insert (unat (pl_level l)) (level_of w ` set (memberList pt)))"
    using assms by (auto simp: crew_def)
  then show ?thesis using that [of h] l by (simp add: highest_level_def level_of_def)
qed

lemma canUse_iff:
  assumes "crew w P pt" "alive w p"
  shows "canUseSharedExperience env P p w = Some (memberList pt \<noteq> [] \<and>
    2 * Max (level_of w ` set (leader pt # memberList pt)) \<le> 3 * level_of w p \<and>
    areInRange3 30 30 1 (place_of w (leader pt)) (place_of w p) \<and>
    (not_gain_in_fight (the (online w p)) \<or> fought_lately env pt p))"
proof -
  obtain h where h: "highest_level w pt = Some h" "unat h = Max (level_of w ` set (leader pt # memberList pt))"
    by (rule highest_level_Max [OF assms(1)])
  obtain i l where "online w p = Some i" "online w (leader pt) = Some l" using assms(2) crewD(2) [OF assms(1)] by (auto simp: alive_def)
  moreover have "min_level h \<le> n \<longleftrightarrow> 2 * unat h \<le> 3 * n" for n by (auto simp: min_level_def)
  ultimately show ?thesis
    using crewD(1) [OF assms(1)] h by (auto simp: canUseSharedExperience_def level_of_def place_of_def)
qed

text \<open>
C19.
  While sharing is switched on, an update of a party enables it exactly if the party has a member, and the
  leader and every member has at least two thirds of the highest level among them, stands within 30 squares and
  one floor of the leader, and has fought or healed within the time configured or is exempt from that.
\<close>

theorem shared_experience_rule:
  assumes "crew w P pt" "sharedExpActive pt"
  shows "\<exists>w' pt'. updateSharedExperience env P w = Some w' \<and> parties w' P = Some pt' \<and> view w' = view w \<and>
    (sharedExpEnabled pt' \<longleftrightarrow> memberList pt \<noteq> [] \<and>
      list_all (\<lambda>p. 2 * Max (level_of w ` set (leader pt # memberList pt)) \<le> 3 * level_of w p \<and>
        areInRange3 30 30 1 (place_of w (leader pt)) (place_of w p) \<and>
        (not_gain_in_fight (the (online w p)) \<or> fought_lately env pt p)) (leader pt # memberList pt))"
proof -
  define top where "top = Max (level_of w ` set (leader pt # memberList pt))"
  note use_iff = canUse_iff [OF assms(1), folded top_def]
  let ?may = "\<lambda>p. memberList pt \<noteq> [] \<and> 2 * top \<le> 3 * level_of w p \<and>
        areInRange3 30 30 1 (place_of w (leader pt)) (place_of w p) \<and>
        (not_gain_in_fight (the (online w p)) \<or> fought_lately env pt p)"
  have all: "all_use env P ms w = Some (list_all ?may ms)" if "list_all (alive w) ms" for ms
    using that by (induction ms) (auto simp: use_iff)
  define rr where "rr = list_all ?may (leader pt # memberList pt)"
  have r: "canEnableSharedExperience env P w = Some rr"
    unfolding rr_def
    using all [of "memberList pt"] use_iff [of "leader pt"] assms(1)
    by (auto simp: canEnableSharedExperience_def crew_def)
  let ?w = "put_party P (pt\<lparr>sharedExpEnabled := rr\<rparr>) w"
  have c: "crew ?w P (pt\<lparr>sharedExpEnabled := rr\<rparr>)" "view ?w = view w"
    using crew_put [OF assms(1)] put_same_roster [OF crewD(1) [OF assms(1)]] by (simp_all add: roster_def)
  have "\<exists>w' pt'. updateSharedExperience env P w = Some w' \<and> parties w' P = Some pt' \<and> view w' = view w \<and> sharedExpEnabled pt' = rr"
  proof (cases "sharedExpEnabled pt = rr")
    case True
    then show ?thesis using crewD(1) [OF assms(1)] assms(2) r by (simp add: updateSharedExperience_def)
  next
    case False
    obtain w' where w': "updateAllPartyIcons P ?w = Some w'" "view w' = view w"
      using shows_viewE [OF icons_view [OF c(1)]] c(2) by metis
    have "parties w' = parties ?w"
      using w'(1) by (auto simp: updateAllPartyIcons_def Let_def say_all_def split: if_splits)
    then show ?thesis using False crewD(1) [OF assms(1)] assms(2) r w' by (simp add: updateSharedExperience_def)
  qed
  then show ?thesis unfolding top_def rr_def by (auto simp: list_all_iff)
qed

section \<open>A party for the witnesses\<close>

definition demo_party_env :: party_env where
  "demo_party_env = \<lparr>on_join = (\<lambda>_ _. True), on_leave = (\<lambda>_ _. True), on_disband = (\<lambda>_. True), now = 1000, pz_locked = 60000,
     share_of = (\<lambda>e _ n. e div of_nat n)\<rparr>"

definition demo_info :: "u32 \<Rightarrow> player_info" where
  "demo_info n = \<lparr>pl_name = ''Ann'', pl_female = True, pl_level = n, pl_vocation = 1, pl_pos = Position 100 100 7,
     not_gain_in_fight = False, in_fight = False\<rparr>"

fun performs :: "party_env \<Rightarrow> party_request list \<Rightarrow> party_world \<Rightarrow> party_world option" where
  "performs env [] w = Some w"
| "performs env (r # rs) w = (if fresh_request r w then do { w' \<leftarrow> party_perform env r w; performs env rs w' } else None)"

lemma performs_reach: "performs env rs w = Some w' \<Longrightarrow> reach init (party_step env) w \<Longrightarrow> reach init (party_step env) w'"
proof (induction rs arbitrary: w)
  case (Cons r rs)
  then obtain w1 where w1: "fresh_request r w" "party_perform env r w = Some w1" "performs env rs w1 = Some w'"
    by (auto simp: bind_eq_Some_conv split: if_splits)
  show ?case by (rule Cons.IH [OF w1(3)]) (rule reach_step [OF Cons.prems(2) party_step [OF w1(1,2)]])
qed simp

definition demo_party_run :: "party_world option" where
  "demo_party_run = performs demo_party_env
     [Log_In 1 (demo_info 9), Log_In 2 (demo_info 8), Invite 77 1 2, Join 2 1, Share 1 True, Fight 1 4, Fight 2 4] empty_world"

definition demo_party :: party_world where
  "demo_party = the demo_party_run"

lemma demo_party_reach: "reach (\<lambda>w. w = empty_world) (party_step demo_party_env) demo_party"
proof -
  have "map_option (\<lambda>w. party_of w 1) demo_party_run = Some (Some 77)" by code_simp
  then have "demo_party_run \<noteq> None" by auto
  then have "demo_party_run = Some demo_party" unfolding demo_party_def by (metis option.collapse)
  from performs_reach [OF this [unfolded demo_party_run_def]] show ?thesis by (simp add: reach_init)
qed

theorem party_requests_safe_witness:
  "\<exists>w'. party_perform demo_party_env (Leave 1) demo_party = Some w' \<and> consistent (view w')"
  by (rule party_requests_safe [OF demo_party_reach]) (simp_all add: scripts_accept_def demo_party_env_def)

theorem shared_experience_rule_witness:
  "\<exists>w' pt'. updateSharedExperience demo_party_env 77 demo_party = Some w' \<and> parties w' 77 = Some pt' \<and> memberList pt' = [2]"
proof -
  let ?pt = "the (parties demo_party 77)"
  have a: "map_option (\<lambda>pt. (leader pt, memberList pt, inviteList pt, sharedExpActive pt)) (parties demo_party 77) = Some (1, [2], [], True)"
    by code_simp
  then have pt: "parties demo_party 77 = Some ?pt" "leader ?pt = 1" "memberList ?pt = [2]" "inviteList ?pt = []" "sharedExpActive ?pt"
    by auto
  have "alive demo_party 1" "alive demo_party 2" by code_simp+
  then have "crew demo_party 77 ?pt" using pt by (simp add: crew_def)
  from shared_experience_rule [OF this pt(5), of demo_party_env] obtain w' pt' where
    w': "updateSharedExperience demo_party_env 77 demo_party = Some w'" "parties w' 77 = Some pt'" "view w' = view demo_party" by blast
  have "map_option roster (parties w' 77) = map_option roster (parties demo_party 77)"
    using w'(3) view_sel(4) by metis
  then have "roster pt' = roster ?pt" using w'(2) pt(1) by (metis option.map_sel option.sel option.discI)
  then show ?thesis using w' pt by (simp add: roster_def)
qed

end
