(* ===== verification/Chat_Channels.thy ===== *)
theory Chat_Channels imports Tfs_Prelude begin

text \<open>
  Chat channels, from \<open>src/src/chat.cpp\<close> and \<open>src/src/chat.h\<close>, with the requests of \<open>src/src/game.cpp\<close>:
  the public channels of a configuration file, one channel for each guild and each party, and the private
  channels that premium players open. Maps are association lists in the order of their keys, sets of users the
  ascending lists of their ids. What is known of a player (guild, party, rank, premium) and what the scripts of
  the channels answer are parameters; both may differ from call to call.
\<close>

section \<open>Players and channels\<close>

abbreviation (input) "CHANNEL_GUILD \<equiv> (0 :: nat)"
abbreviation (input) "CHANNEL_PARTY \<equiv> (1 :: nat)"
abbreviation (input) "CHANNEL_PRIVATE \<equiv> (0xFFFF :: nat)"

record guild_info =
  guild_id :: nat
  guild_name :: string
  guild_motd :: string

record chat_player =
  chat_name :: string
  chat_female :: bool
  chat_guild :: "guild_info option"
  rank_level :: "nat option"
  chat_party :: "nat option"
  chat_premium :: bool

datatype speak_class = TALKTYPE_CHANNEL_Y | TALKTYPE_CHANNEL_O | TALKTYPE_CHANNEL_R1 | Other_Talk nat

record chat_env =
  online :: "nat \<Rightarrow> bool"
  named :: "string \<Rightarrow> nat option"
  who :: "nat \<Rightarrow> chat_player"
  guid_of :: "nat \<Rightarrow> nat"
  can_join :: "nat \<Rightarrow> nat \<Rightarrow> bool"
  may_enter :: "nat \<Rightarrow> nat \<Rightarrow> bool"
  on_speak :: "nat \<Rightarrow> nat \<Rightarrow> speak_class \<Rightarrow> string \<Rightarrow> speak_class option"

datatype channel_event_kind = CHANNELEVENT_JOIN | CHANNELEVENT_LEAVE | CHANNELEVENT_INVITE | CHANNELEVENT_EXCLUDE

datatype chat_event =
    Channel_Event nat nat string channel_event_kind
  | Chat_Text nat string
  | Close_Private nat nat
  | Channel_Message nat nat "nat option" speak_class string
  | Leave_Script nat nat
  | Motd_Scheduled nat
  | Channel_Opened nat nat string "nat list option" "nat list option"
  | Private_Created nat nat string

text \<open>The scripts of a channel: those for joining, for entering, for leaving and for speaking, if registered.\<close>

record chat_channel =
  ch_id :: nat
  ch_name :: string
  ch_public :: bool
  users :: "nat list"
  canJoinEvent :: bool
  onJoinEvent :: bool
  onLeaveEvent :: bool
  onSpeakEvent :: bool

text \<open>The invited players of a private channel by their guid, each with the player it points to.\<close>

record private_channel = chat_channel +
  invites :: "(nat \<times> nat) list"
  owner :: nat

record chat =
  normalChannels :: "(nat \<times> chat_channel) list"
  privateChannels :: "(nat \<times> private_channel) list"
  partyChannels :: "(nat \<times> chat_channel) list"
  guildChannels :: "(nat \<times> chat_channel) list"
  chat_events :: "chat_event list"

definition new_channel :: "nat \<Rightarrow> string \<Rightarrow> chat_channel" where
  "new_channel i name = \<lparr>ch_id = i, ch_name = name, ch_public = False, users = [], canJoinEvent = False, onJoinEvent = False,
     onLeaveEvent = False, onSpeakEvent = False\<rparr>"

definition new_private :: "nat \<Rightarrow> string \<Rightarrow> nat \<Rightarrow> private_channel" where
  "new_private i name p = \<lparr>ch_id = i, ch_name = name, ch_public = False, users = [], canJoinEvent = False, onJoinEvent = False,
     onLeaveEvent = False, onSpeakEvent = False, invites = [], owner = p\<rparr>"

section \<open>Maps\<close>

definition put_new :: "nat \<Rightarrow> 'c \<Rightarrow> (nat \<times> 'c) list \<Rightarrow> (nat \<times> 'c) list" where
  "put_new k c m = (if k \<in> set (map fst m) then m else insort_key fst (k, c) m)"

definition change_at :: "nat \<Rightarrow> ('c \<Rightarrow> 'c) \<Rightarrow> (nat \<times> 'c) list \<Rightarrow> (nat \<times> 'c) list" where
  "change_at k f m = map (\<lambda>(i, x). if i = k then (i, f x) else (i, x)) m"

definition put_over :: "nat \<Rightarrow> 'c \<Rightarrow> (nat \<times> 'c) list \<Rightarrow> (nat \<times> 'c) list" where
  "put_over k c m = (if k \<in> set (map fst m) then change_at k (\<lambda>_. c) m else insort_key fst (k, c) m)"

definition take_from :: "nat \<Rightarrow> (nat \<times> 'c) list \<Rightarrow> (nat \<times> 'c) list" where
  "take_from k m = filter (\<lambda>(i, x). i \<noteq> k) m"

section \<open>One channel\<close>

text \<open>An operation on a channel: its answer, the channel, and what is sent.\<close>

definition join_allowed :: "chat_env \<Rightarrow> nat \<Rightarrow> 'a chat_channel_scheme \<Rightarrow> bool" where
  "join_allowed env p c \<longleftrightarrow> \<not> onJoinEvent c \<or> may_enter env (ch_id c) p"

definition to_users :: "'a chat_channel_scheme \<Rightarrow> string \<Rightarrow> channel_event_kind \<Rightarrow> chat_event list" where
  "to_users c name kind = (if ch_public c then [] else map (\<lambda>u. Channel_Event u (ch_id c) name kind) (users c))"

definition addUser :: "chat_env \<Rightarrow> nat \<Rightarrow> 'a chat_channel_scheme \<Rightarrow> bool \<times> 'a chat_channel_scheme \<times> chat_event list" where
  "addUser env p c =
     (if p \<in> set (users c) then (False, c, [])
      else if \<not> join_allowed env p c then (False, c, [])
      else
        let motd = (if ch_id c = CHANNEL_GUILD \<and> (case chat_guild (who env p) of Some g \<Rightarrow> guild_motd g \<noteq> [] | None \<Rightarrow> False)
                    then [Motd_Scheduled p] else [])
        in (True, c\<lparr>users := insort p (users c)\<rparr>, motd @ to_users c (chat_name (who env p)) CHANNELEVENT_JOIN))"

definition removeUser :: "chat_env \<Rightarrow> nat \<Rightarrow> 'a chat_channel_scheme \<Rightarrow> bool \<times> 'a chat_channel_scheme \<times> chat_event list" where
  "removeUser env p c =
     (if p \<notin> set (users c) then (False, c, [])
      else
        let c1 = c\<lparr>users := remove1 p (users c)\<rparr>
        in (True, c1, to_users c1 (chat_name (who env p)) CHANNELEVENT_LEAVE @ (if onLeaveEvent c1 then [Leave_Script (ch_id c1) p] else [])))"

definition hasUser :: "nat \<Rightarrow> 'a chat_channel_scheme \<Rightarrow> bool" where
  "hasUser p c \<longleftrightarrow> p \<in> set (users c)"

definition sendToAll :: "'a chat_channel_scheme \<Rightarrow> string \<Rightarrow> speak_class \<Rightarrow> chat_event list" where
  "sendToAll c text type = map (\<lambda>u. Channel_Message u (ch_id c) None type text) (users c)"

definition talk :: "nat \<Rightarrow> speak_class \<Rightarrow> string \<Rightarrow> 'a chat_channel_scheme \<Rightarrow> bool \<times> chat_event list" where
  "talk p type text c =
     (if p \<notin> set (users c) then (False, [])
      else (True, map (\<lambda>u. Channel_Message u (ch_id c) (Some p) type text) (users c)))"

definition executeOnSpeakEvent :: "chat_env \<Rightarrow> nat \<Rightarrow> speak_class \<Rightarrow> string \<Rightarrow> 'a chat_channel_scheme \<Rightarrow> speak_class option" where
  "executeOnSpeakEvent env p type text c = (if onSpeakEvent c then on_speak env (ch_id c) p type text else Some type)"

subsection \<open>Private channels\<close>

definition isInvited_to :: "nat \<Rightarrow> private_channel \<Rightarrow> bool" where
  "isInvited_to guid c \<longleftrightarrow> guid = owner c \<or> guid \<in> set (map fst (invites c))"

definition removeInvite_of :: "nat \<Rightarrow> private_channel \<Rightarrow> bool \<times> private_channel" where
  "removeInvite_of guid c = (guid \<in> set (map fst (invites c)), c\<lparr>invites := take_from guid (invites c)\<rparr>)"

definition hers :: "chat_env \<Rightarrow> nat \<Rightarrow> string" where
  "hers env p = (if chat_female (who env p) then ''her'' else ''his'')"

definition inviteToChannel :: "chat_env \<Rightarrow> nat \<Rightarrow> nat \<Rightarrow> private_channel \<Rightarrow> private_channel \<times> chat_event list" where
  "inviteToChannel env p q c =
     (if guid_of env q \<in> set (map fst (invites c)) then (c, [])
      else (c\<lparr>invites := put_new (guid_of env q) q (invites c)\<rparr>,
        [Chat_Text q (chat_name (who env p) @ '' invites you to '' @ hers env p @ '' private chat channel.''),
         Chat_Text p (chat_name (who env q) @ '' has been invited.'')] @
        map (\<lambda>u. Channel_Event u (ch_id c) (chat_name (who env q)) CHANNELEVENT_INVITE) (users c)))"

definition excludePlayer :: "chat_env \<Rightarrow> nat \<Rightarrow> nat \<Rightarrow> private_channel \<Rightarrow> private_channel \<times> chat_event list" where
  "excludePlayer env p q c =
     (let (was, c1) = removeInvite_of (guid_of env q) c in
      if \<not> was then (c, [])
      else
        let (_, c2, es) = removeUser env q c1
        in (c2, es @ [Chat_Text p (chat_name (who env q) @ '' has been excluded.''), Close_Private q (ch_id c2)] @
          map (\<lambda>u. Channel_Event u (ch_id c2) (chat_name (who env q)) CHANNELEVENT_EXCLUDE) (users c2)))"

definition closeChannel :: "private_channel \<Rightarrow> chat_event list" where
  "closeChannel c = map (\<lambda>u. Close_Private u (ch_id c)) (users c)"

section \<open>All channels\<close>

text \<open>A pointer to a channel: the map it is in and its key.\<close>

datatype channel_ref = Normal nat | Private nat | Of_Party nat | Of_Guild nat

definition getChannel :: "chat_env \<Rightarrow> chat \<Rightarrow> nat \<Rightarrow> nat \<Rightarrow> channel_ref option" where
  "getChannel env s p channelId =
     (if channelId = CHANNEL_GUILD then
        (case chat_guild (who env p) of
           Some g \<Rightarrow> if map_of (guildChannels s) (guild_id g) \<noteq> None then Some (Of_Guild (guild_id g)) else None
         | None \<Rightarrow> None)
      else if channelId = CHANNEL_PARTY then
        (case chat_party (who env p) of
           Some P \<Rightarrow> if map_of (partyChannels s) P \<noteq> None then Some (Of_Party P) else None
         | None \<Rightarrow> None)
      else (case map_of (normalChannels s) channelId of
           Some c \<Rightarrow> if canJoinEvent c \<and> \<not> can_join env (ch_id c) p then None else Some (Normal channelId)
         | None \<Rightarrow>
             (case map_of (privateChannels s) channelId of
                Some c \<Rightarrow> if isInvited_to (guid_of env p) c then Some (Private channelId) else None
              | None \<Rightarrow> None)))"

definition getGuildChannelById :: "chat \<Rightarrow> nat \<Rightarrow> channel_ref option" where
  "getGuildChannelById s g = (if map_of (guildChannels s) g = None then None else Some (Of_Guild g))"

definition getChannelById :: "chat \<Rightarrow> nat \<Rightarrow> channel_ref option" where
  "getChannelById s i = (if map_of (normalChannels s) i = None then None else Some (Normal i))"

definition getPrivateChannel :: "chat_env \<Rightarrow> chat \<Rightarrow> nat \<Rightarrow> nat option" where
  "getPrivateChannel env s p = map_option fst (find (\<lambda>(i, c). owner c = guid_of env p) (privateChannels s))"

definition free_slot :: "chat \<Rightarrow> nat option" where
  "free_slot s = find (\<lambda>i. i \<notin> set (map fst (privateChannels s))) [100..<10000]"

definition createChannel :: "chat_env \<Rightarrow> nat \<Rightarrow> nat \<Rightarrow> chat \<Rightarrow> channel_ref option \<times> chat" where
  "createChannel env p channelId s =
     (if getChannel env s p channelId \<noteq> None then (None, s)
      else if channelId = CHANNEL_GUILD then
        (case chat_guild (who env p) of
           Some g \<Rightarrow> (Some (Of_Guild (guild_id g)),
             s\<lparr>guildChannels := put_new (guild_id g) (new_channel channelId (guild_name g)) (guildChannels s)\<rparr>)
         | None \<Rightarrow> (None, s))
      else if channelId = CHANNEL_PARTY then
        (case chat_party (who env p) of
           Some P \<Rightarrow> (Some (Of_Party P), s\<lparr>partyChannels := put_new P (new_channel channelId ''Party'') (partyChannels s)\<rparr>)
         | None \<Rightarrow> (None, s))
      else if channelId = CHANNEL_PRIVATE then
        (if \<not> chat_premium (who env p) \<or> getPrivateChannel env s p \<noteq> None then (None, s)
         else (case free_slot s of
             None \<Rightarrow> (None, s)
           | Some i \<Rightarrow> (Some (Private i),
               s\<lparr>privateChannels := put_new i (new_private i (chat_name (who env p) @ [CHR 0x27] @ ''s Channel'') (guid_of env p))
                  (privateChannels s)\<rparr>)))
      else (None, s))"

definition deleteChannel :: "chat_env \<Rightarrow> nat \<Rightarrow> nat \<Rightarrow> chat \<Rightarrow> bool \<times> chat" where
  "deleteChannel env p channelId s =
     (if channelId = CHANNEL_GUILD then
        (case chat_guild (who env p) of
           None \<Rightarrow> (False, s)
         | Some g \<Rightarrow> if map_of (guildChannels s) (guild_id g) = None then (False, s)
             else (True, s\<lparr>guildChannels := take_from (guild_id g) (guildChannels s)\<rparr>))
      else if channelId = CHANNEL_PARTY then
        (case chat_party (who env p) of
           None \<Rightarrow> (False, s)
         | Some P \<Rightarrow> if map_of (partyChannels s) P = None then (False, s)
             else (True, s\<lparr>partyChannels := take_from P (partyChannels s)\<rparr>))
      else (case map_of (privateChannels s) channelId of
           None \<Rightarrow> (False, s)
         | Some c \<Rightarrow> (True, s\<lparr>privateChannels := take_from channelId (privateChannels s), chat_events := chat_events s @ closeChannel c\<rparr>)))"

text \<open>An operation on the channel that a pointer points to.\<close>

definition at_channel ::
  "channel_ref \<Rightarrow> (chat_channel \<Rightarrow> 'r \<times> chat_channel \<times> chat_event list) \<Rightarrow>
     (private_channel \<Rightarrow> 'r \<times> private_channel \<times> chat_event list) \<Rightarrow> 'r \<Rightarrow> chat \<Rightarrow> 'r \<times> chat" where
  "at_channel ref f g none s =
     (let on = (\<lambda>m. case m of Some c \<Rightarrow> f c | None \<Rightarrow> (none, new_channel 0 [], [])) in
      case ref of
        Normal i \<Rightarrow> (case on (map_of (normalChannels s) i) of (r, c, es) \<Rightarrow>
          (r, s\<lparr>normalChannels := change_at i (\<lambda>_. c) (normalChannels s), chat_events := chat_events s @ es\<rparr>))
      | Of_Party P \<Rightarrow> (case on (map_of (partyChannels s) P) of (r, c, es) \<Rightarrow>
          (r, s\<lparr>partyChannels := change_at P (\<lambda>_. c) (partyChannels s), chat_events := chat_events s @ es\<rparr>))
      | Of_Guild k \<Rightarrow> (case on (map_of (guildChannels s) k) of (r, c, es) \<Rightarrow>
          (r, s\<lparr>guildChannels := change_at k (\<lambda>_. c) (guildChannels s), chat_events := chat_events s @ es\<rparr>))
      | Private i \<Rightarrow> (case map_of (privateChannels s) i of
            None \<Rightarrow> (none, s)
          | Some c \<Rightarrow> (case g c of (r, c', es) \<Rightarrow>
              (r, s\<lparr>privateChannels := change_at i (\<lambda>_. c') (privateChannels s), chat_events := chat_events s @ es\<rparr>))))"

definition owner_of :: "chat \<Rightarrow> channel_ref \<Rightarrow> nat" where
  "owner_of s ref = (case ref of Private i \<Rightarrow> (case map_of (privateChannels s) i of Some c \<Rightarrow> owner c | None \<Rightarrow> 0) | _ \<Rightarrow> 0)"

definition addUserToChannel :: "chat_env \<Rightarrow> nat \<Rightarrow> nat \<Rightarrow> chat \<Rightarrow> channel_ref option \<times> chat" where
  "addUserToChannel env p channelId s =
     (case getChannel env s p channelId of
        None \<Rightarrow> (None, s)
      | Some ref \<Rightarrow>
          (case at_channel ref (addUser env p) (addUser env p) False s of (ok, s') \<Rightarrow> (if ok then Some ref else None, s')))"

definition removeUserFromChannel :: "chat_env \<Rightarrow> nat \<Rightarrow> nat \<Rightarrow> chat \<Rightarrow> bool \<times> chat" where
  "removeUserFromChannel env p channelId s =
     (case getChannel env s p channelId of
        None \<Rightarrow> (False, s)
      | Some ref \<Rightarrow>
          (case at_channel ref (removeUser env p) (removeUser env p) False s of (ok, s') \<Rightarrow>
             if \<not> ok then (False, s')
             else if owner_of s' ref = guid_of env p then (True, snd (deleteChannel env p channelId s')) else (True, s')))"

section \<open>A player leaves the game\<close>

fun remove_everywhere :: "chat_env \<Rightarrow> nat \<Rightarrow> (nat \<times> chat_channel) list \<Rightarrow> (nat \<times> chat_channel) list \<times> chat_event list" where
  "remove_everywhere env p [] = ([], [])"
| "remove_everywhere env p ((i, c) # cs) =
     (case removeUser env p c of (_, c', es) \<Rightarrow> case remove_everywhere env p cs of (cs', es') \<Rightarrow> ((i, c') # cs', es @ es'))"

fun remove_private :: "chat_env \<Rightarrow> nat \<Rightarrow> (nat \<times> private_channel) list \<Rightarrow> (nat \<times> private_channel) list \<times> chat_event list" where
  "remove_private env p [] = ([], [])"
| "remove_private env p ((i, c) # cs) =
     (case removeUser env p (snd (removeInvite_of (guid_of env p) c)) of (_, c', es) \<Rightarrow>
      case remove_private env p cs of (cs', es') \<Rightarrow>
        if owner c' = guid_of env p then (cs', es @ closeChannel c' @ es') else ((i, c') # cs', es @ es'))"

definition removeUserFromAllChannels :: "chat_env \<Rightarrow> nat \<Rightarrow> chat \<Rightarrow> chat" where
  "removeUserFromAllChannels env p s =
     (case remove_everywhere env p (normalChannels s) of (ns, e1) \<Rightarrow>
      case remove_everywhere env p (partyChannels s) of (ps, e2) \<Rightarrow>
      case remove_everywhere env p (guildChannels s) of (gs, e3) \<Rightarrow>
      case remove_private env p (privateChannels s) of (vs, e4) \<Rightarrow>
        s\<lparr>normalChannels := ns, partyChannels := ps, guildChannels := gs, privateChannels := vs,
          chat_events := chat_events s @ e1 @ e2 @ e3 @ e4\<rparr>)"

section \<open>Speaking\<close>

definition spoken_class :: "chat_env \<Rightarrow> nat \<Rightarrow> nat \<Rightarrow> speak_class \<Rightarrow> speak_class" where
  "spoken_class env p channelId type =
     (if channelId = CHANNEL_GUILD then
        (case rank_level (who env p) of
           Some level \<Rightarrow> if level > 1 then TALKTYPE_CHANNEL_O else TALKTYPE_CHANNEL_Y
         | None \<Rightarrow> TALKTYPE_CHANNEL_Y)
      else if channelId = CHANNEL_PRIVATE \<or> channelId = CHANNEL_PARTY then TALKTYPE_CHANNEL_Y
      else type)"

definition talkToChannel :: "chat_env \<Rightarrow> nat \<Rightarrow> speak_class \<Rightarrow> string \<Rightarrow> nat \<Rightarrow> chat \<Rightarrow> bool \<times> chat" where
  "talkToChannel env p type text channelId s =
     (case getChannel env s p channelId of
        None \<Rightarrow> (False, s)
      | Some ref \<Rightarrow>
          let say = (\<lambda>c. case executeOnSpeakEvent env p (spoken_class env p channelId type) text c of
                  None \<Rightarrow> (False, c, [])
                | Some type' \<Rightarrow> (case talk p type' text c of (ok, es) \<Rightarrow> (ok, c, es)));
              say_private = (\<lambda>c. case executeOnSpeakEvent env p (spoken_class env p channelId type) text c of
                  None \<Rightarrow> (False, c, [])
                | Some type' \<Rightarrow> (case talk p type' text c of (ok, es) \<Rightarrow> (ok, c, es)))
          in at_channel ref say say_private False s)"

section \<open>The list of channels\<close>

text \<open>The dialog's entries: \<open>None\<close> stands for the placeholder of a private channel not yet opened.\<close>

definition listed :: "chat_env \<Rightarrow> nat \<Rightarrow> nat \<Rightarrow> chat \<Rightarrow> channel_ref option list \<times> chat" where
  "listed env p channelId s =
     (case getChannel env s p channelId of
        Some ref \<Rightarrow> ([Some ref], s)
      | None \<Rightarrow> (case createChannel env p channelId s of
            (Some ref, s') \<Rightarrow> ([Some ref], s')
          | (None, s') \<Rightarrow> ([], s')))"

definition getChannelList :: "chat_env \<Rightarrow> nat \<Rightarrow> chat \<Rightarrow> channel_ref option list \<times> chat" where
  "getChannelList env p s =
     (let (gs, s1) = (if chat_guild (who env p) \<noteq> None then listed env p CHANNEL_GUILD s else ([], s));
          (ps, s2) = (if chat_party (who env p) \<noteq> None then listed env p CHANNEL_PARTY s1 else ([], s1));
          ns = concat (map (\<lambda>(i, c). case getChannel env s2 p i of Some ref \<Rightarrow> [Some ref] | None \<Rightarrow> []) (normalChannels s2));
          vs = map (\<lambda>(i, c). Some (Private i)) (filter (\<lambda>(i, c). isInvited_to (guid_of env p) c) (privateChannels s2));
          hasPrivate = (\<exists>(i, c) \<in> set (privateChannels s2). owner c = guid_of env p)
      in ((if \<not> hasPrivate \<and> chat_premium (who env p) then [None] else []) @ gs @ ps @ ns @ vs, s2))"

section \<open>Loading the public channels\<close>

text \<open>
  An entry of the configuration file. Its script, if it names one, is \<open>None\<close> when it cannot be loaded, and
  otherwise tells which of the events \<open>onSpeak\<close>, \<open>canJoin\<close>, \<open>onJoin\<close> and \<open>onLeave\<close> it has.
\<close>

record channel_node =
  node_id :: nat
  node_name :: string
  node_public :: bool
  node_script :: "(bool \<times> bool \<times> bool \<times> bool) option option"

definition channel_of_node :: "channel_node \<Rightarrow> chat_channel" where
  "channel_of_node n =
     (let c = (new_channel (node_id n) (node_name n))\<lparr>ch_public := node_public n\<rparr> in
      case node_script n of
        Some (Some (sp, cj, jn, lv)) \<Rightarrow> c\<lparr>onSpeakEvent := sp, canJoinEvent := cj, onJoinEvent := jn, onLeaveEvent := lv\<rparr>
      | _ \<Rightarrow> c)"

fun load_nodes :: "channel_node list \<Rightarrow> nat list \<Rightarrow> (nat \<times> chat_channel) list \<Rightarrow> nat list \<times> (nat \<times> chat_channel) list" where
  "load_nodes [] removed m = (removed, m)"
| "load_nodes (n # ns) removed m =
     load_nodes ns (filter (\<lambda>i. i \<noteq> node_id n) removed) (put_over (node_id n) (channel_of_node n) m)"

definition load_channels :: "channel_node list option \<Rightarrow> chat \<Rightarrow> bool \<times> chat" where
  "load_channels file s =
     (case file of
        None \<Rightarrow> (False, s)
      | Some ns \<Rightarrow>
          let cleared = map (\<lambda>(i, c). (i, c\<lparr>onSpeakEvent := False, canJoinEvent := False, onJoinEvent := False,
                onLeaveEvent := False\<rparr>)) (normalChannels s);
              (removed, m) = load_nodes ns (rev (map fst cleared)) cleared
          in (True, s\<lparr>normalChannels := fold take_from removed m\<rparr>))"

section \<open>Requests\<close>

definition say_events :: "chat_event list \<Rightarrow> chat \<Rightarrow> chat" where
  "say_events es s = s\<lparr>chat_events := chat_events s @ es\<rparr>"

definition playerCreatePrivateChannel :: "chat_env \<Rightarrow> nat \<Rightarrow> chat \<Rightarrow> chat" where
  "playerCreatePrivateChannel env p s =
     (if \<not> online env p \<or> \<not> chat_premium (who env p) then s
      else (case createChannel env p CHANNEL_PRIVATE s of
          (None, s1) \<Rightarrow> s1
        | (Some ref, s1) \<Rightarrow>
            (case at_channel ref (addUser env p) (addUser env p) False s1 of (ok, s2) \<Rightarrow>
               if \<not> ok then s2
               else (case ref of
                   Private i \<Rightarrow> (case map_of (privateChannels s2) i of
                       Some c \<Rightarrow> say_events [Private_Created p (ch_id c) (ch_name c)] s2
                     | None \<Rightarrow> s2)
                 | _ \<Rightarrow> s2))))"

text \<open>Inviting and excluding share the checks: the channel is the player's own, the other player is someone else.\<close>

definition other_and_channel :: "chat_env \<Rightarrow> nat \<Rightarrow> string \<Rightarrow> chat \<Rightarrow> (nat \<times> nat) option" where
  "other_and_channel env p name s =
     (if \<not> online env p then None
      else (case getPrivateChannel env s p of
          None \<Rightarrow> None
        | Some i \<Rightarrow> (case named env name of
              None \<Rightarrow> None
            | Some q \<Rightarrow> if p = q then None else Some (q, i))))"

definition playerChannelInvite :: "chat_env \<Rightarrow> nat \<Rightarrow> string \<Rightarrow> chat \<Rightarrow> chat" where
  "playerChannelInvite env p name s =
     (case other_and_channel env p name s of
        None \<Rightarrow> s
      | Some (q, i) \<Rightarrow> snd (at_channel (Private i) (\<lambda>c. ((), c, [])) (\<lambda>c. ((), inviteToChannel env p q c)) () s))"

definition playerChannelExclude :: "chat_env \<Rightarrow> nat \<Rightarrow> string \<Rightarrow> chat \<Rightarrow> chat" where
  "playerChannelExclude env p name s =
     (case other_and_channel env p name s of
        None \<Rightarrow> s
      | Some (q, i) \<Rightarrow> snd (at_channel (Private i) (\<lambda>c. ((), c, [])) (\<lambda>c. ((), excludePlayer env p q c)) () s))"

definition playerRequestChannels :: "chat_env \<Rightarrow> nat \<Rightarrow> chat \<Rightarrow> channel_ref option list \<times> chat" where
  "playerRequestChannels env p s = (if \<not> online env p then ([], s) else getChannelList env p s)"

definition plain_channel :: "chat \<Rightarrow> channel_ref \<Rightarrow> chat_channel option" where
  "plain_channel s ref =
     (case ref of Normal i \<Rightarrow> map_of (normalChannels s) i | Of_Party P \<Rightarrow> map_of (partyChannels s) P
      | Of_Guild g \<Rightarrow> map_of (guildChannels s) g | Private i \<Rightarrow> None)"

definition shown_users :: "'a chat_channel_scheme \<Rightarrow> nat list option" where
  "shown_users c = (if ch_public c then None else Some (users c))"

definition opened_as :: "nat \<Rightarrow> chat \<Rightarrow> channel_ref \<Rightarrow> chat_event list" where
  "opened_as p s ref =
     (case ref of
        Private i \<Rightarrow> (case map_of (privateChannels s) i of
            Some c \<Rightarrow> [Channel_Opened p (ch_id c) (ch_name c) (shown_users c) (Some (map snd (invites c)))] | None \<Rightarrow> [])
      | _ \<Rightarrow> (case plain_channel s ref of
            Some c \<Rightarrow> [Channel_Opened p (ch_id c) (ch_name c) (shown_users c) None] | None \<Rightarrow> []))"

definition playerOpenChannel :: "chat_env \<Rightarrow> nat \<Rightarrow> nat \<Rightarrow> chat \<Rightarrow> chat" where
  "playerOpenChannel env p channelId s =
     (if \<not> online env p then s
      else (case addUserToChannel env p channelId s of
          (None, s1) \<Rightarrow> s1
        | (Some ref, s1) \<Rightarrow> say_events (opened_as p s1 ref) s1))"

definition playerCloseChannel :: "chat_env \<Rightarrow> nat \<Rightarrow> nat \<Rightarrow> chat \<Rightarrow> chat" where
  "playerCloseChannel env p channelId s = (if \<not> online env p then s else snd (removeUserFromChannel env p channelId s))"

text \<open>The window of a channel is closed for a player, as when the player leaves the guild or the party.\<close>

definition sendClosePrivate :: "chat_env \<Rightarrow> nat \<Rightarrow> nat \<Rightarrow> chat \<Rightarrow> chat" where
  "sendClosePrivate env p channelId s =
     (let s1 = (if channelId = CHANNEL_GUILD \<or> channelId = CHANNEL_PARTY then snd (removeUserFromChannel env p channelId s) else s)
      in say_events [Close_Private p channelId] s1)"

section \<open>Who is in a channel\<close>

definition users_at :: "chat \<Rightarrow> channel_ref \<Rightarrow> nat list" where
  "users_at s ref =
     (case ref of
        Private i \<Rightarrow> (case map_of (privateChannels s) i of Some c \<Rightarrow> users c | None \<Rightarrow> [])
      | _ \<Rightarrow> (case plain_channel s ref of Some c \<Rightarrow> users c | None \<Rightarrow> []))"

definition users_ok :: "nat set \<Rightarrow> 'a chat_channel_scheme \<Rightarrow> bool" where
  "users_ok on c \<longleftrightarrow> distinct (users c) \<and> set (users c) \<subseteq> on"

definition private_ok :: "(nat \<Rightarrow> nat) \<Rightarrow> nat set \<Rightarrow> nat \<Rightarrow> private_channel \<Rightarrow> bool" where
  "private_ok gd on i c \<longleftrightarrow> 100 \<le> i \<and> i < 10000 \<and> ch_id c = i \<and> \<not> ch_public c \<and> users_ok on c \<and>
     (\<forall>u \<in> set (users c). isInvited_to (gd u) c)"

definition chat_ok :: "(nat \<Rightarrow> nat) \<Rightarrow> nat set \<Rightarrow> chat \<Rightarrow> bool" where
  "chat_ok gd on s \<longleftrightarrow>
     (\<forall>(i, c) \<in> set (normalChannels s). users_ok on c) \<and>
     (\<forall>(i, c) \<in> set (partyChannels s). users_ok on c) \<and>
     (\<forall>(i, c) \<in> set (guildChannels s). users_ok on c) \<and>
     (\<forall>(i, c) \<in> set (privateChannels s). private_ok gd on i c) \<and>
     distinct (map fst (privateChannels s)) \<and>
     distinct (map (\<lambda>(i, c). owner c) (privateChannels s))"

text \<open>
  The players in the game and the channels. A player has the same guid as long as it is in the game, and
  no two players in the game share one (\<open>allowClones\<close> is off).
\<close>

type_synonym chat_world = "nat set \<times> chat"

definition env_for :: "(nat \<Rightarrow> nat) \<Rightarrow> nat set \<Rightarrow> chat_env \<Rightarrow> bool" where
  "env_for gd on env \<longleftrightarrow> guid_of env = gd \<and> (\<forall>p. online env p \<longleftrightarrow> p \<in> on) \<and> (\<forall>n q. named env n = Some q \<longrightarrow> q \<in> on)"

datatype chat_request =
    Create_Private nat
  | Invite nat string
  | Exclude nat string
  | List_Channels nat
  | Open_Channel nat nat
  | Close_Channel nat nat
  | Window_Closed nat nat
  | Say nat speak_class string nat
  | Load "channel_node list option"

fun serve_chat :: "chat_env \<Rightarrow> chat_request \<Rightarrow> chat \<Rightarrow> chat" where
  "serve_chat env (Create_Private p) s = playerCreatePrivateChannel env p s"
| "serve_chat env (Invite p name) s = playerChannelInvite env p name s"
| "serve_chat env (Exclude p name) s = playerChannelExclude env p name s"
| "serve_chat env (List_Channels p) s = snd (playerRequestChannels env p s)"
| "serve_chat env (Open_Channel p i) s = playerOpenChannel env p i s"
| "serve_chat env (Close_Channel p i) s = playerCloseChannel env p i s"
| "serve_chat env (Window_Closed p i) s = sendClosePrivate env p i s"
| "serve_chat env (Say p type words i) s = (if online env p then snd (talkToChannel env p type words i s) else s)"
| "serve_chat env (Load file) s = snd (load_channels file s)"

inductive chat_step :: "(nat \<Rightarrow> nat) \<Rightarrow> chat_world \<Rightarrow> chat_world \<Rightarrow> bool" for gd :: "nat \<Rightarrow> nat" where
  log_in: "gd p \<notin> gd ` on \<Longrightarrow> chat_step gd (on, s) (insert p on, s)"
| served: "env_for gd on env \<Longrightarrow> chat_step gd (on, s) (on, serve_chat env r s)"
| log_out: "env_for gd on env \<Longrightarrow> p \<in> on \<Longrightarrow> chat_step gd (on, s) (on - {p}, removeUserFromAllChannels env p s)"

inductive_simps chat_step_simps: "chat_step gd (on, s) (on', s')"

definition no_chat :: chat where
  "no_chat = \<lparr>normalChannels = [], privateChannels = [], partyChannels = [], guildChannels = [], chat_events = []\<rparr>"

definition chat_start :: "chat_world \<Rightarrow> bool" where
  "chat_start w \<longleftrightarrow> fst w = {} \<and> snd w = no_chat"

definition world_ok :: "(nat \<Rightarrow> nat) \<Rightarrow> chat_world \<Rightarrow> bool" where
  "world_ok gd w \<longleftrightarrow> inj_on gd (fst w) \<and> chat_ok gd (fst w) (snd w)"

section \<open>Lemmas on the maps\<close>

lemma keys_change_at [simp]: "map fst (change_at k f m) = map fst m"
  by (induction m) (auto simp: change_at_def)

lemma in_change_at: "(i, x) \<in> set (change_at k f m) \<Longrightarrow> (i, x) \<in> set m \<and> i \<noteq> k \<or> i = k \<and> (\<exists>y. (i, y) \<in> set m \<and> x = f y)"
  by (auto simp: change_at_def split: if_splits)

lemma in_put_new: "(i, x) \<in> set (put_new k c m) \<Longrightarrow> (i, x) = (k, c) \<or> (i, x) \<in> set m"
  by (auto simp: put_new_def set_insort_key split: if_splits)

lemma in_put_over: "(i, x) \<in> set (put_over k c m) \<Longrightarrow> (i, x) = (k, c) \<or> (i, x) \<in> set m \<and> i \<noteq> k"
  by (force simp: put_over_def set_insort_key dest!: in_change_at split: if_splits)

lemma in_take_from [simp]: "(i, x) \<in> set (take_from k m) \<longleftrightarrow> (i, x) \<in> set m \<and> i \<noteq> k"
  by (auto simp: take_from_def)

lemma distinct_map_insort_key: "distinct (map g (insort_key f x xs)) \<longleftrightarrow> g x \<notin> g ` set xs \<and> distinct (map g xs)"
  by (induction xs) (auto simp: set_insort_key)

lemma distinct_put_new: "distinct (map fst m) \<Longrightarrow> distinct (map fst (put_new k c m))"
  by (auto simp: put_new_def distinct_map_insort_key)

lemma map_of_insort: "k \<notin> fst ` set m \<Longrightarrow> map_of (insort_key fst (k, c) m) = (map_of m)(k \<mapsto> c)"
  by (induction m) (auto simp: fun_eq_iff)

lemma map_of_change_at: "map_of (change_at k f m) i = (if i = k then map_option f (map_of m i) else map_of m i)"
  by (induction m) (auto simp: change_at_def)

lemma map_of_put_over: "map_of (put_over k c m) = (map_of m)(k \<mapsto> c)"
proof (cases "map_of m k")
  case None
  then show ?thesis by (simp add: put_over_def map_of_insort map_of_eq_None_iff)
next
  case (Some d)
  then have "k \<in> fst ` set m" by (metis map_of_eq_None_iff option.distinct(1))
  with Some show ?thesis by (auto simp: put_over_def fun_eq_iff map_of_change_at)
qed

lemma map_of_take_from: "map_of (take_from k m) = (map_of m)(k := None)"
  by (induction m) (auto simp: take_from_def fun_eq_iff)

lemma in_map_of: "map_of m k = Some c \<Longrightarrow> (k, c) \<in> set m"
  by (rule map_of_SomeD)

lemma distinct_take_from [simp]: "distinct (map g m) \<Longrightarrow> distinct (map g (take_from k m))"
  unfolding take_from_def by (rule distinct_map_filter)

section \<open>What one operation keeps\<close>

lemma users_ok_new [simp]: "users_ok on (new_channel i name)"
  by (simp add: users_ok_def new_channel_def)

lemma new_private_simps [simp]:
  "users (new_private i name g) = []" "owner (new_private i name g) = g" "ch_id (new_private i name g) = i"
  "ch_public (new_private i name g) = False" "invites (new_private i name g) = []"
  by (simp_all add: new_private_def)

lemma addUser_users:
  "users (fst (snd (addUser env p c))) = (if fst (addUser env p c) then insort p (users c) else users c)"
  by (simp add: addUser_def Let_def)

lemma addUser_fresh: "fst (addUser env p c) \<Longrightarrow> p \<notin> set (users c)"
  by (auto simp: addUser_def split: if_splits)

lemma removeUser_users: "users (fst (snd (removeUser env p c))) = remove1 p (users c)"
  by (simp add: removeUser_def Let_def remove1_idem)

lemma addUser_rest [simp]:
  "ch_id (fst (snd (addUser env p c))) = ch_id c" "ch_public (fst (snd (addUser env p c))) = ch_public c"
  by (simp_all add: addUser_def Let_def)

lemma addUser_private [simp]:
  "owner (fst (snd (addUser env p c))) = owner c" "invites (fst (snd (addUser env p c))) = invites c"
  by (simp_all add: addUser_def Let_def)

lemma removeUser_rest [simp]:
  "ch_id (fst (snd (removeUser env p c))) = ch_id c" "ch_public (fst (snd (removeUser env p c))) = ch_public c"
  by (simp_all add: removeUser_def Let_def)

lemma removeUser_private [simp]:
  "owner (fst (snd (removeUser env p c))) = owner c" "invites (fst (snd (removeUser env p c))) = invites c"
  by (simp_all add: removeUser_def Let_def)

lemma users_ok_add: "users_ok on c \<Longrightarrow> p \<in> on \<Longrightarrow> users_ok on (fst (snd (addUser env p c)))"
  by (auto simp: users_ok_def addUser_users distinct_insort set_insort_key dest: addUser_fresh)

lemma users_ok_remove: "users_ok on c \<Longrightarrow> users_ok on (fst (snd (removeUser env p c)))"
  by (auto simp: users_ok_def removeUser_users dest: notin_set_remove1)

lemma users_ok_removed: "users_ok on c \<Longrightarrow> users_ok (on - {p}) (fst (snd (removeUser env p c)))"
  by (auto simp: users_ok_def removeUser_users)

lemma private_ok_add:
  "private_ok gd on i c \<Longrightarrow> p \<in> on \<Longrightarrow> isInvited_to (gd p) c \<Longrightarrow> private_ok gd on i (fst (snd (addUser env p c)))"
  by (auto simp: private_ok_def users_ok_add isInvited_to_def addUser_users set_insort_key)

lemma private_ok_remove: "private_ok gd on i c \<Longrightarrow> private_ok gd on i (fst (snd (removeUser env p c)))"
  by (auto simp: private_ok_def users_ok_remove isInvited_to_def removeUser_users dest: notin_set_remove1)

lemma private_ok_new: "100 \<le> i \<Longrightarrow> i < 10000 \<Longrightarrow> private_ok gd on i (new_private i name g)"
  by (simp add: private_ok_def users_ok_def)

lemma private_ok_more: "private_ok gd on i c \<Longrightarrow> on \<subseteq> on' \<Longrightarrow> private_ok gd on' i c"
  by (auto simp: private_ok_def users_ok_def)

lemma inviteToChannel_private:
  "fst (inviteToChannel env p q c) = c\<lparr>invites := put_new (guid_of env q) q (invites c)\<rparr>"
  by (auto simp: inviteToChannel_def put_new_def)

lemma set_keys_put_new: "fst ` set (put_new k x m) = insert k (fst ` set m)"
  by (auto simp: put_new_def set_insort_key)

lemma private_ok_invite: "private_ok gd on i c \<Longrightarrow> private_ok gd on i (fst (inviteToChannel env p q c))"
  by (auto simp: private_ok_def users_ok_def isInvited_to_def inviteToChannel_private set_keys_put_new)

lemma excludePlayer_private:
  assumes "guid_of env q \<in> fst ` set (invites c)"
  shows "fst (excludePlayer env p q c) = fst (snd (removeUser env q (c\<lparr>invites := take_from (guid_of env q) (invites c)\<rparr>)))"
  using assms by (simp add: excludePlayer_def removeInvite_of_def split_beta)

lemma excludePlayer_not_invited: "guid_of env q \<notin> fst ` set (invites c) \<Longrightarrow> fst (excludePlayer env p q c) = c"
  by (simp add: excludePlayer_def removeInvite_of_def)

lemma private_ok_exclude:
  assumes ok: "private_ok gd on i c" and inj: "inj_on gd on" and q: "q \<in> on" and gd: "guid_of env = gd"
  shows "private_ok gd on i (fst (excludePlayer env p q c))"
proof (cases "gd q \<in> fst ` set (invites c)")
  case True
  have "isInvited_to (gd u) (c\<lparr>invites := take_from (gd q) (invites c)\<rparr>)" if u: "u \<in> set (remove1 q (users c))" for u
  proof -
    from ok u have "u \<noteq> q" "u \<in> set (users c)" "u \<in> on"
      by (auto simp: private_ok_def users_ok_def)
    with inj q have "gd u \<noteq> gd q" by (auto dest: inj_onD)
    moreover from ok \<open>u \<in> set (users c)\<close> have "isInvited_to (gd u) c" by (simp add: private_ok_def)
    ultimately show ?thesis by (force simp: isInvited_to_def)
  qed
  with ok True gd show ?thesis
    by (auto simp: excludePlayer_private private_ok_def removeUser_users isInvited_to_def users_ok_def dest: notin_set_remove1)
next
  case False
  with ok gd show ?thesis by (simp add: excludePlayer_not_invited)
qed

lemma owner_exclude [simp]: "owner (fst (excludePlayer env p q c)) = owner c"
  by (cases "guid_of env q \<in> fst ` set (invites c)") (simp_all add: excludePlayer_private excludePlayer_not_invited)

lemma owner_invite [simp]: "owner (fst (inviteToChannel env p q c)) = owner c"
  by (simp add: inviteToChannel_private)

section \<open>The invariant\<close>

lemma chat_ok_parts:
  "chat_ok gd on s \<Longrightarrow> (i, c) \<in> set (normalChannels s) \<Longrightarrow> users_ok on c"
  "chat_ok gd on s \<Longrightarrow> (i, c) \<in> set (partyChannels s) \<Longrightarrow> users_ok on c"
  "chat_ok gd on s \<Longrightarrow> (i, c) \<in> set (guildChannels s) \<Longrightarrow> users_ok on c"
  "chat_ok gd on s \<Longrightarrow> (i, v) \<in> set (privateChannels s) \<Longrightarrow> private_ok gd on i v"
  by (auto simp: chat_ok_def)

lemma owners_change_at:
  "(\<And>v. (i, v) \<in> set m \<Longrightarrow> owner (f v) = owner v) \<Longrightarrow> map (\<lambda>(i, c). owner c) (change_at i f m) = map (\<lambda>(i, c). owner c) m"
  by (induction m) (auto simp: change_at_def)

lemma chat_ok_say [simp]: "chat_ok gd on (say_events es s) = chat_ok gd on s"
  by (simp add: chat_ok_def say_events_def)

lemma chat_ok_events [simp]: "chat_ok gd on (s\<lparr>chat_events := es\<rparr>) = chat_ok gd on s"
  by (simp add: chat_ok_def)

lemma chat_ok_normal:
  "chat_ok gd on s \<Longrightarrow> (\<And>i c. (i, c) \<in> set m \<Longrightarrow> users_ok on c) \<Longrightarrow> chat_ok gd on (s\<lparr>normalChannels := m\<rparr>)"
  by (auto simp: chat_ok_def)

lemma chat_ok_party:
  "chat_ok gd on s \<Longrightarrow> (\<And>i c. (i, c) \<in> set m \<Longrightarrow> users_ok on c) \<Longrightarrow> chat_ok gd on (s\<lparr>partyChannels := m\<rparr>)"
  by (auto simp: chat_ok_def)

lemma chat_ok_guild:
  "chat_ok gd on s \<Longrightarrow> (\<And>i c. (i, c) \<in> set m \<Longrightarrow> users_ok on c) \<Longrightarrow> chat_ok gd on (s\<lparr>guildChannels := m\<rparr>)"
  by (auto simp: chat_ok_def)

lemma chat_ok_private:
  "chat_ok gd on s \<Longrightarrow> (\<And>i c. (i, c) \<in> set m \<Longrightarrow> private_ok gd on i c) \<Longrightarrow> distinct (map fst m) \<Longrightarrow>
     distinct (map (\<lambda>(i, c). owner c) m) \<Longrightarrow> chat_ok gd on (s\<lparr>privateChannels := m\<rparr>)"
  by (auto simp: chat_ok_def)

lemma change_at_keeps:
  "(\<And>i c. (i, c) \<in> set m \<Longrightarrow> P i c) \<Longrightarrow> (\<And>y. (k, y) \<in> set m \<Longrightarrow> P k (f y)) \<Longrightarrow> (i, c) \<in> set (change_at k f m) \<Longrightarrow> P i c"
  by (auto dest!: in_change_at)

lemma at_channel_ok:
  assumes ok: "chat_ok gd on s"
    and f: "\<And>c. users_ok on c \<Longrightarrow> users_ok on (fst (snd (f c)))"
    and g: "\<And>i c. ref = Private i \<Longrightarrow> (i, c) \<in> set (privateChannels s) \<Longrightarrow> map_of (privateChannels s) i = Some c \<Longrightarrow>
      private_ok gd on i (fst (snd (g c))) \<and> owner (fst (snd (g c))) = owner c"
  shows "chat_ok gd on (snd (at_channel ref f g none s))"
proof (cases ref)
  case (Normal i)
  have c: "users_ok on (fst (snd (case map_of (normalChannels s) i of Some c \<Rightarrow> f c | None \<Rightarrow> (none, new_channel 0 [], []))))"
    using chat_ok_parts(1) [OF ok] f by (auto split: option.split dest!: in_map_of)
  have "chat_ok gd on (s\<lparr>normalChannels := change_at i (\<lambda>_. fst (snd (case map_of (normalChannels s) i of Some c \<Rightarrow> f c |
      None \<Rightarrow> (none, new_channel 0 [], [])))) (normalChannels s)\<rparr>)"
    using ok c chat_ok_parts(1) [OF ok] by (intro chat_ok_normal) (auto dest!: in_change_at)
  then show ?thesis by (simp add: Normal at_channel_def Let_def split_beta chat_ok_def)
next
  case (Of_Party i)
  have c: "users_ok on (fst (snd (case map_of (partyChannels s) i of Some c \<Rightarrow> f c | None \<Rightarrow> (none, new_channel 0 [], []))))"
    using chat_ok_parts(2) [OF ok] f by (auto split: option.split dest!: in_map_of)
  have "chat_ok gd on (s\<lparr>partyChannels := change_at i (\<lambda>_. fst (snd (case map_of (partyChannels s) i of Some c \<Rightarrow> f c |
      None \<Rightarrow> (none, new_channel 0 [], [])))) (partyChannels s)\<rparr>)"
    using ok c chat_ok_parts(2) [OF ok] by (intro chat_ok_party) (auto dest!: in_change_at)
  then show ?thesis by (simp add: Of_Party at_channel_def Let_def split_beta chat_ok_def)
next
  case (Of_Guild i)
  have c: "users_ok on (fst (snd (case map_of (guildChannels s) i of Some c \<Rightarrow> f c | None \<Rightarrow> (none, new_channel 0 [], []))))"
    using chat_ok_parts(3) [OF ok] f by (auto split: option.split dest!: in_map_of)
  have "chat_ok gd on (s\<lparr>guildChannels := change_at i (\<lambda>_. fst (snd (case map_of (guildChannels s) i of Some c \<Rightarrow> f c |
      None \<Rightarrow> (none, new_channel 0 [], [])))) (guildChannels s)\<rparr>)"
    using ok c chat_ok_parts(3) [OF ok] by (intro chat_ok_guild) (auto dest!: in_change_at)
  then show ?thesis by (simp add: Of_Guild at_channel_def Let_def split_beta chat_ok_def)
next
  case (Private i)
  show ?thesis
  proof (cases "map_of (privateChannels s) i")
    case None
    with ok Private show ?thesis by (simp add: at_channel_def)
  next
    case (Some c)
    let ?m = "change_at i (\<lambda>_. fst (snd (g c))) (privateChannels s)"
    have in_c: "(i, c) \<in> set (privateChannels s)" by (rule in_map_of [OF Some])
    have new: "private_ok gd on i (fst (snd (g c)))" and own: "owner (fst (snd (g c))) = owner c"
      using g [OF Private in_c Some] by auto
    have keys: "distinct (map fst (privateChannels s))" and owners: "distinct (map (\<lambda>(i, c). owner c) (privateChannels s))"
      using ok by (simp_all add: chat_ok_def)
    have "owner v = owner c" if "(i, v) \<in> set (privateChannels s)" for v
      using eq_key_imp_eq_value [OF keys that in_c] by simp
    with own have "map (\<lambda>(i, c). owner c) ?m = map (\<lambda>(i, c). owner c) (privateChannels s)"
      by (intro owners_change_at) simp
    with ok new owners keys have "chat_ok gd on (s\<lparr>privateChannels := ?m\<rparr>)"
      by (intro chat_ok_private) (auto dest!: in_change_at intro: chat_ok_parts(4))
    then show ?thesis using Private Some by (simp add: at_channel_def split_beta chat_ok_def)
  qed
qed

lemma getChannel_private:
  assumes "getChannel env s p i = Some (Private j)"
  shows "j = i" "\<exists>c. map_of (privateChannels s) i = Some c \<and> isInvited_to (guid_of env p) c"
  using assms by (auto simp: getChannel_def split: if_splits option.splits)

lemma getPrivateChannel_mine:
  "getPrivateChannel env s p = Some i \<Longrightarrow> \<exists>c. (i, c) \<in> set (privateChannels s) \<and> owner c = guid_of env p"
  by (auto simp: getPrivateChannel_def find_Some_iff in_set_conv_nth) metis

lemma getPrivateChannel_none:
  "getPrivateChannel env s p = None \<longleftrightarrow> guid_of env p \<notin> (\<lambda>(i, c). owner c) ` set (privateChannels s)"
  by (force simp: getPrivateChannel_def find_None_iff)

lemma find_upt: "find P [a..<b] = Some i \<Longrightarrow> a \<le> i \<and> i < b \<and> P i"
  by (auto simp: find_Some_iff)

lemma free_slot_bounds: "free_slot s = Some i \<Longrightarrow> 100 \<le> i \<and> i < 10000 \<and> i \<notin> fst ` set (privateChannels s)"
  unfolding free_slot_def by (drule find_upt) simp

lemma chat_ok_create:
  assumes ok: "chat_ok gd on s" and gd: "guid_of env = gd"
  shows "chat_ok gd on (snd (createChannel env p i s))"
proof -
  have new: "chat_ok gd on (s\<lparr>privateChannels := put_new j (new_private j name (gd p)) (privateChannels s)\<rparr>)"
    if none: "getPrivateChannel env s p = None" and "free_slot s = Some j" for j name
  proof (rule chat_ok_private [OF ok])
    note j = free_slot_bounds [OF that(2)]
    fix k c assume "(k, c) \<in> set (put_new j (new_private j name (gd p)) (privateChannels s))"
    from in_put_new [OF this] j show "private_ok gd on k c" by (auto intro: private_ok_new chat_ok_parts(4) [OF ok])
  next
    show "distinct (map fst (put_new j (new_private j name (gd p)) (privateChannels s)))"
      using ok by (simp add: distinct_put_new chat_ok_def)
    show "distinct (map (\<lambda>(i, c). owner c) (put_new j (new_private j name (gd p)) (privateChannels s)))"
      using ok none free_slot_bounds [OF that(2)] gd
      by (simp add: put_new_def distinct_map_insort_key getPrivateChannel_none chat_ok_def)
  qed
  have g: "chat_ok gd on (s\<lparr>guildChannels := put_new k (new_channel i name) (guildChannels s)\<rparr>)" for k name
    using ok by (intro chat_ok_guild) (auto dest!: in_put_new intro: chat_ok_parts(3))
  have q: "chat_ok gd on (s\<lparr>partyChannels := put_new k (new_channel i name) (partyChannels s)\<rparr>)" for k name
    using ok by (intro chat_ok_party) (auto dest!: in_put_new intro: chat_ok_parts(2))
  show ?thesis using ok new g q gd by (auto simp: createChannel_def split: option.split)
qed

lemma createChannel_ref:
  assumes "createChannel env p CHANNEL_PRIVATE s = (Some ref, s')" and ok: "chat_ok gd on s"
  obtains i where "ref = Private i" and "map_of (privateChannels s') i = Some (new_private i (chat_name (who env p) @ [CHR 0x27] @ ''s Channel'') (guid_of env p))"
proof -
  from assms(1) obtain i where i: "ref = Private i" "free_slot s = Some i"
      "s' = s\<lparr>privateChannels := put_new i (new_private i (chat_name (who env p) @ [CHR 0x27] @ ''s Channel'') (guid_of env p))
        (privateChannels s)\<rparr>"
    by (auto simp: createChannel_def split: if_splits option.splits)
  moreover have "i \<notin> fst ` set (privateChannels s)" using free_slot_bounds [OF i(2)] by simp
  ultimately show ?thesis by (intro that [of i]) (simp_all add: put_new_def map_of_insort)
qed

lemma chat_ok_delete: "chat_ok gd on s \<Longrightarrow> chat_ok gd on (snd (deleteChannel env p i s))"
  by (auto simp: deleteChannel_def chat_ok_def split: option.split)

lemma at_add_ok:
  assumes ok: "chat_ok gd on s" and p: "p \<in> on" and gd: "guid_of env = gd"
    and inv: "\<And>i. ref = Private i \<Longrightarrow> \<exists>c. map_of (privateChannels s) i = Some c \<and> isInvited_to (gd p) c"
  shows "chat_ok gd on (snd (at_channel ref (addUser env p) (addUser env p) False s))"
  using ok
proof (rule at_channel_ok)
  fix c :: chat_channel assume "users_ok on c" from users_ok_add [OF this p] show "users_ok on (fst (snd (addUser env p c)))" .
next
  fix i c assume "ref = Private i" "(i, c) \<in> set (privateChannels s)" "map_of (privateChannels s) i = Some c"
  with inv [of i] have "isInvited_to (gd p) c" by auto
  with chat_ok_parts(4) [OF ok \<open>(i, c) \<in> set (privateChannels s)\<close>] p
  show "private_ok gd on i (fst (snd (addUser env p c))) \<and> owner (fst (snd (addUser env p c))) = owner c"
    by (simp add: private_ok_add)
qed

lemma chat_ok_addUserToChannel:
  assumes "chat_ok gd on s" "p \<in> on" "guid_of env = gd"
  shows "chat_ok gd on (snd (addUserToChannel env p i s))"
proof (cases "getChannel env s p i")
  case None
  with assms show ?thesis by (simp add: addUserToChannel_def)
next
  case (Some ref)
  have "\<exists>c. map_of (privateChannels s) j = Some c \<and> isInvited_to (gd p) c" if "ref = Private j" for j
    using getChannel_private [of env s p i j] Some that assms(3) by auto
  then have "chat_ok gd on (snd (at_channel ref (addUser env p) (addUser env p) False s))"
    by (intro at_add_ok assms) 
  with Some show ?thesis by (simp add: addUserToChannel_def split_beta)
qed

lemma chat_ok_removeUserFromChannel:
  assumes "chat_ok gd on s"
  shows "chat_ok gd on (snd (removeUserFromChannel env p i s))"
proof (cases "getChannel env s p i")
  case None
  with assms show ?thesis by (simp add: removeUserFromChannel_def)
next
  case (Some ref)
  have "chat_ok gd on (snd (at_channel ref (removeUser env p) (removeUser env p) False s))"
    using assms by (rule at_channel_ok) (auto intro: users_ok_remove private_ok_remove chat_ok_parts(4) [OF assms])
  with Some show ?thesis by (simp add: removeUserFromChannel_def split_beta chat_ok_delete)
qed

lemma chat_ok_createPrivate:
  assumes ok: "chat_ok gd on s" and env: "env_for gd on env"
  shows "chat_ok gd on (playerCreatePrivateChannel env p s)"
proof (cases "online env p \<and> chat_premium (who env p)")
  case True
  with env have p: "p \<in> on" and gd: "guid_of env = gd" by (simp_all add: env_for_def)
  obtain r s1 where c: "createChannel env p CHANNEL_PRIVATE s = (r, s1)" by fastforce
  from chat_ok_create [OF ok gd, of p CHANNEL_PRIVATE] c have ok1: "chat_ok gd on s1" by simp
  show ?thesis
  proof (cases r)
    case None
    with True c ok1 show ?thesis by (simp add: playerCreatePrivateChannel_def)
  next
    case (Some ref)
    have "chat_ok gd on (snd (at_channel ref (addUser env p) (addUser env p) False s1))"
    proof (rule at_add_ok [OF ok1 p gd])
      fix i assume "ref = Private i"
      with c Some show "\<exists>c. map_of (privateChannels s1) i = Some c \<and> isInvited_to (gd p) c"
        by (auto simp: gd isInvited_to_def elim!: createChannel_ref [OF _ ok])
    qed
    with True c Some show ?thesis
      by (auto simp: playerCreatePrivateChannel_def split: prod.split option.split channel_ref.split)
  qed
qed (use ok in \<open>auto simp: playerCreatePrivateChannel_def\<close>)

lemma other_online: "env_for gd on env \<Longrightarrow> other_and_channel env p name s = Some (q, i) \<Longrightarrow> q \<in> on"
  by (auto simp: other_and_channel_def env_for_def split: if_splits option.splits)

lemma chat_ok_invite: "chat_ok gd on s \<Longrightarrow> chat_ok gd on (playerChannelInvite env p name s)"
  unfolding playerChannelInvite_def
  by (auto split: option.split intro!: at_channel_ok private_ok_invite intro: chat_ok_parts(4))

lemma chat_ok_exclude:
  assumes ok: "chat_ok gd on s" and env: "env_for gd on env" and inj: "inj_on gd on"
  shows "chat_ok gd on (playerChannelExclude env p name s)"
proof (cases "other_and_channel env p name s")
  case (Some qi)
  obtain q i where qi: "qi = (q, i)" by fastforce
  have "q \<in> on" using other_online [OF env] Some qi by simp
  moreover have "guid_of env = gd" using env by (simp add: env_for_def)
  ultimately show ?thesis
    using ok inj Some qi
    by (auto simp: playerChannelExclude_def intro!: at_channel_ok private_ok_exclude intro: chat_ok_parts(4))
qed (use ok in \<open>simp add: playerChannelExclude_def\<close>)

lemma chat_ok_listed: "chat_ok gd on s \<Longrightarrow> guid_of env = gd \<Longrightarrow> chat_ok gd on (snd (listed env p i s))"
  using chat_ok_create [of gd on s env p i] by (auto simp: listed_def split: option.split prod.split)

lemma chat_ok_list: "chat_ok gd on s \<Longrightarrow> guid_of env = gd \<Longrightarrow> chat_ok gd on (snd (getChannelList env p s))"
  by (simp add: getChannelList_def Let_def split_beta chat_ok_listed)

lemma chat_ok_open: "chat_ok gd on s \<Longrightarrow> env_for gd on env \<Longrightarrow> chat_ok gd on (playerOpenChannel env p i s)"
  using chat_ok_addUserToChannel [of gd on s p env i]
  by (auto simp: playerOpenChannel_def env_for_def split: prod.split option.split)

lemma chat_ok_talk:
  assumes "chat_ok gd on s"
  shows "chat_ok gd on (snd (talkToChannel env p type words i s))"
proof (cases "getChannel env s p i")
  case (Some ref)
  then show ?thesis
    unfolding talkToChannel_def Some option.case Let_def
    by (intro at_channel_ok [OF assms]) (auto split: option.split prod.split intro: chat_ok_parts(4) [OF assms])
qed (use assms in \<open>simp add: talkToChannel_def\<close>)

lemma load_nodes_in:
  "load_nodes ns rm m = (rm', m') \<Longrightarrow> (i, c) \<in> set m' \<Longrightarrow>
     (i, c) \<in> set m \<and> i \<notin> node_id ` set ns \<or> users c = []"
proof (induction ns rm m rule: load_nodes.induct)
  case (2 n ns rm m)
  have "users (channel_of_node n) = []"
    by (auto simp: channel_of_node_def new_channel_def Let_def split: option.split prod.split)
  with 2 show ?case by (auto dest: in_put_over)
qed simp

lemma fold_take_from_in: "(i, c) \<in> set (fold take_from ks m) \<Longrightarrow> (i, c) \<in> set m"
  by (induction ks arbitrary: m) fastforce+

lemma chat_ok_load:
  assumes ok: "chat_ok gd on s"
  shows "chat_ok gd on (snd (load_channels file s))"
proof (cases "file")
  case (Some ns)
  let ?cl = "map (\<lambda>(i, c). (i, c\<lparr>onSpeakEvent := False, canJoinEvent := False, onJoinEvent := False, onLeaveEvent := False\<rparr>))
      (normalChannels s)"
  obtain rm m where l: "load_nodes ns (rev (map fst ?cl)) ?cl = (rm, m)" by fastforce
  have "users_ok on c" if "(i, c) \<in> set (fold take_from rm m)" for i c
    using load_nodes_in [OF l fold_take_from_in [OF that]] chat_ok_parts(1) [OF ok] by (fastforce simp: users_ok_def)
  then have "chat_ok gd on (s\<lparr>normalChannels := fold take_from rm m\<rparr>)" by (rule chat_ok_normal [OF ok])
  with Some l show ?thesis by (simp add: load_channels_def)
qed (use ok in \<open>simp add: load_channels_def\<close>)

lemma chat_ok_close_window: "chat_ok gd on s \<Longrightarrow> chat_ok gd on (sendClosePrivate env p i s)"
  by (simp add: sendClosePrivate_def chat_ok_removeUserFromChannel Let_def)

lemma chat_ok_serve:
  assumes "chat_ok gd on s" "env_for gd on env" "inj_on gd on"
  shows "chat_ok gd on (serve_chat env r s)"
  using assms
  by (cases r) (auto simp: chat_ok_createPrivate chat_ok_invite chat_ok_exclude chat_ok_open chat_ok_talk chat_ok_load
      chat_ok_close_window playerCloseChannel_def chat_ok_removeUserFromChannel playerRequestChannels_def chat_ok_list env_for_def)

section \<open>Leaving the game\<close>

lemma fst_remove_everywhere: "fst (remove_everywhere env p m) = map (\<lambda>(i, c). (i, fst (snd (removeUser env p c)))) m"
  by (induction m rule: remove_everywhere.induct) (auto split: prod.split)

definition without :: "chat_env \<Rightarrow> nat \<Rightarrow> private_channel \<Rightarrow> private_channel" where
  "without env p c = fst (snd (removeUser env p (c\<lparr>invites := take_from (guid_of env p) (invites c)\<rparr>)))"

lemma remove_private_Cons:
  "fst (remove_private env p ((i, c) # cs)) =
     (if owner c = guid_of env p then fst (remove_private env p cs) else (i, without env p c) # fst (remove_private env p cs))"
proof -
  obtain ok c' es where r: "removeUser env p (snd (removeInvite_of (guid_of env p) c)) = (ok, c', es)" by (metis prod_cases3)
  have "c' = without env p c" using r by (simp add: without_def removeInvite_of_def)
  moreover have "owner c' = owner c"
    using r removeUser_private(1) [of env p "snd (removeInvite_of (guid_of env p) c)"] by (simp add: removeInvite_of_def)
  ultimately show ?thesis using r by (simp split: prod.split)
qed

lemma fst_remove_private:
  "fst (remove_private env p m) =
     map (\<lambda>(i, c). (i, without env p c)) (filter (\<lambda>(i, c). owner c \<noteq> guid_of env p) m)"
proof (induction m)
  case (Cons x m)
  obtain i c where "x = (i, c)" by fastforce
  with Cons show ?case by (simp only: remove_private_Cons) simp
qed simp

lemma without_simps [simp]:
  "users (without env p c) = remove1 p (users c)" "owner (without env p c) = owner c" "ch_id (without env p c) = ch_id c"
  "ch_public (without env p c) = ch_public c" "invites (without env p c) = take_from (guid_of env p) (invites c)"
  by (simp_all add: without_def removeUser_users)

lemma all_removed:
  "normalChannels (removeUserFromAllChannels env p s) = map (\<lambda>(i, c). (i, fst (snd (removeUser env p c)))) (normalChannels s)"
  "partyChannels (removeUserFromAllChannels env p s) = map (\<lambda>(i, c). (i, fst (snd (removeUser env p c)))) (partyChannels s)"
  "guildChannels (removeUserFromAllChannels env p s) = map (\<lambda>(i, c). (i, fst (snd (removeUser env p c)))) (guildChannels s)"
  "privateChannels (removeUserFromAllChannels env p s) =
     map (\<lambda>(i, c). (i, without env p c)) (filter (\<lambda>(i, c). owner c \<noteq> guid_of env p) (privateChannels s))"
  by (simp_all add: removeUserFromAllChannels_def split_beta fst_remove_everywhere fst_remove_private)

lemma private_ok_without:
  assumes ok: "private_ok gd on i c" and inj: "inj_on gd on" and p: "p \<in> on" and gd: "guid_of env = gd"
  shows "private_ok gd (on - {p}) i (without env p c)"
proof -
  have "gd u \<noteq> gd p" if "u \<in> set (remove1 p (users c))" for u
    using that ok inj p by (auto simp: private_ok_def users_ok_def dest: inj_onD)
  then show ?thesis using ok gd
    by (auto simp: private_ok_def users_ok_def isInvited_to_def) (force dest: notin_set_remove1)+
qed

lemma map_fst_without: "map fst (map (\<lambda>(i, c). (i, without env p c)) m) = map fst m"
  by (simp add: split_beta comp_def)

lemma map_owner_without: "map (\<lambda>(i, c). owner c) (map (\<lambda>(i, c). (i, without env p c)) m) = map (\<lambda>(i, c). owner c) m"
  by (simp add: split_beta comp_def)

lemma chat_ok_logout:
  assumes ok: "chat_ok gd on s" and inj: "inj_on gd on" and p: "p \<in> on" and gd: "guid_of env = gd"
  shows "chat_ok gd (on - {p}) (removeUserFromAllChannels env p s)"
  unfolding chat_ok_def all_removed map_fst_without map_owner_without
  using ok by (auto simp: chat_ok_def intro: users_ok_removed distinct_map_filter private_ok_without [OF _ inj p gd])

lemma world_ok_start: "chat_start w \<Longrightarrow> world_ok gd w"
  by (cases w) (auto simp: chat_start_def world_ok_def chat_ok_def no_chat_def)

lemma chat_ok_more: "chat_ok gd on s \<Longrightarrow> on \<subseteq> on' \<Longrightarrow> chat_ok gd on' s"
  unfolding chat_ok_def by (fastforce simp: users_ok_def intro: private_ok_more)

lemma world_ok_step: "world_ok gd w \<Longrightarrow> chat_step gd w w' \<Longrightarrow> world_ok gd w'"
proof (erule chat_step.cases, goal_cases)
  case (1 p on s)
  then show ?case by (auto simp: world_ok_def intro: chat_ok_more)
next
  case (2 on env s r)
  then show ?case by (simp add: world_ok_def chat_ok_serve)
next
  case (3 on env p s)
  then show ?case by (auto simp: world_ok_def env_for_def intro: chat_ok_logout inj_on_subset)
qed

interpretation chat_inv: invariant_system chat_start "chat_step gd" "world_ok gd" for gd :: "nat \<Rightarrow> nat"
  by unfold_locales (blast intro: world_ok_start world_ok_step)+

text \<open>Loading the file again forgets who is in the public channels.\<close>

lemma keys_put_over: "fst ` set (put_over k c m) = insert k (fst ` set m)"
proof (cases "k \<in> set (map fst m)")
  case True
  then have "set (map fst (put_over k c m)) = set (map fst m)" by (simp add: put_over_def del: set_map)
  with True show ?thesis by auto
next
  case False
  then show ?thesis by (simp add: put_over_def set_insort_key)
qed

lemma load_nodes_dom:
  "load_nodes ns rm m = (rm', m') \<Longrightarrow> fst ` set m' = fst ` set m \<union> node_id ` set ns \<and> set rm' = set rm - node_id ` set ns"
  by (induction ns rm m rule: load_nodes.induct) (auto simp: keys_put_over)

lemma keys_take_from: "fst ` set (take_from k m) = fst ` set m - {k}"
  unfolding take_from_def by force

lemma fst_fold_take_from: "fst ` set (fold take_from ks m) = fst ` set m - set ks"
  by (induction ks arbitrary: m) (auto simp: keys_take_from)

lemma load_forgets_users:
  assumes "load_channels (Some ns) s = (ok, s')"
  shows "ok" and "fst ` set (normalChannels s') = node_id ` set ns" and "users_at s' (Normal i) = []"
proof -
  define cl where "cl = map (\<lambda>(i, c). (i, c\<lparr>onSpeakEvent := False, canJoinEvent := False, onJoinEvent := False, onLeaveEvent := False\<rparr>))
      (normalChannels s)"
  obtain rm m where l: "load_nodes ns (rev (map fst cl)) cl = (rm, m)" by fastforce
  with assms have s': "s' = s\<lparr>normalChannels := fold take_from rm m\<rparr>" and "ok" by (auto simp: load_channels_def cl_def)
  note d = load_nodes_dom [OF l]
  show "ok" by fact
  show keys: "fst ` set (normalChannels s') = node_id ` set ns" using d by (auto simp: s' fst_fold_take_from)
  show "users_at s' (Normal i) = []"
  proof (cases "map_of (normalChannels s') i")
    case (Some c)
    then have c: "(i, c) \<in> set (normalChannels s')" by (rule in_map_of)
    then have "i \<in> node_id ` set ns" using keys by force
    with load_nodes_in [OF l, of i c] c have "users c = []" by (auto simp: s' dest: fold_take_from_in)
    with Some show ?thesis by (simp add: users_at_def plain_channel_def)
  qed (simp add: users_at_def plain_channel_def)
qed

text \<open>
  Leaving the party closes its window after the player's party is cleared (\<open>leaveParty\<close> and \<open>disband\<close> of
  \<open>src/src/party.cpp\<close>): the party's channel is not found any more and the player stays among its users.
\<close>

lemma left_party_stays_in_channel:
  assumes "chat_party (who env p) = None"
  shows "users_at (sendClosePrivate env p CHANNEL_PARTY s) ref = users_at s ref"
  using assms by (simp add: sendClosePrivate_def removeUserFromChannel_def getChannel_def say_events_def users_at_def
      plain_channel_def split: channel_ref.split)

lemma map_of_filter_values:
  "distinct (map fst m) \<Longrightarrow>
     map_of (filter (\<lambda>(i, c). P c) m) i = (case map_of m i of Some c \<Rightarrow> if P c then Some c else None | None \<Rightarrow> None)"
  by (induction m) (auto split: option.split simp: map_of_eq_None_iff dest!: map_of_SomeD)

definition own_private :: "nat \<Rightarrow> chat \<Rightarrow> channel_ref \<Rightarrow> bool" where
  "own_private guid s ref =
     (case ref of Private i \<Rightarrow> (case map_of (privateChannels s) i of Some c \<Rightarrow> owner c = guid | None \<Rightarrow> False) | _ \<Rightarrow> False)"

lemma users_at_logout:
  assumes "distinct (map fst (privateChannels s))"
  shows "users_at (removeUserFromAllChannels env p s) ref =
     (if own_private (guid_of env p) s ref then [] else remove1 p (users_at s ref))"
  using assms
  by (cases ref) (auto simp: users_at_def plain_channel_def all_removed own_private_def map_of_map map_of_filter_values
      removeUser_users split: option.split)

text \<open>
C9.
  A player who leaves the game leaves every channel. In a state that the requests of players in the game can
  reach, the clean-up of a leaving player closes the private channel it owns, takes it (and nobody else) out of
  every other channel, and drops its invitations: it is a user of no channel, and no private channel that is left
  would let it in again.
\<close>

theorem leaving_clears_channels:
  assumes "reach chat_start (chat_step gd) (on, s)" and "env_for gd on env" and "p \<in> on"
    and "s' = removeUserFromAllChannels env p s"
  shows "users_at s' ref = (if own_private (gd p) s ref then [] else remove1 p (users_at s ref)) \<and>
    p \<notin> set (users_at s' ref) \<and> (\<forall>(i, c) \<in> set (privateChannels s'). \<not> isInvited_to (gd p) c)"
proof -
  have ok: "chat_ok gd on s" using chat_inv.reach_inv [OF assms(1)] by (simp add: world_ok_def)
  have gd: "guid_of env = gd" using assms(2) by (simp add: env_for_def)
  have "distinct (users_at s ref)"
    using ok by (cases ref) (auto simp: users_at_def plain_channel_def chat_ok_def users_ok_def private_ok_def
        dest!: in_map_of split: option.split)
  moreover have "users_at s' ref = (if own_private (gd p) s ref then [] else remove1 p (users_at s ref))"
    using ok users_at_logout [of s env p ref] by (simp add: assms(4) gd chat_ok_def)
  ultimately show ?thesis by (auto simp: assms(4) all_removed isInvited_to_def gd)
qed

text \<open>
C20.
  What is said in a private channel is heard by its owner and the players invited to it only. In every reachable
  state, when a player talks to a private channel, the only thing that happens is that each user of the channel
  gets the message, and every user is in the game and is the owner or invited; nothing is sent if the player is
  not a user of the channel or its scripts refuse.
\<close>

theorem private_words_stay:
  assumes "reach chat_start (chat_step gd) (on, s)" and "env_for gd on env"
    and "getChannel env s p i = Some (Private i)" and "talkToChannel env p type words i s = (ok, s')"
  shows "\<exists>c type'. map_of (privateChannels s) i = Some c \<and>
    chat_events s' = chat_events s @ (if ok then map (\<lambda>u. Channel_Message u i (Some p) type' words) (users c) else []) \<and>
    (\<forall>u \<in> set (users c). u \<in> on \<and> (gd u = owner c \<or> gd u \<in> fst ` set (invites c)))"
proof -
  have inv: "chat_ok gd on s" using chat_inv.reach_inv [OF assms(1)] by (simp add: world_ok_def)
  from getChannel_private [OF assms(3)] obtain c where c: "map_of (privateChannels s) i = Some c" by auto
  with chat_ok_parts(4) [OF inv in_map_of] have "private_ok gd on i c" by blast
  then have id: "ch_id c = i" and "\<forall>u \<in> set (users c). u \<in> on \<and> (gd u = owner c \<or> gd u \<in> fst ` set (invites c))"
    by (auto simp: private_ok_def users_ok_def isInvited_to_def)
  moreover have "\<exists>type'. chat_events s' =
      chat_events s @ (if ok then map (\<lambda>u. Channel_Message u i (Some p) type' words) (users c) else [])"
    using assms(4) c id
    by (auto simp: talkToChannel_def assms(3) at_channel_def talk_def Let_def split: option.splits if_splits)
  ultimately show ?thesis using c by blast
qed

subsection \<open>A run\<close>

text \<open>Player 1 opens a private channel and invites player 2, who enters it.\<close>

definition demo_talker :: "string \<Rightarrow> chat_player" where
  "demo_talker n = \<lparr>chat_name = n, chat_female = False, chat_guild = None, rank_level = None, chat_party = None, chat_premium = True\<rparr>"

definition demo_env :: chat_env where
  "demo_env = \<lparr>online = (\<lambda>p. p = 1 \<or> p = 2), named = (\<lambda>n. if n = ''B'' then Some 2 else None),
     who = (\<lambda>p. demo_talker (if p = 2 then ''B'' else ''A'')), guid_of = (\<lambda>p. p + 10), can_join = (\<lambda>_ _. True),
     may_enter = (\<lambda>_ _. True), on_speak = (\<lambda>_ _ type _. Some type)\<rparr>"

definition demo_chat :: chat where
  "demo_chat = serve_chat demo_env (Open_Channel 2 100) (serve_chat demo_env (Invite 1 ''B'') (serve_chat demo_env (Create_Private 1) no_chat))"

lemma free_slot_first: "100 \<notin> fst ` set (privateChannels s) \<Longrightarrow> free_slot s = Some 100"
  using upt_conv_Cons [of 100 10000] by (simp add: free_slot_def del: upt_rec_numeral)

lemmas chat_run = demo_env_def demo_talker_def playerCreatePrivateChannel_def createChannel_def getChannel_def
  getPrivateChannel_def at_channel_def addUser_def join_allowed_def to_users_def change_at_def put_new_def say_events_def
  playerChannelInvite_def other_and_channel_def inviteToChannel_def playerOpenChannel_def addUserToChannel_def
  opened_as_def shown_users_def isInvited_to_def new_private_def hers_def

lemma demo_created: "serve_chat demo_env (Create_Private 1) no_chat = no_chat\<lparr>
    privateChannels := [(100, (new_private 100 ''A's Channel'' 11)\<lparr>users := [1]\<rparr>)],
    chat_events := [Private_Created 1 100 ''A's Channel'']\<rparr>"
  by (simp add: chat_run free_slot_first no_chat_def Let_def)

lemma demo_value: "normalChannels demo_chat = []" "partyChannels demo_chat = []" "guildChannels demo_chat = []"
  "privateChannels demo_chat = [(100, (new_private 100 ''A's Channel'' 11)\<lparr>users := [1, 2], invites := [(12, 2)]\<rparr>)]"
  unfolding demo_chat_def demo_created by (simp_all add: chat_run no_chat_def Let_def)

lemma demo_env_for: "env_for (\<lambda>p. p + 10) {2, 1} demo_env"
  by (auto simp: env_for_def demo_env_def)

lemma served_reach:
  "reach chat_start (chat_step gd) (on, s) \<Longrightarrow> env_for gd on env \<Longrightarrow> reach chat_start (chat_step gd) (on, serve_chat env r s)"
  by (rule reach_step) (auto intro: served)

lemma demo_chat_reach: "reach chat_start (chat_step (\<lambda>p. p + 10)) ({2, 1}, demo_chat)"
proof -
  let ?step = "chat_step (\<lambda>p. p + 10)"
  have "reach chat_start ?step ({}, no_chat)" by (rule reach_init) (simp add: chat_start_def)
  then have "reach chat_start ?step ({1}, no_chat)" by (rule reach_step) (rule log_in, simp)
  then have "reach chat_start ?step ({2, 1}, no_chat)" by (rule reach_step) (rule log_in, simp)
  then show ?thesis unfolding demo_chat_def
    by (intro served_reach demo_env_for)
qed

theorem leaving_clears_channels_witness:
  "privateChannels demo_chat \<noteq> [] \<and> users_at (removeUserFromAllChannels demo_env 2 demo_chat) (Private 100) = [1] \<and>
   users_at (removeUserFromAllChannels demo_env 1 demo_chat) (Private 100) = []"
  using leaving_clears_channels [OF demo_chat_reach demo_env_for, of 2 _ "Private 100"]
    leaving_clears_channels [OF demo_chat_reach demo_env_for, of 1 _ "Private 100"]
  by (simp add: demo_value own_private_def users_at_def)

theorem private_words_stay_witness:
  "\<exists>c type'. map_of (privateChannels demo_chat) 100 = Some c \<and> chat_events (snd (talkToChannel demo_env 2 TALKTYPE_CHANNEL_Y ''hi'' 100 demo_chat)) =
     chat_events demo_chat @ map (\<lambda>u. Channel_Message u 100 (Some 2) type' ''hi'') (users c)"
proof -
  have g: "getChannel demo_env demo_chat 2 100 = Some (Private 100)"
    by (simp add: getChannel_def demo_value isInvited_to_def demo_env_def)
  obtain s' where "talkToChannel demo_env 2 TALKTYPE_CHANNEL_Y ''hi'' 100 demo_chat = (True, s')"
    by (simp add: talkToChannel_def g at_channel_def demo_value talk_def executeOnSpeakEvent_def new_private_def)
  with private_words_stay [OF demo_chat_reach demo_env_for g this] show ?thesis by auto
qed

end
