(* ===== verification/Player_Progress.thy ===== *)
theory Player_Progress imports Text_Tools begin

text \<open>
  How players spend_on_levels, from \<open>src/src/player.cpp\<close>, \<open>src/src/player.h\<close>, \<open>src/src/vocation.cpp\<close> and the loading of
  these values in \<open>src/src/iologindata.cpp\<close>: experience and levels, skills and the magic level, their
  loss at death, and the tables of a vocation with their caches. Powers of floating point numbers and what the
  scripts make of a gain or loss are parameters.
\<close>

section \<open>Vocations\<close>

abbreviation (input) "SKILL_LAST \<equiv> (12 :: nat)"
abbreviation (input) "SKILL_MAGLEVEL \<equiv> (13 :: nat)"
abbreviation (input) "SKILL_LEVEL \<equiv> (14 :: nat)"
abbreviation (input) "VOCATION_NONE \<equiv> (0 :: u16)"

text \<open>
  \<open>skill_power base k l\<close> is \<open>base * pow(skillMultipliers[k], l - 11)\<close> and \<open>mana_power l\<close> is
  \<open>400 * pow(manaMultiplier, l - 1)\<close>, both cut off to an integer.
\<close>

record vocation =
  voc_id :: u16
  voc_name :: string
  skill_power :: "u32 \<Rightarrow> nat \<Rightarrow> u16 \<Rightarrow> u64"
  mana_power :: "u32 \<Rightarrow> u64"
  cacheMana :: "u32 \<Rightarrow> u64 option"
  cacheSkill :: "nat \<Rightarrow> u16 \<Rightarrow> u32 option"
  gainHP :: u32
  gainMana :: u32
  gainCap :: u32
  fromVocation :: u32

definition skillBase :: "u32 list" where
  "skillBase = [50, 50, 50, 50, 30, 100, 20, 0, 0, 0, 0, 0, 0]"

definition getReqSkillTries :: "nat \<Rightarrow> u16 \<Rightarrow> vocation \<Rightarrow> u64 \<times> vocation" where
  "getReqSkillTries k l v =
     (if k > SKILL_LAST then (0, v)
      else (case cacheSkill v k l of
          Some t \<Rightarrow> (ucast t, v)
        | None \<Rightarrow>
            let tries = skill_power v (skillBase ! k) k l
            in (tries, v\<lparr>cacheSkill := (cacheSkill v)(k := (cacheSkill v k)(l \<mapsto> ucast tries))\<rparr>)))"

definition rounded_mana :: "u64 \<Rightarrow> u64" where
  "rounded_mana reqMana = (let modResult = reqMana mod 20 in if modResult < 10 then reqMana - modResult else reqMana - (modResult + 20))"

definition getReqMana :: "u32 \<Rightarrow> vocation \<Rightarrow> u64 \<times> vocation" where
  "getReqMana l v =
     (case cacheMana v l of
        Some m \<Rightarrow> (m, v)
      | None \<Rightarrow> let m = rounded_mana (mana_power v l) in (m, v\<lparr>cacheMana := (cacheMana v)(l \<mapsto> m)\<rparr>))"

text \<open>All vocations in the order of their ids.\<close>

type_synonym vocations = "(u16 \<times> vocation) list"

definition getVocation :: "u16 \<Rightarrow> vocations \<Rightarrow> vocation option" where
  "getVocation i vs = map_of vs i"

definition getVocationId :: "string \<Rightarrow> vocations \<Rightarrow> int" where
  "getVocationId name vs = (case find (\<lambda>(i, v). asLowerCaseString (voc_name v) = asLowerCaseString name) vs of Some (i, v) \<Rightarrow> uint i | None \<Rightarrow> -1)"

definition getPromotedVocation :: "u16 \<Rightarrow> vocations \<Rightarrow> u16" where
  "getPromotedVocation i vs = (case find (\<lambda>(j, v). fromVocation v = ucast i \<and> j \<noteq> i) vs of Some (j, v) \<Rightarrow> j | None \<Rightarrow> VOCATION_NONE)"

section \<open>Players\<close>

record skill =
  tries :: u64
  skill_level :: u16
  skill_percent :: u8

datatype progress_event =
    Advanced nat u32 u32
  | Send_Skills
  | Send_Stats
  | Advance_Text nat u32
  | Downgrade_Text u32 u32
  | Gained_Text u64
  | Lost_Text u64
  | Training_Text nat u32 u32
  | Speed_Changed
  | Health_Shown
  | Party_Shared_Updated
  | ReLogin_Window

record progress =
  p_voc :: vocation
  plevel :: u32
  experience :: u64
  levelPercent :: u8
  phealth :: u32
  phealthMax :: u32
  pmana :: u32
  pmanaMax :: u32
  capacity :: u32
  magLevel :: u32
  manaSpent :: u64
  magLevelPercent :: u8
  skills :: "nat \<Rightarrow> skill"
  blessings :: "nat \<Rightarrow> u8"
  in_party :: bool
  not_gain_mana :: bool
  progress_events :: "progress_event list"

record progress_env =
  on_tries :: "nat \<Rightarrow> u64 \<Rightarrow> u64"
  on_gain_exp :: "u64 \<Rightarrow> u64"
  on_lose_exp :: "u64 \<Rightarrow> u64"

definition tell :: "progress_event list \<Rightarrow> progress \<Rightarrow> progress" where
  "tell es p = p\<lparr>progress_events := progress_events p @ es\<rparr>"

definition getExpForLevel :: "u32 \<Rightarrow> u64" where
  "getExpForLevel lv = (let n = (scast (lv - 1) :: u64) in (50 * n * n * n - 150 * n * n + 400 * n) div 3)"

definition getPercentLevel :: "u64 \<Rightarrow> u64 \<Rightarrow> u8" where
  "getPercentLevel count nextLevelCount =
     (if nextLevelCount = 0 then 0
      else let result = (ucast ((count * 100) div nextLevelCount) :: u8) in if result > 100 then 0 else result)"

section \<open>Skills and magic level\<close>

text \<open>
  The loop that spends what was gained on levels, as long as the table \<open>req\<close> asks for more at the next level.
  The last component tells whether it stopped because the last level was reached.
\<close>

function spend_on_levels ::
  "('l::len word \<Rightarrow> vocation \<Rightarrow> u64 \<times> vocation) \<Rightarrow> vocation \<Rightarrow> 'l word \<Rightarrow> u64 \<Rightarrow> u64 \<Rightarrow> u64 \<Rightarrow> u64 \<Rightarrow> 'l word list \<Rightarrow>
     vocation \<times> 'l word \<times> u64 \<times> u64 \<times> u64 \<times> u64 \<times> 'l word list \<times> bool" where
  "spend_on_levels req v l t count cur nxt ups =
     (if t + count \<ge> nxt then
        let count' = count - (nxt - t);
            l' = l + 1;
            ups' = ups @ [l'];
            (nxt', v') = req (l' + 1) v
        in if nxt \<ge> nxt' then (v', l', 0, count', nxt, nxt', ups', True)
           else spend_on_levels req v' l' 0 count' nxt nxt' ups'
      else (v, l, t, count, cur, nxt, ups, False))"
  by pat_completeness auto
termination
proof (relation "measure (\<lambda>(req, v, l, t, count, cur, nxt, ups). 2 ^ 64 - unat nxt)", goal_cases)
  case (2 req v l t count cur nxt ups)
  then show ?case using unsigned_less [where ?'a=nat, of nxt] by (auto simp: not_le word_less_nat_alt)
qed simp

declare spend_on_levels.simps [simp del]

definition level_ups :: "nat \<Rightarrow> 'l::len word list \<Rightarrow> progress_event list" where
  "level_ups k ups = concat (map (\<lambda>l. [Advance_Text k (ucast l), Advanced k (ucast (l - 1)) (ucast l)]) ups)"

definition addSkillAdvance :: "progress_env \<Rightarrow> nat \<Rightarrow> u64 \<Rightarrow> progress \<Rightarrow> progress" where
  "addSkillAdvance env k count p =
     (let s = skills p k;
          (cur, v1) = getReqSkillTries k (skill_level s) (p_voc p);
          (nxt, v2) = getReqSkillTries k (skill_level s + 1) v1;
          p1 = p\<lparr>p_voc := v2\<rparr>
      in if cur \<ge> nxt then p1
         else let count1 = on_tries env k count in
         if count1 = 0 then p1
         else let (v3, l, t, c, cur', nxt', ups, maxed) = spend_on_levels (getReqSkillTries k) v2 (skill_level s) (tries s) count1 cur nxt [];
             t' = t + (if maxed then 0 else c);
             pc1 = (if ups = [] then skill_percent s else 0);
             pc = (if nxt' > cur' then getPercentLevel t' nxt' else 0);
             p2 = tell (level_ups k ups) (p1\<lparr>p_voc := v3, skills := (skills p)(k := \<lparr>tries = t', skill_level = l, skill_percent = pc\<rparr>)\<rparr>)
         in if ups \<noteq> [] \<or> pc1 \<noteq> pc then tell [Send_Skills] p2 else p2)"

definition addManaSpent :: "progress_env \<Rightarrow> u64 \<Rightarrow> progress \<Rightarrow> progress" where
  "addManaSpent env amount p =
     (if not_gain_mana p then p
      else let (cur, v1) = getReqMana (magLevel p) (p_voc p);
               (nxt, v2) = getReqMana (magLevel p + 1) v1;
               p1 = p\<lparr>p_voc := v2\<rparr>
      in if cur \<ge> nxt then p1
         else let amount1 = on_tries env SKILL_MAGLEVEL amount in
         if amount1 = 0 then p1
         else let (v3, l, t, c, cur', nxt', ups, maxed) = spend_on_levels getReqMana v2 (magLevel p) (manaSpent p) amount1 cur nxt [];
             p2 = tell (level_ups SKILL_MAGLEVEL ups) (p1\<lparr>p_voc := v3, magLevel := l, manaSpent := t\<rparr>)
         in if maxed then p2
            else let t' = t + c;
                     pc = (if nxt' > cur' then getPercentLevel t' nxt' else 0);
                     p3 = p2\<lparr>manaSpent := t', magLevelPercent := pc\<rparr>
            in if ups \<noteq> [] \<or> magLevelPercent p \<noteq> pc then tell [Send_Stats] p3 else p3)"

text \<open>Training while offline, for the magic level and for a skill.\<close>

definition train_magic :: "progress_env \<Rightarrow> u64 \<Rightarrow> progress \<Rightarrow> bool \<times> progress" where
  "train_magic env count p =
     (let (cur, v1) = getReqMana (magLevel p) (p_voc p);
          (nxt, v2) = getReqMana (magLevel p + 1) v1;
          p1 = p\<lparr>p_voc := v2\<rparr>
      in if cur \<ge> nxt then (False, p1)
         else let (v3, l, t, c, cur', nxt', ups, maxed) =
                    spend_on_levels getReqMana v2 (magLevel p) (manaSpent p) (on_tries env SKILL_MAGLEVEL count) cur nxt [];
                  t' = t + (if maxed then 0 else c);
                  pc = (if nxt' > cur' then getPercentLevel t' nxt' else 0);
                  upd = (ups \<noteq> [] \<or> pc \<noteq> magLevelPercent p);
                  es = map (\<lambda>l. Advanced SKILL_MAGLEVEL (l - 1) l) ups @
                       (if l \<noteq> magLevel p then [Advance_Text SKILL_MAGLEVEL l] else []) @
                       (if upd then [Send_Skills] else []) @ [Training_Text SKILL_MAGLEVEL (magLevel p) l]
              in (upd, tell es (p1\<lparr>p_voc := v3, magLevel := l, manaSpent := t', magLevelPercent := pc\<rparr>)))"

definition train_skill :: "progress_env \<Rightarrow> nat \<Rightarrow> u64 \<Rightarrow> progress \<Rightarrow> bool \<times> progress" where
  "train_skill env k count p =
     (let s = skills p k;
          (cur, v1) = getReqSkillTries k (skill_level s) (p_voc p);
          (nxt, v2) = getReqSkillTries k (skill_level s + 1) v1;
          p1 = p\<lparr>p_voc := v2\<rparr>
      in if cur \<ge> nxt then (False, p1)
         else let (v3, l, t, c, cur', nxt', ups, maxed) =
                    spend_on_levels (getReqSkillTries k) v2 (skill_level s) (tries s) (on_tries env k count) cur nxt [];
                  t' = t + (if maxed then 0 else c);
                  pc1 = (if ups = [] then skill_percent s else 0);
                  pc = (if nxt' > cur' then getPercentLevel t' nxt' else 0);
                  upd = (ups \<noteq> [] \<or> pc1 \<noteq> pc);
                  es = map (\<lambda>l. Advanced k (ucast (l - 1)) (ucast l)) ups @
                       (if l \<noteq> skill_level s then [Advance_Text k (ucast l)] else []) @
                       (if upd then [Send_Skills] else []) @ [Training_Text k (ucast (skill_level s)) (ucast l)]
              in (upd, tell es (p1\<lparr>p_voc := v3, skills := (skills p)(k := \<lparr>tries = t', skill_level = l, skill_percent = pc\<rparr>)\<rparr>)))"

definition addOfflineTrainingTries :: "progress_env \<Rightarrow> nat \<Rightarrow> u64 \<Rightarrow> progress \<Rightarrow> bool \<times> progress" where
  "addOfflineTrainingTries env k count p =
     (if count = 0 \<or> k = SKILL_LEVEL then (False, p)
      else if k = SKILL_MAGLEVEL then train_magic env count p
      else train_skill env k count p)"

section \<open>Experience\<close>

text \<open>What one level adds, and what it takes; the maxima with 0 are taken of signed numbers.\<close>

definition level_up :: "progress \<Rightarrow> progress" where
  "level_up p = p\<lparr>plevel := plevel p + 1, phealthMax := phealthMax p + gainHP (p_voc p), phealth := phealth p + gainHP (p_voc p),
     pmanaMax := pmanaMax p + gainMana (p_voc p), pmana := pmana p + gainMana (p_voc p), capacity := capacity p + gainCap (p_voc p)\<rparr>"

definition not_below_0 :: "u32 \<Rightarrow> u32" where
  "not_below_0 w = (if sint w < 0 then 0 else w)"

definition level_down :: "progress \<Rightarrow> progress" where
  "level_down p = p\<lparr>plevel := plevel p - 1, phealthMax := not_below_0 (phealthMax p - gainHP (p_voc p)),
     pmanaMax := not_below_0 (pmanaMax p - gainMana (p_voc p)), capacity := not_below_0 (capacity p - gainCap (p_voc p))\<rparr>"

function gain_levels :: "progress \<Rightarrow> u64 \<Rightarrow> u64 \<Rightarrow> progress \<times> u64 \<times> u64" where
  "gain_levels p cur nxt =
     (if experience p \<ge> nxt then
        let p' = level_up p; nxt' = getExpForLevel (plevel p' + 1)
        in if nxt \<ge> nxt' then (p', nxt, nxt') else gain_levels p' nxt nxt'
      else (p, cur, nxt))"
  by pat_completeness auto
termination
proof (relation "measure (\<lambda>(p, cur, nxt). 2 ^ 64 - unat nxt)", goal_cases)
  case (2 p cur nxt)
  then show ?case using unsigned_less [where ?'a=nat, of nxt] by (auto simp: not_le word_less_nat_alt)
qed simp

declare gain_levels.simps [simp del]

definition percent_between :: "u64 \<Rightarrow> u64 \<Rightarrow> u64 \<Rightarrow> u8" where
  "percent_between x cur nxt = (if nxt > cur then getPercentLevel (x - cur) (nxt - cur) else 0)"

definition addExperience :: "progress_env \<Rightarrow> u64 \<Rightarrow> bool \<Rightarrow> progress \<Rightarrow> progress" where
  "addExperience env x sendText p =
     (let cur = getExpForLevel (plevel p); nxt = getExpForLevel (plevel p + 1) in
      if cur \<ge> nxt then tell [Send_Stats] (p\<lparr>levelPercent := 0\<rparr>)
      else let x' = on_gain_exp env x in
      if x' = 0 then p
      else let p1 = tell (if sendText then [Gained_Text x'] else []) (p\<lparr>experience := experience p + x'\<rparr>);
               (p2, cur', nxt') = gain_levels p1 cur nxt;
               p3 = (if plevel p \<noteq> plevel p2 then
                       tell ([Speed_Changed, Health_Shown] @ (if in_party p then [Party_Shared_Updated] else []) @
                             [Advanced SKILL_LEVEL (plevel p) (plevel p2), Advance_Text SKILL_LEVEL (plevel p2)])
                         (p2\<lparr>phealth := phealthMax p2, pmana := pmanaMax p2\<rparr>)
                     else p2)
           in tell [Send_Stats] (p3\<lparr>levelPercent := percent_between (experience p3) cur' nxt'\<rparr>))"

text \<open>Going down ends at level 1, so the loop is bounded by the level.\<close>

function lose_levels :: "progress \<Rightarrow> progress" where
  "lose_levels p = (if plevel p > 1 \<and> experience p < getExpForLevel (plevel p) then lose_levels (level_down p) else p)"
  by pat_completeness auto
termination
proof (relation "measure (\<lambda>p. unat (plevel p))", goal_cases)
  case (2 p)
  then have "plevel p \<noteq> 0" by auto
  then show ?case by (simp add: level_down_def unat_minus_one measure_def)
    (metis diff_Suc_less unat_eq_zero unat_minus_one neq0_conv One_nat_def)
qed simp

declare lose_levels.simps [simp del]

definition lose_experience :: "u64 \<Rightarrow> u64 \<Rightarrow> u64" where
  "lose_experience e0 x = (let d = e0 - x in if sint d < 0 then 0 else d)"

definition removeExperience :: "progress_env \<Rightarrow> u64 \<Rightarrow> bool \<Rightarrow> progress \<Rightarrow> progress" where
  "removeExperience env x sendText p =
     (if experience p = 0 \<or> x = 0 then p
      else let x' = on_lose_exp env x in
      if x' = 0 then p
      else let e = lose_experience (experience p) x';
               p1 = tell (if sendText then [Lost_Text (experience p - e)] else []) (p\<lparr>experience := e\<rparr>);
               p2 = lose_levels p1;
               p3 = (if plevel p \<noteq> plevel p2 then
                       tell ([Speed_Changed, Health_Shown] @ (if in_party p then [Party_Shared_Updated] else []) @
                             [Downgrade_Text (plevel p) (plevel p2)])
                         (p2\<lparr>phealth := phealthMax p2, pmana := pmanaMax p2\<rparr>)
                     else p2)
           in tell [Send_Stats]
                (p3\<lparr>levelPercent := percent_between (experience p3) (getExpForLevel (plevel p3)) (getExpForLevel (plevel p3 + 1))\<rparr>))"

section \<open>Death\<close>

text \<open>
  What death takes is \<open>portion x\<close>, a share of \<open>x\<close> computed in floating point and cut off. The sums over the
  levels are taken for levels below the last number of their type, beyond which the loops of the code would not end.
\<close>

definition sum_req :: "('l \<Rightarrow> vocation \<Rightarrow> u64 \<times> vocation) \<Rightarrow> 'l list \<Rightarrow> vocation \<Rightarrow> u64 \<times> vocation" where
  "sum_req req ls v = fold (\<lambda>l (s, v). case req l v of (m, v') \<Rightarrow> (s + m, v')) ls (0, v)"

definition levels_from :: "nat \<Rightarrow> 'l::len word \<Rightarrow> 'l word list" where
  "levels_from a l = map of_nat [a..<Suc (unat l)]"

function lose_mana :: "vocation \<Rightarrow> u32 \<Rightarrow> u64 \<Rightarrow> u64 \<Rightarrow> vocation \<times> u32 \<times> u64 \<times> u64" where
  "lose_mana v l spent lost =
     (if lost > spent \<and> l > 0 then let (m, v') = getReqMana l v in lose_mana v' (l - 1) m (lost - spent)
      else (v, l, spent, lost))"
  by pat_completeness auto
termination
proof (relation "measure (\<lambda>(v, l, spent, lost). unat l)", goal_cases)
  case (2 v l spent lost)
  then have "l \<noteq> 0" by auto
  then show ?case by simp (metis diff_Suc_less unat_eq_zero unat_minus_one neq0_conv One_nat_def)
qed simp

declare lose_mana.simps [simp del]

definition death_mana :: "(u64 \<Rightarrow> u64) \<Rightarrow> progress \<Rightarrow> progress" where
  "death_mana portion p =
     (let (sm, v1) = sum_req getReqMana (levels_from 1 (magLevel p)) (p_voc p);
          lostMana = portion (sm + manaSpent p);
          (v2, l, spent, lost) = lose_mana v1 (magLevel p) (manaSpent p) lostMana;
          spent' = spent - lost;
          (nxt, v3) = getReqMana (l + 1) v2;
          (cur, v4) = getReqMana l v3
      in p\<lparr>p_voc := v4, magLevel := l, manaSpent := spent', magLevelPercent := (if nxt > cur then getPercentLevel spent' nxt else 0)\<rparr>)"

function lose_skill :: "nat \<Rightarrow> vocation \<Rightarrow> u16 \<Rightarrow> u64 \<Rightarrow> u32 \<Rightarrow> vocation \<times> u16 \<times> u64 \<times> u32" where
  "lose_skill k v l t lost =
     (if (ucast lost :: u64) > t then
        let lost' = ucast ((ucast lost :: u64) - t) in
        if l \<le> 10 then (v, 10, 0, 0)
        else let (t', v') = getReqSkillTries k l v in lose_skill k v' (l - 1) t' lost'
      else (v, l, t, lost))"
  by pat_completeness auto
termination
proof (relation "measure (\<lambda>(k, v, l, t, lost). unat l)", goal_cases)
  case (2 k v l t lost)
  then have "l \<noteq> 0" by auto
  then show ?case by simp (metis diff_Suc_less unat_eq_zero unat_minus_one neq0_conv One_nat_def)
qed simp

declare lose_skill.simps [simp del]

definition death_skill :: "(u64 \<Rightarrow> u64) \<Rightarrow> nat \<Rightarrow> progress \<Rightarrow> progress" where
  "death_skill portion k p =
     (let s = skills p k;
          (st, v1) = sum_req (getReqSkillTries k) (levels_from 11 (skill_level s)) (p_voc p);
          lost0 = (ucast (portion (st + tries s)) :: u32);
          (v2, l, t, lost) = lose_skill k v1 (skill_level s) (tries s) lost0;
          t' = ucast (not_below_0 (ucast (t - ucast lost)));
          (req, v3) = getReqSkillTries k l v2
      in p\<lparr>p_voc := v3, skills := (skills p)(k := \<lparr>tries = t', skill_level = l, skill_percent = getPercentLevel t' req\<rparr>)\<rparr>)"

definition death_experience :: "progress_env \<Rightarrow> (u64 \<Rightarrow> u64) \<Rightarrow> progress \<Rightarrow> progress" where
  "death_experience env portion p =
     (let x = on_lose_exp env (portion (experience p)) in
      if x = 0 then p
      else let p1 = (if voc_id (p_voc p) = VOCATION_NONE \<or> plevel p > 7 then p\<lparr>experience := experience p - x\<rparr> else p);
               p2 = lose_levels p1;
               p3 = tell (if plevel p \<noteq> plevel p2 then [Downgrade_Text (plevel p) (plevel p2)] else []) p2
           in p3\<lparr>levelPercent := percent_between (experience p3) (getExpForLevel (plevel p3)) (getExpForLevel (plevel p3 + 1))\<rparr>)"

definition hasBlessing :: "nat \<Rightarrow> progress \<Rightarrow> bool" where
  "hasBlessing i p \<longleftrightarrow> blessings p (i - 1) \<noteq> 0"

definition removeBlessing :: "nat \<Rightarrow> u8 \<Rightarrow> progress \<Rightarrow> progress" where
  "removeBlessing i n p = (if blessings p (i - 1) = 0 then p else p\<lparr>blessings := (blessings p)(i - 1 := blessings p (i - 1) - n)\<rparr>)"

definition death_blessings :: "bool \<Rightarrow> bool \<Rightarrow> progress \<Rightarrow> progress" where
  "death_blessings new_client lastHitPlayer p =
     (if hasBlessing 6 p then
        (if lastHitPlayer then removeBlessing 6 1 p else fold (\<lambda>i. removeBlessing i 1) [1..<6] p)
      else fold (\<lambda>i. removeBlessing i 1) [1..<(if new_client then 9 else 7)] p)"

text \<open>The losses of a player who dies with skill loss on; \<open>black\<close> tells whether its skull is black.\<close>

definition death_losses :: "progress_env \<Rightarrow> (u64 \<Rightarrow> u64) \<Rightarrow> bool \<Rightarrow> bool \<Rightarrow> bool \<Rightarrow> progress \<Rightarrow> progress" where
  "death_losses env portion new_client lastHitPlayer black p =
     (let p1 = death_mana portion p;
          p2 = fold (death_skill portion) [0..<Suc SKILL_LAST] p1;
          p3 = death_experience env portion p2;
          p4 = tell [Send_Stats, Send_Skills, ReLogin_Window] (death_blessings new_client lastHitPlayer p3)
      in if black then p4\<lparr>phealth := 40, pmana := 0\<rparr> else p4\<lparr>phealth := phealthMax p4, pmana := pmanaMax p4\<rparr>)"

section \<open>Loading\<close>

text \<open>The stored values are made to fit each other; what does not fit is set back.\<close>

definition load_level :: "u32 \<Rightarrow> u64 \<Rightarrow> progress \<Rightarrow> progress" where
  "load_level l x p =
     (let l' = max 1 l; cur = getExpForLevel l'; nxt = getExpForLevel (l' + 1);
          e = (if x < cur \<or> x > nxt then cur else x)
      in p\<lparr>plevel := l', experience := e, levelPercent := (if cur < nxt then getPercentLevel (e - cur) (nxt - cur) else 0)\<rparr>)"

definition load_mana :: "u32 \<Rightarrow> u64 \<Rightarrow> progress \<Rightarrow> progress" where
  "load_mana l spent p =
     (let (nxt, v) = getReqMana (l + 1) (p_voc p); s = (if spent > nxt then 0 else spent)
      in p\<lparr>p_voc := v, magLevel := l, manaSpent := s, magLevelPercent := getPercentLevel s nxt\<rparr>)"

definition load_skill :: "nat \<Rightarrow> u16 \<Rightarrow> u64 \<Rightarrow> progress \<Rightarrow> progress" where
  "load_skill k l t p =
     (let (nxt, v) = getReqSkillTries k (l + 1) (p_voc p); t' = (if t > nxt then 0 else t)
      in p\<lparr>p_voc := v, skills := (skills p)(k := \<lparr>tries = t', skill_level = l, skill_percent = getPercentLevel t' nxt\<rparr>)\<rparr>)"

section \<open>The experience table\<close>

abbreviation (input) "MAX_LEVEL \<equiv> (717217 :: nat)"

text \<open>The experience a level costs, and what all levels below one cost together.\<close>

primrec exp_sum :: "nat \<Rightarrow> nat" where
  "exp_sum 0 = 0"
| "exp_sum (Suc n) = exp_sum n + (50 * n * n + 100 - 50 * n)"

lemma exp_sum_closed: "3 * int (exp_sum n) = 50 * int n ^ 3 - 150 * int n ^ 2 + 400 * int n"
proof (induction n)
  case (Suc n)
  have "50 * n \<le> 50 * n * n + 100" by (cases n) simp_all
  then have "int (50 * n * n + 100 - 50 * n) = 50 * int n * int n + 100 - 50 * int n" by (simp add: of_nat_diff)
  with Suc show ?case by (simp add: algebra_simps power2_eq_square power3_eq_cube)
qed simp

lemma exp_sum_step: "exp_sum n < exp_sum (Suc n)"
proof -
  have "50 * n < 50 * n * n + 100" by (cases n) simp_all
  then show ?thesis by simp
qed

lemma exp_sum_less: "m < n \<Longrightarrow> exp_sum m < exp_sum n"
  by (rule lift_Suc_mono_less [of exp_sum]) (rule exp_sum_step)

lemma exp_sum_less_iff: "exp_sum m < exp_sum n \<longleftrightarrow> m < n"
  using exp_sum_less by (metis not_less_iff_gr_or_eq)

lemma exp_sum_max: "3 * exp_sum 717216 < 2 ^ 64"
  using exp_sum_closed [of 717216] by simp

lemma exp_sum_bound: "n \<le> 717216 \<Longrightarrow> 3 * exp_sum n < 2 ^ 64"
  using exp_sum_max exp_sum_less [of n 717216] by (cases "n = 717216") auto

lemma exp_word:
  assumes "n < 2 ^ 31"
  shows "50 * (of_nat n :: u64) * of_nat n * of_nat n - 150 * of_nat n * of_nat n + 400 * of_nat n = of_nat (3 * exp_sum n)"
proof -
  have "(of_nat (3 * exp_sum n) :: u64) = of_int (3 * int (exp_sum n))" by simp
  also have "\<dots> = of_int (50 * int n ^ 3 - 150 * int n ^ 2 + 400 * int n)" by (simp only: exp_sum_closed)
  also have "\<dots> = 50 * of_nat n ^ 3 - 150 * of_nat n ^ 2 + 400 * of_nat n" by simp
  finally show ?thesis by (simp add: power2_eq_square power3_eq_cube mult.assoc)
qed

lemma scast_level: "n < 2 ^ 31 \<Longrightarrow> (scast (of_nat n :: u32) :: u64) = of_nat n"
  by (simp add: scast_eq sint_uint uint_nat unat_of_nat signed_take_bit_int_eq_self)

lemma getExpForLevel_word: "n < 2 ^ 31 \<Longrightarrow> getExpForLevel (of_nat (Suc n)) = of_nat (3 * exp_sum n) div 3"
  unfolding getExpForLevel_def Let_def
  using exp_word [of n] scast_level [of n] by simp

lemma unat_thirds: "3 * m < 2 ^ 64 \<Longrightarrow> unat ((of_nat (3 * m) :: u64) div 3) = m"
  by (simp only: unat_div unat_of_nat) simp

lemma getExpForLevel_exact: "n \<le> 717216 \<Longrightarrow> unat (getExpForLevel (of_nat (Suc n))) = exp_sum n"
proof -
  assume n: "n \<le> 717216"
  then have "n < 2 ^ 31" by simp
  with exp_sum_bound [OF n] show ?thesis by (simp only: getExpForLevel_word unat_thirds)
qed

lemma exp_overflow: "3 * exp_sum 717217 = 18446752152135989100"
proof -
  have "int (3 * exp_sum 717217) = 18446752152135989100" using exp_sum_closed [of 717217] by simp
  then show ?thesis by linarith
qed

text \<open>The table wraps around after level 717217: the next entry is smaller, so this is the highest level.\<close>

lemma getExpForLevel_top: "unat (getExpForLevel 717218) = 2692808812494"
proof -
  have "unat ((of_nat (3 * exp_sum 717217) :: u64) div 3) = 2692808812494"
    unfolding exp_overflow by (simp only: unat_div unat_of_nat) simp
  then show ?thesis using getExpForLevel_word [of 717217] by simp
qed

lemma exp_at: "1 \<le> unat l \<Longrightarrow> unat l \<le> 717217 \<Longrightarrow> unat (getExpForLevel l) = exp_sum (unat l - 1)"
  using getExpForLevel_exact [of "unat l - 1"] by simp

lemma unat_level_Suc: "unat (l :: u32) \<le> 717217 \<Longrightarrow> unat (l + 1) = Suc (unat l)"
  by (subst unat_plus_nowrap) simp_all

lemma exp_at_Suc: "unat l < 717217 \<Longrightarrow> unat (getExpForLevel (l + 1)) = exp_sum (unat l)"
  using exp_at [of "l + 1"] unat_level_Suc [of l] by simp

lemma exp_at_top: "unat l = 717217 \<Longrightarrow> unat (getExpForLevel (l + 1)) = 2692808812494"
proof -
  assume "unat l = 717217"
  then have "l = of_nat 717217" by (metis of_nat_unat ucast_id)
  then have "l = 717217" by simp
  then show ?thesis using getExpForLevel_top by simp
qed

section \<open>Level and experience\<close>

text \<open>
  The level is the one the experience pays for; \<open>snug\<close> excludes the one value that loading lets through, with
  the experience of the next level.
\<close>

definition snug :: "progress \<Rightarrow> bool" where
  "snug p \<longleftrightarrow> 1 \<le> unat (plevel p) \<and> unat (plevel p) \<le> 717217 \<and> exp_sum (unat (plevel p) - 1) \<le> unat (experience p) \<and>
     (unat (plevel p) < 717217 \<longrightarrow> unat (experience p) < exp_sum (unat (plevel p)))"

definition level_fits :: "progress \<Rightarrow> bool" where
  "level_fits p \<longleftrightarrow> 1 \<le> unat (plevel p) \<and> unat (plevel p) \<le> 717217 \<and> exp_sum (unat (plevel p) - 1) \<le> unat (experience p) \<and>
     (unat (plevel p) < 717217 \<longrightarrow> unat (experience p) \<le> exp_sum (unat (plevel p)))"

lemma snug_level_fits: "snug p \<Longrightarrow> level_fits p"
  by (auto simp: snug_def level_fits_def)

text \<open>What the levels have added is counted out of the maxima.\<close>

definition at_level_0 :: "progress \<Rightarrow> u32 \<times> u32 \<times> u32" where
  "at_level_0 p = (phealthMax p - gainHP (p_voc p) * plevel p, pmanaMax p - gainMana (p_voc p) * plevel p,
     capacity p - gainCap (p_voc p) * plevel p)"

lemma level_up_simps [simp]:
  "plevel (level_up p) = plevel p + 1" "experience (level_up p) = experience p" "p_voc (level_up p) = p_voc p"
  "at_level_0 (level_up p) = at_level_0 p" "in_party (level_up p) = in_party p"
  by (simp_all add: level_up_def at_level_0_def algebra_simps)

lemma gain_levels_spec:
  assumes "1 \<le> unat (plevel p)" "unat (plevel p) < 717217" "cur = getExpForLevel (plevel p)"
    and "nxt = getExpForLevel (plevel p + 1)" "unat cur \<le> unat (experience p)" "gain_levels p cur nxt = (p', cur', nxt')"
  shows "snug p' \<and> experience p' = experience p \<and> plevel p \<le> plevel p' \<and> p_voc p' = p_voc p \<and> at_level_0 p' = at_level_0 p \<and>
    cur' = getExpForLevel (plevel p') \<and> nxt' = getExpForLevel (plevel p' + 1)"
  using assms
proof (induction p cur nxt arbitrary: p' cur' nxt' rule: gain_levels.induct)
  case (1 p cur nxt)
  have e: "unat cur = exp_sum (unat (plevel p) - 1)" using exp_at [of "plevel p"] "1.prems" by simp
  have n: "unat nxt = exp_sum (unat (plevel p))" using exp_at_Suc [of "plevel p"] "1.prems" by simp
  have l: "unat (plevel p + 1) = Suc (unat (plevel p))" using unat_level_Suc [of "plevel p"] "1.prems" by simp
  have le: "plevel p \<le> plevel p + 1" using l by (simp add: word_le_nat_alt)
  show ?case
  proof (cases "experience p \<ge> nxt")
    case False
    then have "gain_levels p cur nxt = (p, cur, nxt)" by (subst gain_levels.simps) simp
    with "1.prems" have "p' = p" "cur' = cur" "nxt' = nxt" by simp_all
    with "1.prems" e n False show ?thesis by (simp add: snug_def not_le word_less_nat_alt)
  next
    case up: True
    define n2 where "n2 = getExpForLevel (plevel p + 1 + 1)"
    show ?thesis
    proof (cases "unat (plevel p) = 717216")
      case True
      then have "unat n2 = 2692808812494" using exp_at_top [of "plevel p + 1"] l by (simp add: n2_def)
      moreover have "unat nxt \<ge> 2692808812494"
        using n True exp_sum_closed [of 717216] by simp
      ultimately have "nxt \<ge> n2" by (simp add: word_le_nat_alt)
      with up have "gain_levels p cur nxt = (level_up p, nxt, n2)" by (subst gain_levels.simps) (simp add: n2_def)
      with "1.prems" have "p' = level_up p" "cur' = nxt" "nxt' = n2" by simp_all
      with "1.prems" up n l le True show ?thesis by (simp add: snug_def n2_def word_le_nat_alt)
    next
      case False
      then have lt: "unat (plevel p + 1) < 717217" using "1.prems" l by simp
      have n2: "unat n2 = exp_sum (Suc (unat (plevel p)))" using exp_at_Suc [OF lt] l by (simp add: n2_def)
      then have "\<not> nxt \<ge> n2" using n exp_sum_step [of "unat (plevel p)"] by (simp add: word_le_nat_alt del: exp_sum.simps)
      with up have "gain_levels p cur nxt = gain_levels (level_up p) nxt n2" by (subst gain_levels.simps) (simp add: n2_def)
      with "1.prems"(6) have r: "gain_levels (level_up p) nxt n2 = (p', cur', nxt')" by simp
      have "snug p' \<and> experience p' = experience (level_up p) \<and> plevel (level_up p) \<le> plevel p' \<and> p_voc p' = p_voc (level_up p) \<and>
          at_level_0 p' = at_level_0 (level_up p) \<and> cur' = getExpForLevel (plevel p') \<and> nxt' = getExpForLevel (plevel p' + 1)"
        using "1.IH" [OF up, of "level_up p" n2 p' cur' nxt'] \<open>\<not> nxt \<ge> n2\<close> r lt l up "1.prems" 
        by (auto simp: n2_def word_le_nat_alt)
      then show ?thesis using le by auto
    qed
  qed
qed

lemma level_down_simps [simp]:
  "plevel (level_down p) = plevel p - 1" "experience (level_down p) = experience p" "p_voc (level_down p) = p_voc p"
  "in_party (level_down p) = in_party p"
  by (simp_all add: level_down_def)

lemma unat_level_pred: "1 < (l :: u32) \<Longrightarrow> unat (l - 1) = unat l - 1 \<and> 1 \<le> unat (l - 1)"
proof -
  assume l: "1 < l"
  then have "l \<noteq> 0" "1 < unat l" by (auto simp: word_less_nat_alt)
  then show ?thesis by (simp add: unat_minus_one)
qed

lemma lose_levels_spec:
  assumes "1 \<le> unat (plevel p)" "unat (plevel p) \<le> 717217"
    and "unat (plevel p) < 717217 \<longrightarrow> unat (experience p) < exp_sum (unat (plevel p))"
  shows "snug (lose_levels p) \<and> experience (lose_levels p) = experience p \<and> plevel (lose_levels p) \<le> plevel p \<and>
    p_voc (lose_levels p) = p_voc p"
  using assms
proof (induction p rule: lose_levels.induct)
  case (1 p)
  have e: "unat (getExpForLevel (plevel p)) = exp_sum (unat (plevel p) - 1)" using exp_at [of "plevel p"] "1.prems" by simp
  show ?case
  proof (cases "plevel p > 1 \<and> experience p < getExpForLevel (plevel p)")
    case True
    then have l: "unat (plevel p - 1) = unat (plevel p) - 1" "1 \<le> unat (plevel p - 1)" using unat_level_pred by blast+
    have "unat (experience p) < exp_sum (unat (plevel p) - 1)" using True e by (simp add: word_less_nat_alt)
    with "1.IH" [OF True] l "1.prems"
    have "snug (lose_levels (level_down p)) \<and> experience (lose_levels (level_down p)) = experience p \<and>
        plevel (lose_levels (level_down p)) \<le> plevel p - 1 \<and> p_voc (lose_levels (level_down p)) = p_voc p" by simp
    moreover have "plevel p - 1 \<le> plevel p" using l by (simp add: word_le_nat_alt)
    ultimately show ?thesis using True by (subst (1 2 3 4) lose_levels.simps) auto
  next
    case False
    then have "lose_levels p = p" by (subst lose_levels.simps) auto
    moreover have "exp_sum (unat (plevel p) - 1) \<le> unat (experience p)"
    proof (cases "plevel p > 1")
      case True
      with False e show ?thesis by (simp add: not_less word_le_nat_alt)
    next
      case False
      with "1.prems" have "unat (plevel p) = 1" by (auto simp: not_less word_le_nat_alt)
      then show ?thesis by simp
    qed
    ultimately show ?thesis using "1.prems" by (simp add: snug_def)
  qed
qed

lemma tell_simps [simp]:
  "plevel (tell es p) = plevel p" "experience (tell es p) = experience p" "p_voc (tell es p) = p_voc p"
  "levelPercent (tell es p) = levelPercent p" "magLevel (tell es p) = magLevel p" "manaSpent (tell es p) = manaSpent p"
  "magLevelPercent (tell es p) = magLevelPercent p" "skills (tell es p) = skills p" "at_level_0 (tell es p) = at_level_0 p"
  "phealthMax (tell es p) = phealthMax p" "pmanaMax (tell es p) = pmanaMax p" "capacity (tell es p) = capacity p"
  "in_party (tell es p) = in_party p" "snug (tell es p) = snug p"
  by (simp_all add: tell_def at_level_0_def snug_def)

definition percent_of :: "progress \<Rightarrow> u8" where
  "percent_of p = percent_between (experience p) (getExpForLevel (plevel p)) (getExpForLevel (plevel p + 1))"

definition progress_ok :: "progress \<Rightarrow> bool" where
  "progress_ok p \<longleftrightarrow> level_fits p \<and> levelPercent p = percent_of p"

lemma top_level_done:
  "1 \<le> unat (plevel p) \<Longrightarrow> unat (plevel p) \<le> 717217 \<Longrightarrow>
     getExpForLevel (plevel p) \<ge> getExpForLevel (plevel p + 1) \<longleftrightarrow> unat (plevel p) = 717217"
proof (cases "unat (plevel p) = 717217")
  case True
  have "(2692808812494 :: nat) \<le> exp_sum 717216" using exp_sum_closed [of 717216] by simp
  with True exp_at [of "plevel p"] exp_at_top [OF True] show ?thesis by (simp add: word_le_nat_alt)
next
  case False
  assume l: "1 \<le> unat (plevel p)" "unat (plevel p) \<le> 717217"
  with False have "exp_sum (unat (plevel p) - 1) < exp_sum (unat (plevel p))" by (intro exp_sum_less) simp
  with l False exp_at [of "plevel p"] exp_at_Suc [of "plevel p"] show ?thesis by (simp add: word_le_nat_alt)
qed

lemma at_level_0_stats [simp]:
  "at_level_0 (p\<lparr>phealth := a, pmana := b\<rparr>) = at_level_0 p" "at_level_0 (p\<lparr>levelPercent := c\<rparr>) = at_level_0 p"
  "at_level_0 (p\<lparr>experience := e\<rparr>) = at_level_0 p"
  by (simp_all add: at_level_0_def)

lemma snug_stats [simp]: "snug (p\<lparr>phealth := a, pmana := b\<rparr>) = snug p" "snug (p\<lparr>levelPercent := c\<rparr>) = snug p"
  by (simp_all add: snug_def)

lemma addExperience_spec:
  assumes ok: "level_fits p" and low: "unat (plevel p) < 717217" and x: "on_gain_exp env x \<noteq> 0"
    and small: "unat (experience p) + unat (on_gain_exp env x) < 2 ^ 64"
    and q: "q = addExperience env x shown p"
  shows "snug q \<and> experience q = experience p + on_gain_exp env x \<and> plevel p \<le> plevel q \<and> at_level_0 q = at_level_0 p \<and>
    levelPercent q = percent_of q \<and> p_voc q = p_voc p"
proof -
  define p1 where "p1 = tell (if shown then [Gained_Text (on_gain_exp env x)] else []) (p\<lparr>experience := experience p + on_gain_exp env x\<rparr>)"
  obtain p2 cur' nxt' where g: "gain_levels p1 (getExpForLevel (plevel p)) (getExpForLevel (plevel p + 1)) = (p2, cur', nxt')"
    by (metis prod_cases3)
  have sum: "unat (experience p + on_gain_exp env x) = unat (experience p) + unat (on_gain_exp env x)"
    using small by (intro unat_plus_nowrap) simp
  have "snug p2 \<and> experience p2 = experience p1 \<and> plevel p1 \<le> plevel p2 \<and> p_voc p2 = p_voc p1 \<and> at_level_0 p2 = at_level_0 p1 \<and>
      cur' = getExpForLevel (plevel p2) \<and> nxt' = getExpForLevel (plevel p2 + 1)"
    using ok low sum exp_at [of "plevel p"] by (intro gain_levels_spec [OF _ _ _ _ _ g]) (auto simp: p1_def level_fits_def)
  then have s: "snug p2" "experience p2 = experience p + on_gain_exp env x" "plevel p \<le> plevel p2" "p_voc p2 = p_voc p"
      "at_level_0 p2 = at_level_0 p" "cur' = getExpForLevel (plevel p2)" "nxt' = getExpForLevel (plevel p2 + 1)"
    by (simp_all add: p1_def)
  have "\<not> getExpForLevel (plevel p + 1) \<le> getExpForLevel (plevel p)"
    using top_level_done [of p] ok low by (simp add: level_fits_def)
  then show ?thesis
    using s x g by (simp add: q addExperience_def Let_def p1_def [symmetric] percent_of_def)
qed

lemma sint_diff_small:
  "unat (a :: u64) < 2 ^ 63 \<Longrightarrow> unat b < 2 ^ 63 \<Longrightarrow> sint (a - b) = int (unat a) - int (unat b)"
proof -
  assume ab: "unat a < 2 ^ 63" "unat b < 2 ^ 63"
  have small: "sint w = int (unat w)" if "unat w < 2 ^ 63" for w :: u64
  proof -
    have "uint w < 2 ^ 63" using that by (simp only: uint_nat of_nat_less_numeral_power_cancel_iff)
    then have "sint w = uint w" by (intro sint_small) simp
    then show ?thesis by (simp only: uint_nat)
  qed
  have "sint a = int (unat a)" "sint b = int (unat b)" using ab small by blast+
  then have "sint (a - b) = signed_take_bit 63 (int (unat a) - int (unat b))" unfolding sint_word_diff by (simp del: of_nat_unat)
  also have "\<dots> = int (unat a) - int (unat b)"
  proof (rule signed_take_bit_int_eq_self)
    have "int (unat a) < 2 ^ 63" "int (unat b) < 2 ^ 63" using ab by (simp_all only: of_nat_less_numeral_power_cancel_iff)
    then show "- (2 ^ 63) \<le> int (unat a) - int (unat b)" "int (unat a) - int (unat b) < 2 ^ 63" by linarith+
  qed
  finally show ?thesis .
qed

lemma lose_experience_nat:
  assumes "unat e < 2 ^ 63" "unat x < 2 ^ 63"
  shows "unat (lose_experience e x) = unat e - unat x"
proof (cases "x \<le> e")
  case True
  then have "\<not> sint (e - x) < 0" using sint_diff_small [OF assms] by (simp add: word_le_nat_alt del: of_nat_unat)
  with True show ?thesis by (simp add: lose_experience_def unat_sub)
next
  case False
  then have "sint (e - x) < 0" using sint_diff_small [OF assms] by (simp add: word_le_nat_alt del: of_nat_unat)
  with False show ?thesis by (simp add: lose_experience_def word_le_nat_alt)
qed

lemma removeExperience_spec:
  assumes ok: "level_fits p" and x: "on_lose_exp env x \<noteq> 0" "x \<noteq> 0" "experience p \<noteq> 0"
    and small: "unat (experience p) < 2 ^ 63" "unat (on_lose_exp env x) < 2 ^ 63"
    and q: "q = removeExperience env x shown p"
  shows "snug q \<and> unat (experience q) = unat (experience p) - unat (on_lose_exp env x) \<and> plevel q \<le> plevel p \<and>
    levelPercent q = percent_of q \<and> p_voc q = p_voc p"
proof -
  define e where "e = lose_experience (experience p) (on_lose_exp env x)"
  define p1 where "p1 = tell (if shown then [Lost_Text (experience p - e)] else []) (p\<lparr>experience := e\<rparr>)"
  have e: "unat e = unat (experience p) - unat (on_lose_exp env x)" unfolding e_def by (rule lose_experience_nat [OF small])
  have "0 < unat (on_lose_exp env x)" "0 < unat (experience p)" using x by (simp_all add: unat_gt_0)
  with e have less: "unat e < unat (experience p)" by simp
  have "snug (lose_levels p1) \<and> experience (lose_levels p1) = experience p1 \<and> plevel (lose_levels p1) \<le> plevel p1 \<and>
      p_voc (lose_levels p1) = p_voc p1"
    using ok less by (intro lose_levels_spec) (auto simp: p1_def level_fits_def)
  then have s: "snug (lose_levels p1)" "experience (lose_levels p1) = e" "plevel (lose_levels p1) \<le> plevel p"
      "p_voc (lose_levels p1) = p_voc p"
    by (simp_all add: p1_def)
  then show ?thesis
    using x e by (simp add: q removeExperience_def Let_def e_def [symmetric] p1_def [symmetric] percent_of_def)
qed

lemma death_mana_rest [simp]:
  "plevel (death_mana portion p) = plevel p" "experience (death_mana portion p) = experience p"
  "levelPercent (death_mana portion p) = levelPercent p"
  by (simp_all add: death_mana_def Let_def split_beta)

lemma death_skill_rest [simp]:
  "plevel (death_skill portion k p) = plevel p" "experience (death_skill portion k p) = experience p"
  "levelPercent (death_skill portion k p) = levelPercent p"
  by (simp_all add: death_skill_def Let_def split_beta)

lemma fold_keeps: "(\<And>k p. f (g k p) = f p) \<Longrightarrow> f (fold g ks p) = f p"
  by (induction ks arbitrary: p) simp_all

lemma death_blessings_rest [simp]:
  "plevel (death_blessings new hit p) = plevel p" "experience (death_blessings new hit p) = experience p"
  "levelPercent (death_blessings new hit p) = levelPercent p"
  by (simp_all add: death_blessings_def removeBlessing_def fold_keeps [where f=plevel] fold_keeps [where f=experience]
      fold_keeps [where f=levelPercent])

lemma progress_ok_same:
  "plevel q = plevel p \<Longrightarrow> experience q = experience p \<Longrightarrow> levelPercent q = levelPercent p \<Longrightarrow> progress_ok q = progress_ok p"
  by (simp add: progress_ok_def level_fits_def percent_of_def)

lemma lose_levels_id:
  "unat (plevel p) \<le> 717217 \<Longrightarrow> 1 \<le> unat (plevel p) \<Longrightarrow> exp_sum (unat (plevel p) - 1) \<le> unat (experience p) \<Longrightarrow> lose_levels p = p"
  using exp_at [of "plevel p"] by (subst lose_levels.simps) (simp add: word_less_nat_alt)

lemma death_experience_ok:
  assumes ok: "progress_ok p" and x: "on_lose_exp env (portion (experience p)) \<le> experience p"
  shows "progress_ok (death_experience env portion p)" and "experience (death_experience env portion p) \<le> experience p"
proof -
  define x' where "x' = on_lose_exp env (portion (experience p))"
  define p1 where "p1 = (if voc_id (p_voc p) = VOCATION_NONE \<or> plevel p > 7 then p\<lparr>experience := experience p - x'\<rparr> else p)"
  have f: "level_fits (lose_levels p1) \<and> experience (lose_levels p1) = experience p1" if "x' \<noteq> 0"
  proof (cases "voc_id (p_voc p) = VOCATION_NONE \<or> plevel p > 7")
    case True
    have "unat (experience p - x') = unat (experience p) - unat x'" using x by (simp add: x'_def unat_sub)
    moreover have "0 < unat x'" using that by (simp add: unat_gt_0)
    moreover have "unat x' \<le> unat (experience p)" using x by (simp add: x'_def word_le_nat_alt)
    ultimately have "unat (experience p - x') < unat (experience p)" by simp
    then show ?thesis using ok True lose_levels_spec [of p1] snug_level_fits [of "lose_levels p1"]
      by (auto simp: p1_def progress_ok_def level_fits_def)
  next
    case False
    then have "lose_levels p1 = p" using ok lose_levels_id [of p] by (simp add: p1_def progress_ok_def level_fits_def)
    with False ok show ?thesis by (simp add: p1_def progress_ok_def)
  qed
  have "experience p - x' \<le> experience p" using x by (simp add: x'_def word_sub_le)
  then have e: "experience p1 \<le> experience p" by (simp add: p1_def)
  have d: "death_experience env portion p = (if x' = 0 then p else
      (tell (if plevel p \<noteq> plevel (lose_levels p1) then [Downgrade_Text (plevel p) (plevel (lose_levels p1))] else []) (lose_levels p1))
        \<lparr>levelPercent := percent_of (lose_levels p1)\<rparr>)"
    unfolding death_experience_def Let_def x'_def [symmetric] p1_def [symmetric] by (simp add: percent_of_def)
  show "progress_ok (death_experience env portion p)"
    using f ok by (cases "x' = 0") (auto simp: d progress_ok_def level_fits_def percent_of_def tell_def)
  show "experience (death_experience env portion p) \<le> experience p" using f e by (simp add: d tell_def)
qed

section \<open>Tables\<close>

text \<open>
  What the level loops need of the two tables of a vocation: while \<open>keeps v\<close> holds, asking gives the value of
  \<open>tab\<close> and changes only the caches.
\<close>

definition paid :: "nat \<Rightarrow> ('l::len word \<Rightarrow> u64) \<Rightarrow> 'l word \<Rightarrow> u64 \<Rightarrow> nat" where
  "paid a tab l t = sum_list (map (\<lambda>i. unat (tab (of_nat i))) [a..<Suc (unat l)]) + unat t"

definition rising :: "('l::len word \<Rightarrow> u64) \<Rightarrow> bool" where
  "rising tab \<longleftrightarrow> (\<forall>l l'. l \<le> l' \<longrightarrow> tab l \<le> tab l')"

lemma paid_Suc: "a \<le> Suc (unat l) \<Longrightarrow> unat (l + 1) = Suc (unat l) \<Longrightarrow> paid a tab (l + 1) 0 = paid a tab l (tab (l + 1))"
  by (simp add: paid_def) (metis of_nat_Suc of_nat_unat ucast_id)

lemma paid_pred: "a \<le> unat l \<Longrightarrow> l \<noteq> 0 \<Longrightarrow> paid a tab (l - 1) (tab l) = paid a tab l 0"
proof -
  assume a: "a \<le> unat l" and l: "l \<noteq> 0"
  then have u: "unat (l - 1) = unat l - 1" "0 < unat l" by (simp_all add: unat_minus_one unat_gt_0)
  then show ?thesis using paid_Suc [of a "l - 1" tab] a by simp
qed

lemma paid_add: "paid a tab l t + unat c = paid a tab l 0 + (unat t + unat c)"
  by (simp add: paid_def)

lemma paid_le: "paid a tab l 0 + unat t = paid a tab l t"
  by (simp add: paid_def)

lemma rising_no_wrap: "rising tab \<Longrightarrow> tab l < tab (l + 1) \<Longrightarrow> unat (l + 1) = Suc (unat l)"
proof (rule ccontr)
  assume r: "rising tab" and t: "tab l < tab (l + 1)" and n: "unat (l + 1) \<noteq> Suc (unat l)"
  then have "l + 1 = 0" by (metis Suc_eq_plus1 add.commute unatSuc)
  then have "l + 1 \<le> l" by simp
  with r have "tab (l + 1) \<le> tab l" by (simp add: rising_def)
  with t show False by simp
qed

locale req_table =
  fixes req :: "'l::len word \<Rightarrow> vocation \<Rightarrow> u64 \<times> vocation"
    and tab :: "'l word \<Rightarrow> u64"
    and keeps :: "vocation \<Rightarrow> bool"
  assumes req_val: "keeps v \<Longrightarrow> fst (req l v) = tab l"
    and req_keeps: "keeps v \<Longrightarrow> keeps (snd (req l v))"
begin

lemma req_pair: "keeps v \<Longrightarrow> req l v = (m, v') \<Longrightarrow> m = tab l \<and> keeps v'"
  using req_val [of v l] req_keeps [of v l] by simp

lemma spend_on_levels_spec:
  assumes "rising tab" "keeps v" "cur = tab l" "nxt = tab (l + 1)" "cur < nxt" "t < nxt" "unat t + unat count < 2 ^ 64"
    and "a \<le> Suc (unat l)" and "spend_on_levels req v l t count cur nxt ups = (v', l', t', c', cur', nxt', ups', maxed)"
  shows "keeps v' \<and> cur' = tab l' \<and> nxt' = tab (l' + 1) \<and> l \<le> l' \<and>
    (if maxed then nxt' \<le> cur' \<and> t' = 0 \<and> paid a tab l' 0 \<le> paid a tab l t + unat count
     else unat t' + unat c' < unat nxt' \<and> paid a tab l' t' + unat c' = paid a tab l t + unat count)"
  using assms
proof (induction "2 ^ 64 - unat nxt" arbitrary: v l t count cur nxt ups rule: less_induct)
  case less
  note pre = less.prems
  have sum: "unat (t + count) = unat t + unat count" by (rule unat_plus_nowrap) (use pre in simp)
  show ?case
  proof (cases "t + count \<ge> nxt")
    case False
    then have "spend_on_levels req v l t count cur nxt ups = (v, l, t, count, cur, nxt, ups, False)" by (subst spend_on_levels.simps) simp
    with pre False sum show ?thesis by (auto simp: word_le_nat_alt)
  next
    case up: True
    define c1 where "c1 = count - (nxt - t)"
    obtain n2 v2 where r: "req (l + 1 + 1) v = (n2, v2)" by fastforce
    have n2: "n2 = tab (l + 1 + 1)" "keeps v2" using req_pair [OF pre(2) r] by simp_all
    have lw: "unat (l + 1) = Suc (unat l)" using rising_no_wrap pre by blast
    have le: "l \<le> l + 1" using lw by (simp add: word_le_nat_alt)
    have "unat (nxt - t) = unat nxt - unat t" using pre(6) by (simp add: unat_sub)
    moreover have "unat nxt \<le> unat t + unat count" using up sum by (simp add: word_le_nat_alt)
    moreover have "unat t < unat nxt" using pre(6) by (simp add: word_less_nat_alt)
    ultimately have c1: "unat c1 + unat nxt = unat t + unat count"
      unfolding c1_def by (subst unat_sub) (simp_all add: word_le_nat_alt)
    have p: "paid a tab (l + 1) 0 + unat c1 = paid a tab l t + unat count"
      using paid_Suc [OF pre(8) lw, of tab] pre(4) c1 by (simp add: paid_def)
    show ?thesis
    proof (cases "nxt \<ge> n2")
      case True
      with up r have "spend_on_levels req v l t count cur nxt ups = (v2, l + 1, 0, c1, nxt, n2, ups @ [l + 1], True)"
        by (subst spend_on_levels.simps) (simp add: c1_def Let_def)
      with pre n2 p le True show ?thesis by auto
    next
      case False
      with up r have "spend_on_levels req v l t count cur nxt ups = spend_on_levels req v2 (l + 1) 0 c1 nxt n2 (ups @ [l + 1])"
        by (subst spend_on_levels.simps) (simp add: c1_def Let_def)
      with pre(9) have a: "spend_on_levels req v2 (l + 1) 0 c1 nxt n2 (ups @ [l + 1]) = (v', l', t', c', cur', nxt', ups', maxed)" by simp
      have lt: "nxt < n2" using False by simp
      then have d: "2 ^ 64 - unat n2 < 2 ^ 64 - unat nxt"
        using unsigned_less [where ?'a=nat, of nxt] by (simp add: word_less_nat_alt)
      have t0: "0 < n2" using lt by (metis word_greater_zero_iff word_not_simps(1))
      have c: "unat (0 :: u64) + unat c1 < 2 ^ 64" using unsigned_less [where ?'a=nat, of c1] by simp
      have "keeps v' \<and> cur' = tab l' \<and> nxt' = tab (l' + 1) \<and> l + 1 \<le> l' \<and>
          (if maxed then nxt' \<le> cur' \<and> t' = 0 \<and> paid a tab l' 0 \<le> paid a tab (l + 1) 0 + unat c1
           else unat t' + unat c' < unat nxt' \<and> paid a tab l' t' + unat c' = paid a tab (l + 1) 0 + unat c1)"
        by (rule less.hyps [OF d pre(1) n2(2) pre(4) n2(1) lt t0 c _ a]) (simp add: lw le_SucI pre(8))
      with p le show ?thesis by auto
    qed
  qed
qed

lemma sum_req_spec:
  assumes "keeps v"
  shows "keeps (snd (sum_req req ls v)) \<and> fst (sum_req req ls v) = sum_list (map tab ls)"
proof -
  have "keeps (snd (fold (\<lambda>l (s, v). case req l v of (m, v') \<Rightarrow> (s + m, v')) ls (s, v))) \<and>
      fst (fold (\<lambda>l (s, v). case req l v of (m, v') \<Rightarrow> (s + m, v')) ls (s, v)) = s + sum_list (map tab ls)" if "keeps v" for s v
    using that
  proof (induction ls arbitrary: s v)
    case (Cons l ls)
    obtain m v' where r: "req l v = (m, v')" by fastforce
    with req_pair [OF Cons.prems r] Cons.IH [of v' "s + m"] show ?case by (simp add: add.assoc)
  qed simp
  from this [OF assms, of 0] show ?thesis by (simp add: sum_req_def)
qed

end

lemma unat_sum_list:
  "sum_list (map unat ws) < 2 ^ 64 \<Longrightarrow> unat (sum_list ws :: u64) = sum_list (map unat ws)"
proof (induction ws)
  case (Cons w ws)
  then show ?case by (simp add: unat_plus_nowrap)
qed simp

lemma sum_levels:
  assumes "paid a tab l t < 2 ^ 64"
  shows "unat (sum_list (map tab (levels_from a l)) + t) = paid a tab l t"
proof -
  have m: "map unat (map tab (levels_from a l)) = map (\<lambda>i. unat (tab (of_nat i))) [a..<Suc (unat l)]"
    by (simp add: levels_from_def)
  have "unat (sum_list (map tab (levels_from a l))) = sum_list (map unat (map tab (levels_from a l)))"
  proof (rule unat_sum_list)
    have "sum_list (map unat (map tab (levels_from a l))) \<le> paid a tab l t" by (simp only: m paid_def)
    with assms show "sum_list (map unat (map tab (levels_from a l))) < 2 ^ 64" by linarith
  qed
  with assms m show ?thesis by (subst unat_plus_nowrap) (simp_all add: paid_def)
qed

text \<open>
  The tables of the skills and that of the magic level, and caches filled from them. A skill's entries are below
  2 to the power of 31, because the cache cuts them off to 32 bits and death to 31.
\<close>

definition skill_cell_ok :: "(nat \<Rightarrow> u16 \<Rightarrow> u64) \<Rightarrow> vocation \<Rightarrow> nat \<Rightarrow> u16 \<Rightarrow> bool" where
  "skill_cell_ok tabs v k l \<longleftrightarrow> (if k \<le> SKILL_LAST then skill_power v (skillBase ! k) k l = tabs k l \<and> unat (tabs k l) < 2 ^ 31 \<and>
     (cacheSkill v k l = None \<or> cacheSkill v k l = Some (ucast (tabs k l))) else tabs k l = 0)"

definition mana_cell_ok :: "(u32 \<Rightarrow> u64) \<Rightarrow> vocation \<Rightarrow> u32 \<Rightarrow> bool" where
  "mana_cell_ok mtab v l \<longleftrightarrow> rounded_mana (mana_power v l) = mtab l \<and> (cacheMana v l = None \<or> cacheMana v l = Some (mtab l))"

definition tables_ok :: "(nat \<Rightarrow> u16 \<Rightarrow> u64) \<Rightarrow> (u32 \<Rightarrow> u64) \<Rightarrow> vocation \<Rightarrow> bool" where
  "tables_ok tabs mtab v \<longleftrightarrow> (\<forall>k l. skill_cell_ok tabs v k l) \<and> (\<forall>l. mana_cell_ok mtab v l)"

lemma ucast_small: "unat (w :: u64) < 2 ^ 32 \<Longrightarrow> (ucast (ucast w :: u32) :: u64) = w"
  by (simp add: word_eq_iff_unsigned [where ?'a=nat] unsigned_ucast_eq unsigned_take_bit_eq take_bit_nat_eq_self)

lemma getReqSkillTries_ok:
  assumes v: "tables_ok tabs mtab v"
  shows "fst (getReqSkillTries k l v) = tabs k l" and "tables_ok tabs mtab (snd (getReqSkillTries k l v))"
proof -
  have c: "skill_cell_ok tabs v k l" using v by (simp add: tables_ok_def)
  have u: "(ucast (ucast (tabs k l) :: u32) :: u64) = tabs k l" if "k \<le> SKILL_LAST"
    using c that by (intro ucast_small) (simp add: skill_cell_ok_def)
  show "fst (getReqSkillTries k l v) = tabs k l"
    using c u by (auto simp: getReqSkillTries_def skill_cell_ok_def Let_def split: if_splits)
  have "skill_cell_ok tabs (snd (getReqSkillTries k l v)) k' l'" if "skill_cell_ok tabs v k' l'" for k' l'
    using that c by (auto simp: getReqSkillTries_def skill_cell_ok_def Let_def split: if_splits)
  moreover have "mana_cell_ok mtab (snd (getReqSkillTries k l v)) l' = mana_cell_ok mtab v l'" for l'
    by (simp add: getReqSkillTries_def mana_cell_ok_def Let_def split: option.split)
  ultimately show "tables_ok tabs mtab (snd (getReqSkillTries k l v))"
    using v by (simp add: tables_ok_def)
qed

lemma getReqMana_ok:
  assumes v: "tables_ok tabs mtab v"
  shows "fst (getReqMana l v) = mtab l" and "tables_ok tabs mtab (snd (getReqMana l v))"
proof -
  have c: "mana_cell_ok mtab v l" using v by (simp add: tables_ok_def)
  show "fst (getReqMana l v) = mtab l" using c by (auto simp: getReqMana_def mana_cell_ok_def Let_def)
  have "mana_cell_ok mtab (snd (getReqMana l v)) l'" if "mana_cell_ok mtab v l'" for l'
    using that c by (auto simp: getReqMana_def mana_cell_ok_def Let_def split: if_splits)
  moreover have "skill_cell_ok tabs (snd (getReqMana l v)) k l' = skill_cell_ok tabs v k l'" for k l'
    by (simp add: getReqMana_def skill_cell_ok_def Let_def split: option.split)
  ultimately show "tables_ok tabs mtab (snd (getReqMana l v))"
    using v by (simp add: tables_ok_def)
qed

interpretation skill_table: req_table "getReqSkillTries k" "tabs k" "tables_ok tabs mtab" for k tabs mtab
  by unfold_locales (fact getReqSkillTries_ok)+

interpretation mana_table: req_table getReqMana mtab "tables_ok tabs mtab" for tabs mtab
  by unfold_locales (fact getReqMana_ok)+

section \<open>What practice gives\<close>

lemma addSkillAdvance_spec:
  assumes ok: "tables_ok tabs mtab (p_voc p)" and up: "rising (tabs k)"
    and l: "tabs k (skill_level (skills p k)) < tabs k (skill_level (skills p k) + 1)"
    and t: "tries (skills p k) < tabs k (skill_level (skills p k) + 1)"
    and c: "c = on_tries env k count" "c \<noteq> 0" "unat (tries (skills p k)) + unat c < 2 ^ 64"
    and a: "a \<le> Suc (unat (skill_level (skills p k)))"
    and q: "q = addSkillAdvance env k count p"
  shows "tables_ok tabs mtab (p_voc q)"
    and "(tabs k (skill_level (skills q k) + 1) \<le> tabs k (skill_level (skills q k)) \<and> tries (skills q k) = 0 \<and>
            paid a (tabs k) (skill_level (skills q k)) 0 \<le> paid a (tabs k) (skill_level (skills p k)) (tries (skills p k)) + unat c) \<or>
         (tries (skills q k) < tabs k (skill_level (skills q k) + 1) \<and>
            paid a (tabs k) (skill_level (skills q k)) (tries (skills q k)) =
            paid a (tabs k) (skill_level (skills p k)) (tries (skills p k)) + unat c)"
    and "j \<noteq> k \<Longrightarrow> skills q j = skills p j"
proof -
  let ?l = "skill_level (skills p k)"
  obtain v1 where r1: "getReqSkillTries k ?l (p_voc p) = (tabs k ?l, v1)" and k1: "tables_ok tabs mtab v1"
    using getReqSkillTries_ok [OF ok, of k ?l] by (cases "getReqSkillTries k ?l (p_voc p)") auto
  obtain v2 where r2: "getReqSkillTries k (?l + 1) v1 = (tabs k (?l + 1), v2)" and k2: "tables_ok tabs mtab v2"
    using getReqSkillTries_ok [OF k1, of k "?l + 1"] by (cases "getReqSkillTries k (?l + 1) v1") auto
  obtain v3 l' t' c' cur' nxt' ups maxed where
    adv: "spend_on_levels (getReqSkillTries k) v2 ?l (tries (skills p k)) c (tabs k ?l) (tabs k (?l + 1)) [] =
      (v3, l', t', c', cur', nxt', ups, maxed)" by (metis prod_cases7)
  note s = skill_table.spend_on_levels_spec [OF up k2 refl refl l t c(3) a adv]
  have not_top: "\<not> tabs k (?l + 1) \<le> tabs k ?l" using l by simp
  have "p_voc q = v3" and sk: "skills q = (skills p)(k := \<lparr>tries = t' + (if maxed then 0 else c'), skill_level = l',
      skill_percent = if nxt' > cur' then getPercentLevel (t' + (if maxed then 0 else c')) nxt' else 0\<rparr>)"
    using c(1,2) not_top r1 r2 adv by (simp_all add: q addSkillAdvance_def Let_def tell_def)
  with s show "tables_ok tabs mtab (p_voc q)" by simp
  have "unat (t' + c') = unat t' + unat c'" if "\<not> maxed"
  proof (rule unat_plus_nowrap)
    have "unat t' + unat c' < unat nxt'" using s that by auto
    also have "\<dots> < 2 ^ 64" using unsigned_less [where ?'a=nat, of nxt'] by simp
    finally show "unat t' + unat c' < 2 ^ LENGTH(64)" by simp
  qed
  with s sk show "(tabs k (skill_level (skills q k) + 1) \<le> tabs k (skill_level (skills q k)) \<and> tries (skills q k) = 0 \<and>
        paid a (tabs k) (skill_level (skills q k)) 0 \<le> paid a (tabs k) (skill_level (skills p k)) (tries (skills p k)) + unat c) \<or>
      (tries (skills q k) < tabs k (skill_level (skills q k) + 1) \<and>
        paid a (tabs k) (skill_level (skills q k)) (tries (skills q k)) =
        paid a (tabs k) (skill_level (skills p k)) (tries (skills p k)) + unat c)"
    by (cases maxed) (auto simp: paid_def word_less_nat_alt)
  show "j \<noteq> k \<Longrightarrow> skills q j = skills p j" using sk by simp
qed

text \<open>Training while offline counts like practice.\<close>

lemma training_like_practice:
  assumes "count \<noteq> 0" "on_tries env k count \<noteq> 0" "k < SKILL_MAGLEVEL"
  shows "skills (snd (addOfflineTrainingTries env k count p)) = skills (addSkillAdvance env k count p)"
  using assms
  by (simp add: addOfflineTrainingTries_def train_skill_def addSkillAdvance_def Let_def split_beta tell_def)

text \<open>
  At the last magic level the two differ: practice returns from inside the loop and leaves the percentage of the
  level before.
\<close>

lemma last_magic_level_keeps_percent:
  assumes "getReqMana (magLevel p) (p_voc p) = (cur, v1)" "getReqMana (magLevel p + 1) v1 = (nxt, v2)" "cur < nxt"
    and "spend_on_levels getReqMana v2 (magLevel p) (manaSpent p) (on_tries env SKILL_MAGLEVEL x) cur nxt [] = (v3, l, t, c, cur', nxt', ups, True)"
  shows "magLevelPercent (addManaSpent env x p) = magLevelPercent p"
  using assms by (auto simp: addManaSpent_def Let_def tell_def)

section \<open>What death takes\<close>

lemma lose_mana_spec:
  assumes "tables_ok tabs mtab v" "unat lost \<le> paid 1 mtab l spent" "lose_mana v l spent lost = (v', l', spent', lost')"
  shows "tables_ok tabs mtab v' \<and> l' \<le> l \<and> lost' \<le> spent' \<and>
    paid 1 mtab l' spent' - unat lost' = paid 1 mtab l spent - unat lost \<and> unat lost' \<le> paid 1 mtab l' spent'"
  using assms
proof (induction "unat l" arbitrary: v l spent lost rule: less_induct)
  case less
  note pre = less.prems
  show ?case
  proof (cases "lost > spent \<and> l > 0")
    case True
    obtain m v1 where r: "getReqMana l v = (m, v1)" by fastforce
    have m: "m = mtab l" "tables_ok tabs mtab v1" using mana_table.req_pair [OF pre(1) r] by simp_all
    have l0: "l \<noteq> 0" "0 < unat l" using True by (auto simp: unat_gt_0)
    have "unat (lost - spent) = unat lost - unat spent" using True unat_sub [of spent lost] by auto
    moreover have "unat spent < unat lost" using True by (simp add: word_less_nat_alt)
    moreover have p: "paid 1 mtab (l - 1) m = paid 1 mtab l 0" using paid_pred [of 1 l mtab] l0 m by simp
    moreover note paid_le [of 1 mtab l spent]
    ultimately have e: "unat (lost - spent) \<le> paid 1 mtab (l - 1) m"
        "paid 1 mtab (l - 1) m - unat (lost - spent) = paid 1 mtab l spent - unat lost"
      using pre(2) by linarith+
    have "lose_mana v l spent lost = lose_mana v1 (l - 1) m (lost - spent)" using True r by (subst lose_mana.simps) simp
    with pre(3) have c: "lose_mana v1 (l - 1) m (lost - spent) = (v', l', spent', lost')" by simp
    have u: "unat (l - 1) < unat l" using l0 by (simp add: unat_minus_one)
    have "l - 1 \<le> l" using u by (simp add: word_le_nat_alt)
    with less.hyps [OF u m(2) e(1) c] e(2) show ?thesis by auto
  next
    case False
    have "lose_mana v l spent lost = (v, l, spent, lost)" by (subst lose_mana.simps) (rule if_not_P [OF False])
    moreover have "lost \<le> spent"
    proof (cases "l = 0")
      case True
      with pre(2) show ?thesis by (simp add: paid_def word_le_nat_alt)
    qed (use False in \<open>auto simp: not_less\<close>)
    ultimately show ?thesis using pre by auto
  qed
qed

lemma lose_skill_spec:
  assumes "tables_ok tabs mtab v" "unat lost \<le> paid 11 (tabs k) l t" "unat t < 2 ^ 31" "10 \<le> unat l"
    and "lose_skill k v l t lost = (v', l', t', lost')"
  shows "tables_ok tabs mtab v' \<and> l' \<le> l \<and> 10 \<le> unat l' \<and> unat lost' \<le> unat t' \<and> unat t' < 2 ^ 31 \<and>
    paid 11 (tabs k) l' t' - unat lost' = paid 11 (tabs k) l t - unat lost"
  using assms
proof (induction "unat l" arbitrary: v l t lost rule: less_induct)
  case less
  note pre = less.prems
  have ul: "unat (ucast lost :: u64) = unat lost"
    by (simp add: unsigned_ucast_eq) (rule take_bit_nat_eq_self, rule less_trans [OF unat_less_u32], simp)
  show ?case
  proof (cases "(ucast lost :: u64) > t")
    case True
    then have gt: "unat t < unat lost" using ul by (simp add: word_less_nat_alt)
    have l10: "\<not> l \<le> 10"
    proof
      assume "l \<le> 10"
      with pre(4) have "unat l = 10" by (simp add: word_le_nat_alt)
      with pre(2) gt show False by (simp add: paid_def)
    qed
    obtain m v1 where r: "getReqSkillTries k l v = (m, v1)" by fastforce
    have m: "m = tabs k l" "tables_ok tabs mtab v1" using skill_table.req_pair [OF pre(1) r] by simp_all
    have "skill_cell_ok tabs v k l" using pre(1) by (simp add: tables_ok_def)
    then have m31: "unat m < 2 ^ 31" using m(1) by (auto simp: skill_cell_ok_def split: if_splits)
    have l0: "l \<noteq> 0" "11 \<le> unat l" using l10 by (auto simp: word_le_nat_alt)
    define lost1 where "lost1 = (ucast ((ucast lost :: u64) - t) :: u32)"
    have "unat ((ucast lost :: u64) - t) = unat lost - unat t" using True ul unat_sub [of t "ucast lost"] by auto
    then have lost1: "unat lost1 = unat lost - unat t"
      by (simp add: lost1_def unsigned_ucast_eq unsigned_take_bit_eq)
        (rule take_bit_nat_eq_self, rule le_less_trans [OF diff_le_self], simp)
    have p: "paid 11 (tabs k) (l - 1) m = paid 11 (tabs k) l 0" using paid_pred [of 11 l "tabs k"] l0 m by simp
    have e: "unat lost1 \<le> paid 11 (tabs k) (l - 1) m"
        "paid 11 (tabs k) (l - 1) m - unat lost1 = paid 11 (tabs k) l t - unat lost"
      using pre(2) paid_le [of 11 "tabs k" l t] p lost1 gt by linarith+
    have "lose_skill k v l t lost = lose_skill k v1 (l - 1) m lost1"
      using True r l10 by (subst lose_skill.simps) (simp add: lost1_def Let_def)
    with pre(5) have c: "lose_skill k v1 (l - 1) m lost1 = (v', l', t', lost')" by simp
    have u: "unat (l - 1) = unat l - 1" "unat (l - 1) < unat l" "10 \<le> unat (l - 1)" using l0 by (simp_all add: unat_minus_one)
    have "l - 1 \<le> l" using u by (simp add: word_le_nat_alt)
    with less.hyps [OF u(2) m(2) e(1) m31 u(3) c] e(2) show ?thesis by auto
  next
    case False
    then have "lose_skill k v l t lost = (v, l, t, lost)" by (subst lose_skill.simps) simp
    with pre False ul show ?thesis by (auto simp: not_less word_le_nat_alt)
  qed
qed

text \<open>What is left of a skill after death, in terms of what was paid for it.\<close>

definition share_taken :: "(u16 \<Rightarrow> u64) \<Rightarrow> (u64 \<Rightarrow> u64) \<Rightarrow> skill \<Rightarrow> skill \<Rightarrow> bool" where
  "share_taken tab portion s s' \<longleftrightarrow> skill_level s' \<le> skill_level s \<and> 10 \<le> unat (skill_level s') \<and>
     paid 11 tab (skill_level s') (tries s') =
     paid 11 tab (skill_level s) (tries s) - unat (portion (of_nat (paid 11 tab (skill_level s) (tries s))))"

definition skill_fair :: "(u16 \<Rightarrow> u64) \<Rightarrow> (u64 \<Rightarrow> u64) \<Rightarrow> skill \<Rightarrow> bool" where
  "skill_fair tab portion s \<longleftrightarrow> 10 \<le> unat (skill_level s) \<and> unat (tries s) < 2 ^ 31 \<and>
     paid 11 tab (skill_level s) (tries s) < 2 ^ 64 \<and>
     unat (portion (of_nat (paid 11 tab (skill_level s) (tries s)))) < 2 ^ 32 \<and>
     unat (portion (of_nat (paid 11 tab (skill_level s) (tries s)))) \<le> paid 11 tab (skill_level s) (tries s)"

lemma unat_ucast_down: "unat (w :: u64) < 2 ^ 32 \<Longrightarrow> unat (ucast w :: u32) = unat w"
  by (simp add: unsigned_ucast_eq take_bit_nat_eq_self)

lemma unat_ucast_up: "unat (ucast (w :: u32) :: u64) = unat w"
  by (simp add: unsigned_ucast_eq) (rule take_bit_nat_eq_self, rule less_trans [OF unat_less_u32], simp)

lemma clamp_small:
  assumes "unat (w :: u64) < 2 ^ 31"
  shows "(ucast (not_below_0 (ucast w)) :: u64) = w"
proof -
  have u: "unat (ucast w :: u32) = unat w" by (rule unat_ucast_down) (use assms in simp)
  have "uint (ucast w :: u32) = int (unat w)" by (simp only: uint_nat u)
  also have "\<dots> < 2 ^ 31" using assms by (simp only: of_nat_less_numeral_power_cancel_iff)
  finally have "uint (ucast w :: u32) < 2 ^ (LENGTH(32) - 1)" by simp
  then have "sint (ucast w :: u32) = uint (ucast w :: u32)" by (rule sint_small)
  then have "not_below_0 (ucast w) = ucast w" by (simp add: not_below_0_def)
  then show ?thesis using ucast_small [of w] assms by (auto intro: less_trans)
qed

lemma death_skill_spec:
  assumes ok: "tables_ok tabs mtab (p_voc p)" and fair: "skill_fair (tabs k) portion (skills p k)"
    and q: "q = death_skill portion k p"
  shows "tables_ok tabs mtab (p_voc q) \<and> share_taken (tabs k) portion (skills p k) (skills q k) \<and>
    (\<forall>j. j \<noteq> k \<longrightarrow> skills q j = skills p j)"
proof -
  let ?s = "skills p k"
  define P where "P = paid 11 (tabs k) (skill_level ?s) (tries ?s)"
  obtain st v1 where r: "sum_req (getReqSkillTries k) (levels_from 11 (skill_level ?s)) (p_voc p) = (st, v1)" by fastforce
  have st: "st = sum_list (map (tabs k) (levels_from 11 (skill_level ?s)))" "tables_ok tabs mtab v1"
    using skill_table.sum_req_spec [OF ok, of k "levels_from 11 (skill_level ?s)"] r by simp_all
  have fair': "unat (portion (of_nat P)) < 2 ^ 32" "unat (portion (of_nat P)) \<le> P" "P < 2 ^ 64" "10 \<le> unat (skill_level ?s)"
      "unat (tries ?s) < 2 ^ 31"
    using fair by (simp_all add: skill_fair_def P_def)
  have "unat (st + tries ?s) = P" using sum_levels [of 11 "tabs k"] fair' by (simp add: st P_def)
  then have sum: "st + tries ?s = of_nat P" by (metis of_nat_unat ucast_id)
  define lost0 where "lost0 = (ucast (portion (of_nat P)) :: u32)"
  have lost0: "unat lost0 = unat (portion (of_nat P))" unfolding lost0_def by (rule unat_ucast_down) (rule fair')
  obtain v2 l t lost where ls: "lose_skill k v1 (skill_level ?s) (tries ?s) lost0 = (v2, l, t, lost)" by (metis prod_cases4)
  have s: "tables_ok tabs mtab v2 \<and> l \<le> skill_level ?s \<and> 10 \<le> unat l \<and> unat lost \<le> unat t \<and> unat t < 2 ^ 31 \<and>
      paid 11 (tabs k) l t - unat lost = P - unat lost0"
    using lose_skill_spec [OF st(2) _ fair'(5) fair'(4) ls] fair' lost0 by (simp add: P_def)
  have d: "unat (t - ucast lost) = unat t - unat lost" using s unat_sub [of "ucast lost" t] by (simp add: unat_ucast_up word_le_nat_alt)
  then have "unat (t - ucast lost) < 2 ^ 31" using s by linarith
  then have c: "(ucast (not_below_0 (ucast (t - ucast lost))) :: u64) = t - ucast lost" by (rule clamp_small)
  obtain rq v3 where r3: "getReqSkillTries k l v2 = (rq, v3)" by fastforce
  have v3: "tables_ok tabs mtab v3" using skill_table.req_pair [of tabs mtab v2 k l rq v3] s r3 by simp
  have "p_voc q = v3" "skills q = (skills p)(k := \<lparr>tries = t - ucast lost, skill_level = l,
      skill_percent = getPercentLevel (t - ucast lost) rq\<rparr>)"
    using r sum ls r3 c by (simp_all add: q death_skill_def Let_def lost0_def)
  moreover have "paid 11 (tabs k) l (t - ucast lost) = P - unat (portion (of_nat P))"
    using s d lost0 paid_le [of 11 "tabs k" l t] paid_le [of 11 "tabs k" l "t - ucast lost"] by linarith
  ultimately show ?thesis using s v3 by (simp add: share_taken_def P_def [symmetric])
qed

lemma fold_death_skill:
  assumes "tables_ok tabs mtab (p_voc p)" "\<forall>k \<in> set ks. skill_fair (tabs k) portion (skills p k)" "distinct ks"
    and "q = fold (death_skill portion) ks p"
  shows "tables_ok tabs mtab (p_voc q) \<and> (\<forall>k \<in> set ks. share_taken (tabs k) portion (skills p k) (skills q k)) \<and>
    (\<forall>j. j \<notin> set ks \<longrightarrow> skills q j = skills p j)"
  using assms
proof (induction ks arbitrary: p)
  case (Cons k ks)
  define p1 where "p1 = death_skill portion k p"
  have s: "tables_ok tabs mtab (p_voc p1)" "share_taken (tabs k) portion (skills p k) (skills p1 k)"
      "\<forall>j. j \<noteq> k \<longrightarrow> skills p1 j = skills p j"
    using death_skill_spec [OF Cons.prems(1) _ p1_def] Cons.prems(2) by auto
  have "\<forall>j \<in> set ks. skill_fair (tabs j) portion (skills p1 j)"
    using Cons.prems s(3) by (metis distinct.simps(2) list.set_intros(2))
  with Cons.IH [OF s(1)] Cons.prems
  have "tables_ok tabs mtab (p_voc q) \<and> (\<forall>j \<in> set ks. share_taken (tabs j) portion (skills p1 j) (skills q j)) \<and>
      (\<forall>j. j \<notin> set ks \<longrightarrow> skills q j = skills p1 j)" by (simp add: p1_def)
  with s Cons.prems(3) show ?case by auto metis
qed simp

lemma death_mana_spec:
  assumes ok: "tables_ok tabs mtab (p_voc p)"
    and P: "P = paid 1 mtab (magLevel p) (manaSpent p)" "P < 2 ^ 64" "unat (portion (of_nat P)) \<le> P"
    and q: "q = death_mana portion p"
  shows "tables_ok tabs mtab (p_voc q) \<and> magLevel q \<le> magLevel p \<and> skills q = skills p \<and>
    paid 1 mtab (magLevel q) (manaSpent q) = P - unat (portion (of_nat P))"
proof -
  obtain sm v1 where r: "sum_req getReqMana (levels_from 1 (magLevel p)) (p_voc p) = (sm, v1)" by fastforce
  have sm: "sm = sum_list (map mtab (levels_from 1 (magLevel p)))" "tables_ok tabs mtab v1"
    using mana_table.sum_req_spec [OF ok, of "levels_from 1 (magLevel p)"] r by simp_all
  have "unat (sm + manaSpent p) = P" using sum_levels [of 1 mtab "magLevel p" "manaSpent p"] P by (simp add: sm)
  then have sum: "sm + manaSpent p = of_nat P" by (metis of_nat_unat ucast_id)
  obtain v2 l spent lost where ls: "lose_mana v1 (magLevel p) (manaSpent p) (portion (of_nat P)) = (v2, l, spent, lost)"
    by (metis prod_cases4)
  have s: "tables_ok tabs mtab v2 \<and> l \<le> magLevel p \<and> lost \<le> spent \<and> paid 1 mtab l spent - unat lost = P - unat (portion (of_nat P))"
    using lose_mana_spec [OF sm(2) _ ls] P by simp
  obtain nxt v3 where r3: "getReqMana (l + 1) v2 = (nxt, v3)" by fastforce
  obtain cur v4 where r4: "getReqMana l v3 = (cur, v4)" by fastforce
  have v4: "tables_ok tabs mtab v4"
    using mana_table.req_pair [of tabs mtab v2 "l + 1" nxt v3] mana_table.req_pair [of tabs mtab v3 l cur v4] s r3 r4 by simp
  have "p_voc q = v4" "magLevel q = l" "manaSpent q = spent - lost" "skills q = skills p"
    using r sum ls r3 r4 by (simp_all add: q death_mana_def Let_def)
  moreover have "unat (spent - lost) = unat spent - unat lost" using s unat_sub [of lost spent] by simp
  moreover have "unat lost \<le> unat spent" using s by (simp add: word_le_nat_alt)
  ultimately show ?thesis using s v4 paid_le [of 1 mtab l spent] paid_le [of 1 mtab l "spent - lost"] by auto
qed

lemma death_experience_rest [simp]:
  "skills (death_experience env portion p) = skills p" "magLevel (death_experience env portion p) = magLevel p"
  "manaSpent (death_experience env portion p) = manaSpent p"
proof -
  have l: "skills (lose_levels p) = skills p \<and> magLevel (lose_levels p) = magLevel p \<and> manaSpent (lose_levels p) = manaSpent p" for p
  proof (induction p rule: lose_levels.induct)
    case (1 p)
    then show ?case by (subst (1 2 3) lose_levels.simps) (auto simp: level_down_def)
  qed
  show "skills (death_experience env portion p) = skills p" "magLevel (death_experience env portion p) = magLevel p"
    "manaSpent (death_experience env portion p) = manaSpent p"
    by (simp_all add: death_experience_def Let_def l)
qed

lemma death_blessings_more [simp]:
  "skills (death_blessings new hit p) = skills p" "magLevel (death_blessings new hit p) = magLevel p"
  "manaSpent (death_blessings new hit p) = manaSpent p"
  by (simp_all add: death_blessings_def removeBlessing_def fold_keeps [where f=skills] fold_keeps [where f=magLevel]
      fold_keeps [where f=manaSpent])

lemma death_skill_more [simp]:
  "magLevel (death_skill portion k p) = magLevel p" "manaSpent (death_skill portion k p) = manaSpent p"
  by (simp_all add: death_skill_def Let_def split_beta)


section \<open>Reachable states\<close>

inductive progress_step :: "progress \<Rightarrow> progress \<Rightarrow> bool" where
  gains: "unat (experience p) + unat (on_gain_exp env x) < 2 ^ 63 \<Longrightarrow> progress_step p (addExperience env x shown p)"
| loses: "unat (on_lose_exp env x) < 2 ^ 63 \<Longrightarrow> progress_step p (removeExperience env x shown p)"
| dies: "(\<forall>e. on_lose_exp env (portion e) \<le> e) \<Longrightarrow> progress_step p (death_losses env portion new hit black p)"
| practices: "progress_step p (addSkillAdvance env k count p)"
| casts: "progress_step p (addManaSpent env mana p)"
| trains: "progress_step p (snd (addOfflineTrainingTries env k count p))"

definition loaded :: "progress \<Rightarrow> bool" where
  "loaded p \<longleftrightarrow> (\<exists>l x p0. unat l \<le> 717217 \<and> unat x < 2 ^ 63 \<and> p = load_level l x p0)"

definition progress_inv :: "progress \<Rightarrow> bool" where
  "progress_inv p \<longleftrightarrow> progress_ok p \<and> unat (experience p) < 2 ^ 63"

lemma same_inv:
  "progress_inv p \<Longrightarrow> plevel q = plevel p \<Longrightarrow> experience q = experience p \<Longrightarrow> levelPercent q = levelPercent p \<Longrightarrow> progress_inv q"
  using progress_ok_same [of q p] by (simp add: progress_inv_def)

lemma practice_rest [simp]:
  "plevel (addSkillAdvance env k count p) = plevel p" "experience (addSkillAdvance env k count p) = experience p"
  "levelPercent (addSkillAdvance env k count p) = levelPercent p"
  by (simp_all add: addSkillAdvance_def Let_def split_beta)

lemma casting_rest [simp]:
  "plevel (addManaSpent env x p) = plevel p" "experience (addManaSpent env x p) = experience p"
  "levelPercent (addManaSpent env x p) = levelPercent p"
  by (simp_all add: addManaSpent_def Let_def split_beta)

lemma train_magic_rest:
  "plevel (snd (train_magic env count p)) = plevel p \<and> experience (snd (train_magic env count p)) = experience p \<and>
     levelPercent (snd (train_magic env count p)) = levelPercent p"
proof -
  obtain cur v1 where r1: "getReqMana (magLevel p) (p_voc p) = (cur, v1)" by fastforce
  obtain nxt v2 where r2: "getReqMana (magLevel p + 1) v1 = (nxt, v2)" by fastforce
  obtain v3 l t c cur' nxt' ups maxed where
    "spend_on_levels getReqMana v2 (magLevel p) (manaSpent p) (on_tries env SKILL_MAGLEVEL count) cur nxt [] = (v3, l, t, c, cur', nxt', ups, maxed)"
    by (metis prod_cases7)
  with r1 r2 show ?thesis by (simp add: train_magic_def Let_def)
qed

lemma train_skill_rest:
  "plevel (snd (train_skill env k count p)) = plevel p \<and> experience (snd (train_skill env k count p)) = experience p \<and>
     levelPercent (snd (train_skill env k count p)) = levelPercent p"
proof -
  obtain cur v1 where r1: "getReqSkillTries k (skill_level (skills p k)) (p_voc p) = (cur, v1)" by fastforce
  obtain nxt v2 where r2: "getReqSkillTries k (skill_level (skills p k) + 1) v1 = (nxt, v2)" by fastforce
  obtain v3 l t c cur' nxt' ups maxed where
    "spend_on_levels (getReqSkillTries k) v2 (skill_level (skills p k)) (tries (skills p k)) (on_tries env k count) cur nxt [] =
      (v3, l, t, c, cur', nxt', ups, maxed)"
    by (metis prod_cases7)
  with r1 r2 show ?thesis by (simp add: train_skill_def Let_def)
qed

lemma training_rest [simp]:
  "plevel (snd (addOfflineTrainingTries env k count p)) = plevel p"
  "experience (snd (addOfflineTrainingTries env k count p)) = experience p"
  "levelPercent (snd (addOfflineTrainingTries env k count p)) = levelPercent p"
  by (simp_all add: addOfflineTrainingTries_def train_magic_rest train_skill_rest)

lemma fold_death_skill_rest [simp]:
  "plevel (fold (death_skill portion) ks p) = plevel p" "experience (fold (death_skill portion) ks p) = experience p"
  "levelPercent (fold (death_skill portion) ks p) = levelPercent p"
  by (simp_all add: fold_keeps [where f=plevel] fold_keeps [where f=experience] fold_keeps [where f=levelPercent])

lemma loaded_inv: "loaded p \<Longrightarrow> progress_inv p"
proof -
  assume "loaded p"
  then obtain l x p0 where l: "unat l \<le> 717217" and x: "unat x < 2 ^ 63" and p: "p = load_level l x p0" by (auto simp: loaded_def)
  have b: "1 \<le> unat (max 1 l)" "unat (max 1 l) \<le> 717217" using l by (auto simp: max_def word_le_nat_alt)
  have e: "unat (getExpForLevel (max 1 l)) = exp_sum (unat (max 1 l) - 1)" by (rule exp_at [OF b])
  have n: "unat (max 1 l) < 717217 \<Longrightarrow> unat (getExpForLevel (max 1 l + 1)) = exp_sum (unat (max 1 l))" by (rule exp_at_Suc)
  have less: "exp_sum (unat (max 1 l) - 1) \<le> exp_sum (unat (max 1 l))"
    using exp_sum_less [of "unat (max 1 l) - 1" "unat (max 1 l)"] b by simp
  have "3 * exp_sum (unat (max 1 l) - 1) < 2 ^ 64" using exp_sum_bound [of "unat (max 1 l) - 1"] b by simp
  then have "exp_sum (unat (max 1 l) - 1) < 2 ^ 63" by simp
  with b e n less x show "progress_inv p"
    by (auto simp: p load_level_def Let_def progress_inv_def progress_ok_def level_fits_def percent_of_def percent_between_def
        not_less word_le_nat_alt)
qed

lemma progress_inv_step: "progress_inv p \<Longrightarrow> progress_step p q \<Longrightarrow> progress_inv q"
proof (erule progress_step.cases, goal_cases)
  case (1 p' env x shown)
  note inv = 1(1) and q = 1(3)
  have p: "p' = p" using 1 by simp
  have f: "level_fits p" using inv by (simp add: progress_inv_def progress_ok_def)
  show ?case
  proof (cases "unat (plevel p) < 717217")
    case False
    then have "unat (plevel p) = 717217" using f by (simp add: level_fits_def)
    then have "getExpForLevel (plevel p + 1) \<le> getExpForLevel (plevel p)" using top_level_done [of p] f by (simp add: level_fits_def)
    then have "q = tell [Send_Stats] (p\<lparr>levelPercent := 0\<rparr>)" "percent_of p = 0"
      using q p by (simp_all add: addExperience_def Let_def percent_of_def percent_between_def not_less [symmetric])
    with inv show ?thesis by (simp add: progress_inv_def progress_ok_def level_fits_def percent_of_def)
  next
    case low: True
    show ?thesis
    proof (cases "on_gain_exp env x = 0")
      case True
      have "q = p" using True q p low top_level_done [of p] f by (simp add: addExperience_def Let_def level_fits_def)
      with inv show ?thesis by simp
    next
      case False
      have "unat (experience p) + unat (on_gain_exp env x) < 2 ^ 64" using 1(4) p by simp
      moreover have "unat (experience p + on_gain_exp env x) = unat (experience p) + unat (on_gain_exp env x)"
        using 1(4) p by (intro unat_plus_nowrap) simp
      ultimately show ?thesis
        using addExperience_spec [OF f low False _ refl, of shown] q p 1(4) snug_level_fits [of q]
        by (simp add: progress_inv_def progress_ok_def)
    qed
  qed
next
  case (2 env x p' shown)
  note inv = 2(1) and q = 2(3)
  have p: "p' = p" using 2 by simp
  have f: "level_fits p" using inv by (simp add: progress_inv_def progress_ok_def)
  show ?case
  proof (cases "experience p = 0 \<or> x = 0 \<or> on_lose_exp env x = 0")
    case True
    then have "q = p" using q p by (auto simp: removeExperience_def Let_def)
    with inv show ?thesis by simp
  next
    case False
    then show ?thesis
      using removeExperience_spec [OF f _ _ _ _ 2(4) refl, of shown] q p inv snug_level_fits [of q]
      by (auto simp: progress_inv_def progress_ok_def intro: le_less_trans [OF diff_le_self])
  qed
next
  case (3 env portion p' new hit black)
  note inv = 3(1) and q = 3(3)
  have p: "p' = p" using 3 by simp
  define p2 where "p2 = fold (death_skill portion) [0..<Suc SKILL_LAST] (death_mana portion p)"
  have p2: "plevel p2 = plevel p" "experience p2 = experience p" "levelPercent p2 = levelPercent p" by (simp_all add: p2_def)
  have "progress_ok p2" using inv progress_ok_same [OF p2] by (simp add: progress_inv_def)
  then have d: "progress_ok (death_experience env portion p2)" "experience (death_experience env portion p2) \<le> experience p2"
    using 3(4) by (auto intro: death_experience_ok)
  have qd: "plevel q = plevel (death_experience env portion p2)" "experience q = experience (death_experience env portion p2)"
    "levelPercent q = levelPercent (death_experience env portion p2)"
    by (simp_all add: q p death_losses_def Let_def p2_def)
  have "unat (experience q) \<le> unat (experience p)" using d(2) qd(2) p2(2) by (simp add: word_le_nat_alt)
  with progress_ok_same [OF qd] d(1) inv show ?case by (simp add: progress_inv_def)
qed (auto intro: same_inv)

interpretation progress_sys: invariant_system loaded progress_step progress_inv
  by unfold_locales (blast intro: loaded_inv progress_inv_step)+

lemma percent_exact:
  assumes "cur < nxt" "cur \<le> x" "x \<le> nxt" "unat nxt - unat cur < 2 ^ 56"
  shows "unat (percent_between x cur nxt) = (unat x - unat cur) * 100 div (unat nxt - unat cur)"
proof -
  let ?a = "unat x - unat cur" and ?b = "unat nxt - unat cur"
  have a: "unat (x - cur) = ?a" and b: "unat (nxt - cur) = ?b" using assms unat_sub [of cur x] unat_sub [of cur nxt] by auto
  have ab: "?a \<le> ?b" "0 < ?b" using assms by (auto simp: word_le_nat_alt word_less_nat_alt)
  then have "?a < 2 ^ 56" using assms(4) by linarith
  then have "?a * 100 < 2 ^ 64" by simp
  then have m: "unat ((x - cur) * 100) = ?a * 100" by (simp only: unat_word_ariths a) simp
  have "?a * 100 \<le> 100 * ?b" using ab by simp
  then have le: "?a * 100 div ?b \<le> 100" using ab by (metis div_le_mono nonzero_mult_div_cancel_right not_less_zero)
  define w where "w = (x - cur) * 100 div (nxt - cur)"
  have q: "unat w = ?a * 100 div ?b" by (simp only: w_def unat_div m b)
  have u: "unat (ucast w :: u8) = ?a * 100 div ?b"
    using le by (simp add: unsigned_ucast_eq q take_bit_nat_eq_self)
  have "nxt - cur \<noteq> 0" using assms(1) by auto
  then have "percent_between x cur nxt = (if (ucast w :: u8) > 100 then 0 else ucast w)"
    using assms(1) by (simp only: percent_between_def getPercentLevel_def Let_def w_def if_True if_False)
  then show ?thesis using u le by (simp add: word_less_nat_alt)
qed

lemma exp_gap: "l < 717217 \<Longrightarrow> 1 \<le> l \<Longrightarrow> exp_sum l - exp_sum (l - 1) < 2 ^ 56"
proof -
  assume l: "l < 717217" "1 \<le> l"
  then obtain n where n: "l = Suc n" "n < 717216" by (cases l) auto
  then have "n * n \<le> 717216 * 717216" by (intro mult_le_mono) auto
  then have "50 * n * n + 100 - 50 * n < 2 ^ 56" by simp
  with n show ?thesis by simp
qed

text \<open>
C23.
  The table of levels. Up to level 717217 the experience a level needs is exactly the sum of the costs of the
  levels below it, 50 n n - 50 n + 100 for the step after n others, although it is computed by a
  polynomial in wrapping 64-bit arithmetic; every entry is higher than the one before. At the next level the arithmetic
  wraps around and the entry drops, which the code takes for the end of the table.
\<close>

theorem experience_table:
  assumes "n \<le> 717216"
  shows "unat (getExpForLevel (of_nat (Suc n))) = (\<Sum>i<n. 50 * i * i + 100 - 50 * i) \<and>
    (n < 717216 \<longrightarrow> getExpForLevel (of_nat (Suc n)) < getExpForLevel (of_nat (Suc (Suc n)))) \<and>
    getExpForLevel 717218 < getExpForLevel 717217"
proof -
  have s: "exp_sum n = (\<Sum>i<n. 50 * i * i + 100 - 50 * i)" for n by (induction n) simp_all
  have "(2692808812494 :: nat) < exp_sum 717216" using exp_sum_closed [of 717216] by simp
  then have "getExpForLevel 717218 < getExpForLevel 717217"
    using getExpForLevel_top getExpForLevel_exact [of 717216] by (simp add: word_less_nat_alt)
  moreover have "getExpForLevel (of_nat (Suc n)) < getExpForLevel (of_nat (Suc (Suc n)))" if "n < 717216"
    unfolding word_less_nat_alt using getExpForLevel_exact [of n] getExpForLevel_exact [of "Suc n"] that exp_sum_step [of n]
    by (simp del: of_nat_Suc)
  ultimately show ?thesis using getExpForLevel_exact [OF assms] s by simp
qed

theorem experience_table_witness: "unat (getExpForLevel 8) = 4200 \<and> getExpForLevel 717218 < getExpForLevel 717217"
  using experience_table [of 7] by (simp add: lessThan_nat_numeral)

text \<open>
C10.
  A player's level is the one its experience pays for. Whatever a player gains, loses, learns and suffers after it
  was loaded, its level stays between 1 and 717217, its experience lies between what this level needs and what the
  next one needs, and the percentage shown is the part of the way between the two, without any overflow.
\<close>

theorem level_follows_experience:
  assumes "reach loaded progress_step p" and "l = unat (plevel p)"
  shows "1 \<le> l \<and> l \<le> 717217 \<and> exp_sum (l - 1) \<le> unat (experience p) \<and>
    (l < 717217 \<longrightarrow> unat (experience p) \<le> exp_sum l \<and>
       unat (levelPercent p) = (unat (experience p) - exp_sum (l - 1)) * 100 div (exp_sum l - exp_sum (l - 1))) \<and>
    (l = 717217 \<longrightarrow> levelPercent p = 0)"
proof -
  have inv: "progress_inv p" by (rule progress_sys.reach_inv [OF assms(1)])
  then have f: "1 \<le> l" "l \<le> 717217" "exp_sum (l - 1) \<le> unat (experience p)" "l < 717217 \<longrightarrow> unat (experience p) \<le> exp_sum l"
    and pc: "levelPercent p = percent_of p"
    by (simp_all add: progress_inv_def progress_ok_def level_fits_def assms(2))
  have e: "unat (getExpForLevel (plevel p)) = exp_sum (l - 1)" using exp_at [of "plevel p"] f by (simp add: assms(2))
  have "unat (levelPercent p) = (unat (experience p) - exp_sum (l - 1)) * 100 div (exp_sum l - exp_sum (l - 1))" if "l < 717217"
  proof -
    have n: "unat (getExpForLevel (plevel p + 1)) = exp_sum l" using exp_at_Suc [of "plevel p"] that by (simp add: assms(2))
    have "exp_sum (l - 1) < exp_sum l" using exp_sum_less [of "l - 1" l] f(1) by simp
    then show ?thesis
      using percent_exact [of "getExpForLevel (plevel p)" "getExpForLevel (plevel p + 1)" "experience p"] f that exp_gap [OF that f(1)]
      by (simp add: pc percent_of_def e n word_le_nat_alt word_less_nat_alt)
  qed
  moreover have "levelPercent p = 0" if "l = 717217"
    using top_level_done [of p] that f by (simp add: pc percent_of_def percent_between_def assms(2) not_less [symmetric])
  ultimately show ?thesis using f by blast
qed


subsection \<open>A player\<close>

definition demo_tabs :: "nat \<Rightarrow> u16 \<Rightarrow> u64" where
  "demo_tabs k l = (if k \<le> SKILL_LAST then ucast (skillBase ! k) * ucast l else 0)"

definition demo_vocation :: vocation where
  "demo_vocation = \<lparr>voc_id = 4, voc_name = ''Knight'', skill_power = (\<lambda>b k l. ucast b * ucast l), mana_power = (\<lambda>l. 1600),
     cacheMana = (\<lambda>_. None), cacheSkill = (\<lambda>_ _. None), gainHP = 15, gainMana = 5, gainCap = 2500, fromVocation = 0\<rparr>"

definition demo_hero :: progress where
  "demo_hero = \<lparr>p_voc = demo_vocation, plevel = 1, experience = 0, levelPercent = 0, phealth = 150, phealthMax = 150, pmana = 0,
     pmanaMax = 0, capacity = 40000, magLevel = 1, manaSpent = 1500, magLevelPercent = 93,
     skills = (\<lambda>_. \<lparr>tries = 0, skill_level = 10, skill_percent = 0\<rparr>), blessings = (\<lambda>_. 0), in_party = False,
     not_gain_mana = False, progress_events = []\<rparr>"

definition plain_env :: progress_env where
  "plain_env = \<lparr>on_tries = (\<lambda>_ x. x), on_gain_exp = (\<lambda>x. x), on_lose_exp = (\<lambda>x. x)\<rparr>"

lemma skillBase_small: "k \<le> SKILL_LAST \<Longrightarrow> unat (skillBase ! k) \<le> 100"
proof -
  assume "k \<le> SKILL_LAST"
  then have "skillBase ! k \<in> set skillBase" by (intro nth_mem) (simp add: skillBase_def)
  moreover have "list_all (\<lambda>b. unat b \<le> 100) skillBase" by (simp add: skillBase_def)
  ultimately show ?thesis by (simp add: list_all_iff)
qed

lemma unat_le_u16: "unat (l :: u16) \<le> 65535"
  using unat_less_u16 [of l] by linarith

lemma demo_tabs_unat: "k \<le> SKILL_LAST \<Longrightarrow> unat (demo_tabs k l) = unat (skillBase ! k) * unat l"
proof -
  assume k: "k \<le> SKILL_LAST"
  have "unat (skillBase ! k) * unat l \<le> 100 * 65535" by (intro mult_le_mono skillBase_small [OF k] unat_le_u16)
  moreover have "unat (ucast l :: u64) = unat l"
    by (simp add: unsigned_ucast_eq) (rule take_bit_nat_eq_self, rule less_trans [OF unat_less_u16], simp)
  ultimately show ?thesis using k by (simp only: demo_tabs_def unat_word_ariths unat_ucast_up if_True) simp
qed

lemma demo_tables: "tables_ok demo_tabs (\<lambda>_. 1600) demo_vocation"
proof -
  have "unat (demo_tabs k l) < 2 ^ 31" if "k \<le> SKILL_LAST" for k l
  proof -
    have "unat (skillBase ! k) * unat l \<le> 100 * 65535" by (intro mult_le_mono skillBase_small [OF that] unat_le_u16)
    then show ?thesis using demo_tabs_unat [OF that, of l] by simp
  qed
  then show ?thesis
    by (auto simp: tables_ok_def skill_cell_ok_def mana_cell_ok_def demo_vocation_def rounded_mana_def demo_tabs_def)
qed

lemma demo_rising: "k \<le> SKILL_LAST \<Longrightarrow> rising (demo_tabs k)"
  by (simp add: rising_def word_le_nat_alt demo_tabs_unat)


theorem level_follows_experience_witness:
  "reach loaded progress_step (addExperience plain_env 5000 False (load_level 1 0 demo_hero)) \<and>
   unat (plevel (addExperience plain_env 5000 False (load_level 1 0 demo_hero))) \<le> 717217"
proof -
  let ?p = "load_level 1 0 demo_hero"
  have "getExpForLevel 1 = 0" by (simp add: getExpForLevel_def)
  then have e: "experience ?p = 0" by (simp add: load_level_def Let_def)
  have "loaded ?p" unfolding loaded_def by (intro exI [of _ 1] exI [of _ 0] exI [of _ demo_hero]) simp
  then have r: "reach loaded progress_step ?p" by (rule reach_init)
  have "progress_step ?p (addExperience plain_env 5000 False ?p)" by (rule gains) (simp add: e plain_env_def)
  with r have "reach loaded progress_step (addExperience plain_env 5000 False ?p)" by (rule reach_step)
  with level_follows_experience [OF this refl] show ?thesis by simp
qed


end
