(* ===== verification/Spec2Isabelle.thy ===== *)
theory Spec2Isabelle
  imports Wildcard_Tree Connection_Ban Wait_List Task_Dispatch Otb_Loader Xtea_Protocol Sha1_Token Condition_Effects Path_Finding Spectators Houses Container_Weights Tile_Order Party_Rosters Chat_Channels Player_Progress
begin

text \<open>
  A verification library of the Tib game server (\<open>src/src\<close>), a C++ server for a tile-based
  multi-player game.

  \<^bold>\<open>The program.\<close> Clients connect over TCP; the connection limiter, the ban list and the waiting queue
  decide who is let in. Messages are decrypted, decoded and turned into tasks of one dispatcher thread, which
  together with a scheduler of timed events runs the whole game. The game moves things between cylinders: the
  tiles of the map, containers and the inventories of players. Creatures stand on tiles, are found by queries
  for spectators, walk along paths found by a search and carry conditions that act on them as time passes.
  Houses own tiles, beds and doors and let players in by access lists. Maps, items and players are read from
  and written to node trees and property streams.

  \<^bold>\<open>How the theories follow the code.\<close> Each theory keeps the names of the functions it models. State is a
  record passed through and returned; what a function reports to clients or scripts is a list of events in the
  state. Machine integers are words of their width, except indices into lists, which are natural numbers.
  Pointers are addresses in a store (items, containers), identifiers (creatures, players, houses, parties)
  or indices (nodes of a search). A theory takes what is outside of it, such as the clock, the database, the
  scripts or the item table, as parameters.

  \<^item> \<open>Tfs_Prelude\<close>: widths of integers, lists, reachable states and invariants.
  \<^item> \<open>Text_Tools\<close> (tools.cpp), \<open>Sha1_Token\<close> (tools.cpp): strings, the password hash and the login token;
    the hash is compared with the standard's definition, the token with the standard's HOTP.
  \<^item> \<open>Positions\<close> (position.h, tools.cpp): coordinates, distances, directions.
  \<^item> \<open>Wildcard_Tree\<close> (wildcardtree.cpp, game.cpp): the prefix tree behind names typed with a wildcard and
    the three maps of players online; the answer of a wildcard query is characterised by the set of names.
  \<^item> \<open>Connection_Ban\<close> (ban.cpp), \<open>Wait_List\<close> (waitlist.cpp): who is let in, with a refinement of the queue
    to a list of clients.
  \<^item> \<open>Task_Dispatch\<close> (tasks.cpp, scheduler.cpp): the task list, timed events, their cancellation and the
    shutdown as steps of a transition relation.
  \<^item> \<open>Prop_Stream\<close>, \<open>Otb_Loader\<close> (fileloader.h, fileloader.cpp): byte streams and node trees, with round trips.
  \<^item> \<open>Network_Message\<close>, \<open>Xtea_Protocol\<close> (networkmessage.cpp, outputmessage.cpp, protocol.cpp): the message
    buffer, its headers and checksum, padding and encryption, with the round trip from sender to receiver.
  \<^item> \<open>Conditions\<close>, \<open>Condition_Effects\<close> (condition.cpp): what a condition does to a creature from its start to
    its end, how conditions of one kind combine, and their serialisation.
  \<^item> \<open>Sight_Line\<close>, \<open>Path_Finding\<close>, \<open>Quad_Tree\<close>, \<open>Spectators\<close> (map.cpp, map.h): lines of sight, the search for
    a path, the tree of tiles and the queries for the creatures around a position, each compared with what it
    computes.
  \<^item> \<open>Access_List\<close>, \<open>Houses\<close> (house.cpp, bed.cpp): access lists, doors, owners, rent.
  \<^item> \<open>Item_Attributes\<close>, \<open>Item_Serialization\<close> (item.cpp): attributes of items and how items are stored.
  \<^item> \<open>Containers\<close>, \<open>Container_Weights\<close> (container.cpp, depotchest.cpp, depotlocker.cpp): containers as objects of
    a store that point to each other; every operation keeps both directions of the holding and the weights.
  \<^item> \<open>Tiles\<close>, \<open>Tile_Order\<close> (tile.cpp): the things on a tile, its flags, and the queries before a move.
  \<^item> \<open>Parties\<close>, \<open>Party_Rosters\<close> (party.cpp, with parts of game.cpp and player.cpp): parties, invitations and
    shared experience; an operation on a deleted party or player has no result, and an abstract roster shows
    that this never happens.
  \<^item> \<open>Chat_Channels\<close> (chat.cpp, with parts of game.cpp and player.cpp): channels, their users and invitations as
    a step relation over the players in the game; who hears what is said in a private channel.
  \<^item> \<open>Player_Progress\<close> (player.cpp, vocation.cpp, iologindata.cpp): experience and levels, skills and the magic
    level. The table of levels is compared with the sum of the costs of the levels; the loops that spend a gain on
    levels, shared by skills and magic level, are proved once for any table.

  \<^bold>\<open>How the parts are put together.\<close> \<open>Item_Serialization\<close> rests on \<open>Prop_Stream\<close>; \<open>Containers\<close> holds items of
  \<open>Item_Serialization\<close>; \<open>Tiles\<close> holds the same store. \<open>Houses\<close> uses \<open>Access_List\<close>. \<open>Path_Finding\<close> and
  \<open>Spectators\<close> rest on \<open>Positions\<close> and \<open>Quad_Tree\<close>. \<open>Condition_Effects\<close> acts on the records of \<open>Conditions\<close>.
  The protocol layers of \<open>Xtea_Protocol\<close> carry the messages of \<open>Network_Message\<close>. The interfaces between a
  client of a contract and its provider are locales, each interpreted on the code's model in the theory that
  provides it.

  \<^bold>\<open>Kinds of statements.\<close> Invariants are proved for every state reachable by the operations of a component
  (\<open>tile_reach\<close>, \<open>chat_step\<close>, the reachable states of the dispatcher and of the register of creatures). Queries are compared
  with a set or list that says what they should return. Loops that walk through pointers, which may form a
  cycle, are \<open>partial_function (option)\<close>: the value \<open>None\<close> is a loop that does not return, and that the loops
  return is a theorem under the invariant of the store. The search for a path has at most \<open>MAX_NODES\<close> (512)
  nodes and closes one in each round, so \<open>SEARCH_ROUNDS\<close> (513) rounds always suffice, which is proved; the fuel
  of the ray of sight is the number of its steps.

  \<^bold>\<open>Not modelled.\<close> The script interface and everything that is a script (dialogues, spells' effects, actions),
  database access, sockets, threads and locks below the task list, the layout of the game protocol's packets,
  the editor's map format, and formulas in floating point (damage lists, level curves). The manifest says for each
  component which of its operations are left out: of tiles the ones that concern browsed fields, of containers
  the classes that override the queries, of houses the storage.
\<close>

end
